(* ===== verification/Prelude.thy ===== *)
theory Prelude
  imports Complex_Main "HOL-Library.Word" "HOL-Library.AList"
begin

text \<open>
  What every component of the development shares.

  \<^item> Time. A \<open>time.Time\<close> is read as an \<open>int\<close>, nanoseconds since the Unix epoch, and a
    \<open>time.Duration\<close> as an \<open>int\<close> of nanoseconds; the zero \<open>time.Time\<close> of a field the code
    tests with \<open>IsZero\<close> is \<open>None\<close>. An operation reads the clock once: the instant is its
    argument \<open>now\<close>.
  \<^item> Numbers. A \<open>float64\<close> is read as an exact \<open>rat\<close> (no rounding, no infinities). Go's
    \<open>int\<close> and \<open>int64\<close> counters, limits and thresholds are \<open>int\<close>; the \<open>uint64\<close> counters
    whose wrap-around is visible (the strategy counters, the hashes, the version numbers)
    are \<open>64 word\<close>.
  \<^item> Go maps that are iterated are association lists with distinct keys, whose order stands
    for the arbitrary iteration order; a run-time panic is the value \<open>None\<close> of an
    \<open>option\<close> result.
\<close>

type_synonym instant = int
type_synonym duration = int
type_synonym go_string = string
type_synonym uint64 = "64 word"

text \<open>Collections: \<open>frame\<close> holds what an operation leaves unchanged, \<open>inv_intros\<close> the
  preservation facts of the components' invariants.\<close>

named_theorems frame \<open>fields an operation does not write\<close>
named_theorems inv_intros \<open>preservation of the component invariants\<close>

definition nanosecond :: duration where "nanosecond = 1"
definition millisecond :: duration where "millisecond = 1000000"
definition second :: duration where "second = 1000000000"

text \<open>\<open>time.Duration.Seconds\<close>.\<close>

definition seconds :: "duration \<Rightarrow> rat" where
  "seconds d = of_int d / 1000000000"

text \<open>Go's conversion of a float to an \<open>int\<close> drops the fraction (truncates towards zero).\<close>

definition trunc :: "rat \<Rightarrow> int" where
  "trunc x = (if 0 \<le> x then \<lfloor>x\<rfloor> else \<lceil>x\<rceil>)"

text \<open>Integer division of Go truncates towards zero, unlike \<open>div\<close>.\<close>

definition go_div :: "int \<Rightarrow> int \<Rightarrow> int" where
  "go_div a b = sgn a * sgn b * (\<bar>a\<bar> div \<bar>b\<bar>)"

text \<open>Writing an element of a slice or reading one panics out of range.\<close>

definition slice_get :: "'a list \<Rightarrow> nat \<Rightarrow> 'a option" where
  "slice_get xs i = (if i < length xs then Some (xs ! i) else None)"

definition slice_set :: "'a list \<Rightarrow> nat \<Rightarrow> 'a \<Rightarrow> 'a list option" where
  "slice_set xs i v = (if i < length xs then Some (xs[i := v]) else None)"

text \<open>The elements of a list that a predicate keeps, with the first one.\<close>

fun first_match :: "('a \<Rightarrow> bool) \<Rightarrow> 'a list \<Rightarrow> 'a option" where
  "first_match P [] = None"
| "first_match P (x # xs) = (if P x then Some x else first_match P xs)"

section \<open>Time and arithmetic\<close>

lemma seconds_0 [simp]: "seconds 0 = 0"
  by (simp add: seconds_def)

lemma seconds_add: "seconds (a + b) = seconds a + seconds b"
  by (simp add: seconds_def add_divide_distrib)

lemma seconds_diff: "seconds (a - b) = seconds a - seconds b"
  by (simp add: seconds_def diff_divide_distrib)

lemma seconds_nonneg [simp]: "0 \<le> seconds d \<longleftrightarrow> 0 \<le> d"
  by (simp add: seconds_def zero_le_divide_iff)

lemma seconds_le_0 [simp]: "seconds d \<le> 0 \<longleftrightarrow> d \<le> 0"
  by (simp add: seconds_def divide_le_0_iff)

lemma seconds_pos [simp]: "0 < seconds d \<longleftrightarrow> 0 < d"
  by (simp add: seconds_def zero_less_divide_iff)

lemma trunc_nonneg: "0 \<le> x \<Longrightarrow> 0 \<le> trunc x"
  by (simp add: trunc_def)

lemma trunc_le: "0 \<le> x \<Longrightarrow> x \<le> of_int n \<Longrightarrow> trunc x \<le> n"
  by (simp add: trunc_def) linarith

lemma trunc_mono: "0 \<le> x \<Longrightarrow> x \<le> y \<Longrightarrow> trunc x \<le> trunc y"
  by (simp add: trunc_def floor_mono)

lemma go_div_nonneg: "0 \<le> a \<Longrightarrow> 0 < b \<Longrightarrow> go_div a b = a div b"
  by (cases "a = 0") (auto simp: go_div_def sgn_if)

section \<open>Slices and first matches\<close>

lemma slice_get_Some [simp]: "slice_get xs i = Some x \<longleftrightarrow> i < length xs \<and> xs ! i = x"
  by (auto simp: slice_get_def)

lemma slice_set_Some [simp]: "slice_set xs i v = Some ys \<longleftrightarrow> i < length xs \<and> ys = xs[i := v]"
  by (auto simp: slice_set_def)

lemma first_match_None [simp]: "first_match P xs = None \<longleftrightarrow> (\<forall>x \<in> set xs. \<not> P x)"
  by (induction xs) auto

lemma first_match_SomeD: "first_match P xs = Some x \<Longrightarrow> x \<in> set xs \<and> P x"
  by (induction xs) (auto split: if_splits)

lemma first_match_split:
  "first_match P xs = Some x \<Longrightarrow>
   \<exists>us vs. xs = us @ x # vs \<and> P x \<and> (\<forall>u \<in> set us. \<not> P u)"
proof (induction xs)
  case Nil
  then show ?case by simp
next
  case (Cons y ys)
  show ?case
  proof (cases "P y")
    case True
    with Cons.prems show ?thesis by (intro exI [of _ "[]"] exI [of _ ys]) auto
  next
    case False
    with Cons obtain us vs where "ys = us @ x # vs" "P x" "\<forall>u \<in> set us. \<not> P u" by auto
    with False show ?thesis by (intro exI [of _ "y # us"] exI [of _ vs]) auto
  qed
qed

lemma first_match_append:
  "first_match P (xs @ ys) =
   (case first_match P xs of None \<Rightarrow> first_match P ys | Some x \<Rightarrow> Some x)"
  by (induction xs) auto

lemma first_match_exists: "x \<in> set xs \<Longrightarrow> P x \<Longrightarrow> \<exists>y. first_match P xs = Some y"
  by (induction xs) auto

section \<open>Association lists with distinct keys\<close>

abbreviation keys :: "('k \<times> 'v) list \<Rightarrow> 'k list" where
  "keys al \<equiv> map fst al"

lemma length_AList_update:
  "length (AList.update k v al) = (if k \<in> set (keys al) then length al else Suc (length al))"
  by (induction al) auto

lemma length_AList_delete:
  "distinct (keys al) \<Longrightarrow>
   length (AList.delete k al) = (if k \<in> set (keys al) then length al - 1 else length al)"
proof (induction al)
  case Nil
  then show ?case by (simp add: AList.delete_eq)
next
  case (Cons p al)
  then have "k \<in> set (keys al) \<Longrightarrow> al \<noteq> []" by auto
  with Cons show ?case
    by (cases "fst p = k") (auto simp: AList.delete_eq split_def image_iff split: if_splits)
qed

lemma keys_AList_delete: "fst ` set (AList.delete k al) = fst ` set al - {k}"
  by (auto simp: AList.delete_eq)

lemma keys_AList_update: "fst ` set (AList.update k v al) = insert k (fst ` set al)"
  by (induction al) auto

lemma map_of_AList_update: "map_of (AList.update k v al) = (map_of al)(k \<mapsto> v)"
  by (rule AList.update_conv')

lemma map_of_AList_delete: "map_of (AList.delete k al) = (map_of al)(k := None)"
  by (rule AList.delete_conv')

lemma map_of_None_keys: "map_of al k = None \<longleftrightarrow> k \<notin> fst ` set al"
  by (simp add: map_of_eq_None_iff)

lemmas alist_simps = length_AList_update length_AList_delete keys_AList_delete
  keys_AList_update map_of_AList_update map_of_AList_delete map_of_None_keys

text \<open>How many elements of a list have a property, after one element is replaced.\<close>

lemma filter_update_length:
  "i < length xs \<Longrightarrow> int (length (filter P (xs[i := y]))) =
     int (length (filter P xs)) - of_bool (P (xs ! i)) + of_bool (P y)"
proof (induction xs arbitrary: i)
  case (Cons x xs)
  show ?case
  proof (cases i)
    case (Suc j)
    with Cons.prems Cons.IH [of j] show ?thesis by simp
  qed simp
qed simp

end
