(* ===== verification/Snapshot_Refs.thy ===== *)
theory Snapshot_Refs
  imports Prelude
begin

text \<open>
  The reference count of a snapshot under concurrency (\<open>acquire\<close>, \<open>release\<close>, \<open>retire\<close> and \<open>close\<close> of
  \<open>internal/gateway/runtime.go\<close>, called by \<open>acquireSnapshot\<close>, \<open>ServeHTTP\<close> and \<open>applyLocked\<close> of
  \<open>internal/gateway/engine.go\<close>). Here every atomic operation of the code is a step of its own: any
  number of request goroutines and the goroutine that replaces the snapshot interleave freely.
\<close>

text \<open>Where a request goroutine is: before loading \<open>engine.current\<close>; with the pointer, before
  \<open>refs.Add(1)\<close>; before loading \<open>retired\<close>; serving the request; before \<open>refs.Add(-1)\<close>; in \<open>release\<close> with
  the count at zero, before loading \<open>retired\<close>; before \<open>close\<close>.\<close>

datatype request_pc = Idle | Loaded | Added | Holding | Releasing | RelZero | Closing

text \<open>Where the replacing goroutine is: before swapping \<open>engine.current\<close>; before storing \<open>retired\<close>; before
  loading \<open>refs\<close>; before \<open>close\<close>; done.\<close>

datatype retire_pc = Serving | Swapped | Marked | RetireClosing | Retired

record snapshot_refs =
  sr_refs :: int
  sr_retired :: bool
  sr_closed :: bool
  sr_published :: bool
  sr_requests :: "request_pc list"
  sr_retire :: retire_pc

definition refs_init :: "nat \<Rightarrow> snapshot_refs" where
  "refs_init n = \<lparr>sr_refs = 0, sr_retired = False, sr_closed = False, sr_published = True,
     sr_requests = replicate n Idle, sr_retire = Serving\<rparr>"

text \<open>One atomic operation of a request goroutine: its next position and the shared state.\<close>

fun request_op :: "request_pc \<Rightarrow> snapshot_refs \<Rightarrow> request_pc \<times> snapshot_refs" where
  "request_op Idle s = (if sr_published s then Loaded else Idle, s)"
| "request_op Loaded s = (Added, s\<lparr>sr_refs := sr_refs s + 1\<rparr>)"
| "request_op Added s = (if sr_retired s then Releasing else Holding, s)"
| "request_op Holding s = (Releasing, s)"
| "request_op Releasing s =
     (if sr_refs s - 1 = 0 then RelZero else Idle, s\<lparr>sr_refs := sr_refs s - 1\<rparr>)"
| "request_op RelZero s = (if sr_retired s then Closing else Idle, s)"
| "request_op Closing s = (Idle, s\<lparr>sr_closed := True\<rparr>)"

fun retire_op :: "retire_pc \<Rightarrow> snapshot_refs \<Rightarrow> retire_pc \<times> snapshot_refs" where
  "retire_op Serving s = (Swapped, s\<lparr>sr_published := False\<rparr>)"
| "retire_op Swapped s = (Marked, s\<lparr>sr_retired := True\<rparr>)"
| "retire_op Marked s = (if sr_refs s = 0 then RetireClosing else Retired, s)"
| "retire_op RetireClosing s = (Retired, s\<lparr>sr_closed := True\<rparr>)"
| "retire_op Retired s = (Retired, s)"

datatype refs_event = Request nat | Retire

fun refs_step :: "refs_event \<Rightarrow> snapshot_refs \<Rightarrow> snapshot_refs" where
  "refs_step (Request i) s =
     (if i < length (sr_requests s)
      then (let (pc, t) = request_op (sr_requests s ! i) s in t\<lparr>sr_requests := (sr_requests s)[i := pc]\<rparr>)
      else s)"
| "refs_step Retire s = (let (pc, t) = retire_op (sr_retire s) s in t\<lparr>sr_retire := pc\<rparr>)"

inductive refs_reachable :: "snapshot_refs \<Rightarrow> bool" where
  init: "refs_reachable (refs_init n)"
| step: "refs_reachable s \<Longrightarrow> refs_reachable (refs_step event s)"

inductive_cases refs_reachable_cases: "refs_reachable s"

lemma refs_run_reachable: "refs_reachable s \<Longrightarrow> refs_reachable (fold refs_step events s)"
  by (induction events arbitrary: s) (auto intro: refs_reachable.step)

section \<open>The count and the end of a snapshot\<close>

definition counted :: "request_pc \<Rightarrow> bool" where
  "counted pc \<longleftrightarrow> pc \<in> {Added, Holding, Releasing}"

definition count_inv :: "snapshot_refs \<Rightarrow> bool" where
  "count_inv s \<longleftrightarrow>
     sr_refs s = int (length (filter counted (sr_requests s)))
     \<and> (sr_retired s \<longleftrightarrow> sr_retire s \<in> {Marked, RetireClosing, Retired})
     \<and> (sr_published s \<longleftrightarrow> sr_retire s = Serving)
     \<and> (sr_retire s = Retired \<longrightarrow> sr_closed s \<or> 0 < sr_refs s \<or> (\<exists>pc \<in> set (sr_requests s). pc \<in> {RelZero, Closing}))
     \<and> (Closing \<in> set (sr_requests s) \<or> sr_closed s \<longrightarrow> sr_retired s)"

text \<open>What an operation does to the shared state, whatever the other goroutines do.\<close>

lemma request_op_effect:
  assumes "request_op pc s = (pc', t)"
  shows "sr_retired t = sr_retired s" "sr_published t = sr_published s" "sr_retire t = sr_retire s"
    "sr_requests t = sr_requests s" "sr_refs t = sr_refs s - of_bool (counted pc) + of_bool (counted pc')"
    "sr_closed t \<longleftrightarrow> sr_closed s \<or> pc = Closing" "pc' = Closing \<Longrightarrow> sr_retired s"
    "pc = RelZero \<Longrightarrow> sr_retired s \<Longrightarrow> pc' = Closing" "sr_refs t < sr_refs s \<Longrightarrow> sr_refs t = 0 \<Longrightarrow> pc' = RelZero"
  using assms by (cases pc; auto simp: counted_def split: if_splits)+

lemma request_op_inv:
  assumes inv: "count_inv s" and i: "i < length (sr_requests s)"
  shows "count_inv (refs_step (Request i) s)"
proof -
  let ?pcs = "sr_requests s"
  obtain pc' t where op: "request_op (?pcs ! i) s = (pc', t)" by fastforce
  note e = request_op_effect [OF op]
  let ?t = "t\<lparr>sr_requests := ?pcs[i := pc']\<rparr>"
  have refs: "sr_refs ?t = int (length (filter counted (?pcs[i := pc'])))"
    using inv by (simp add: e(5) filter_update_length [OF i] count_inv_def)
  have mem: "x = pc' \<or> x \<in> set ?pcs" if "x \<in> set (?pcs[i := pc'])" for x
    using that set_update_subset_insert [of ?pcs i pc'] by blast
  have new: "pc' \<in> set (?pcs[i := pc'])" using i by (simp add: set_update_memI)
  have old: "x \<in> set (?pcs[i := pc'])" if "x \<in> set ?pcs" "x \<noteq> ?pcs ! i" for x
    using that i by (metis in_set_conv_nth length_list_update nth_list_update_neq)
  have closing: "sr_retired s" if "Closing \<in> set (?pcs[i := pc']) \<or> sr_closed t"
    using that inv e(6,7) mem [of Closing] nth_mem [OF i] unfolding count_inv_def by metis
  have ending: "sr_closed t \<or> 0 < sr_refs t \<or> (\<exists>pc \<in> set (?pcs[i := pc']). pc \<in> {RelZero, Closing})"
    if "sr_retire s = Retired"
  proof -
    have ret: "sr_retired s" using inv that by (simp add: count_inv_def)
    have pos: "0 \<le> sr_refs t" using refs by simp
    from inv that consider "sr_closed s" | "0 < sr_refs s" | pc where "pc \<in> set ?pcs" "pc \<in> {RelZero, Closing}"
      by (auto simp: count_inv_def)
    then show ?thesis
    proof cases
      case 2
      with pos e(9) new show ?thesis by (cases "sr_refs t = 0") auto
    next
      case 3
      show ?thesis
      proof (cases "pc = ?pcs ! i")
        case True
        with 3 ret e(6,8) new show ?thesis by auto
      next
        case False
        with 3 old show ?thesis by blast
      qed
    qed (simp add: e(6))
  qed
  have "count_inv ?t" using inv refs closing ending by (simp add: count_inv_def e(1-3))
  with op i show ?thesis by simp
qed

lemma retire_op_inv: "count_inv s \<Longrightarrow> count_inv (refs_step Retire s)"
  by (cases "sr_retire s") (auto simp: count_inv_def)

lemma refs_reachable_inv: "refs_reachable s \<Longrightarrow> count_inv s"
proof (induction rule: refs_reachable.induct)
  case (init n)
  then show ?case by (simp add: refs_init_def count_inv_def counted_def)
next
  case (step s event)
  then show ?case
  proof (cases event)
    case (Request i)
    with step request_op_inv show ?thesis by (cases "i < length (sr_requests s)") auto
  qed (use retire_op_inv in auto)
qed

text \<open>C9. The reference count under every interleaving. For any number of requests and any order of their
  atomic operations, the count is the number of requests between their increment and their decrement;
  a snapshot is closed only after it was retired; and it does not leak: once the replacing goroutine
  is done and no request is inside \<open>acquire\<close> or \<open>release\<close> or holds the snapshot, it has been closed.\<close>

theorem snapshot_refs_exact:
  assumes "refs_reachable s"
  shows "sr_refs s = int (length (filter counted (sr_requests s)))
    \<and> (sr_closed s \<longrightarrow> sr_retired s)
    \<and> (sr_retire s = Retired \<and> (\<forall>pc \<in> set (sr_requests s). pc = Idle) \<longrightarrow> sr_closed s)"
proof -
  note inv = refs_reachable_inv [OF assms]
  have "filter counted (sr_requests s) = []" if "\<forall>pc \<in> set (sr_requests s). pc = Idle"
    using that by (auto simp: filter_empty_conv counted_def)
  with inv show ?thesis by (auto simp: count_inv_def)
qed

theorem snapshot_refs_exact_witness:
  "sr_closed (fold refs_step [Request 0, Request 0, Request 0, Retire, Retire, Retire, Request 0, Request 0, Request 0, Request 0]
     (refs_init 1))"
proof -
  let ?s = "fold refs_step [Request 0, Request 0, Request 0, Retire, Retire, Retire, Request 0, Request 0, Request 0, Request 0]
    (refs_init 1)"
  have "refs_reachable ?s" by (intro refs_run_reachable refs_reachable.init)
  moreover have "sr_retire ?s = Retired" "\<forall>pc \<in> set (sr_requests ?s). pc = Idle"
    by (simp_all add: refs_init_def)
  ultimately show ?thesis using snapshot_refs_exact by blast
qed

text \<open>The window in \<open>release\<close>. The decrement and the load of \<open>retired\<close> are two operations, and a second
  request may take a reference between them while the snapshot is still current. If the snapshot is
  then replaced, the first request sees it retired and closes it although the second one still holds
  it: its leases are given back and its idle connections closed under a request that is being served.
  The schedule below does that with two requests.\<close>

theorem snapshot_closed_while_held:
  "\<exists>s. refs_reachable s \<and> sr_closed s \<and> sr_requests s ! 1 = Holding \<and> sr_refs s = 1"
proof -
  let ?s = "fold refs_step [Request 0, Request 0, Request 0, Request 0, Request 0, Request 1, Request 1, Request 1,
    Retire, Retire, Retire, Request 0, Request 0] (refs_init 2)"
  have "refs_reachable ?s" by (intro refs_run_reachable refs_reachable.init)
  moreover have "sr_closed ?s" "sr_requests ?s ! 1 = Holding" "sr_refs ?s = 1"
    by (simp_all add: refs_init_def numeral_2_eq_2)
  ultimately show ?thesis by blast
qed

end
