(* ===== verification/Rate_Types.thy ===== *)
theory Rate_Types
  imports Prelude
begin

text \<open>The values the rate-limit stores exchange with their callers
  (\<open>internal/ratelimit/limiter.go\<close>).\<close>

record Policy =
  pol_Capacity :: int
  pol_RefillPerSecond :: rat

record BucketState =
  bs_Capacity :: int
  bs_Tokens :: rat
  bs_RefillPerSecond :: rat
  bs_Storage :: go_string
  bs_Degraded :: bool

record LimitDecision =
  ld_Allowed :: bool
  ld_Bucket :: BucketState

text \<open>The zero values Go returns beside an error.\<close>

definition zero_BucketState :: BucketState where
  "zero_BucketState = \<lparr>bs_Capacity = 0, bs_Tokens = 0, bs_RefillPerSecond = 0, bs_Storage = [],
     bs_Degraded = False\<rparr>"

definition zero_LimitDecision :: LimitDecision where
  "zero_LimitDecision = \<lparr>ld_Allowed = False, ld_Bucket = zero_BucketState\<rparr>"

definition policy_ok :: "Policy \<Rightarrow> bool" where
  "policy_ok p \<longleftrightarrow> 1 \<le> pol_Capacity p \<and> 0 < pol_RefillPerSecond p"

end
