(* ===== verification/Token_Bucket.thy ===== *)
theory Token_Bucket
  imports Prelude
begin

text \<open>
  The contract the five token buckets of the program share (the route limiter, the retry
  budget, the local, the Redis and the PostgreSQL store), as a locale, with what follows for a
  client from the contract alone: the bound on what is admitted over a window, and that a
  waiting client is admitted again.
\<close>

text \<open>The abstract bucket: refill to at most the capacity, then take one token if there is one.\<close>

definition refilled :: "rat \<Rightarrow> rat \<Rightarrow> rat \<Rightarrow> duration \<Rightarrow> rat" where
  "refilled cap rate tokens elapsed = min cap (tokens + seconds elapsed * rate)"

definition taken :: "rat \<Rightarrow> bool \<times> rat" where
  "taken tokens = (if tokens < 1 then (False, tokens) else (True, tokens - 1))"

text \<open>A client that calls \<open>draw\<close> at each instant of a list: how many calls are allowed.\<close>

fun run_draws :: "('s \<Rightarrow> instant \<Rightarrow> bool \<times> 's) \<Rightarrow> 's \<Rightarrow> instant list \<Rightarrow> nat \<times> 's" where
  "run_draws draw s [] = (0, s)"
| "run_draws draw s (t # ts) =
     (case draw s t of (ok, s') \<Rightarrow>
      (case run_draws draw s' ts of (n, s'') \<Rightarrow> ((if ok then Suc n else n), s'')))"

text \<open>The instants of a run: each not before the one before it.\<close>

fun chronological :: "instant \<Rightarrow> instant list \<Rightarrow> bool" where
  "chronological t0 [] = True"
| "chronological t0 (t # ts) = (t0 \<le> t \<and> chronological t ts)"

lemma taken_fst [simp]: "fst (taken x) \<longleftrightarrow> 1 \<le> x"
  by (auto simp: taken_def)

lemma taken_snd: "snd (taken x) = (if 1 \<le> x then x - 1 else x)"
  by (auto simp: taken_def)

lemma taken_nonneg: "0 \<le> x \<Longrightarrow> 0 \<le> snd (taken x)"
  by (simp add: taken_snd)

lemma taken_le: "snd (taken x) \<le> x"
  by (simp add: taken_snd)

lemma refilled_le_cap: "refilled cap rate tokens d \<le> cap"
  by (simp add: refilled_def)

lemma refilled_nonneg:
  "0 \<le> tokens \<Longrightarrow> 0 \<le> cap \<Longrightarrow> 0 \<le> rate \<Longrightarrow> 0 \<le> d \<Longrightarrow> 0 \<le> refilled cap rate tokens d"
  by (simp add: refilled_def)

lemma chronological_le_last: "chronological t0 ts \<Longrightarrow> t0 \<le> last (t0 # ts)"
  by (induction ts arbitrary: t0) fastforce+

locale token_bucket =
  fixes draw :: "'s \<Rightarrow> instant \<Rightarrow> bool \<times> 's"
    and level :: "'s \<Rightarrow> rat"
    and clock :: "'s \<Rightarrow> instant"
    and cap :: "'s \<Rightarrow> rat"
    and rate :: "'s \<Rightarrow> rat"
    and inv :: "'s \<Rightarrow> bool"
  assumes draw_spec: "inv s \<Longrightarrow> clock s \<le> now \<Longrightarrow>
      (fst (draw s now), level (snd (draw s now))) =
      taken (refilled (cap s) (rate s) (level s) (now - clock s))"
    and draw_clock: "inv s \<Longrightarrow> clock s \<le> now \<Longrightarrow> clock (snd (draw s now)) = now"
    and draw_cap: "inv s \<Longrightarrow> clock s \<le> now \<Longrightarrow> cap (snd (draw s now)) = cap s"
    and draw_rate: "inv s \<Longrightarrow> clock s \<le> now \<Longrightarrow> rate (snd (draw s now)) = rate s"
    and draw_inv: "inv s \<Longrightarrow> clock s \<le> now \<Longrightarrow> inv (snd (draw s now))"
    and inv_bounds: "inv s \<Longrightarrow> 0 \<le> level s \<and> level s \<le> cap s \<and> 0 \<le> rate s"
begin

lemma draw_allowed:
  "inv s \<Longrightarrow> clock s \<le> now \<Longrightarrow>
   fst (draw s now) \<longleftrightarrow> 1 \<le> refilled (cap s) (rate s) (level s) (now - clock s)"
  using draw_spec [of s now] by (metis fst_conv taken_fst)

lemma draw_level:
  "inv s \<Longrightarrow> clock s \<le> now \<Longrightarrow>
   level (snd (draw s now)) = snd (taken (refilled (cap s) (rate s) (level s) (now - clock s)))"
  using draw_spec [of s now] by (metis snd_conv)

text \<open>One call: what it admits is paid for by the level and the refill.\<close>

lemma draw_pays:
  assumes "inv s" and "clock s \<le> now"
  shows "(if fst (draw s now) then 1 else 0) + level (snd (draw s now))
         \<le> level s + seconds (now - clock s) * rate s"
  using draw_allowed [OF assms] draw_level [OF assms]
  by (auto simp: taken_snd refilled_def)

text \<open>A run of calls: the number admitted is bounded by the initial level and the refill.\<close>

lemma run_draws_bound:
  assumes "inv s" and "chronological (clock s) ts"
  shows "of_nat (fst (run_draws draw s ts)) + level (snd (run_draws draw s ts))
         \<le> level s + seconds (last (clock s # ts) - clock s) * rate s
         \<and> inv (snd (run_draws draw s ts))"
  using assms
proof (induction ts arbitrary: s)
  case Nil
  then show ?case by simp
next
  case (Cons t ts)
  let ?s = "snd (draw s t)"
  from Cons.prems have le: "clock s \<le> t" and rest: "chronological t ts" by auto
  note cl = draw_clock [OF Cons.prems(1) le] and rt = draw_rate [OF Cons.prems(1) le]
  from Cons.IH [OF draw_inv [OF Cons.prems(1) le]] rest
  have IH: "of_nat (fst (run_draws draw ?s ts)) + level (snd (run_draws draw ?s ts))
         \<le> level ?s + seconds (last (t # ts) - t) * rate s"
    and i: "inv (snd (run_draws draw ?s ts))" by (auto simp: cl rt)
  have split: "seconds (last (t # ts) - clock s) * rate s =
      seconds (last (t # ts) - t) * rate s + seconds (t - clock s) * rate s"
    by (simp add: seconds_diff algebra_simps)
  have "last (clock s # t # ts) = last (t # ts)" by simp
  with IH draw_pays [OF Cons.prems(1) le] i show ?case
    by (auto simp: split_def split simp del: last.simps)
qed

lemma admitted_at_most:
  assumes "inv s" and "chronological (clock s) ts"
  shows "of_nat (fst (run_draws draw s ts))
         \<le> cap s + rate s * seconds (last (clock s # ts) - clock s)"
proof -
  from run_draws_bound [OF assms] inv_bounds [OF assms(1)]
    inv_bounds [of "snd (run_draws draw s ts)"]
  show ?thesis by (auto simp: mult.commute simp del: last.simps)
qed

text \<open>Waiting long enough for one token readmits a client.\<close>

lemma readmitted:
  assumes "inv s" and "clock s \<le> now" and "1 \<le> cap s"
    and "1 \<le> rate s * seconds (now - clock s)"
  shows "fst (draw s now)"
  using draw_allowed [OF assms(1,2)] inv_bounds [OF assms(1)] assms(3,4)
  by (auto simp: refilled_def mult.commute)

end

end
