(* ===== verification/Go_Text.thy ===== *)
theory Go_Text
  imports Prelude
begin

text \<open>
  The functions of Go's \<open>strings\<close>, \<open>strconv\<close>, \<open>net/textproto\<close> and \<open>hash/fnv\<close> packages
  the program calls. A Go string is the list of its bytes. Letter case and white space are the
  ASCII ones (the host names, methods and header names the program handles).
\<close>

unbundle bit_operations_syntax

section \<open>Prefixes, suffixes, parts\<close>

definition HasPrefix :: "go_string \<Rightarrow> go_string \<Rightarrow> bool" where
  "HasPrefix s p \<longleftrightarrow> take (length p) s = p"

definition HasSuffix :: "go_string \<Rightarrow> go_string \<Rightarrow> bool" where
  "HasSuffix s p \<longleftrightarrow> length p \<le> length s \<and> drop (length s - length p) s = p"

definition TrimPrefix :: "go_string \<Rightarrow> go_string \<Rightarrow> go_string" where
  "TrimPrefix s p = (if HasPrefix s p then drop (length p) s else s)"

definition TrimSuffix :: "go_string \<Rightarrow> go_string \<Rightarrow> go_string" where
  "TrimSuffix s p = (if HasSuffix s p then take (length s - length p) s else s)"

definition ContainsAny :: "go_string \<Rightarrow> go_string \<Rightarrow> bool" where
  "ContainsAny s cs = list_ex (\<lambda>c. c \<in> set cs) s"

definition ContainsChar :: "go_string \<Rightarrow> char \<Rightarrow> bool" where
  "ContainsChar s c = list_ex (\<lambda>d. d = c) s"

text \<open>\<open>strings.Split\<close> with a separator of one byte.\<close>

fun Split :: "go_string \<Rightarrow> char \<Rightarrow> go_string list" where
  "Split [] sep = [[]]"
| "Split (c # s) sep =
     (if c = sep then [] # Split s sep
      else (case Split s sep of [] \<Rightarrow> [[c]] | p # ps \<Rightarrow> (c # p) # ps))"

text \<open>\<open>strings.SplitN(s, sep, 2)\<close>.\<close>

fun SplitN2 :: "go_string \<Rightarrow> char \<Rightarrow> go_string list" where
  "SplitN2 [] sep = [[]]"
| "SplitN2 (c # s) sep =
     (if c = sep then [[], s]
      else (case SplitN2 s sep of [] \<Rightarrow> [[c]] | p # ps \<Rightarrow> (c # p) # ps))"

fun join_with :: "char \<Rightarrow> go_string list \<Rightarrow> go_string" where
  "join_with sep [] = []"
| "join_with sep [p] = p"
| "join_with sep (p # q # ps) = p @ sep # join_with sep (q # ps)"

section \<open>Letter case, white space, decimal numbers\<close>

definition byte :: "char \<Rightarrow> nat" where
  "byte c = of_char c"

definition is_upper :: "char \<Rightarrow> bool" where
  "is_upper c \<longleftrightarrow> 65 \<le> byte c \<and> byte c \<le> 90"

definition is_lower :: "char \<Rightarrow> bool" where
  "is_lower c \<longleftrightarrow> 97 \<le> byte c \<and> byte c \<le> 122"

definition is_digit :: "char \<Rightarrow> bool" where
  "is_digit c \<longleftrightarrow> 48 \<le> byte c \<and> byte c \<le> 57"

definition lower_char :: "char \<Rightarrow> char" where
  "lower_char c = (if is_upper c then char_of (byte c + 32) else c)"

definition upper_char :: "char \<Rightarrow> char" where
  "upper_char c = (if is_lower c then char_of (byte c - 32) else c)"

definition ToLower :: "go_string \<Rightarrow> go_string" where
  "ToLower s = map lower_char s"

definition ToUpper :: "go_string \<Rightarrow> go_string" where
  "ToUpper s = map upper_char s"

definition EqualFold :: "go_string \<Rightarrow> go_string \<Rightarrow> bool" where
  "EqualFold s t \<longleftrightarrow> ToLower s = ToLower t"

definition is_space :: "char \<Rightarrow> bool" where
  "is_space c \<longleftrightarrow> byte c = 32 \<or> (9 \<le> byte c \<and> byte c \<le> 13)"

definition TrimSpace :: "go_string \<Rightarrow> go_string" where
  "TrimSpace s = rev (dropWhile is_space (rev (dropWhile is_space s)))"

text \<open>\<open>strconv.Itoa\<close>.\<close>

fun digits :: "nat \<Rightarrow> go_string" where
  "digits n = (if n < 10 then [char_of (48 + n)] else digits (n div 10) @ [char_of (48 + n mod 10)])"

declare digits.simps [simp del]

definition Itoa :: "int \<Rightarrow> go_string" where
  "Itoa i = (if i < 0 then CHR ''-'' # digits (nat (- i)) else digits (nat i))"

section \<open>Host and port\<close>

text \<open>A string around its last colon; the second part keeps the colon.\<close>

definition split_last_colon :: "go_string \<Rightarrow> (go_string \<times> go_string) option" where
  "split_last_colon h =
     (let port = rev (takeWhile (\<lambda>c. c \<noteq> CHR '':'') (rev h))
      in if length port = length h then None
         else Some (take (length h - length port - 1) h, CHR '':'' # port))"

text \<open>\<open>net.SplitHostPort\<close>; \<open>None\<close> is an error.\<close>

definition split_bracketed :: "go_string \<Rightarrow> go_string \<Rightarrow> go_string \<Rightarrow> (go_string \<times> go_string) option" where
  "split_bracketed s before port =
     (let inside = takeWhile (\<lambda>c. c \<noteq> CHR '']'') (tl s); rest = drop (length inside + 2) s
      in if before \<noteq> ''['' @ inside @ '']'' then None
         else if ContainsChar (tl s) (CHR ''['') \<or> ContainsChar rest (CHR '']'') then None
         else Some (inside, tl port))"

definition SplitHostPort :: "go_string \<Rightarrow> (go_string \<times> go_string) option" where
  "SplitHostPort s =
     (case split_last_colon s of
        None \<Rightarrow> None
      | Some (host, port) \<Rightarrow>
          if HasPrefix s ''['' then split_bracketed s host port
          else if ContainsChar host (CHR '':'') \<or> ContainsChar s (CHR ''['') \<or> ContainsChar s (CHR '']'') then None
          else Some (host, tl port))"

section \<open>Header names\<close>

definition is_token_char :: "char \<Rightarrow> bool" where
  "is_token_char c \<longleftrightarrow> is_upper c \<or> is_lower c \<or> is_digit c \<or> c \<in> set ''!#$%&*+-.^_`|~'' \<or> byte c = 39"

fun canonical_from :: "bool \<Rightarrow> go_string \<Rightarrow> go_string" where
  "canonical_from up [] = []"
| "canonical_from up (c # s) =
     (if up then upper_char c else lower_char c) # canonical_from (c = CHR ''-'') s"

text \<open>\<open>http.CanonicalHeaderKey\<close>: a name with a byte that is no token byte is kept as it is.\<close>

definition CanonicalHeaderKey :: "go_string \<Rightarrow> go_string" where
  "CanonicalHeaderKey s = (if list_all is_token_char s then canonical_from True s else s)"

text \<open>\<open>http.Header\<close>: a map from canonical names to value lists.\<close>

type_synonym http_header = "(go_string \<times> go_string list) list"

definition Header_Values :: "http_header \<Rightarrow> go_string \<Rightarrow> go_string list" where
  "Header_Values h name =
     (case map_of h (CanonicalHeaderKey name) of None \<Rightarrow> [] | Some vs \<Rightarrow> vs)"

definition Header_Get :: "http_header \<Rightarrow> go_string \<Rightarrow> go_string" where
  "Header_Get h name = (case Header_Values h name of [] \<Rightarrow> [] | v # _ \<Rightarrow> v)"

definition Header_Set :: "http_header \<Rightarrow> go_string \<Rightarrow> go_string \<Rightarrow> http_header" where
  "Header_Set h name v = AList.update (CanonicalHeaderKey name) [v] h"

definition Header_Add :: "http_header \<Rightarrow> go_string \<Rightarrow> go_string \<Rightarrow> http_header" where
  "Header_Add h name v =
     AList.update (CanonicalHeaderKey name) (Header_Values h name @ [v]) h"

definition Header_Del :: "http_header \<Rightarrow> go_string \<Rightarrow> http_header" where
  "Header_Del h name = AList.delete (CanonicalHeaderKey name) h"

section \<open>FNV-1a\<close>

text \<open>\<open>fnv.New64a\<close>: the state after writing bytes.\<close>

definition fnv_offset64 :: uint64 where "fnv_offset64 = 14695981039346656037"
definition fnv_prime64 :: uint64 where "fnv_prime64 = 1099511628211"

fun fnv_write :: "uint64 \<Rightarrow> go_string \<Rightarrow> uint64" where
  "fnv_write h [] = h"
| "fnv_write h (c # s) = fnv_write ((h XOR of_nat (byte c)) * fnv_prime64) s"

definition fnv64a :: "go_string \<Rightarrow> uint64" where
  "fnv64a s = fnv_write fnv_offset64 s"

section \<open>Facts\<close>

lemma HasPrefix_append [simp]: "HasPrefix (p @ s) p"
  by (simp add: HasPrefix_def)

lemma HasPrefix_iff: "HasPrefix s p \<longleftrightarrow> (\<exists>r. s = p @ r)"
proof
  assume "HasPrefix s p"
  then have "s = p @ drop (length p) s" by (metis HasPrefix_def append_take_drop_id)
  then show "\<exists>r. s = p @ r" ..
qed auto

lemma HasSuffix_iff: "HasSuffix s p \<longleftrightarrow> (\<exists>r. s = r @ p)"
proof
  assume "HasSuffix s p"
  then have "s = take (length s - length p) s @ p" by (metis HasSuffix_def append_take_drop_id)
  then show "\<exists>r. s = r @ p" ..
qed (auto simp: HasSuffix_def)

lemma HasPrefix_Nil [simp]: "HasPrefix s []" by (simp add: HasPrefix_def)

lemma HasPrefix_slash: "HasPrefix s ''/'' \<longleftrightarrow> s \<noteq> [] \<and> hd s = CHR ''/''"
  by (cases s) (auto simp: HasPrefix_def)

lemma HasSuffix_single: "HasSuffix s [c] \<longleftrightarrow> s \<noteq> [] \<and> last s = c"
  by (auto simp: HasSuffix_iff) (metis append_butlast_last_id)

lemma TrimPrefix_append [simp]: "TrimPrefix (p @ s) p = s"
  by (simp add: TrimPrefix_def)

lemma TrimSuffix_not: "\<not> HasSuffix s p \<Longrightarrow> TrimSuffix s p = s"
  by (simp add: TrimSuffix_def)

lemma Split_nonempty [simp]: "Split s sep \<noteq> []"
  by (induction s) (auto split: list.splits)

text \<open>Splitting loses nothing: joining the parts gives the string back, and no part holds the
  separator.\<close>

lemma join_Split: "join_with sep (Split s sep) = s"
proof (induction s)
  case Nil
  then show ?case by simp
next
  case (Cons c s)
  obtain p ps where "Split s sep = p # ps" by (cases "Split s sep") auto
  with Cons show ?case by (cases ps) auto
qed

lemma Split_no_sep: "p \<in> set (Split s sep) \<Longrightarrow> sep \<notin> set p"
proof (induction s arbitrary: p)
  case Nil
  then show ?case by simp
next
  case (Cons c s)
  obtain q qs where q: "Split s sep = q # qs" by (cases "Split s sep") auto
  with Cons show ?case by (cases "c = sep") auto
qed

lemma byte_lt: "byte c < 256"
  by (simp add: byte_def)

lemma byte_char_of: "n < 256 \<Longrightarrow> byte (char_of n) = n"
  by (simp add: byte_def)

lemma lower_char_idem [simp]: "lower_char (lower_char c) = lower_char c"
  by (auto simp: lower_char_def is_upper_def byte_char_of)

lemma upper_char_idem [simp]: "upper_char (upper_char c) = upper_char c"
  by (auto simp: upper_char_def is_lower_def byte_char_of)

lemma lower_upper_char [simp]: "lower_char (upper_char c) = lower_char c"
proof (cases "is_lower c")
  case True
  then have "byte (upper_char c) = byte c - 32" and "\<not> is_upper c"
    by (auto simp: upper_char_def is_lower_def is_upper_def byte_char_of)
  with True show ?thesis
    by (auto simp: lower_char_def is_upper_def is_lower_def) (simp add: byte_def)
next
  case False
  then show ?thesis by (simp add: upper_char_def)
qed

lemma ToLower_idem [simp]: "ToLower (ToLower s) = ToLower s"
  by (simp add: ToLower_def comp_def)

lemma ToUpper_idem [simp]: "ToUpper (ToUpper s) = ToUpper s"
  by (simp add: ToUpper_def comp_def)

lemma ToLower_ToUpper [simp]: "ToLower (ToUpper s) = ToLower s"
  by (simp add: ToLower_def ToUpper_def comp_def)

lemma EqualFold_refl [simp]: "EqualFold s s" by (simp add: EqualFold_def)
lemma EqualFold_sym: "EqualFold s t \<Longrightarrow> EqualFold t s" by (simp add: EqualFold_def)

lemma EqualFold_ToUpper [simp]: "EqualFold (ToUpper s) t = EqualFold s t"
  by (simp add: EqualFold_def)

lemma ToLower_canonical_from: "ToLower (canonical_from up s) = ToLower s"
  by (induction s arbitrary: up) (auto simp: ToLower_def)

text \<open>Canonicalising a header name never changes the name up to case.\<close>

lemma ToLower_CanonicalHeaderKey [simp]: "ToLower (CanonicalHeaderKey s) = ToLower s"
  by (simp add: CanonicalHeaderKey_def ToLower_canonical_from)

lemma CanonicalHeaderKey_EqualFold: "CanonicalHeaderKey s = CanonicalHeaderKey t \<Longrightarrow> EqualFold s t"
  unfolding EqualFold_def by (metis ToLower_CanonicalHeaderKey)

lemma Header_Get_Set [simp]: "Header_Get (Header_Set h name v) name = v"
  by (simp add: Header_Get_def Header_Set_def Header_Values_def alist_simps)

lemma Header_Get_Set_other:
  "CanonicalHeaderKey n \<noteq> CanonicalHeaderKey m \<Longrightarrow> Header_Get (Header_Set h n v) m = Header_Get h m"
  by (simp add: Header_Get_def Header_Set_def Header_Values_def alist_simps)

lemma Header_Values_Del: "Header_Values (Header_Del h n) n = []"
  by (simp add: Header_Del_def Header_Values_def alist_simps)

lemma Header_Values_Add [simp]: "Header_Values (Header_Add h n v) n = Header_Values h n @ [v]"
  by (simp add: Header_Add_def Header_Values_def alist_simps)

end
