(* ===== verification/Local_Store.thy ===== *)
theory Local_Store
  imports Rate_Types Token_Bucket Go_Text "HOL-Library.Monad_Syntax"
begin

text \<open>
  The bounded, sharded in-memory rate-limit store (\<open>internal/ratelimit/local.go\<close>). A shard
  keeps its buckets in a map, and, to evict in constant time, an array of slots with the key of
  each slot, the position of each key and the free slots. An operation holds the shard's mutex,
  so it is one atomic step; an index out of range is a panic, the value \<open>None\<close>.
\<close>

section \<open>Buckets\<close>

record localBucket =
  lb_capacity :: int
  lb_tokens :: rat
  lb_refillPerSecond :: rat
  lb_lastRefill :: instant
  lb_lastSeen :: instant

definition localBucket_refill :: "localBucket \<Rightarrow> instant \<Rightarrow> localBucket" where
  "localBucket_refill bucket now =
     (let elapsed = seconds (now - lb_lastRefill bucket)
      in if elapsed \<le> 0 then bucket
         else bucket\<lparr>lb_tokens := min (of_int (lb_capacity bucket))
                       (lb_tokens bucket + elapsed * lb_refillPerSecond bucket),
                     lb_lastRefill := now\<rparr>)"

definition applyPolicy :: "localBucket \<Rightarrow> Policy \<Rightarrow> instant \<Rightarrow> localBucket" where
  "applyPolicy bucket policy now =
     (if lb_capacity bucket = pol_Capacity policy
         \<and> lb_refillPerSecond bucket = pol_RefillPerSecond policy then bucket
      else
        (let bucket = localBucket_refill bucket now;
             bucket = bucket\<lparr>lb_capacity := pol_Capacity policy,
                             lb_refillPerSecond := pol_RefillPerSecond policy\<rparr>
         in if lb_tokens bucket > of_int (pol_Capacity policy)
            then bucket\<lparr>lb_tokens := of_int (pol_Capacity policy)\<rparr> else bucket))"

definition localBucket_state :: "localBucket \<Rightarrow> go_string \<Rightarrow> BucketState" where
  "localBucket_state bucket storage =
     \<lparr>bs_Capacity = lb_capacity bucket, bs_Tokens = lb_tokens bucket,
      bs_RefillPerSecond = lb_refillPerSecond bucket, bs_Storage = storage, bs_Degraded = False\<rparr>"

definition newBucket :: "Policy \<Rightarrow> instant \<Rightarrow> localBucket" where
  "newBucket policy now =
     \<lparr>lb_capacity = pol_Capacity policy, lb_tokens = of_int (pol_Capacity policy),
      lb_refillPerSecond = pol_RefillPerSecond policy, lb_lastRefill = now, lb_lastSeen = now\<rparr>"

text \<open>What \<open>Take\<close> does to the bucket it found or made.\<close>

definition bucket_take :: "Policy \<Rightarrow> localBucket \<Rightarrow> instant \<Rightarrow> bool \<times> localBucket" where
  "bucket_take policy bucket now =
     (let bucket = localBucket_refill (applyPolicy bucket policy now) now;
          allowed = (lb_tokens bucket \<ge> 1);
          bucket = (if allowed then bucket\<lparr>lb_tokens := lb_tokens bucket - 1\<rparr> else bucket)
      in (allowed, bucket\<lparr>lb_lastSeen := now\<rparr>))"

section \<open>Shards\<close>

record localShard =
  sh_buckets :: "(go_string \<times> localBucket) list"
  sh_maxBuckets :: nat
  sh_slots :: "go_string list"
  sh_positions :: "go_string \<rightharpoonup> nat"
  sh_freeSlots :: "nat list"
  sh_nextEvict :: nat

record LocalStore =
  ls_shards :: "localShard list"
  ls_size :: int
  ls_evictions :: uint64

record LocalStoreStats =
  lss_Buckets :: int
  lss_Evictions :: uint64

text \<open>The two branches of \<open>insertBucket\<close> on the shard; the flag says that a bucket was
  evicted.\<close>

definition shard_insert ::
    "localShard \<Rightarrow> go_string \<Rightarrow> localBucket \<Rightarrow> (bool \<times> localShard) option" where
  "shard_insert shard key bucket =
     (if length (sh_buckets shard) < sh_maxBuckets shard then
        (let (slot, free, slots) =
           (if sh_freeSlots shard \<noteq> []
            then (last (sh_freeSlots shard), butlast (sh_freeSlots shard), sh_slots shard)
            else (length (sh_slots shard), sh_freeSlots shard, sh_slots shard @ [[]]))
         in do {
           slots \<leftarrow> slice_set slots slot key;
           Some (False, shard\<lparr>sh_slots := slots, sh_freeSlots := free,
             sh_positions := (sh_positions shard)(key \<mapsto> slot),
             sh_buckets := AList.update key bucket (sh_buckets shard)\<rparr>)
         })
      else
        (let slot = sh_nextEvict shard
         in if sh_maxBuckets shard = 0 then None
            else do {
              evictedKey \<leftarrow> slice_get (sh_slots shard) slot;
              slots \<leftarrow> slice_set (sh_slots shard) slot key;
              Some (True, shard\<lparr>sh_nextEvict := (sh_nextEvict shard + 1) mod sh_maxBuckets shard,
                sh_slots := slots,
                sh_positions := (sh_positions shard)(evictedKey := None, key \<mapsto> slot),
                sh_buckets := AList.update key bucket
                  (AList.delete evictedKey (sh_buckets shard))\<rparr>)
            }))"

definition insertBucket ::
    "LocalStore \<Rightarrow> nat \<Rightarrow> go_string \<Rightarrow> localBucket \<Rightarrow> LocalStore option" where
  "insertBucket store i key bucket =
     do {
       shard \<leftarrow> slice_get (ls_shards store) i;
       (evicted, shard) \<leftarrow> shard_insert shard key bucket;
       Some (store\<lparr>ls_shards := (ls_shards store)[i := shard],
         ls_size := (if evicted then ls_size store else ls_size store + 1),
         ls_evictions := (if evicted then ls_evictions store + 1 else ls_evictions store)\<rparr>)
     }"

definition deleteBucket :: "localShard \<Rightarrow> go_string \<Rightarrow> localShard option" where
  "deleteBucket shard key =
     (case sh_positions shard key of
        None \<Rightarrow> Some shard
      | Some slot \<Rightarrow> do {
          slots \<leftarrow> slice_set (sh_slots shard) slot [];
          Some (shard\<lparr>sh_buckets := AList.delete key (sh_buckets shard),
            sh_positions := (sh_positions shard)(key := None),
            sh_slots := slots, sh_freeSlots := sh_freeSlots shard @ [slot]\<rparr>)
        })"

definition empty_shard :: "nat \<Rightarrow> localShard" where
  "empty_shard maxBuckets =
     \<lparr>sh_buckets = [], sh_maxBuckets = maxBuckets, sh_slots = [], sh_positions = Map.empty,
      sh_freeSlots = [], sh_nextEvict = 0\<rparr>"

definition NewBoundedLocalStore :: "int \<Rightarrow> int \<Rightarrow> LocalStore" where
  "NewBoundedLocalStore shardCount maxBuckets =
     (let shardCount = (if shardCount < 1 then 1 else shardCount);
          maxBuckets = (if maxBuckets < 1 then 1 else maxBuckets);
          shardCount = (if shardCount > maxBuckets then maxBuckets else shardCount);
          n = nat shardCount; m = nat maxBuckets
      in \<lparr>ls_shards = map (\<lambda>index. empty_shard (if index < m mod n then m div n + 1 else m div n))
                        [0..<n],
          ls_size = 0, ls_evictions = 0\<rparr>)"

definition NewLocalStore :: "int \<Rightarrow> LocalStore" where
  "NewLocalStore shardCount = NewBoundedLocalStore shardCount 100000"

section \<open>Operations of the store\<close>

definition shard_of :: "LocalStore \<Rightarrow> go_string \<Rightarrow> nat" where
  "shard_of store key = unat (fnv64a key) mod length (ls_shards store)"

definition put_bucket :: "LocalStore \<Rightarrow> nat \<Rightarrow> go_string \<Rightarrow> localBucket \<Rightarrow> LocalStore" where
  "put_bucket store i key bucket =
     store\<lparr>ls_shards := (ls_shards store)[i := (ls_shards store ! i)\<lparr>sh_buckets :=
       AList.update key bucket (sh_buckets (ls_shards store ! i))\<rparr>]\<rparr>"

definition LocalStore_Take ::
    "LocalStore \<Rightarrow> go_string \<Rightarrow> Policy \<Rightarrow> instant \<Rightarrow> (LimitDecision \<times> LocalStore) option" where
  "LocalStore_Take store key policy now =
     (let i = shard_of store key in do {
       shard \<leftarrow> slice_get (ls_shards store) i;
       (bucket, store) \<leftarrow>
         (case map_of (sh_buckets shard) key of
            Some bucket \<Rightarrow> Some (bucket, store)
          | None \<Rightarrow> do {
              store \<leftarrow> insertBucket store i key (newBucket policy now);
              Some (newBucket policy now, store)
            });
       let (allowed, bucket) = bucket_take policy bucket now;
       Some (\<lparr>ld_Allowed = allowed, ld_Bucket = localBucket_state bucket ''local''\<rparr>,
             put_bucket store i key bucket)
     })"

definition LocalStore_Peek ::
    "LocalStore \<Rightarrow> go_string \<Rightarrow> Policy \<Rightarrow> instant \<Rightarrow> BucketState option" where
  "LocalStore_Peek store key policy now =
     do {
       shard \<leftarrow> slice_get (ls_shards store) (shard_of store key);
       Some (case map_of (sh_buckets shard) key of
           None \<Rightarrow> localBucket_state (newBucket policy now) ''local''
         | Some bucket \<Rightarrow>
             localBucket_state (localBucket_refill (applyPolicy bucket policy now) now) ''local'')
     }"

definition LocalStore_Reset ::
    "LocalStore \<Rightarrow> go_string \<Rightarrow> Policy \<Rightarrow> instant \<Rightarrow> (BucketState \<times> LocalStore) option" where
  "LocalStore_Reset store key policy now =
     (let i = shard_of store key; bucket = newBucket policy now in do {
       shard \<leftarrow> slice_get (ls_shards store) i;
       store \<leftarrow>
         (if map_of (sh_buckets shard) key = None then insertBucket store i key bucket
          else Some (put_bucket store i key bucket));
       Some (localBucket_state bucket ''local'', store)
     })"

text \<open>\<open>Cleanup\<close>: every bucket of every shard that was last seen before the cutoff is deleted;
  each deletion lowers the size.\<close>

fun cleanup_buckets ::
    "instant \<Rightarrow> (go_string \<times> localBucket) list \<Rightarrow> localShard \<times> int \<Rightarrow> (localShard \<times> int) option" where
  "cleanup_buckets cutoff [] (shard, sz) = Some (shard, sz)"
| "cleanup_buckets cutoff ((key, bucket) # rest) (shard, sz) =
     (if lb_lastSeen bucket < cutoff then
        (case deleteBucket shard key of
           None \<Rightarrow> None
         | Some shard' \<Rightarrow> cleanup_buckets cutoff rest (shard', sz - 1))
      else cleanup_buckets cutoff rest (shard, sz))"

fun cleanup_shards :: "instant \<Rightarrow> localShard list \<Rightarrow> int \<Rightarrow> (localShard list \<times> int) option" where
  "cleanup_shards cutoff [] sz = Some ([], sz)"
| "cleanup_shards cutoff (shard # shards) sz =
     (case cleanup_buckets cutoff (sh_buckets shard) (shard, sz) of
        None \<Rightarrow> None
      | Some (shard', sz') \<Rightarrow>
          (case cleanup_shards cutoff shards sz' of
             None \<Rightarrow> None
           | Some (shards', sz'') \<Rightarrow> Some (shard' # shards', sz'')))"

definition LocalStore_Cleanup :: "LocalStore \<Rightarrow> duration \<Rightarrow> instant \<Rightarrow> LocalStore option" where
  "LocalStore_Cleanup store olderThan now =
     (case cleanup_shards (now - olderThan) (ls_shards store) (ls_size store) of
        None \<Rightarrow> None
      | Some (shards, sz) \<Rightarrow> Some (store\<lparr>ls_shards := shards, ls_size := sz\<rparr>))"

definition LocalStore_Stats :: "LocalStore \<Rightarrow> LocalStoreStats" where
  "LocalStore_Stats store =
     \<lparr>lss_Buckets = ls_size store, lss_Evictions = ls_evictions store\<rparr>"

section \<open>Invariants\<close>

text \<open>The slot array, the positions and the free list of a shard describe its buckets: every
  slot is either free or holds the key whose position it is, and every key has a position.\<close>

definition shard_inv :: "localShard \<Rightarrow> bool" where
  "shard_inv sh \<longleftrightarrow>
     1 \<le> sh_maxBuckets sh \<and> distinct (keys (sh_buckets sh))
     \<and> length (sh_buckets sh) + length (sh_freeSlots sh) = length (sh_slots sh)
     \<and> length (sh_slots sh) \<le> sh_maxBuckets sh
     \<and> distinct (sh_freeSlots sh) \<and> set (sh_freeSlots sh) \<subseteq> {..<length (sh_slots sh)}
     \<and> sh_nextEvict sh < sh_maxBuckets sh
     \<and> dom (sh_positions sh) = set (keys (sh_buckets sh))
     \<and> (\<forall>k i. sh_positions sh k = Some i \<longleftrightarrow>
          i < length (sh_slots sh) \<and> i \<notin> set (sh_freeSlots sh) \<and> sh_slots sh ! i = k)"

definition bucket_inv :: "localBucket \<Rightarrow> bool" where
  "bucket_inv b \<longleftrightarrow> 0 \<le> lb_tokens b \<and> lb_tokens b \<le> of_int (lb_capacity b)
     \<and> 1 \<le> lb_capacity b \<and> 0 < lb_refillPerSecond b"

definition store_inv :: "LocalStore \<Rightarrow> bool" where
  "store_inv store \<longleftrightarrow> ls_shards store \<noteq> []
     \<and> (\<forall>sh \<in> set (ls_shards store). shard_inv sh \<and> (\<forall>(k, b) \<in> set (sh_buckets sh). bucket_inv b))
     \<and> ls_size store = (\<Sum>sh \<leftarrow> ls_shards store. int (length (sh_buckets sh)))"

definition store_capacity :: "LocalStore \<Rightarrow> nat" where
  "store_capacity store = (\<Sum>sh \<leftarrow> ls_shards store. sh_maxBuckets sh)"


section \<open>Buckets are token buckets\<close>

lemma localBucket_refill_frame [simp, frame]:
  "lb_capacity (localBucket_refill b now) = lb_capacity b"
  "lb_refillPerSecond (localBucket_refill b now) = lb_refillPerSecond b"
  "lb_lastSeen (localBucket_refill b now) = lb_lastSeen b"
  by (auto simp: localBucket_refill_def Let_def)

lemma localBucket_refill_tokens:
  "lb_lastRefill b \<le> now \<Longrightarrow> lb_tokens b \<le> of_int (lb_capacity b) \<Longrightarrow>
   lb_tokens (localBucket_refill b now) =
     refilled (of_int (lb_capacity b)) (lb_refillPerSecond b) (lb_tokens b) (now - lb_lastRefill b)
   \<and> lb_lastRefill (localBucket_refill b now) = now"
  by (cases "lb_lastRefill b = now") (auto simp: localBucket_refill_def refilled_def Let_def)

lemma localBucket_refill_inv [inv_intros]: "bucket_inv b \<Longrightarrow> bucket_inv (localBucket_refill b now)"
  by (auto simp: bucket_inv_def localBucket_refill_def Let_def
      intro!: add_nonneg_nonneg mult_nonneg_nonneg)

lemma applyPolicy_inv [inv_intros]:
  "bucket_inv b \<Longrightarrow> policy_ok policy \<Longrightarrow> bucket_inv (applyPolicy b policy now)"
  using localBucket_refill_inv [of b now]
  by (auto simp: applyPolicy_def bucket_inv_def policy_ok_def Let_def)

lemma newBucket_inv [inv_intros]: "policy_ok policy \<Longrightarrow> bucket_inv (newBucket policy now)"
  by (simp add: bucket_inv_def newBucket_def policy_ok_def)

lemma bucket_take_inv [inv_intros]:
  "bucket_inv b \<Longrightarrow> policy_ok policy \<Longrightarrow> bucket_inv (snd (bucket_take policy b now))"
  using localBucket_refill_inv [OF applyPolicy_inv, of b policy now now]
  by (auto simp: bucket_take_def bucket_inv_def Let_def)

definition own_policy :: "localBucket \<Rightarrow> Policy" where
  "own_policy b = \<lparr>pol_Capacity = lb_capacity b, pol_RefillPerSecond = lb_refillPerSecond b\<rparr>"

lemma own_policy_ok: "bucket_inv b \<Longrightarrow> policy_ok (own_policy b)"
  by (simp add: policy_ok_def own_policy_def bucket_inv_def)

lemma applyPolicy_own [simp]: "applyPolicy b (own_policy b) now = b"
  by (simp add: applyPolicy_def own_policy_def)

interpretation local_bucket: token_bucket "\<lambda>b. bucket_take (own_policy b) b" lb_tokens
  lb_lastRefill "\<lambda>b. of_int (lb_capacity b)" lb_refillPerSecond bucket_inv
proof unfold_locales
  fix s now
  assume i: "bucket_inv s" and le: "lb_lastRefill s \<le> now"
  then have r: "lb_tokens (localBucket_refill s now) = refilled (of_int (lb_capacity s))
      (lb_refillPerSecond s) (lb_tokens s) (now - lb_lastRefill s)"
    and l: "lb_lastRefill (localBucket_refill s now) = now"
    using localBucket_refill_tokens [of s now] by (auto simp: bucket_inv_def)
  show "(fst (bucket_take (own_policy s) s now), lb_tokens (snd (bucket_take (own_policy s) s now))) =
      taken (refilled (of_int (lb_capacity s)) (lb_refillPerSecond s) (lb_tokens s)
        (now - lb_lastRefill s))"
    by (auto simp: bucket_take_def taken_def Let_def r)
  show "lb_lastRefill (snd (bucket_take (own_policy s) s now)) = now"
    "of_int (lb_capacity (snd (bucket_take (own_policy s) s now))) = of_int (lb_capacity s)"
    "lb_refillPerSecond (snd (bucket_take (own_policy s) s now)) = lb_refillPerSecond s"
    by (auto simp: bucket_take_def Let_def l)
  show "bucket_inv (snd (bucket_take (own_policy s) s now))"
    using i own_policy_ok [OF i] by (rule bucket_take_inv)
next
  fix s assume "bucket_inv s"
  then show "0 \<le> lb_tokens s \<and> lb_tokens s \<le> of_int (lb_capacity s) \<and> 0 \<le> lb_refillPerSecond s"
    by (simp add: bucket_inv_def)
qed

section \<open>Shards keep their invariant and never panic\<close>

lemma shard_inv_full:
  assumes "shard_inv sh" and "\<not> length (sh_buckets sh) < sh_maxBuckets sh"
  shows "sh_freeSlots sh = []" and "length (sh_slots sh) = sh_maxBuckets sh"
    and "sh_nextEvict sh < length (sh_slots sh)"
    and "length (sh_buckets sh) = sh_maxBuckets sh"
proof -
  from assms have s: "length (sh_buckets sh) + length (sh_freeSlots sh) = length (sh_slots sh)"
    "length (sh_slots sh) \<le> sh_maxBuckets sh" "sh_maxBuckets sh \<le> length (sh_buckets sh)"
    "sh_nextEvict sh < sh_maxBuckets sh"
    by (simp_all add: shard_inv_def)
  then have "length (sh_freeSlots sh) = 0" by linarith
  with s show "sh_freeSlots sh = []" "length (sh_slots sh) = sh_maxBuckets sh"
    "sh_nextEvict sh < length (sh_slots sh)" "length (sh_buckets sh) = sh_maxBuckets sh"
    by simp_all
qed

lemma last_notin_butlast: "distinct xs \<Longrightarrow> xs \<noteq> [] \<Longrightarrow> last xs \<notin> set (butlast xs)"
  by (metis append_butlast_last_id distinct_append disjoint_iff list.set_intros(1))

lemma set_butlast: "distinct xs \<Longrightarrow> xs \<noteq> [] \<Longrightarrow> set (butlast xs) = set xs - {last xs}"
  by (metis Diff_insert_absorb append_butlast_last_id last_notin_butlast list.simps(15)
      rotate1.simps(2) set_rotate1)

lemma shard_invD:
  assumes "shard_inv sh"
  shows "1 \<le> sh_maxBuckets sh" and "distinct (keys (sh_buckets sh))"
    and "length (sh_buckets sh) + length (sh_freeSlots sh) = length (sh_slots sh)"
    and "length (sh_slots sh) \<le> sh_maxBuckets sh"
    and "distinct (sh_freeSlots sh)" and "set (sh_freeSlots sh) \<subseteq> {..<length (sh_slots sh)}"
    and "sh_nextEvict sh < sh_maxBuckets sh"
    and "dom (sh_positions sh) = set (keys (sh_buckets sh))"
    and "sh_positions sh k = Some i \<longleftrightarrow>
          i < length (sh_slots sh) \<and> i \<notin> set (sh_freeSlots sh) \<and> sh_slots sh ! i = k"
  using assms unfolding shard_inv_def by blast+

lemma positions_None: "shard_inv sh \<Longrightarrow> key \<notin> set (keys (sh_buckets sh)) \<Longrightarrow> sh_positions sh key = None"
  using shard_invD(8) [of sh] by auto

lemma position_of_key:
  assumes "shard_inv sh" and "key \<in> set (keys (sh_buckets sh))"
  obtains i where "sh_positions sh key = Some i" and "i < length (sh_slots sh)"
    and "i \<notin> set (sh_freeSlots sh)" and "sh_slots sh ! i = key"
proof -
  have "key \<in> dom (sh_positions sh)" using assms shard_invD(8) by blast
  then obtain i where "sh_positions sh key = Some i" by auto
  with shard_invD(9) [OF assms(1)] that show ?thesis by blast
qed

lemma shard_insert_append:
  assumes inv: "shard_inv sh" and new: "key \<notin> set (keys (sh_buckets sh))"
    and room: "length (sh_buckets sh) < sh_maxBuckets sh" and nofree: "sh_freeSlots sh = []"
  shows "shard_inv (sh\<lparr>sh_slots := sh_slots sh @ [key], sh_freeSlots := [],
      sh_positions := (sh_positions sh)(key \<mapsto> length (sh_slots sh)),
      sh_buckets := AList.update key b (sh_buckets sh)\<rparr>)"
proof -
  note d = shard_invD [OF inv] and none = positions_None [OF inv new]
  have "((sh_positions sh)(key \<mapsto> length (sh_slots sh))) k = Some i \<longleftrightarrow>
      i < Suc (length (sh_slots sh)) \<and> (sh_slots sh @ [key]) ! i = k" for k i
    using d(9) [of k i] d(9) [of key i] none nofree by (auto simp: nth_append less_Suc_eq)
  with d room new nofree show ?thesis
    unfolding shard_inv_def
    by (simp add: alist_simps(1,4,5) distinct_update del: fun_upd_apply)
qed

lemma shard_insert_reuse:
  assumes inv: "shard_inv sh" and new: "key \<notin> set (keys (sh_buckets sh))"
    and room: "length (sh_buckets sh) < sh_maxBuckets sh" and free: "sh_freeSlots sh \<noteq> []"
  shows "shard_inv (sh\<lparr>sh_slots := (sh_slots sh)[last (sh_freeSlots sh) := key],
      sh_freeSlots := butlast (sh_freeSlots sh),
      sh_positions := (sh_positions sh)(key \<mapsto> last (sh_freeSlots sh)),
      sh_buckets := AList.update key b (sh_buckets sh)\<rparr>)"
proof -
  let ?l = "last (sh_freeSlots sh)"
  note d = shard_invD [OF inv] and none = positions_None [OF inv new]
  have l: "?l < length (sh_slots sh)" "?l \<in> set (sh_freeSlots sh)" using d(6) last_in_set [OF free] by auto
  have sb: "set (butlast (sh_freeSlots sh)) = set (sh_freeSlots sh) - {?l}"
    using d(5) free by (rule set_butlast)
  have "((sh_positions sh)(key \<mapsto> ?l)) k = Some i \<longleftrightarrow> i < length (sh_slots sh)
      \<and> i \<notin> set (butlast (sh_freeSlots sh)) \<and> (sh_slots sh)[?l := key] ! i = k" for k i
    using d(9) [of k i] d(9) [of key i] none l sb by (auto simp: nth_list_update)
  moreover have "Suc (length (sh_buckets sh)) + (length (sh_freeSlots sh) - 1) = length (sh_slots sh)"
    using d(3) free by (cases "sh_freeSlots sh") auto
  ultimately show ?thesis
    using d l sb new free unfolding shard_inv_def
    by (auto simp: alist_simps(1,4,5) distinct_update distinct_butlast simp del: fun_upd_apply)
qed

lemma shard_insert_free:
  assumes inv: "shard_inv sh" and new: "key \<notin> set (keys (sh_buckets sh))"
    and room: "length (sh_buckets sh) < sh_maxBuckets sh"
  shows "\<exists>sh'. shard_insert sh key b = Some (False, sh') \<and> shard_inv sh'
    \<and> sh_buckets sh' = AList.update key b (sh_buckets sh) \<and> sh_maxBuckets sh' = sh_maxBuckets sh"
proof (cases "sh_freeSlots sh = []")
  case True
  with shard_insert_append [OF inv new room True, of b] room show ?thesis
    by (simp add: shard_insert_def slice_set_def)
next
  case False
  moreover have "last (sh_freeSlots sh) < length (sh_slots sh)"
    using last_in_set [OF False] shard_invD(6) [OF inv] by auto
  ultimately show ?thesis
    using shard_insert_reuse [OF inv new room False, of b] room
    by (simp add: shard_insert_def slice_set_def)
qed

lemma shard_insert_evict:
  assumes inv: "shard_inv sh" and new: "key \<notin> set (keys (sh_buckets sh))"
    and full: "\<not> length (sh_buckets sh) < sh_maxBuckets sh"
  shows "\<exists>sh' old. shard_insert sh key b = Some (True, sh') \<and> shard_inv sh'
    \<and> old \<in> set (keys (sh_buckets sh))
    \<and> sh_buckets sh' = AList.update key b (AList.delete old (sh_buckets sh))
    \<and> sh_maxBuckets sh' = sh_maxBuckets sh"
proof -
  let ?n = "sh_nextEvict sh" and ?old = "sh_slots sh ! sh_nextEvict sh"
  note d = shard_invD [OF inv] and f = shard_inv_full [OF inv full]
    and none = positions_None [OF inv new]
  have pos: "sh_positions sh ?old = Some ?n" using d(9) f by simp
  then have old: "?old \<in> set (keys (sh_buckets sh))" using d(8) by blast
  then have ne: "?old \<noteq> key" using new by auto
  have p: "((sh_positions sh)(?old := None, key \<mapsto> ?n)) k = Some i \<longleftrightarrow>
      i < length (sh_slots sh) \<and> (sh_slots sh)[?n := key] ! i = k" for k i
    using d(9) [of k i] d(9) [of key i] d(9) [of ?old i] pos none f ne
    by (auto simp: nth_list_update)
  define sh' where "sh' = sh\<lparr>sh_nextEvict := (?n + 1) mod sh_maxBuckets sh,
      sh_slots := (sh_slots sh)[?n := key],
      sh_positions := (sh_positions sh)(?old := None, key \<mapsto> ?n),
      sh_buckets := AList.update key b (AList.delete ?old (sh_buckets sh))\<rparr>"
  have eq: "shard_insert sh key b = Some (True, sh')"
    using f full d(1) by (simp add: shard_insert_def sh'_def slice_get_def slice_set_def Let_def)
  have "length (AList.update key b (AList.delete ?old (sh_buckets sh))) = sh_maxBuckets sh"
    using f(4) d(1,2) old new by (simp add: alist_simps)
  then have "shard_inv sh'"
    unfolding shard_inv_def sh'_def using f d(1,2,7,8) p new ne
    by (simp add: alist_simps(3,4) distinct_update distinct_delete insert_Diff_if
        del: fun_upd_apply)
  moreover have "sh_buckets sh' = AList.update key b (AList.delete ?old (sh_buckets sh))"
    "sh_maxBuckets sh' = sh_maxBuckets sh" by (simp_all add: sh'_def)
  ultimately show ?thesis using eq old by blast
qed

lemma shard_delete:
  assumes inv: "shard_inv sh" and mem: "key \<in> set (keys (sh_buckets sh))"
  shows "\<exists>sh'. deleteBucket sh key = Some sh' \<and> shard_inv sh'
    \<and> sh_buckets sh' = AList.delete key (sh_buckets sh) \<and> sh_maxBuckets sh' = sh_maxBuckets sh"
proof -
  from position_of_key [OF inv mem] obtain i where p: "sh_positions sh key = Some i"
    "i < length (sh_slots sh)" "i \<notin> set (sh_freeSlots sh)" "sh_slots sh ! i = key" .
  note d = shard_invD [OF inv]
  define sh' where "sh' = sh\<lparr>sh_buckets := AList.delete key (sh_buckets sh),
      sh_positions := (sh_positions sh)(key := None), sh_slots := (sh_slots sh)[i := []],
      sh_freeSlots := sh_freeSlots sh @ [i]\<rparr>"
  have eq: "deleteBucket sh key = Some sh'"
    using p by (simp add: deleteBucket_def slice_set_def sh'_def)
  have q: "((sh_positions sh)(key := None)) k = Some j \<longleftrightarrow> j < length (sh_slots sh)
      \<and> j \<notin> set (sh_freeSlots sh @ [i]) \<and> (sh_slots sh)[i := []] ! j = k" for k j
    using d(9) [of k j] p by (auto simp: nth_list_update)
  from mem have "0 < length (sh_buckets sh)" by (cases "sh_buckets sh") auto
  then have "length (AList.delete key (sh_buckets sh)) + Suc (length (sh_freeSlots sh))
      = length (sh_slots sh)"
    using d(3) length_AList_delete [OF d(2), of key] mem by (simp only: if_True)
  then have "shard_inv sh'"
    unfolding shard_inv_def sh'_def using d p q
    by (simp add: alist_simps(3) distinct_delete del: fun_upd_apply)
  with eq show ?thesis unfolding sh'_def by simp
qed


section \<open>The store\<close>

definition shard_ok :: "localShard \<Rightarrow> bool" where
  "shard_ok sh \<longleftrightarrow> shard_inv sh \<and> (\<forall>(k, b) \<in> set (sh_buckets sh). bucket_inv b)"

text \<open>What the store promises: the bucket it keeps for a key.\<close>

definition store_lookup :: "LocalStore \<Rightarrow> go_string \<rightharpoonup> localBucket" where
  "store_lookup store key = map_of (sh_buckets (ls_shards store ! shard_of store key)) key"

definition bucket_or_new :: "LocalStore \<Rightarrow> go_string \<Rightarrow> Policy \<Rightarrow> instant \<Rightarrow> localBucket" where
  "bucket_or_new store key policy now =
     (case store_lookup store key of None \<Rightarrow> newBucket policy now | Some b \<Rightarrow> b)"

lemma store_inv_ok:
  "store_inv store \<longleftrightarrow> ls_shards store \<noteq> [] \<and> (\<forall>sh \<in> set (ls_shards store). shard_ok sh)
     \<and> ls_size store = (\<Sum>sh \<leftarrow> ls_shards store. int (length (sh_buckets sh)))"
  by (auto simp: store_inv_def shard_ok_def)

lemma set_AList_update: "set (AList.update k v al) \<subseteq> insert (k, v) (set al)"
  by (induction al) auto

lemma set_AList_delete: "set (AList.delete k al) \<subseteq> set al"
  by (auto simp: AList.delete_eq)

lemma sum_list_map_update:
  fixes f :: "'a \<Rightarrow> 'b :: ab_group_add"
  shows "i < length xs \<Longrightarrow> sum_list (map f (xs[i := x])) = sum_list (map f xs) - f (xs ! i) + f x"
  by (induction xs arbitrary: i) (auto split: nat.splits)

lemma sum_list_map_update_same:
  "i < length xs \<Longrightarrow> f x = f (xs ! i) \<Longrightarrow> sum_list (map f (xs[i := x])) = sum_list (map f xs)"
  by (metis list_update_id map_update)

lemma shard_of_less: "ls_shards store \<noteq> [] \<Longrightarrow> shard_of store key < length (ls_shards store)"
  by (simp add: shard_of_def)

lemma shard_of_replace:
  "ls_shards store' = (ls_shards store)[i := sh] \<Longrightarrow> shard_of store' = shard_of store"
  by (simp add: shard_of_def fun_eq_iff)

text \<open>Replacing one shard by a good one, with the size corrected, keeps the store good.\<close>

lemma store_inv_replace:
  assumes "store_inv store" and "i < length (ls_shards store)" and "shard_ok sh"
    and "ls_shards store' = (ls_shards store)[i := sh]"
    and "ls_size store' = ls_size store - int (length (sh_buckets (ls_shards store ! i)))
           + int (length (sh_buckets sh))"
  shows "store_inv store'"
  using assms set_update_subset_insert [of "ls_shards store" i sh]
  by (fastforce simp: store_inv_ok sum_list_map_update)

lemma store_capacity_replace:
  assumes "i < length (ls_shards store)" and "ls_shards store' = (ls_shards store)[i := sh]"
    and "sh_maxBuckets sh = sh_maxBuckets (ls_shards store ! i)"
  shows "store_capacity store' = store_capacity store"
  using assms by (simp add: store_capacity_def sum_list_map_update_same)

lemma shard_ok_put:
  assumes "shard_ok sh" and "key \<in> set (keys (sh_buckets sh))" and "bucket_inv b"
  shows "shard_ok (sh\<lparr>sh_buckets := AList.update key b (sh_buckets sh)\<rparr>)"
proof -
  have "shard_inv (sh\<lparr>sh_buckets := AList.update key b (sh_buckets sh)\<rparr>)"
    using assms(1,2) unfolding shard_ok_def shard_inv_def
    by (simp add: alist_simps(1,4) distinct_update insert_absorb)
  moreover have "\<forall>(k, b) \<in> set (AList.update key b (sh_buckets sh)). bucket_inv b"
    using assms(1,3) set_AList_update [of key b "sh_buckets sh"] by (auto simp: shard_ok_def)
  ultimately show ?thesis by (simp add: shard_ok_def)
qed

lemma shard_ok_insert:
  assumes "shard_ok sh" and "key \<notin> set (keys (sh_buckets sh))" and "bucket_inv b"
  shows "\<exists>ev sh'. shard_insert sh key b = Some (ev, sh') \<and> shard_ok sh'
    \<and> sh_maxBuckets sh' = sh_maxBuckets sh
    \<and> map_of (sh_buckets sh') key = Some b
    \<and> length (sh_buckets sh') = length (sh_buckets sh) + (if ev then 0 else 1)
    \<and> ev = (length (sh_buckets sh) = sh_maxBuckets sh)
    \<and> (\<not> ev \<longrightarrow> map_of (sh_buckets sh') = (map_of (sh_buckets sh))(key \<mapsto> b))
    \<and> (ev \<longrightarrow> (\<exists>old. old \<in> set (keys (sh_buckets sh)) \<and>
          map_of (sh_buckets sh') = (map_of (sh_buckets sh))(old := None, key \<mapsto> b)))"
proof (cases "length (sh_buckets sh) < sh_maxBuckets sh")
  case True
  from assms(1) have inv: "shard_inv sh" by (simp add: shard_ok_def)
  from shard_insert_free [OF inv assms(2) True, of b] obtain sh' where
    "shard_insert sh key b = Some (False, sh')" "shard_inv sh'"
    "sh_buckets sh' = AList.update key b (sh_buckets sh)" "sh_maxBuckets sh' = sh_maxBuckets sh"
    by blast
  with True assms set_AList_update [of key b "sh_buckets sh"] show ?thesis
    by (fastforce simp: shard_ok_def alist_simps(1,5))
next
  case False
  from assms(1) have inv: "shard_inv sh" by (simp add: shard_ok_def)
  from shard_insert_evict [OF inv assms(2) False, of b] obtain sh' old where h:
    "shard_insert sh key b = Some (True, sh')" "shard_inv sh'" "old \<in> set (keys (sh_buckets sh))"
    "sh_buckets sh' = AList.update key b (AList.delete old (sh_buckets sh))"
    "sh_maxBuckets sh' = sh_maxBuckets sh" by blast
  have d: "distinct (keys (sh_buckets sh))" using inv by (simp add: shard_inv_def)
  have "0 < length (sh_buckets sh)" using h(3) by (cases "sh_buckets sh") auto
  then have len: "length (sh_buckets sh') = length (sh_buckets sh)"
    using h(3,4) assms(2) length_AList_delete [OF d, of old] by (auto simp: alist_simps(1,3))
  have ok: "shard_ok sh'"
    using assms h(2,4) set_AList_update [of key b "AList.delete old (sh_buckets sh)"]
      set_AList_delete [of old "sh_buckets sh"]
    by (fastforce simp: shard_ok_def)
  have "length (sh_buckets sh) = sh_maxBuckets sh" using shard_inv_full(4) [OF inv False] .
  with h len ok show ?thesis by (auto simp: alist_simps(5,6) fun_upd_def fun_eq_iff)
qed

lemma store_inv_shard:
  "store_inv store \<Longrightarrow> shard_of store key < length (ls_shards store)
     \<and> shard_ok (ls_shards store ! shard_of store key)"
  using shard_of_less [of store key] by (auto simp: store_inv_ok)

lemma bucket_or_new_inv:
  assumes "store_inv store" and "policy_ok policy"
  shows "bucket_inv (bucket_or_new store key policy now)"
proof (cases "store_lookup store key")
  case None
  then show ?thesis using assms(2) by (simp add: bucket_or_new_def newBucket_inv)
next
  case (Some b)
  then have "(key, b) \<in> set (sh_buckets (ls_shards store ! shard_of store key))"
    by (auto simp: store_lookup_def dest: map_of_SomeD)
  with store_inv_shard [OF assms(1), of key] Some show ?thesis
    by (auto simp: bucket_or_new_def shard_ok_def)
qed

text \<open>The shards after a key's bucket is written: a step all the operations share.\<close>

definition store_step :: "LocalStore \<Rightarrow> go_string \<Rightarrow> localBucket \<Rightarrow> LocalStore \<Rightarrow> bool" where
  "store_step store key b store' \<longleftrightarrow>
     store_inv store' \<and> store_capacity store' = store_capacity store
     \<and> length (ls_shards store') = length (ls_shards store)
     \<and> store_lookup store' key = Some b
     \<and> (\<forall>k. k \<noteq> key \<longrightarrow> store_lookup store' k = store_lookup store k \<or> store_lookup store' k = None)
     \<and> (store_lookup store key \<noteq> None \<longrightarrow>
          store_lookup store' = (store_lookup store)(key \<mapsto> b)
          \<and> ls_size store' = ls_size store \<and> ls_evictions store' = ls_evictions store)
     \<and> (ls_evictions store' = ls_evictions store \<longrightarrow>
          store_lookup store' = (store_lookup store)(key \<mapsto> b))"

lemma lookup_replace:
  assumes "shard_of store key < length (ls_shards store)"
    and "ls_shards store' = (ls_shards store)[shard_of store key := sh]"
  shows "store_lookup store' k =
    (if shard_of store k = shard_of store key then map_of (sh_buckets sh) k else store_lookup store k)"
  using assms by (simp add: store_lookup_def shard_of_replace [OF assms(2)])

lemma put_bucket_step:
  assumes inv: "store_inv store" and old: "store_lookup store key \<noteq> None" and b: "bucket_inv b"
  shows "store_step store key b (put_bucket store (shard_of store key) key b)"
proof -
  let ?i = "shard_of store key" and ?s = "put_bucket store (shard_of store key) key b"
  let ?sh = "(ls_shards store ! ?i)\<lparr>sh_buckets := AList.update key b (sh_buckets (ls_shards store ! ?i))\<rparr>"
  have i: "?i < length (ls_shards store)" and ok: "shard_ok (ls_shards store ! ?i)"
    using store_inv_shard [OF inv] by auto
  have key: "key \<in> set (keys (sh_buckets (ls_shards store ! ?i)))"
    using old by (simp add: store_lookup_def map_of_eq_None_iff)
  have shards: "ls_shards ?s = (ls_shards store)[?i := ?sh]" by (simp add: put_bucket_def)
  have fr: "ls_size ?s = ls_size store" "ls_evictions ?s = ls_evictions store"
    by (simp_all add: put_bucket_def)
  have "length (sh_buckets ?sh) = length (sh_buckets (ls_shards store ! ?i))"
    using key by (simp add: alist_simps(1))
  then have "store_inv ?s"
    using store_inv_replace [OF inv i shard_ok_put [OF ok key b] shards] fr by simp
  moreover have "store_capacity ?s = store_capacity store"
    by (rule store_capacity_replace [OF i shards]) simp
  moreover have "store_lookup ?s = (store_lookup store)(key \<mapsto> b)"
    by (rule ext) (simp add: lookup_replace [OF i shards] alist_simps(5), simp add: store_lookup_def)
  ultimately show ?thesis by (simp add: store_step_def fr shards)
qed

lemma insertBucket_step:
  assumes inv: "store_inv store" and new: "store_lookup store key = None" and b: "bucket_inv b"
  shows "\<exists>store'. insertBucket store (shard_of store key) key b = Some store'
    \<and> store_step store key b store'"
proof -
  let ?i = "shard_of store key" and ?sh = "ls_shards store ! shard_of store key"
  have i: "?i < length (ls_shards store)" and ok: "shard_ok ?sh"
    using store_inv_shard [OF inv] by auto
  have key: "key \<notin> set (keys (sh_buckets ?sh))"
    using new by (simp add: store_lookup_def map_of_eq_None_iff)
  from shard_ok_insert [OF ok key b] obtain ev sh' where h:
    "shard_insert ?sh key b = Some (ev, sh')" "shard_ok sh'" "sh_maxBuckets sh' = sh_maxBuckets ?sh"
    "map_of (sh_buckets sh') key = Some b"
    "length (sh_buckets sh') = length (sh_buckets ?sh) + (if ev then 0 else 1)"
    "\<not> ev \<longrightarrow> map_of (sh_buckets sh') = (map_of (sh_buckets ?sh))(key \<mapsto> b)"
    "ev \<longrightarrow> (\<exists>old. old \<in> set (keys (sh_buckets ?sh)) \<and>
          map_of (sh_buckets sh') = (map_of (sh_buckets ?sh))(old := None, key \<mapsto> b))" by blast
  define store' where "store' = store\<lparr>ls_shards := (ls_shards store)[?i := sh'],
      ls_size := (if ev then ls_size store else ls_size store + 1),
      ls_evictions := (if ev then ls_evictions store + 1 else ls_evictions store)\<rparr>"
  have eq: "insertBucket store ?i key b = Some store'"
    using i h(1) by (simp add: insertBucket_def slice_get_def store'_def)
  have shards: "ls_shards store' = (ls_shards store)[?i := sh']" by (simp add: store'_def)
  have "store_inv store'"
    using store_inv_replace [OF inv i h(2) shards] h(5) by (simp add: store'_def split: if_splits)
  moreover have "store_capacity store' = store_capacity store"
    by (rule store_capacity_replace [OF i shards h(3)])
  moreover have "k \<noteq> key \<Longrightarrow> store_lookup store' k = store_lookup store k \<or> store_lookup store' k = None" for k
    using h(6,7) by (cases ev) (auto simp: lookup_replace [OF i shards] store_lookup_def [of store] split: if_splits)
  moreover have "\<not> ev \<Longrightarrow> store_lookup store' = (store_lookup store)(key \<mapsto> b)"
    using h(6) by (auto simp: lookup_replace [OF i shards] store_lookup_def [of store])
  moreover have "ls_evictions store' = ls_evictions store \<Longrightarrow> \<not> ev"
    by (auto simp: store'_def)
  ultimately show ?thesis
    using eq h(4) new by (auto simp: store_step_def lookup_replace [OF i shards] shards)
qed

section \<open>The operations of the store\<close>

lemma put_after_step:
  assumes "store_step store key b store'" and "bucket_inv b'"
  shows "store_step store key b' (put_bucket store' (shard_of store key) key b')"
proof -
  from assms(1) have inv: "store_inv store'" and some: "store_lookup store' key = Some b"
    and len: "length (ls_shards store') = length (ls_shards store)"
    by (auto simp: store_step_def)
  have i: "shard_of store' key = shard_of store key" using len by (simp add: shard_of_def)
  have s: "store_step store' key b' (put_bucket store' (shard_of store' key) key b')"
    by (rule put_bucket_step [OF inv _ assms(2)]) (simp add: some)
  then have upd: "store_lookup (put_bucket store' (shard_of store key) key b') =
      (store_lookup store')(key \<mapsto> b')"
    and fr: "ls_size (put_bucket store' (shard_of store key) key b') = ls_size store'"
      "ls_evictions (put_bucket store' (shard_of store key) key b') = ls_evictions store'"
    using some by (simp_all add: store_step_def i)
  from s assms(1) show ?thesis
    unfolding i store_step_def upd fr by auto
qed

lemma LocalStore_Take_step:
  assumes inv: "store_inv store" and pol: "policy_ok policy"
  shows "\<exists>store'. LocalStore_Take store key policy now =
      Some (\<lparr>ld_Allowed = fst (bucket_take policy (bucket_or_new store key policy now) now),
             ld_Bucket = localBucket_state
               (snd (bucket_take policy (bucket_or_new store key policy now) now)) ''local''\<rparr>, store')
    \<and> store_step store key (snd (bucket_take policy (bucket_or_new store key policy now) now)) store'"
proof -
  let ?b = "bucket_or_new store key policy now" and ?i = "shard_of store key"
  have i: "?i < length (ls_shards store)" using store_inv_shard [OF inv] by blast
  have b': "bucket_inv (snd (bucket_take policy ?b now))"
    by (rule bucket_take_inv [OF bucket_or_new_inv [OF inv pol] pol])
  show ?thesis
  proof (cases "store_lookup store key")
    case None
    from insertBucket_step [OF inv None newBucket_inv [OF pol, of now]] obtain store' where
      s: "insertBucket store ?i key (newBucket policy now) = Some store'"
      "store_step store key (newBucket policy now) store'" by blast
    with put_after_step [OF s(2) b'] None i show ?thesis
      by (simp add: LocalStore_Take_def Let_def slice_get_def split_def
          store_lookup_def bucket_or_new_def)
  next
    case (Some b)
    with put_bucket_step [OF inv _ b', of key] i show ?thesis
      by (simp add: LocalStore_Take_def Let_def slice_get_def split_def
          store_lookup_def bucket_or_new_def)
  qed
qed

lemma LocalStore_Reset_step:
  assumes inv: "store_inv store" and pol: "policy_ok policy"
  shows "\<exists>store'. LocalStore_Reset store key policy now =
      Some (localBucket_state (newBucket policy now) ''local'', store')
    \<and> store_step store key (newBucket policy now) store'"
proof -
  let ?i = "shard_of store key"
  have i: "?i < length (ls_shards store)" using store_inv_shard [OF inv] by blast
  show ?thesis
    using insertBucket_step [OF inv _ newBucket_inv [OF pol, of now], of key]
      put_bucket_step [OF inv _ newBucket_inv [OF pol, of now], of key] i
    by (cases "store_lookup store key")
      (auto simp: LocalStore_Reset_def Let_def slice_get_def store_lookup_def)
qed

lemma LocalStore_Peek_step:
  assumes inv: "store_inv store"
  shows "LocalStore_Peek store key policy now =
    Some (localBucket_state
      (localBucket_refill (applyPolicy (bucket_or_new store key policy now) policy now) now) ''local'')"
proof -
  have "localBucket_refill (applyPolicy (newBucket policy now) policy now) now = newBucket policy now"
    by (simp add: applyPolicy_def localBucket_refill_def newBucket_def)
  moreover have "shard_of store key < length (ls_shards store)"
    using store_inv_shard [OF inv, of key] by simp
  ultimately show ?thesis
    by (simp add: LocalStore_Peek_def slice_get_def store_lookup_def bucket_or_new_def split: option.splits)
qed

text \<open>The size of a new store's shards adds up to the bound it was given.\<close>

lemma sum_list_if_less: "k \<le> n \<Longrightarrow> (\<Sum>i \<leftarrow> [0..<n]. if i < k then q + 1 else q) = n * q + (k :: nat)"
proof (induction n arbitrary: k)
  case 0
  then show ?case by simp
next
  case (Suc n)
  have ext: "(\<Sum>i \<leftarrow> [0..<n]. if i < Suc n then q + 1 else q) = (\<Sum>i \<leftarrow> [0..<n]. if i < n then q + 1 else q)"
    by (intro arg_cong [where f = sum_list] map_cong) auto
  from Suc show ?case
    by (cases "k = Suc n") (use Suc.IH [of n] ext in auto)
qed

lemma NewBoundedLocalStore_shards:
  fixes shardCount maxBuckets :: int
  defines "m \<equiv> nat (max 1 maxBuckets)" and "n \<equiv> nat (min (max 1 shardCount) (max 1 maxBuckets))"
  shows "ls_shards (NewBoundedLocalStore shardCount maxBuckets) =
      map (\<lambda>i. empty_shard (if i < m mod n then m div n + 1 else m div n)) [0..<n]"
    and "0 < n" and "1 \<le> m div n"
proof -
  show "ls_shards (NewBoundedLocalStore shardCount maxBuckets) =
      map (\<lambda>i. empty_shard (if i < m mod n then m div n + 1 else m div n)) [0..<n]"
    by (auto simp: NewBoundedLocalStore_def m_def n_def Let_def max_def min_def)
  show n: "0 < n" by (simp add: n_def max_def)
  have "n \<le> m" by (auto simp: n_def m_def)
  with n show "1 \<le> m div n" by (simp add: Suc_leI div_greater_zero_iff)
qed

lemma empty_shard_ok: "1 \<le> q \<Longrightarrow> shard_ok (empty_shard q)"
  by (auto simp: shard_ok_def shard_inv_def empty_shard_def)

lemma NewBoundedLocalStore_ok:
  "store_inv (NewBoundedLocalStore shardCount maxBuckets)
   \<and> store_capacity (NewBoundedLocalStore shardCount maxBuckets) = nat (max 1 maxBuckets)
   \<and> store_lookup (NewBoundedLocalStore shardCount maxBuckets) = Map.empty"
proof -
  let ?s = "NewBoundedLocalStore shardCount maxBuckets"
  define m n where "m = nat (max 1 maxBuckets)"
    and "n = nat (min (max 1 shardCount) (max 1 maxBuckets))"
  note sh = NewBoundedLocalStore_shards(1) [of shardCount maxBuckets, folded m_def n_def]
    and n = NewBoundedLocalStore_shards(2) [of shardCount maxBuckets, folded n_def]
    and q = NewBoundedLocalStore_shards(3) [of maxBuckets shardCount, folded m_def n_def]
  let ?f = "\<lambda>i. if i < m mod n then m div n + 1 else m div n"
  have size: "ls_size ?s = 0" by (simp add: NewBoundedLocalStore_def Let_def)
  have e: "sh_buckets (empty_shard x) = []" "sh_maxBuckets (empty_shard x) = x" for x
    by (simp_all add: empty_shard_def)
  have ok: "shard_ok (empty_shard (?f i))" for i
    by (rule empty_shard_ok) (use q in auto)
  have "store_inv ?s"
    unfolding store_inv_ok sh size using n ok by (simp add: comp_def e)
  moreover have "store_capacity ?s = (\<Sum>i \<leftarrow> [0..<n]. ?f i)"
    unfolding store_capacity_def sh by (simp add: comp_def e)
  moreover have "(\<Sum>i \<leftarrow> [0..<n]. ?f i) = m"
    using sum_list_if_less [of "m mod n" n "m div n"] n by (simp add: less_imp_le)
  moreover have "store_lookup ?s key = None" for key
  proof -
    have "shard_of ?s key < n" using n by (simp add: shard_of_def sh)
    then show ?thesis by (simp add: store_lookup_def sh e)
  qed
  ultimately show ?thesis by (auto simp: m_def)
qed

section \<open>Cleanup\<close>

text \<open>What one shard's sweep does: the listed buckets that are stale are gone, the others stay.\<close>

lemma cleanup_buckets_ok:
  assumes "shard_ok sh" and "distinct (keys bs)" and "set bs \<subseteq> set (sh_buckets sh)"
  shows "\<exists>sh' n. cleanup_buckets cutoff bs (sh, sz) = Some (sh', sz - int n) \<and> shard_ok sh'
    \<and> sh_maxBuckets sh' = sh_maxBuckets sh
    \<and> length (sh_buckets sh') + n = length (sh_buckets sh)
    \<and> map_of (sh_buckets sh') =
        (\<lambda>k. case map_of bs k of
               Some b \<Rightarrow> if lb_lastSeen b < cutoff then None else map_of (sh_buckets sh) k
             | None \<Rightarrow> map_of (sh_buckets sh) k)"
  using assms
proof (induction bs arbitrary: sh sz)
  case Nil
  then show ?case by auto
next
  case (Cons p bs)
  obtain key b where p: "p = (key, b)" by (cases p)
  note Cons.prems [unfolded p]
  then have sub: "set bs \<subseteq> set (sh_buckets sh)" and d: "distinct (keys bs)"
    and nk: "key \<notin> set (keys bs)" and mem: "key \<in> set (keys (sh_buckets sh))"
    and inv: "shard_inv sh" by (force simp: shard_ok_def)+
  have n0: "0 < length (sh_buckets sh)" using mem by (cases "sh_buckets sh") auto
  show ?case
  proof (cases "lb_lastSeen b < cutoff")
    case True
    from shard_delete [OF inv mem] obtain sh1 where s: "deleteBucket sh key = Some sh1"
      "shard_inv sh1" "sh_buckets sh1 = AList.delete key (sh_buckets sh)"
      "sh_maxBuckets sh1 = sh_maxBuckets sh" by blast
    have ok1: "shard_ok sh1"
      using Cons.prems(1) s set_AList_delete [of key "sh_buckets sh"] by (fastforce simp: shard_ok_def)
    have sub1: "set bs \<subseteq> set (sh_buckets sh1)"
      using sub nk by (force simp: s(3) AList.delete_eq)
    have len1: "Suc (length (sh_buckets sh1)) = length (sh_buckets sh)"
      using length_AList_delete [OF shard_invD(2) [OF inv], of key] mem n0
      by (simp only: s(3) if_True)
    from Cons.IH [OF ok1 d sub1, of "sz - 1"] obtain sh' n where r:
      "cleanup_buckets cutoff bs (sh1, sz - 1) = Some (sh', sz - 1 - int n)" "shard_ok sh'"
      "sh_maxBuckets sh' = sh_maxBuckets sh1" "length (sh_buckets sh') + n = length (sh_buckets sh1)"
      "map_of (sh_buckets sh') =
        (\<lambda>k. case map_of bs k of
               Some b \<Rightarrow> if lb_lastSeen b < cutoff then None else map_of (sh_buckets sh1) k
             | None \<Rightarrow> map_of (sh_buckets sh1) k)" by blast
    have nk': "map_of bs key = None" using nk by (simp add: map_of_eq_None_iff)
    show ?thesis
      using True r s len1 nk' unfolding p
      by (intro exI [of _ sh'] exI [of _ "Suc n"])
        (auto simp: alist_simps(6) fun_eq_iff split: option.splits)
  next
    case False
    from Cons.IH [OF Cons.prems(1) d sub, of sz] obtain sh' n where r:
      "cleanup_buckets cutoff bs (sh, sz) = Some (sh', sz - int n)" "shard_ok sh'"
      "sh_maxBuckets sh' = sh_maxBuckets sh" "length (sh_buckets sh') + n = length (sh_buckets sh)"
      "map_of (sh_buckets sh') =
        (\<lambda>k. case map_of bs k of
               Some b \<Rightarrow> if lb_lastSeen b < cutoff then None else map_of (sh_buckets sh) k
             | None \<Rightarrow> map_of (sh_buckets sh) k)" by blast
    have nk': "map_of bs key = None" using nk by (simp add: map_of_eq_None_iff)
    show ?thesis
      using False r nk' unfolding p
      by (intro exI [of _ sh'] exI [of _ n]) (auto simp: fun_eq_iff split: option.splits)
  qed
qed

definition keep_fresh :: "instant \<Rightarrow> localBucket option \<Rightarrow> localBucket option" where
  "keep_fresh cutoff entry =
     (case entry of Some b \<Rightarrow> if lb_lastSeen b < cutoff then None else Some b | None \<Rightarrow> None)"

lemma cleanup_shards_ok:
  assumes "\<forall>sh \<in> set shards. shard_ok sh"
  shows "\<exists>shards'. cleanup_shards cutoff shards sz =
      Some (shards', sz - (\<Sum>sh \<leftarrow> shards. int (length (sh_buckets sh)))
                        + (\<Sum>sh \<leftarrow> shards'. int (length (sh_buckets sh))))
    \<and> (\<forall>sh \<in> set shards'. shard_ok sh) \<and> map sh_maxBuckets shards' = map sh_maxBuckets shards
    \<and> map (map_of \<circ> sh_buckets) shards' = map (\<lambda>sh. keep_fresh cutoff \<circ> map_of (sh_buckets sh)) shards"
  using assms
proof (induction shards arbitrary: sz)
  case Nil
  then show ?case by simp
next
  case (Cons sh shards)
  then have ok: "shard_ok sh" and d: "distinct (keys (sh_buckets sh))"
    by (auto simp: shard_ok_def shard_inv_def)
  from cleanup_buckets_ok [OF ok d order_refl] obtain sh' n where a:
    "cleanup_buckets cutoff (sh_buckets sh) (sh, sz) = Some (sh', sz - int n)" "shard_ok sh'"
    "sh_maxBuckets sh' = sh_maxBuckets sh" "length (sh_buckets sh') + n = length (sh_buckets sh)"
    "map_of (sh_buckets sh') =
        (\<lambda>k. case map_of (sh_buckets sh) k of
               Some b \<Rightarrow> if lb_lastSeen b < cutoff then None else map_of (sh_buckets sh) k
             | None \<Rightarrow> map_of (sh_buckets sh) k)" by blast
  have m: "map_of (sh_buckets sh') = keep_fresh cutoff \<circ> map_of (sh_buckets sh)"
    using a(5) by (auto simp: keep_fresh_def fun_eq_iff split: option.splits)
  from Cons.IH [of "sz - int n"] Cons.prems obtain shards' where b:
    "cleanup_shards cutoff shards (sz - int n) =
      Some (shards', sz - int n - (\<Sum>sh \<leftarrow> shards. int (length (sh_buckets sh)))
                        + (\<Sum>sh \<leftarrow> shards'. int (length (sh_buckets sh))))"
    "\<forall>sh \<in> set shards'. shard_ok sh" "map sh_maxBuckets shards' = map sh_maxBuckets shards"
    "map (map_of \<circ> sh_buckets) shards' = map (\<lambda>sh. keep_fresh cutoff \<circ> map_of (sh_buckets sh)) shards"
    by (meson list.set_intros(2))
  have len: "int (length (sh_buckets sh)) = int (length (sh_buckets sh')) + int n"
    using a(4) by linarith
  show ?case
    using a(1-3) b m by (intro exI [of _ "sh' # shards'"]) (simp add: len comp_def)
qed

lemma LocalStore_Cleanup_ok:
  assumes inv: "store_inv store"
  shows "\<exists>store'. LocalStore_Cleanup store olderThan now = Some store' \<and> store_inv store'
    \<and> store_capacity store' = store_capacity store
    \<and> store_lookup store' = keep_fresh (now - olderThan) \<circ> store_lookup store"
proof -
  from inv have "\<forall>sh \<in> set (ls_shards store). shard_ok sh" by (simp add: store_inv_ok)
  from cleanup_shards_ok [OF this, of "now - olderThan" "ls_size store"] obtain shards' where c:
    "cleanup_shards (now - olderThan) (ls_shards store) (ls_size store) =
      Some (shards', ls_size store - (\<Sum>sh \<leftarrow> ls_shards store. int (length (sh_buckets sh)))
                        + (\<Sum>sh \<leftarrow> shards'. int (length (sh_buckets sh))))"
    "\<forall>sh \<in> set shards'. shard_ok sh" "map sh_maxBuckets shards' = map sh_maxBuckets (ls_shards store)"
    "map (map_of \<circ> sh_buckets) shards' =
      map (\<lambda>sh. keep_fresh (now - olderThan) \<circ> map_of (sh_buckets sh)) (ls_shards store)" by blast
  have len: "length shards' = length (ls_shards store)" using c(3) by (metis length_map)
  have nth: "i < length (ls_shards store) \<Longrightarrow> map_of (sh_buckets (shards' ! i)) =
      keep_fresh (now - olderThan) \<circ> map_of (sh_buckets (ls_shards store ! i))" for i
    using c(4) len by (auto simp: list_eq_iff_nth_eq)
  define store' where "store' = store\<lparr>ls_shards := shards',
      ls_size := (\<Sum>sh \<leftarrow> shards'. int (length (sh_buckets sh)))\<rparr>"
  have eq: "LocalStore_Cleanup store olderThan now = Some store'"
    using c(1) inv by (simp add: LocalStore_Cleanup_def store'_def store_inv_def)
  have "shards' \<noteq> []" using len inv by (auto simp: store_inv_def)
  then have "store_inv store'" using c(2) by (simp add: store_inv_ok store'_def)
  moreover have "store_capacity store' = store_capacity store"
    using c(3) by (simp add: store_capacity_def store'_def)
  moreover have "store_lookup store' k = keep_fresh (now - olderThan) (store_lookup store k)" for k
  proof -
    have so: "shard_of store' k = shard_of store k" using len by (simp add: shard_of_def store'_def)
    have "shard_of store k < length (ls_shards store)" using store_inv_shard [OF inv] by blast
    from nth [OF this] show ?thesis unfolding store_lookup_def so by (simp add: store'_def)
  qed
  ultimately show ?thesis using eq by (intro exI [of _ store']) (simp add: fun_eq_iff)
qed

section \<open>A key's calls are calls of a token bucket\<close>

text \<open>A client that only takes from one key, as a draw on the whole store.\<close>

definition store_draw :: "go_string \<Rightarrow> Policy \<Rightarrow> LocalStore \<Rightarrow> instant \<Rightarrow> bool \<times> LocalStore" where
  "store_draw key policy store now =
     (case LocalStore_Take store key policy now of
        Some (d, store') \<Rightarrow> (ld_Allowed d, store') | None \<Rightarrow> (False, store))"

lemma bucket_take_own [simp]: "own_policy (snd (bucket_take (own_policy b) b now)) = own_policy b"
  by (simp add: own_policy_def bucket_take_def Let_def)
    (simp add: applyPolicy_own [unfolded own_policy_def])

lemma run_store_draws:
  assumes "store_inv store" and "store_lookup store key = Some b"
    and "own_policy b = policy" and "policy_ok policy"
  shows "fst (run_draws (store_draw key policy) store ts) =
    fst (run_draws (\<lambda>b. bucket_take (own_policy b) b) b ts)"
  using assms
proof (induction ts arbitrary: store b)
  case Nil
  then show ?case by simp
next
  case (Cons t ts)
  let ?b = "snd (bucket_take policy b t)"
  have bn: "bucket_or_new store key policy t = b" using Cons.prems(2) by (simp add: bucket_or_new_def)
  from LocalStore_Take_step [OF Cons.prems(1,4), of key t] obtain store' where t:
    "store_draw key policy store t = (fst (bucket_take policy b t), store')"
    "store_step store key ?b store'" by (auto simp: bn store_draw_def)
  have "own_policy ?b = policy" using Cons.prems(3) bucket_take_own [of b t] by simp
  with Cons.IH [of store' ?b] t(2) Cons.prems(4)
  have "fst (run_draws (store_draw key policy) store' ts) =
    fst (run_draws (\<lambda>b. bucket_take (own_policy b) b) ?b ts)" by (simp add: store_step_def)
  with t(1) Cons.prems(3) show ?case by (simp add: split_def)
qed

lemma store_admits_at_most:
  assumes "store_inv store" and "store_lookup store key = Some b"
    and "own_policy b = policy" and "chronological (lb_lastRefill b) ts"
  shows "of_nat (fst (run_draws (store_draw key policy) store ts))
    \<le> of_int (pol_Capacity policy)
       + pol_RefillPerSecond policy * seconds (last (lb_lastRefill b # ts) - lb_lastRefill b)"
proof -
  have inv: "bucket_inv b"
    using bucket_or_new_inv [OF assms(1), of "\<lparr>pol_Capacity = 1, pol_RefillPerSecond = 1\<rparr>" key] assms(2)
    by (simp add: bucket_or_new_def policy_ok_def)
  then have ok: "policy_ok policy" using own_policy_ok assms(3) by blast
  from local_bucket.admitted_at_most [OF inv assms(4)] show ?thesis
    unfolding run_store_draws [OF assms(1,2,3) ok] using assms(3) by (auto simp: own_policy_def)
qed

section \<open>Every store the program can reach\<close>

text \<open>The states of a store after any sequence of calls with valid policies.\<close>

inductive store_reachable :: "int \<Rightarrow> int \<Rightarrow> LocalStore \<Rightarrow> bool" for shardCount maxBuckets where
  init: "store_reachable shardCount maxBuckets (NewBoundedLocalStore shardCount maxBuckets)"
| take: "store_reachable shardCount maxBuckets store \<Longrightarrow> policy_ok policy \<Longrightarrow>
    LocalStore_Take store key policy now = Some (d, store') \<Longrightarrow>
    store_reachable shardCount maxBuckets store'"
| reset: "store_reachable shardCount maxBuckets store \<Longrightarrow> policy_ok policy \<Longrightarrow>
    LocalStore_Reset store key policy now = Some (b, store') \<Longrightarrow>
    store_reachable shardCount maxBuckets store'"
| cleanup: "store_reachable shardCount maxBuckets store \<Longrightarrow>
    LocalStore_Cleanup store olderThan now = Some store' \<Longrightarrow>
    store_reachable shardCount maxBuckets store'"

lemma store_reachable_inv:
  "store_reachable shardCount maxBuckets store \<Longrightarrow>
   store_inv store \<and> store_capacity store = nat (max 1 maxBuckets)"
proof (induction rule: store_reachable.induct)
  case init
  then show ?case by (simp add: NewBoundedLocalStore_ok)
next
  case (take store policy key now d store')
  with LocalStore_Take_step [of store policy key now] show ?case by (auto simp: store_step_def)
next
  case (reset store policy key now b store')
  with LocalStore_Reset_step [of store policy key now] show ?case by (auto simp: store_step_def)
next
  case (cleanup store olderThan now store')
  with LocalStore_Cleanup_ok [of store olderThan now] show ?case by auto
qed

lemma sum_list_int_nat: "(\<Sum>x \<leftarrow> xs. int (f x)) = int (\<Sum>x \<leftarrow> xs. f x)"
  by (induction xs) auto

lemma store_size_bounded:
  assumes "store_inv store"
  shows "0 \<le> ls_size store \<and> ls_size store \<le> int (store_capacity store)"
proof -
  have "length (sh_buckets sh) \<le> sh_maxBuckets sh" if "sh \<in> set (ls_shards store)" for sh
    using assms that shard_invD(3,4) [of sh] by (auto simp: store_inv_def)
  then have "(\<Sum>sh \<leftarrow> ls_shards store. int (length (sh_buckets sh)))
      \<le> (\<Sum>sh \<leftarrow> ls_shards store. int (sh_maxBuckets sh))"
    by (intro sum_list_mono) simp
  moreover have "(\<Sum>sh \<leftarrow> ls_shards store. int (sh_maxBuckets sh)) = int (store_capacity store)"
    unfolding store_capacity_def by (rule sum_list_int_nat)
  moreover have "0 \<le> (\<Sum>sh \<leftarrow> ls_shards store. int (length (sh_buckets sh)))"
    by (intro sum_list_nonneg) auto
  ultimately show ?thesis using assms by (simp add: store_inv_def)
qed

section \<open>Properties\<close>

text \<open>C30. A bounded local store never holds more buckets than it was built for, whatever calls
  are made on it: the size it reports is the number of its buckets, which stays between 0 and the
  bound.\<close>

theorem local_store_bounded:
  assumes "store_reachable shardCount maxBuckets store"
  shows "lss_Buckets (LocalStore_Stats store) = (\<Sum>sh \<leftarrow> ls_shards store. int (length (sh_buckets sh)))
    \<and> 0 \<le> lss_Buckets (LocalStore_Stats store)
    \<and> lss_Buckets (LocalStore_Stats store) \<le> max 1 maxBuckets"
proof -
  from store_reachable_inv [OF assms] have i: "store_inv store"
    and c: "store_capacity store = nat (max 1 maxBuckets)" by auto
  then have "ls_size store = (\<Sum>sh \<leftarrow> ls_shards store. int (length (sh_buckets sh)))"
    by (simp add: store_inv_def)
  with store_size_bounded [OF i] c show ?thesis by (simp add: LocalStore_Stats_def split: if_splits)
qed

theorem local_store_bounded_witness:
  "lss_Buckets (LocalStore_Stats (NewBoundedLocalStore 4 10)) \<le> max 1 10"
  using local_store_bounded [OF store_reachable.init, of 4 10] by blast

text \<open>No call on a reachable store panics: \<open>Take\<close>, \<open>Peek\<close>, \<open>Reset\<close> and \<open>Cleanup\<close> return,
  for every key and valid policy. In particular the eviction slots are always in range.\<close>

theorem local_store_never_panics:
  assumes "store_reachable shardCount maxBuckets store" and "policy_ok policy"
  shows "(\<exists>d store'. LocalStore_Take store key policy now = Some (d, store'))
    \<and> (\<exists>b. LocalStore_Peek store key policy now = Some b)
    \<and> (\<exists>b store'. LocalStore_Reset store key policy now = Some (b, store'))
    \<and> (\<exists>store'. LocalStore_Cleanup store olderThan now = Some store')"
proof -
  from store_reachable_inv [OF assms(1)] have i: "store_inv store" by blast
  show ?thesis
    using LocalStore_Take_step [OF i assms(2)] LocalStore_Peek_step [OF i]
      LocalStore_Reset_step [OF i assms(2)] LocalStore_Cleanup_ok [OF i] by blast
qed

theorem local_store_never_panics_witness:
  "\<exists>d store'. LocalStore_Take (NewBoundedLocalStore 1 1) ''a''
     \<lparr>pol_Capacity = 1, pol_RefillPerSecond = 1\<rparr> 0 = Some (d, store')"
  using local_store_never_panics [OF store_reachable.init, of "\<lparr>pol_Capacity = 1, pol_RefillPerSecond = 1\<rparr>"]
  by (simp add: policy_ok_def)

text \<open>\<open>Take\<close> answers from the bucket of its key (a full one for a new key), stores the
  bucket it answered from, and touches no other key except one that it evicts; a key that was
  already there evicts nothing.\<close>

theorem local_store_take_spec:
  assumes "store_reachable shardCount maxBuckets store" and "policy_ok policy"
    and "LocalStore_Take store key policy now = Some (d, store')"
  shows "ld_Allowed d = fst (bucket_take policy (bucket_or_new store key policy now) now)
    \<and> store_lookup store' key = Some (snd (bucket_take policy (bucket_or_new store key policy now) now))
    \<and> (\<forall>k. k \<noteq> key \<longrightarrow> store_lookup store' k = store_lookup store k \<or> store_lookup store' k = None)
    \<and> (store_lookup store key \<noteq> None \<longrightarrow>
         (\<forall>k. k \<noteq> key \<longrightarrow> store_lookup store' k = store_lookup store k))"
proof -
  from store_reachable_inv [OF assms(1)] have i: "store_inv store" by blast
  from LocalStore_Take_step [OF i assms(2), of key now] assms(3) show ?thesis
    by (auto simp: store_step_def)
qed

theorem local_store_take_spec_witness:
  "\<exists>d store'. LocalStore_Take (NewBoundedLocalStore 1 1) ''a'' \<lparr>pol_Capacity = 1, pol_RefillPerSecond = 1\<rparr> 0
       = Some (d, store') \<and> ld_Allowed d \<and> store_lookup store' ''a'' \<noteq> None"
proof -
  let ?p = "\<lparr>pol_Capacity = 1, pol_RefillPerSecond = 1\<rparr>"
  have p: "policy_ok ?p" by (simp add: policy_ok_def)
  have "store_lookup (NewBoundedLocalStore 1 1) = Map.empty" by (simp add: NewBoundedLocalStore_ok)
  then have n: "bucket_or_new (NewBoundedLocalStore 1 1) ''a'' ?p 0 = newBucket ?p 0"
    by (simp add: bucket_or_new_def)
  from LocalStore_Take_step [OF _ p, of "NewBoundedLocalStore 1 1" "''a''" 0] obtain d store' where
    t: "LocalStore_Take (NewBoundedLocalStore 1 1) ''a'' ?p 0 = Some (d, store')"
    by (auto simp: NewBoundedLocalStore_ok)
  from local_store_take_spec [OF store_reachable.init p t] n t show ?thesis
    by (simp add: bucket_take_def newBucket_def applyPolicy_def localBucket_refill_def)
qed



text \<open>\<open>Cleanup\<close> removes exactly the buckets last used before the cutoff.\<close>

theorem local_store_cleanup:
  assumes "store_reachable shardCount maxBuckets store"
    and "LocalStore_Cleanup store olderThan now = Some store'"
  shows "store_lookup store' key =
    (case store_lookup store key of
       Some b \<Rightarrow> if lb_lastSeen b < now - olderThan then None else Some b
     | None \<Rightarrow> None)"
proof -
  from store_reachable_inv [OF assms(1)] have i: "store_inv store" by blast
  from LocalStore_Cleanup_ok [OF i, of olderThan now] assms(2) show ?thesis
    by (auto simp: keep_fresh_def)
qed

theorem local_store_cleanup_witness:
  "\<exists>store'. LocalStore_Cleanup (NewBoundedLocalStore 2 4) 5 100 = Some store'
     \<and> store_lookup store' ''a'' = None"
proof -
  have n: "store_inv (NewBoundedLocalStore 2 4)" "store_lookup (NewBoundedLocalStore 2 4) = Map.empty"
    by (simp_all add: NewBoundedLocalStore_ok)
  from LocalStore_Cleanup_ok [OF n(1), of 5 100] obtain store' where
    c: "LocalStore_Cleanup (NewBoundedLocalStore 2 4) 5 100 = Some store'" by blast
  from local_store_cleanup [OF store_reachable.init c, of "''a''"] c n(2) show ?thesis by simp
qed

end
