(* ===== verification/Netip.thy ===== *)
theory Netip
  imports Prelude
begin

text \<open>
  The part of Go's \<open>net/netip\<close> the program uses: addresses, the IPv4-mapped form, prefixes and
  membership. Reading an address from text and writing it back are parameters of the
  definitions that need them.
\<close>

unbundle bit_operations_syntax

datatype Addr = Addr4 "32 word" | Addr6 "128 word" go_string

text \<open>\<open>::ffff:0:0/96\<close>, the IPv4-mapped addresses.\<close>

definition mapped_prefix :: "128 word" where
  "mapped_prefix = 0xFFFF00000000"

definition Is4In6 :: "128 word \<Rightarrow> bool" where
  "Is4In6 a \<longleftrightarrow> drop_bit 32 a = 0xFFFF"

definition Unmap :: "Addr \<Rightarrow> Addr" where
  "Unmap addr = (case addr of Addr4 a \<Rightarrow> Addr4 a
     | Addr6 a zone \<Rightarrow> if Is4In6 a then Addr4 (ucast a) else Addr6 a zone)"

definition Is4 :: "Addr \<Rightarrow> bool" where
  "Is4 addr = (case addr of Addr4 a \<Rightarrow> True | Addr6 a z \<Rightarrow> False)"

text \<open>\<open>netip.PrefixFrom(addr, bits).Masked()\<close>: the zone is dropped; a length out of range gives
  the invalid prefix, here \<open>None\<close>.\<close>

definition masked_prefix :: "Addr \<Rightarrow> int \<Rightarrow> (Addr \<times> int) option" where
  "masked_prefix addr bits =
     (case addr of
        Addr4 a \<Rightarrow> if 0 \<le> bits \<and> bits \<le> 32
                   then Some (Addr4 (a AND NOT (mask (32 - nat bits))), bits) else None
      | Addr6 a zone \<Rightarrow> if 0 \<le> bits \<and> bits \<le> 128
                   then Some (Addr6 (a AND NOT (mask (128 - nat bits))) [], bits) else None)"

text \<open>\<open>Prefix.Contains\<close>: an address of the other family, or one with a zone, is not inside.\<close>

definition prefix_Contains :: "Addr \<times> int \<Rightarrow> Addr \<Rightarrow> bool" where
  "prefix_Contains p addr =
     (case (fst p, addr) of
        (Addr4 a, Addr4 b) \<Rightarrow> drop_bit (32 - nat (snd p)) (a XOR b) = 0
      | (Addr6 a z, Addr6 b zone) \<Rightarrow> zone = [] \<and> drop_bit (128 - nat (snd p)) (a XOR b) = 0
      | _ \<Rightarrow> False)"

lemma Unmap_idem [simp]: "Unmap (Unmap addr) = Unmap addr"
  by (auto simp: Unmap_def split: Addr.splits)

lemma Unmap_Addr4 [simp]: "Unmap (Addr4 a) = Addr4 a"
  by (simp add: Unmap_def)

lemma Is4_Addr [simp]: "Is4 (Addr4 a)" "\<not> Is4 (Addr6 b z)"
  by (simp_all add: Is4_def)

lemma Unmap_mapped: "Is4In6 a \<Longrightarrow> Unmap (Addr6 a zone) = Addr4 (ucast a)"
  by (simp add: Unmap_def)

text \<open>Masking keeps exactly the bits above the prefix length: two addresses have the same masked
  prefix when they agree on those bits.\<close>

lemma and_not_mask_eq_iff:
  fixes a b :: "'a :: len word"
  shows "a AND NOT (mask n) = b AND NOT (mask n) \<longleftrightarrow> drop_bit n (a XOR b) = 0"
proof
  assume h: "a AND NOT (mask n) = b AND NOT (mask n)"
  show "drop_bit n (a XOR b) = 0"
  proof (rule bit_word_eqI)
    fix i assume "i < LENGTH('a)"
    have "bit (a AND NOT (mask n)) (n + i) = bit (b AND NOT (mask n)) (n + i)" by (simp add: h)
    then show "bit (drop_bit n (a XOR b)) i = bit (0 :: 'a word) i"
      by (auto simp: bit_simps dest: bit_imp_le_length)
  qed
next
  assume h: "drop_bit n (a XOR b) = 0"
  show "a AND NOT (mask n) = b AND NOT (mask n)"
  proof (rule bit_word_eqI)
    fix i assume i: "i < LENGTH('a)"
    have "\<not> bit (drop_bit n (a XOR b)) (i - n)" unfolding h by simp
    with i show "bit (a AND NOT (mask n)) i = bit (b AND NOT (mask n)) i"
      by (cases "n \<le> i") (auto simp: bit_simps)
  qed
qed

end
