(* ===== verification/Limiter.thy ===== *)
theory Limiter
  imports Local_Store Netip
begin

text \<open>
  The limiter the request path calls (\<open>internal/ratelimit/limiter.go\<close>): the \<open>Store\<close> interface as
  a record of operations, the settings and their checks, the failure modes, and the middleware.
  Reading and writing IP addresses (\<open>parse\<close>, \<open>prefix_text\<close>) and the text of a float are
  parameters.
\<close>

type_synonym go_error = go_string

record 's Store =
  st_Name :: go_string
  st_Take :: "'s \<Rightarrow> go_string \<Rightarrow> Policy \<Rightarrow> instant \<Rightarrow> ((go_error + LimitDecision) \<times> 's) option"
  st_Peek :: "'s \<Rightarrow> go_string \<Rightarrow> Policy \<Rightarrow> instant \<Rightarrow> (go_error + BucketState) option"
  st_Reset :: "'s \<Rightarrow> go_string \<Rightarrow> Policy \<Rightarrow> instant \<Rightarrow> ((go_error + BucketState) \<times> 's) option"
  st_Healthy :: "'s \<Rightarrow> go_error option"

record RuntimeSettings =
  rs_Enabled :: bool
  rs_Policy :: Policy
  rs_FailureMode :: go_string
  rs_OperationTimeout :: duration
  rs_IPv4PrefixBits :: int
  rs_IPv6PrefixBits :: int

record 's TokenBucketLimiter =
  tb_primary :: 's
  tb_fallback :: LocalStore
  tb_settings :: RuntimeSettings

definition applyRuntimeDefaults :: "RuntimeSettings \<Rightarrow> RuntimeSettings" where
  "applyRuntimeDefaults s =
     (let s = (if rs_IPv4PrefixBits s = 0 then s\<lparr>rs_IPv4PrefixBits := 32\<rparr> else s)
      in if rs_IPv6PrefixBits s = 0 then s\<lparr>rs_IPv6PrefixBits := 64\<rparr> else s)"

definition validateSettings :: "RuntimeSettings \<Rightarrow> go_error option" where
  "validateSettings s =
     (if pol_Capacity (rs_Policy s) < 1 \<or> pol_RefillPerSecond (rs_Policy s) \<le> 0
         \<or> rs_OperationTimeout s \<le> 0
      then Some ''rate limit policy values must be positive''
      else if rs_FailureMode s \<noteq> ''fail-open'' \<and> rs_FailureMode s \<noteq> ''fail-closed''
         \<and> rs_FailureMode s \<noteq> ''local-fallback''
      then Some (''unknown rate limit failure mode '' @ rs_FailureMode s)
      else if rs_IPv4PrefixBits s < 1 \<or> rs_IPv4PrefixBits s > 32
         \<or> rs_IPv6PrefixBits s < 1 \<or> rs_IPv6PrefixBits s > 128
      then Some ''rate limit client prefix bits are invalid''
      else None)"

definition normalizeClientKey ::
    "(go_string \<Rightarrow> Addr option) \<Rightarrow> ((Addr \<times> int) option \<Rightarrow> go_string) \<Rightarrow> go_string \<Rightarrow> RuntimeSettings \<Rightarrow> go_string" where
  "normalizeClientKey parse prefix_text key s =
     (case parse key of
        None \<Rightarrow> key
      | Some address \<Rightarrow>
          (let address = Unmap address;
               bits = (if Is4 address then rs_IPv4PrefixBits s else rs_IPv6PrefixBits s)
           in prefix_text (masked_prefix address bits)))"

text \<open>A missing store is the argument \<open>None\<close>.\<close>

definition NewTokenBucketLimiter ::
    "RuntimeSettings \<Rightarrow> 's option \<Rightarrow> LocalStore option \<Rightarrow> go_error + 's TokenBucketLimiter" where
  "NewTokenBucketLimiter s primary fallback =
     (let s = applyRuntimeDefaults s in
      case validateSettings s of
        Some err \<Rightarrow> Inl err
      | None \<Rightarrow>
          (case primary of
             None \<Rightarrow> Inl ''rate limit store is required''
           | Some st \<Rightarrow> Inr \<lparr>tb_primary = st,
               tb_fallback = (case fallback of None \<Rightarrow> NewLocalStore 64 | Some f \<Rightarrow> f),
               tb_settings = s\<rparr>))"

definition Reconfigure ::
    "'s TokenBucketLimiter \<Rightarrow> RuntimeSettings \<Rightarrow> go_error option \<times> 's TokenBucketLimiter" where
  "Reconfigure limiter s =
     (let s = applyRuntimeDefaults s in
      case validateSettings s of
        Some err \<Rightarrow> (Some err, limiter)
      | None \<Rightarrow> (None, limiter\<lparr>tb_settings := s\<rparr>))"

definition full_bucket :: "Policy \<Rightarrow> go_string \<Rightarrow> bool \<Rightarrow> BucketState" where
  "full_bucket policy storage degraded =
     \<lparr>bs_Capacity = pol_Capacity policy, bs_Tokens = of_int (pol_Capacity policy),
      bs_RefillPerSecond = pol_RefillPerSecond policy, bs_Storage = storage,
      bs_Degraded = degraded\<rparr>"

definition AllowWithState ::
    "'s Store \<Rightarrow> (go_string \<Rightarrow> Addr option) \<Rightarrow> ((Addr \<times> int) option \<Rightarrow> go_string)
     \<Rightarrow> 's TokenBucketLimiter \<Rightarrow> go_string \<Rightarrow> instant
     \<Rightarrow> ((go_error + LimitDecision) \<times> 's TokenBucketLimiter) option" where
  "AllowWithState ops parse prefix_text limiter key0 now =
     (let s = tb_settings limiter; policy = rs_Policy s;
          key = normalizeClientKey parse prefix_text key0 s in
      if \<not> rs_Enabled s then
        Some (Inr \<lparr>ld_Allowed = True, ld_Bucket = full_bucket policy ''disabled'' False\<rparr>, limiter)
      else do {
        (result, primary) \<leftarrow> st_Take ops (tb_primary limiter) key policy now;
        let limiter = limiter\<lparr>tb_primary := primary\<rparr>;
        case result of
          Inr decision \<Rightarrow> Some (Inr decision, limiter)
        | Inl err \<Rightarrow>
            (if rs_FailureMode s = ''fail-open'' then
               Some (Inr \<lparr>ld_Allowed = True, ld_Bucket = full_bucket policy (st_Name ops) True\<rparr>, limiter)
             else if rs_FailureMode s = ''local-fallback'' then do {
               (decision, fallback) \<leftarrow> LocalStore_Take (tb_fallback limiter) key policy now;
               Some (Inr (decision\<lparr>ld_Bucket := (ld_Bucket decision)\<lparr>bs_Degraded := True\<rparr>\<rparr>),
                     limiter\<lparr>tb_fallback := fallback\<rparr>)
             }
             else Some (Inl err, limiter))
      })"

definition Limiter_Snapshot ::
    "'s Store \<Rightarrow> (go_string \<Rightarrow> Addr option) \<Rightarrow> ((Addr \<times> int) option \<Rightarrow> go_string)
     \<Rightarrow> 's TokenBucketLimiter \<Rightarrow> go_string \<Rightarrow> instant \<Rightarrow> (go_error + BucketState) option" where
  "Limiter_Snapshot ops parse prefix_text limiter key0 now =
     (let s = tb_settings limiter; policy = rs_Policy s;
          key = normalizeClientKey parse prefix_text key0 s in
      if \<not> rs_Enabled s then Some (Inr (full_bucket policy ''disabled'' False))
      else do {
        result \<leftarrow> st_Peek ops (tb_primary limiter) key policy now;
        case result of
          Inr state \<Rightarrow> Some (Inr state)
        | Inl err \<Rightarrow>
            (if rs_FailureMode s = ''local-fallback'' then do {
               state \<leftarrow> LocalStore_Peek (tb_fallback limiter) key policy now;
               Some (Inr (state\<lparr>bs_Degraded := True\<rparr>))
             }
             else if rs_FailureMode s = ''fail-open''
             then Some (Inr (full_bucket policy (st_Name ops) True))
             else Some (Inl err))
      })"

definition Limiter_Reset ::
    "'s Store \<Rightarrow> (go_string \<Rightarrow> Addr option) \<Rightarrow> ((Addr \<times> int) option \<Rightarrow> go_string)
     \<Rightarrow> 's TokenBucketLimiter \<Rightarrow> go_string \<Rightarrow> int \<Rightarrow> instant
     \<Rightarrow> ((go_error + BucketState) \<times> 's TokenBucketLimiter) option" where
  "Limiter_Reset ops parse prefix_text limiter key0 capacity now =
     (let s = tb_settings limiter; key = normalizeClientKey parse prefix_text key0 s in
      if capacity < 1 then Some (Inl ''rate limit capacity must be positive'', limiter)
      else do {
        (result, primary) \<leftarrow>
          st_Reset ops (tb_primary limiter) key ((rs_Policy s)\<lparr>pol_Capacity := capacity\<rparr>) now;
        Some (result, limiter\<lparr>tb_primary := primary\<rparr>)
      })"

definition Limiter_Healthy :: "'s Store \<Rightarrow> 's TokenBucketLimiter \<Rightarrow> go_error option" where
  "Limiter_Healthy ops limiter =
     (if \<not> rs_Enabled (tb_settings limiter) then None else st_Healthy ops (tb_primary limiter))"

section \<open>The middleware\<close>

text \<open>A rejected request gets a status, headers and a message; an admitted one goes to the next
  handler with the headers set so far.\<close>

datatype middleware_outcome = Reject int http_header go_string | Next http_header

definition setRateLimitHeaders :: "(rat \<Rightarrow> go_string) \<Rightarrow> http_header \<Rightarrow> BucketState \<Rightarrow> http_header" where
  "setRateLimitHeaders FormatFloat h state =
     (let remaining = \<lfloor>max 0 (bs_Tokens state)\<rfloor>;
          h = Header_Set h ''X-RateLimit-Limit'' (Itoa (bs_Capacity state));
          h = Header_Set h ''X-RateLimit-Remaining'' (Itoa remaining);
          h = Header_Set h ''X-RateLimit-Refill-Per-Second'' (FormatFloat (bs_RefillPerSecond state));
          h = Header_Set h ''X-RateLimit-Storage'' (bs_Storage state)
      in if bs_Degraded state then Header_Set h ''X-RateLimit-Degraded'' ''true'' else h)"

definition writeError :: "http_header \<Rightarrow> int \<Rightarrow> go_string \<Rightarrow> middleware_outcome" where
  "writeError h status message = Reject status (Header_Set h ''Content-Type'' ''application/json'') message"

text \<open>\<open>RateLimitMiddleware\<close> for a limiter that reports its state. Beside an error the decision is
  the zero value.\<close>

definition RateLimitMiddleware ::
    "(rat \<Rightarrow> go_string) \<Rightarrow> http_header \<Rightarrow> go_error + LimitDecision \<Rightarrow> middleware_outcome" where
  "RateLimitMiddleware FormatFloat h result =
     (let decision = (case result of Inl err \<Rightarrow> zero_LimitDecision | Inr d \<Rightarrow> d);
          h = setRateLimitHeaders FormatFloat h (ld_Bucket decision)
      in case result of
           Inl err \<Rightarrow> writeError h 503 ''rate limiter unavailable''
         | Inr d \<Rightarrow>
             if \<not> ld_Allowed decision
             then writeError (Header_Set h ''Retry-After'' ''1'') 429 ''rate limit exceeded''
             else Next h)"

section \<open>The store contract\<close>

text \<open>What the limiter relies on of a store: it never panics on a valid policy and keeps its
  invariant. A client of the contract only sees the limiter.\<close>

locale rate_store =
  fixes ops :: "'s Store" and good :: "'s \<Rightarrow> bool"
  assumes take_total: "good s \<Longrightarrow> policy_ok p \<Longrightarrow> \<exists>r s'. st_Take ops s k p now = Some (r, s') \<and> good s'"
    and peek_total: "good s \<Longrightarrow> policy_ok p \<Longrightarrow> \<exists>r. st_Peek ops s k p now = Some r"
    and reset_total: "good s \<Longrightarrow> policy_ok p \<Longrightarrow> \<exists>r s'. st_Reset ops s k p now = Some (r, s') \<and> good s'"
begin

definition limiter_good :: "'s TokenBucketLimiter \<Rightarrow> bool" where
  "limiter_good l \<longleftrightarrow> good (tb_primary l) \<and> store_inv (tb_fallback l)
     \<and> validateSettings (tb_settings l) = None"

lemma good_policy: "limiter_good l \<Longrightarrow> policy_ok (rs_Policy (tb_settings l))"
  by (auto simp: limiter_good_def validateSettings_def policy_ok_def split: if_splits)

lemma AllowWithState_total:
  assumes "limiter_good l"
  shows "\<exists>r l'. AllowWithState ops parse txt l key now = Some (r, l') \<and> limiter_good l'
    \<and> tb_settings l' = tb_settings l"
proof -
  let ?s = "tb_settings l" and ?k = "normalizeClientKey parse txt key (tb_settings l)"
  note pol = good_policy [OF assms]
  from assms have g: "good (tb_primary l)" "store_inv (tb_fallback l)" "validateSettings ?s = None"
    by (auto simp: limiter_good_def)
  from take_total [OF g(1) pol] obtain r s' where t:
    "st_Take ops (tb_primary l) ?k (rs_Policy ?s) now = Some (r, s')" "good s'" by blast
  from LocalStore_Take_step [OF g(2) pol] obtain d f where f:
    "LocalStore_Take (tb_fallback l) ?k (rs_Policy ?s) now = Some (d, f)" "store_inv f"
    unfolding store_step_def by blast
  show ?thesis
    using assms t f g
    by (cases r) (auto simp: AllowWithState_def Let_def limiter_good_def)
qed

lemma Limiter_Snapshot_total:
  assumes "limiter_good l"
  shows "\<exists>r. Limiter_Snapshot ops parse txt l key now = Some r"
proof -
  let ?s = "tb_settings l" and ?k = "normalizeClientKey parse txt key (tb_settings l)"
  from assms have g: "good (tb_primary l)" "store_inv (tb_fallback l)" by (auto simp: limiter_good_def)
  from peek_total [OF g(1) good_policy [OF assms]] obtain r where
    "st_Peek ops (tb_primary l) ?k (rs_Policy ?s) now = Some r" by blast
  with LocalStore_Peek_step [OF g(2)] show ?thesis
    by (cases r) (auto simp: Limiter_Snapshot_def Let_def)
qed

lemma Limiter_Reset_total:
  assumes "limiter_good l"
  shows "\<exists>r l'. Limiter_Reset ops parse txt l key capacity now = Some (r, l') \<and> limiter_good l'"
proof (cases "capacity < 1")
  case True
  with assms show ?thesis by (simp add: Limiter_Reset_def)
next
  case False
  with good_policy [OF assms] have "policy_ok ((rs_Policy (tb_settings l))\<lparr>pol_Capacity := capacity\<rparr>)"
    by (simp add: policy_ok_def)
  moreover from assms have "good (tb_primary l)" by (simp add: limiter_good_def)
  ultimately obtain r s' where
    "st_Reset ops (tb_primary l) (normalizeClientKey parse txt key (tb_settings l))
      ((rs_Policy (tb_settings l))\<lparr>pol_Capacity := capacity\<rparr>) now = Some (r, s')" "good s'"
    using reset_total by blast
  with assms False show ?thesis by (auto simp: Limiter_Reset_def limiter_good_def)
qed

text \<open>A failing store: the failure mode decides, and only the fallback mode touches the local
  store.\<close>

lemma AllowWithState_outage:
  assumes "limiter_good l" and "rs_Enabled (tb_settings l)"
    and "st_Take ops (tb_primary l) (normalizeClientKey parse txt key (tb_settings l))
      (rs_Policy (tb_settings l)) now = Some (Inl err, s')"
    and "AllowWithState ops parse txt l key now = Some (r, l')"
  shows "rs_FailureMode (tb_settings l) = ''fail-closed'' \<Longrightarrow> r = Inl err \<and> tb_fallback l' = tb_fallback l"
    and "rs_FailureMode (tb_settings l) = ''fail-open'' \<Longrightarrow>
      (\<exists>d. r = Inr d \<and> ld_Allowed d \<and> bs_Degraded (ld_Bucket d)) \<and> tb_fallback l' = tb_fallback l"
    and "rs_FailureMode (tb_settings l) = ''local-fallback'' \<Longrightarrow>
      (\<exists>d d' f. r = Inr d \<and> bs_Degraded (ld_Bucket d) \<and> tb_fallback l' = f
        \<and> LocalStore_Take (tb_fallback l) (normalizeClientKey parse txt key (tb_settings l))
            (rs_Policy (tb_settings l)) now = Some (d', f) \<and> ld_Allowed d = ld_Allowed d')"
  using assms
  by (auto simp: AllowWithState_def Let_def full_bucket_def split: Option.bind_splits)

end

section \<open>The local store as a provider\<close>

definition LocalStore_ops :: "LocalStore Store" where
  "LocalStore_ops =
     \<lparr>st_Name = ''local'',
      st_Take = (\<lambda>s k p now. map_option (\<lambda>(d, s'). (Inr d, s')) (LocalStore_Take s k p now)),
      st_Peek = (\<lambda>s k p now. map_option Inr (LocalStore_Peek s k p now)),
      st_Reset = (\<lambda>s k p now. map_option (\<lambda>(d, s'). (Inr d, s')) (LocalStore_Reset s k p now)),
      st_Healthy = (\<lambda>s. None)\<rparr>"

interpretation local_store: rate_store LocalStore_ops store_inv
proof unfold_locales
  fix s k p now assume s: "store_inv s" and p: "policy_ok p"
  from LocalStore_Take_step [OF s p, of k now]
  show "\<exists>r s'. st_Take LocalStore_ops s k p now = Some (r, s') \<and> store_inv s'"
    unfolding store_step_def by (force simp: LocalStore_ops_def)
  from LocalStore_Peek_step [OF s] show "\<exists>r. st_Peek LocalStore_ops s k p now = Some r"
    by (simp add: LocalStore_ops_def)
  from LocalStore_Reset_step [OF s p, of k now]
  show "\<exists>r s'. st_Reset LocalStore_ops s k p now = Some (r, s') \<and> store_inv s'"
    unfolding store_step_def by (force simp: LocalStore_ops_def)
qed

text \<open>\<open>LocalStats\<close>: the statistics of the primary when it is a local store, else of the
  fallback.\<close>

definition LocalStats_local :: "LocalStore TokenBucketLimiter \<Rightarrow> LocalStoreStats" where
  "LocalStats_local l = LocalStore_Stats (tb_primary l)"

definition LocalStats_remote :: "'s TokenBucketLimiter \<Rightarrow> LocalStoreStats" where
  "LocalStats_remote l = LocalStore_Stats (tb_fallback l)"

section \<open>Settings and keys\<close>

lemma validateSettings_None:
  "validateSettings s = None \<longleftrightarrow>
     policy_ok (rs_Policy s) \<and> 0 < rs_OperationTimeout s
     \<and> rs_FailureMode s \<in> {''fail-open'', ''fail-closed'', ''local-fallback''}
     \<and> 1 \<le> rs_IPv4PrefixBits s \<and> rs_IPv4PrefixBits s \<le> 32
     \<and> 1 \<le> rs_IPv6PrefixBits s \<and> rs_IPv6PrefixBits s \<le> 128"
  by (auto simp: validateSettings_def policy_ok_def)

lemma NewTokenBucketLimiter_good:
  assumes "NewTokenBucketLimiter s (Some st) fallback = Inr l" and "store_inv st"
    and "\<And>f. fallback = Some f \<Longrightarrow> store_inv f"
  shows "local_store.limiter_good l"
  using assms NewBoundedLocalStore_ok
  by (auto simp: NewTokenBucketLimiter_def Let_def local_store.limiter_good_def NewLocalStore_def
      split: option.splits)

lemma Reconfigure_good:
  "local_store.limiter_good l \<Longrightarrow> local_store.limiter_good (snd (Reconfigure l s))"
  by (auto simp: Reconfigure_def Let_def local_store.limiter_good_def split: option.splits)

lemma Reconfigure_rejected: "fst (Reconfigure l s) \<noteq> None \<longrightarrow> snd (Reconfigure l s) = l"
  by (auto simp: Reconfigure_def Let_def split: option.splits)

text \<open>Two clients share a bucket when their addresses agree on the configured prefix.\<close>

lemma normalizeClientKey_same4:
  assumes "map_option Unmap (parse k1) = Some (Addr4 a)" and "map_option Unmap (parse k2) = Some (Addr4 b)"
    and "drop_bit (32 - nat (rs_IPv4PrefixBits s)) (a XOR b) = 0"
  shows "normalizeClientKey parse txt k1 s = normalizeClientKey parse txt k2 s"
  using assms and_not_mask_eq_iff [of a "32 - nat (rs_IPv4PrefixBits s)" b]
  by (auto simp: normalizeClientKey_def masked_prefix_def Let_def)

lemma normalizeClientKey_distinct4:
  assumes "map_option Unmap (parse k1) = Some (Addr4 a)" and "map_option Unmap (parse k2) = Some (Addr4 b)"
    and "drop_bit (32 - nat (rs_IPv4PrefixBits s)) (a XOR b) \<noteq> 0"
    and "0 \<le> rs_IPv4PrefixBits s" and "rs_IPv4PrefixBits s \<le> 32"
    and "inj (\<lambda>a. txt (Some (Addr4 a, rs_IPv4PrefixBits s)))"
  shows "normalizeClientKey parse txt k1 s \<noteq> normalizeClientKey parse txt k2 s"
proof -
  let ?m = "\<lambda>x. x AND NOT (mask (32 - nat (rs_IPv4PrefixBits s)))"
  have "?m a \<noteq> ?m b" using assms(3) and_not_mask_eq_iff [of a "32 - nat (rs_IPv4PrefixBits s)" b] by simp
  then have "txt (Some (Addr4 (?m a), rs_IPv4PrefixBits s)) \<noteq> txt (Some (Addr4 (?m b), rs_IPv4PrefixBits s))"
    using assms(6) by (auto dest: injD)
  with assms(1,2,4,5) show ?thesis
    by (auto simp: normalizeClientKey_def masked_prefix_def Let_def)
qed

section \<open>Properties\<close>

text \<open>When the store fails, the configured mode decides: \<open>fail-closed\<close> reports the error,
  \<open>fail-open\<close> admits and marks the answer degraded, \<open>local-fallback\<close> gives the local store's
  decision, marked degraded; only the last changes the fallback store.\<close>

theorem limiter_failure_modes:
  assumes "validateSettings (tb_settings l) = None" and "rs_Enabled (tb_settings l)"
    and "store_inv (tb_fallback l)"
    and "\<And>k p t. st_Take ops (tb_primary l) k p t = Some (Inl err, tb_primary l)"
  shows "\<exists>r l'. AllowWithState ops parse txt l key now = Some (r, l')
    \<and> (rs_FailureMode (tb_settings l) = ''fail-closed'' \<longrightarrow> r = Inl err \<and> l' = l)
    \<and> (rs_FailureMode (tb_settings l) = ''fail-open'' \<longrightarrow>
         (\<exists>d. r = Inr d \<and> ld_Allowed d \<and> bs_Degraded (ld_Bucket d)) \<and> l' = l)
    \<and> (rs_FailureMode (tb_settings l) = ''local-fallback'' \<longrightarrow>
         (\<exists>d d'. r = Inr d \<and> bs_Degraded (ld_Bucket d)
            \<and> LocalStore_Take (tb_fallback l) (normalizeClientKey parse txt key (tb_settings l))
                (rs_Policy (tb_settings l)) now = Some (d', tb_fallback l')
            \<and> ld_Allowed d = ld_Allowed d'))"
proof -
  have p: "policy_ok (rs_Policy (tb_settings l))" using assms(1) by (simp add: validateSettings_None)
  from LocalStore_Take_step [OF assms(3) p] obtain d f where
    "LocalStore_Take (tb_fallback l) (normalizeClientKey parse txt key (tb_settings l))
      (rs_Policy (tb_settings l)) now = Some (d, f)" by blast
  moreover have "rs_FailureMode (tb_settings l) \<in> {''fail-open'', ''fail-closed'', ''local-fallback''}"
    using assms(1) by (simp add: validateSettings_None)
  ultimately show ?thesis
    using assms(2,4) by (auto simp: AllowWithState_def Let_def full_bucket_def)
qed

definition failing_ops :: "unit Store" where
  "failing_ops = \<lparr>st_Name = ''redis'', st_Take = (\<lambda>s k p t. Some (Inl ''down'', s)),
     st_Peek = (\<lambda>s k p t. Some (Inl ''down'')), st_Reset = (\<lambda>s k p t. Some (Inl ''down'', s)),
     st_Healthy = (\<lambda>s. Some ''down'')\<rparr>"

definition closed_settings :: RuntimeSettings where
  "closed_settings = \<lparr>rs_Enabled = True, rs_Policy = \<lparr>pol_Capacity = 5, pol_RefillPerSecond = 1\<rparr>,
     rs_FailureMode = ''fail-closed'', rs_OperationTimeout = 1, rs_IPv4PrefixBits = 32,
     rs_IPv6PrefixBits = 64\<rparr>"

theorem limiter_failure_modes_witness:
  "\<exists>l'. AllowWithState failing_ops (\<lambda>s. None) (\<lambda>p. [])
      \<lparr>tb_primary = (), tb_fallback = NewLocalStore 4, tb_settings = closed_settings\<rparr> ''k'' 0
    = Some (Inl ''down'', l')"
  using limiter_failure_modes [of "\<lparr>tb_primary = (), tb_fallback = NewLocalStore 4, tb_settings = closed_settings\<rparr>"
      failing_ops "''down''" "\<lambda>s. None" "\<lambda>p. []" "''k''" 0]
  by (auto simp: closed_settings_def failing_ops_def validateSettings_def NewLocalStore_def
      NewBoundedLocalStore_ok)

text \<open>A limiter over the local store never panics and keeps its invariant through every call
  and every reconfiguration, and a rejected reconfiguration changes nothing.\<close>

theorem limiter_local_safe:
  assumes "local_store.limiter_good l"
  shows "(\<exists>r l'. AllowWithState LocalStore_ops parse txt l key now = Some (r, l') \<and> local_store.limiter_good l')
    \<and> (\<exists>r. Limiter_Snapshot LocalStore_ops parse txt l key now = Some r)
    \<and> (\<exists>r l'. Limiter_Reset LocalStore_ops parse txt l key capacity now = Some (r, l')
         \<and> local_store.limiter_good l')
    \<and> local_store.limiter_good (snd (Reconfigure l s))
    \<and> (fst (Reconfigure l s) \<noteq> None \<longrightarrow> snd (Reconfigure l s) = l)"
  using local_store.AllowWithState_total [OF assms, of parse "txt" key now]
    local_store.Limiter_Snapshot_total [OF assms, of parse "txt" key now]
    local_store.Limiter_Reset_total [OF assms, of parse "txt" key capacity now]
    Reconfigure_good [OF assms, of s] Reconfigure_rejected [of l s]
  by blast

theorem limiter_local_safe_witness:
  "\<exists>l. NewTokenBucketLimiter closed_settings (Some (NewLocalStore 4)) None = Inr l
     \<and> (\<exists>r l'. AllowWithState LocalStore_ops (\<lambda>s. None) (\<lambda>p. []) l ''k'' 0 = Some (r, l'))"
proof -
  obtain l where l: "NewTokenBucketLimiter closed_settings (Some (NewLocalStore 4)) None = Inr l"
    by (simp add: NewTokenBucketLimiter_def closed_settings_def applyRuntimeDefaults_def
        validateSettings_def)
  have "local_store.limiter_good l"
    by (rule NewTokenBucketLimiter_good [OF l]) (simp_all add: NewLocalStore_def NewBoundedLocalStore_ok)
  from limiter_local_safe [OF this] l show ?thesis by blast
qed

text \<open>Two IPv4 clients (an IPv4-mapped IPv6 address counts as IPv4) share a bucket exactly
  when their addresses agree on the configured number of leading bits.\<close>

theorem client_key_prefix:
  assumes "map_option Unmap (parse k1) = Some (Addr4 a)" and "map_option Unmap (parse k2) = Some (Addr4 b)"
    and "validateSettings s = None" and "inj (\<lambda>a. txt (Some (Addr4 a, rs_IPv4PrefixBits s)))"
  shows "normalizeClientKey parse txt k1 s = normalizeClientKey parse txt k2 s \<longleftrightarrow>
    drop_bit (32 - nat (rs_IPv4PrefixBits s)) (a XOR b) = 0"
  using normalizeClientKey_same4 [OF assms(1,2), of s "txt"]
    normalizeClientKey_distinct4 [OF assms(1,2), of s "txt"] assms(3,4)
  by (auto simp: validateSettings_None)

definition demo_text :: "(Addr \<times> int) option \<Rightarrow> go_string" where
  "demo_text p = (case p of Some (Addr4 a, n) \<Rightarrow> replicate (unat a) CHR ''4'' | _ \<Rightarrow> [])"

theorem client_key_prefix_witness:
  "normalizeClientKey (\<lambda>k. Some (Addr4 (of_nat (length k)))) demo_text ''aa''
     (closed_settings\<lparr>rs_IPv4PrefixBits := 24\<rparr>)
   = normalizeClientKey (\<lambda>k. Some (Addr6 (0xFFFF00000000 + of_nat (length k)) [])) demo_text ''aaa''
     (closed_settings\<lparr>rs_IPv4PrefixBits := 24\<rparr>)"
proof -
  have "inj (\<lambda>a. demo_text (Some (Addr4 a, 24)))"
    by (auto simp: inj_def demo_text_def dest!: arg_cong [of _ _ length] intro: word_unat_eq_iff [THEN iffD2])
  then show ?thesis
    using client_key_prefix [of "\<lambda>k. if length k = 3 then Some (Addr6 0xFFFF00000003 []) else Some (Addr4 2)"
        "''aa''" 2 "''aaa''" 3 "closed_settings\<lparr>rs_IPv4PrefixBits := 24\<rparr>" demo_text]
    by (simp add: normalizeClientKey_def closed_settings_def validateSettings_def Unmap_def Is4In6_def)
qed

end
