(* ===== verification/Remote_Store.thy ===== *)
theory Remote_Store
  imports Limiter
begin

text \<open>
  The shared rate-limit stores (\<open>internal/ratelimit/redis.go\<close>, \<open>postgres.go\<close> and \<open>migrations\<close>). Their logic is a
  Lua script and an SQL function, which run inside the service one at a time for a key: the model runs them on a
  map of hashes with expiry times and on a table with a primary key, as the commands they consist of are documented.
  The answers of a service that cannot be reached are an argument. Both services tell the time in microseconds.
\<close>

section \<open>Redis\<close>

record redisHash =
  rh_capacity :: int
  rh_tokens :: rat
  rh_refill_per_second :: rat
  rh_last_refill_ms :: rat
  rh_last_seen_ms :: rat

text \<open>A key has a hash and the time, in milliseconds, at which it expires.\<close>

type_synonym redis_db = "go_string \<rightharpoonup> redisHash \<times> rat"

definition redis_TIME :: "instant \<Rightarrow> int \<times> int" where
  "redis_TIME now = (now div second, now mod second div 1000)"

definition now_ms :: "instant \<Rightarrow> rat" where
  "now_ms now = (case redis_TIME now of (s, us) \<Rightarrow> of_int s * 1000 + of_int us / 1000)"

definition HMGET :: "redis_db \<Rightarrow> go_string \<Rightarrow> rat \<Rightarrow> redisHash option" where
  "HMGET db key ms = (case db key of None \<Rightarrow> None | Some (h, until) \<Rightarrow> if ms < until then Some h else None)"

definition redis_tokens :: "int \<Rightarrow> rat \<Rightarrow> redisHash option \<Rightarrow> rat \<Rightarrow> rat" where
  "redis_tokens capacity refill values ms =
     (case values of
        None \<Rightarrow> of_int capacity
      | Some h \<Rightarrow> min (of_int capacity) (rh_tokens h + max 0 (ms - rh_last_refill_ms h) * (refill / 1000)))"

definition redisTakeScript :: "go_string \<Rightarrow> int \<Rightarrow> rat \<Rightarrow> int \<Rightarrow> instant \<Rightarrow> redis_db \<Rightarrow> (int \<times> rat) \<times> redis_db" where
  "redisTakeScript key capacity refill retention now db =
     (let ms = now_ms now;
          tokens = redis_tokens capacity refill (HMGET db key ms) ms;
          (tokens, allowed) = (if tokens \<ge> 1 then (tokens - 1, 1) else (tokens, 0))
      in ((allowed, tokens),
          db(key \<mapsto> (\<lparr>rh_capacity = capacity, rh_tokens = tokens, rh_refill_per_second = refill,
                       rh_last_refill_ms = ms, rh_last_seen_ms = ms\<rparr>, ms + of_int retention))))"

definition redisPeekScript :: "go_string \<Rightarrow> int \<Rightarrow> rat \<Rightarrow> instant \<Rightarrow> redis_db \<Rightarrow> rat" where
  "redisPeekScript key capacity refill now db = redis_tokens capacity refill (HMGET db key (now_ms now)) (now_ms now)"

record RedisOptions =
  ro_Retention :: duration
  ro_Prefix :: go_string

record RedisStore =
  rd_retention :: duration
  rd_prefix :: go_string
  rd_db :: redis_db
  rd_outage :: "instant \<Rightarrow> go_error option"
  rd_ping :: "go_error option"

definition NewRedisStore ::
    "RedisOptions \<Rightarrow> redis_db \<Rightarrow> (instant \<Rightarrow> go_error option) \<Rightarrow> go_error option \<Rightarrow> RedisStore" where
  "NewRedisStore options db outage ping =
     \<lparr>rd_retention = (if ro_Retention options \<le> 0 then 24 * 3600 * second else ro_Retention options),
      rd_prefix = (if ro_Prefix options = [] then ''load-balancer:ratelimit:'' else ro_Prefix options),
      rd_db = db, rd_outage = outage, rd_ping = ping\<rparr>"

text \<open>\<open>Duration.Milliseconds\<close>.\<close>

definition Milliseconds :: "duration \<Rightarrow> int" where
  "Milliseconds d = go_div d 1000000"

definition redis_key :: "RedisStore \<Rightarrow> go_string \<Rightarrow> go_string" where
  "redis_key store key = rd_prefix store @ key"

definition remote_state :: "Policy \<Rightarrow> rat \<Rightarrow> go_string \<Rightarrow> BucketState" where
  "remote_state policy tokens name =
     \<lparr>bs_Capacity = pol_Capacity policy, bs_Tokens = tokens, bs_RefillPerSecond = pol_RefillPerSecond policy,
      bs_Storage = name, bs_Degraded = False\<rparr>"

definition RedisStore_Take ::
    "RedisStore \<Rightarrow> go_string \<Rightarrow> Policy \<Rightarrow> instant \<Rightarrow> ((go_error + LimitDecision) \<times> RedisStore) option" where
  "RedisStore_Take store key policy now =
     (case rd_outage store now of
        Some err \<Rightarrow> Some (Inl err, store)
      | None \<Rightarrow>
          (case redisTakeScript (redis_key store key) (pol_Capacity policy) (pol_RefillPerSecond policy)
                  (Milliseconds (rd_retention store)) now (rd_db store) of
             ((allowed, tokens), db) \<Rightarrow>
               Some (Inr \<lparr>ld_Allowed = (allowed = 1), ld_Bucket = remote_state policy tokens ''redis''\<rparr>, store\<lparr>rd_db := db\<rparr>)))"

definition RedisStore_Peek ::
    "RedisStore \<Rightarrow> go_string \<Rightarrow> Policy \<Rightarrow> instant \<Rightarrow> (go_error + BucketState) option" where
  "RedisStore_Peek store key policy now =
     (case rd_outage store now of
        Some err \<Rightarrow> Some (Inl err)
      | None \<Rightarrow> Some (Inr (remote_state policy
          (redisPeekScript (redis_key store key) (pol_Capacity policy) (pol_RefillPerSecond policy) now (rd_db store)) ''redis'')))"

text \<open>\<open>Reset\<close> writes with the clock of the process, in whole milliseconds.\<close>

definition RedisStore_Reset ::
    "RedisStore \<Rightarrow> go_string \<Rightarrow> Policy \<Rightarrow> instant \<Rightarrow> ((go_error + BucketState) \<times> RedisStore) option" where
  "RedisStore_Reset store key policy now =
     (case rd_outage store now of
        Some err \<Rightarrow> Some (Inl err, store)
      | None \<Rightarrow>
          (let ms = of_int (now div 1000000) in
           Some (Inr (remote_state policy (of_int (pol_Capacity policy)) ''redis''),
             store\<lparr>rd_db := (rd_db store)(redis_key store key \<mapsto>
               (\<lparr>rh_capacity = pol_Capacity policy, rh_tokens = of_int (pol_Capacity policy),
                 rh_refill_per_second = pol_RefillPerSecond policy, rh_last_refill_ms = ms, rh_last_seen_ms = ms\<rparr>,
                now_ms now + of_int (Milliseconds (rd_retention store))))\<rparr>)))"

definition redis_ops :: "RedisStore Store" where
  "redis_ops = \<lparr>st_Name = ''redis'', st_Take = RedisStore_Take, st_Peek = RedisStore_Peek, st_Reset = RedisStore_Reset,
     st_Healthy = (\<lambda>store. rd_ping store)\<rparr>"

section \<open>PostgreSQL\<close>

text \<open>A row of \<open>ratelimit_buckets\<close>; times are in microseconds.\<close>

record bucket_row =
  br_capacity :: int
  br_tokens :: rat
  br_refill_per_second :: rat
  br_last_refill :: int
  br_last_seen_at :: int

definition clock_timestamp :: "instant \<Rightarrow> int" where
  "clock_timestamp now = now div 1000"

text \<open>The seconds between two timestamps.\<close>

definition EPOCH :: "int \<Rightarrow> rat" where
  "EPOCH d = of_int d / 1000000"

text \<open>The constraints of the table, and the range of an \<open>INTEGER\<close>.\<close>

definition row_ok :: "bucket_row \<Rightarrow> bool" where
  "row_ok r \<longleftrightarrow> 0 < br_capacity r \<and> 0 \<le> br_tokens r \<and> 0 < br_refill_per_second r"

definition int4 :: "int \<Rightarrow> bool" where
  "int4 i \<longleftrightarrow> - (2 ^ 31) \<le> i \<and> i < 2 ^ 31"

type_synonym bucket_table = "go_string \<rightharpoonup> bucket_row"

definition ratelimit_take :: "go_string \<Rightarrow> int \<Rightarrow> rat \<Rightarrow> instant \<Rightarrow> bucket_table \<Rightarrow> (bool \<times> rat) \<times> bucket_row" where
  "ratelimit_take key capacity refill now table =
     (let v_now = clock_timestamp now;
          v_tokens = (case table key of
                        None \<Rightarrow> of_int capacity
                      | Some r \<Rightarrow> min (of_int capacity) (br_tokens r + max 0 (EPOCH (v_now - br_last_refill r)) * refill));
          allowed = (v_tokens \<ge> 1);
          v_tokens = (if allowed then v_tokens - 1 else v_tokens)
      in ((allowed, v_tokens),
          \<lparr>br_capacity = capacity, br_tokens = v_tokens, br_refill_per_second = refill, br_last_refill = v_now,
           br_last_seen_at = v_now\<rparr>))"

record PostgresStore =
  pg_table :: bucket_table
  pg_outage :: "instant \<Rightarrow> go_error option"
  pg_ping :: "go_error option"

definition PostgresStore_Take ::
    "PostgresStore \<Rightarrow> go_string \<Rightarrow> Policy \<Rightarrow> instant \<Rightarrow> ((go_error + LimitDecision) \<times> PostgresStore) option" where
  "PostgresStore_Take store key policy now =
     (case pg_outage store now of
        Some err \<Rightarrow> Some (Inl err, store)
      | None \<Rightarrow>
          if \<not> int4 (pol_Capacity policy) then Some (Inl ''integer out of range'', store)
          else
            (case ratelimit_take key (pol_Capacity policy) (pol_RefillPerSecond policy) now (pg_table store) of
               ((allowed, tokens), row) \<Rightarrow>
                 if \<not> row_ok row then Some (Inl ''violates check constraint'', store)
                 else Some (Inr \<lparr>ld_Allowed = allowed, ld_Bucket = remote_state policy tokens ''postgres''\<rparr>,
                        store\<lparr>pg_table := (pg_table store)(key \<mapsto> row)\<rparr>)))"

definition PostgresStore_Peek ::
    "PostgresStore \<Rightarrow> go_string \<Rightarrow> Policy \<Rightarrow> instant \<Rightarrow> (go_error + BucketState) option" where
  "PostgresStore_Peek store key policy now =
     (case pg_outage store now of
        Some err \<Rightarrow> Some (Inl err)
      | None \<Rightarrow>
          if \<not> int4 (pol_Capacity policy) then Some (Inl ''integer out of range'')
          else Some (Inr (remote_state policy
            (case pg_table store key of
               None \<Rightarrow> of_int (pol_Capacity policy)
             | Some r \<Rightarrow> min (of_int (pol_Capacity policy))
                 (br_tokens r + max 0 (EPOCH (clock_timestamp now - br_last_refill r)) * pol_RefillPerSecond policy)) ''postgres'')))"

definition PostgresStore_Reset ::
    "PostgresStore \<Rightarrow> go_string \<Rightarrow> Policy \<Rightarrow> instant \<Rightarrow> ((go_error + BucketState) \<times> PostgresStore) option" where
  "PostgresStore_Reset store key policy now =
     (case pg_outage store now of
        Some err \<Rightarrow> Some (Inl err, store)
      | None \<Rightarrow>
          if \<not> int4 (pol_Capacity policy) then Some (Inl ''integer out of range'', store)
          else
            (let row = \<lparr>br_capacity = pol_Capacity policy, br_tokens = of_int (pol_Capacity policy),
                        br_refill_per_second = pol_RefillPerSecond policy, br_last_refill = clock_timestamp now,
                        br_last_seen_at = clock_timestamp now\<rparr>
             in if \<not> row_ok row then Some (Inl ''violates check constraint'', store)
                else Some (Inr (remote_state policy (of_int (pol_Capacity policy)) ''postgres''),
                       store\<lparr>pg_table := (pg_table store)(key \<mapsto> row)\<rparr>)))"

definition PostgresStore_Cleanup :: "PostgresStore \<Rightarrow> duration \<Rightarrow> instant \<Rightarrow> go_error option \<times> PostgresStore" where
  "PostgresStore_Cleanup store olderThan now =
     (case pg_outage store now of
        Some err \<Rightarrow> (Some err, store)
      | None \<Rightarrow> (None, store\<lparr>pg_table := (\<lambda>key. case pg_table store key of
           None \<Rightarrow> None
         | Some r \<Rightarrow> if EPOCH (br_last_seen_at r) < EPOCH (clock_timestamp now) - seconds olderThan then None else Some r)\<rparr>))"

definition postgres_ops :: "PostgresStore Store" where
  "postgres_ops = \<lparr>st_Name = ''postgres'', st_Take = PostgresStore_Take, st_Peek = PostgresStore_Peek,
     st_Reset = PostgresStore_Reset, st_Healthy = (\<lambda>store. pg_ping store)\<rparr>"

section \<open>Migrations\<close>

text \<open>The loop of \<open>migrate\<close> over the sorted names. The database is its \<open>schema_migrations\<close> and what was executed;
  \<open>exec\<close> is the outcome of a migration's statements, and a failed one is rolled back.\<close>

record schema =
  sm_versions :: "go_string list"
  sm_executed :: "go_string list"

fun run_migrations :: "(go_string \<Rightarrow> go_error option) \<Rightarrow> go_string list \<Rightarrow> schema \<Rightarrow> go_error option \<times> schema" where
  "run_migrations exec [] db = (None, db)"
| "run_migrations exec (name # names) db =
     (if name \<in> set (sm_versions db) then run_migrations exec names db
      else case exec name of
             Some err \<Rightarrow> (Some (''apply migration '' @ name @ '': '' @ err), db)
           | None \<Rightarrow> run_migrations exec names
               (db\<lparr>sm_versions := sm_versions db @ [name], sm_executed := sm_executed db @ [name]\<rparr>))"

section \<open>Both are total stores\<close>

interpretation redis_store: rate_store redis_ops "\<lambda>s. True"
  by unfold_locales (auto simp: redis_ops_def RedisStore_Take_def RedisStore_Peek_def RedisStore_Reset_def Let_def
      split: option.split prod.split)

interpretation postgres_store: rate_store postgres_ops "\<lambda>s. True"
  by unfold_locales (auto simp: postgres_ops_def PostgresStore_Take_def PostgresStore_Peek_def PostgresStore_Reset_def Let_def
      split: option.split prod.split)

section \<open>The same decisions as the local store\<close>

text \<open>The reference: a bucket of the local store, at the instants as the services see them.\<close>

definition micro :: "instant \<Rightarrow> instant" where
  "micro now = 1000 * (now div 1000)"

definition bucket_for :: "Policy \<Rightarrow> localBucket option \<Rightarrow> instant \<Rightarrow> localBucket" where
  "bucket_for p bo t = (case bo of None \<Rightarrow> newBucket p t | Some b \<Rightarrow> b)"

fun reference :: "Policy \<Rightarrow> localBucket option \<Rightarrow> instant list \<Rightarrow> bool list" where
  "reference p bo [] = []"
| "reference p bo (t # ts) = (case bucket_take p (bucket_for p bo t) t of (ok, b) \<Rightarrow> ok # reference p (Some b) ts)"

text \<open>Calls of \<open>Take\<close> for several keys, with the decision of each.\<close>

fun run_calls :: "'s Store \<Rightarrow> Policy \<Rightarrow> 's \<Rightarrow> (go_string \<times> instant) list \<Rightarrow> (go_string \<times> (go_error + bool)) list option" where
  "run_calls ops p s [] = Some []"
| "run_calls ops p s ((key, now) # calls) =
     (case st_Take ops s key p now of
        None \<Rightarrow> None
      | Some (r, s') \<Rightarrow> map_option (\<lambda>rs. (key, map_sum id ld_Allowed r) # rs) (run_calls ops p s' calls))"

lemma now_ms_micro: "now_ms now = of_int (now div 1000) / 1000"
proof -
  have eq: "now div 1000 = (now div 1000000000) * 1000000 + now mod 1000000000 div 1000"
  proof -
    have "now = now mod 1000000000 + ((now div 1000000000) * 1000000) * 1000" by (simp add: mod_div_mult_eq)
    then show ?thesis by (metis add.commute div_mult_self1 zero_neq_numeral)
  qed
  have "rat_of_int (now div 1000) = of_int (now div 1000000000) * 1000000 + of_int (now mod 1000000000 div 1000)"
    by (subst eq) simp
  then show ?thesis by (simp add: now_ms_def redis_TIME_def second_def)
qed

definition held :: "Policy \<Rightarrow> localBucket \<Rightarrow> bool" where
  "held p b \<longleftrightarrow> own_policy b = p \<and> bucket_inv b"

lemma held_take:
  assumes "held p b" and "lb_lastRefill b \<le> t"
  shows "(fst (bucket_take p b t), lb_tokens (snd (bucket_take p b t))) =
      taken (refilled (of_int (pol_Capacity p)) (pol_RefillPerSecond p) (lb_tokens b) (t - lb_lastRefill b))
    \<and> lb_lastRefill (snd (bucket_take p b t)) = t \<and> held p (snd (bucket_take p b t))"
proof -
  have b: "own_policy b = p" "bucket_inv b" using assms(1) by (simp_all add: held_def)
  then have p: "lb_capacity b = pol_Capacity p" "lb_refillPerSecond b = pol_RefillPerSecond p" by (auto simp: own_policy_def)
  from b local_bucket.draw_spec [of b t] local_bucket.draw_clock [of b t] bucket_take_own [of b t]
    bucket_take_inv [OF b(2) own_policy_ok [OF b(2)], of t] assms(2) p
  show ?thesis by (simp add: held_def)
qed

lemma held_new: "policy_ok p \<Longrightarrow> held p (newBucket p t)"
  by (simp add: held_def newBucket_inv) (simp add: own_policy_def newBucket_def)

text \<open>What a store keeps of a bucket that the reference has, or has not yet.\<close>

definition redis_rel :: "Policy \<Rightarrow> int \<Rightarrow> (redisHash \<times> rat) option \<Rightarrow> localBucket option \<Rightarrow> bool" where
  "redis_rel p ret entry bo \<longleftrightarrow>
     (case (entry, bo) of
        (None, None) \<Rightarrow> True
      | (Some (h, until), Some b) \<Rightarrow> held p b \<and> rh_tokens h = lb_tokens b \<and> until = rh_last_refill_ms h + of_int ret
          \<and> (\<exists>m. lb_lastRefill b = 1000 * m \<and> rh_last_refill_ms h = of_int m / 1000)
      | _ \<Rightarrow> False)"

definition postgres_rel :: "Policy \<Rightarrow> bucket_row option \<Rightarrow> localBucket option \<Rightarrow> bool" where
  "postgres_rel p entry bo \<longleftrightarrow>
     (case (entry, bo) of
        (None, None) \<Rightarrow> True
      | (Some r, Some b) \<Rightarrow> held p b \<and> br_tokens r = lb_tokens b \<and> lb_lastRefill b = 1000 * br_last_refill r
      | _ \<Rightarrow> False)"

definition not_after :: "localBucket option \<Rightarrow> instant \<Rightarrow> bool" where
  "not_after bo t = (case bo of None \<Rightarrow> True | Some b \<Rightarrow> lb_lastRefill b \<le> t)"

lemma bucket_for_held:
  assumes "policy_ok p" and "\<forall>b. bo = Some b \<longrightarrow> held p b" and "not_after bo t"
  shows "held p (bucket_for p bo t)" "lb_lastRefill (bucket_for p bo t) \<le> t"
  using assms held_new by (auto simp: bucket_for_def not_after_def newBucket_def split: option.splits)

text \<open>Both services compute the refilled level of the reference; a hash that has expired would be full.\<close>

lemma seconds_micro: "seconds (1000 * a - 1000 * b) = (of_int a - of_int b) / 1000000"
  by (simp add: seconds_def diff_divide_distrib)

lemma redis_level:
  assumes rel: "redis_rel p ret (db key) bo" and pol: "policy_ok p" and na: "not_after bo (micro now)"
    and ret: "of_int (pol_Capacity p) \<le> pol_RefillPerSecond p * (of_int ret / 1000)"
  shows "redis_tokens (pol_Capacity p) (pol_RefillPerSecond p) (HMGET db key (now_ms now)) (now_ms now) =
    refilled (of_int (pol_Capacity p)) (pol_RefillPerSecond p) (lb_tokens (bucket_for p bo (micro now)))
      (micro now - lb_lastRefill (bucket_for p bo (micro now)))"
proof (cases bo)
  case None
  with rel show ?thesis
    by (auto simp: redis_rel_def redis_tokens_def HMGET_def refilled_def bucket_for_def newBucket_def seconds_def split: option.splits)
next
  case (Some b)
  with rel obtain h m where h: "db key = Some (h, of_int m / 1000 + of_int ret)" "held p b" "rh_tokens h = lb_tokens b"
    "lb_lastRefill b = 1000 * m" "rh_last_refill_ms h = of_int m / 1000"
    by (auto simp: redis_rel_def split: option.splits)
  let ?c = "of_int (pol_Capacity p) :: rat" and ?r = "pol_RefillPerSecond p" and ?n = "now div 1000"
  have le: "m \<le> ?n" using na Some h(4) by (simp add: not_after_def micro_def)
  have lev: "refilled ?c ?r (lb_tokens b) (micro now - lb_lastRefill b) = min ?c (lb_tokens b + (of_int ?n - of_int m) / 1000 * (?r / 1000))"
    by (simp add: refilled_def micro_def h(4) seconds_micro)
  show ?thesis
  proof (cases "now_ms now < of_int m / 1000 + of_int ret")
    case True
    have "(of_int m :: rat) / 1000 \<le> of_int ?n / 1000" using le by (simp add: divide_right_mono)
    then have elapsed: "max 0 (now_ms now - rh_last_refill_ms h) = (of_int ?n - of_int m) / 1000"
      by (simp add: h(5) now_ms_micro diff_divide_distrib max_def)
    from True show ?thesis by (simp add: redis_tokens_def HMGET_def bucket_for_def Some h(1,3) lev elapsed)
  next
    case False
    then have "of_int ret \<le> (of_int ?n - of_int m) / (1000 :: rat)" by (simp add: now_ms_micro diff_divide_distrib)
    then have "of_int ret * (?r / 1000) \<le> (of_int ?n - of_int m) / 1000 * (?r / 1000)"
      using pol by (intro mult_right_mono) (simp_all add: policy_ok_def)
    with ret have "?c \<le> (of_int ?n - of_int m) / 1000 * (?r / 1000)" by (simp add: mult.commute)
    moreover have "0 \<le> lb_tokens b" using h(2) by (simp add: held_def bucket_inv_def)
    ultimately have "refilled ?c ?r (lb_tokens b) (micro now - lb_lastRefill b) = ?c" unfolding lev by simp
    with False h Some show ?thesis by (simp add: redis_tokens_def HMGET_def bucket_for_def)
  qed
qed

lemma postgres_level:
  assumes rel: "postgres_rel p (table key) bo" and na: "not_after bo (micro now)"
  shows "(case table key of
        None \<Rightarrow> of_int (pol_Capacity p)
      | Some r \<Rightarrow> min (of_int (pol_Capacity p)) (br_tokens r + max 0 (EPOCH (clock_timestamp now - br_last_refill r)) * pol_RefillPerSecond p)) =
    refilled (of_int (pol_Capacity p)) (pol_RefillPerSecond p) (lb_tokens (bucket_for p bo (micro now)))
      (micro now - lb_lastRefill (bucket_for p bo (micro now)))"
proof (cases bo)
  case None
  with rel show ?thesis
    by (auto simp: postgres_rel_def refilled_def bucket_for_def newBucket_def seconds_def split: option.splits)
next
  case (Some b)
  with rel obtain r where r: "table key = Some r" "br_tokens r = lb_tokens b" "lb_lastRefill b = 1000 * br_last_refill r"
    by (auto simp: postgres_rel_def split: option.splits)
  have "br_last_refill r \<le> now div 1000" using na Some r(3) by (simp add: not_after_def micro_def)
  then have "0 \<le> (of_int (now div 1000) - of_int (br_last_refill r)) / (1000000 :: rat)" by simp
  then have "max 0 (EPOCH (clock_timestamp now - br_last_refill r)) = seconds (micro now - lb_lastRefill b)"
    unfolding EPOCH_def clock_timestamp_def micro_def r(3) seconds_micro of_int_diff by (rule max_absorb2)
  then show ?thesis by (simp add: refilled_def bucket_for_def Some r(1,2))
qed

lemma redis_step:
  assumes rel: "redis_rel p ret (db key) bo" and pol: "policy_ok p" and na: "not_after bo (micro now)"
    and ret: "of_int (pol_Capacity p) \<le> pol_RefillPerSecond p * (of_int ret / 1000)"
    and script: "redisTakeScript key (pol_Capacity p) (pol_RefillPerSecond p) ret now db = ((allowed, tokens), db')"
  shows "(allowed = 1) = fst (bucket_take p (bucket_for p bo (micro now)) (micro now))
    \<and> redis_rel p ret (db' key) (Some (snd (bucket_take p (bucket_for p bo (micro now)) (micro now))))"
proof -
  let ?b = "bucket_for p bo (micro now)"
  have "\<forall>b. bo = Some b \<longrightarrow> held p b" using rel by (auto simp: redis_rel_def split: option.splits prod.splits)
  note h = held_take [OF bucket_for_held [OF pol this na]] and lev = redis_level [of p ret db key bo now, OF rel pol na ret]
  let ?L = "refilled (of_int (pol_Capacity p)) (pol_RefillPerSecond p) (lb_tokens ?b) (micro now - lb_lastRefill ?b)"
  have res: "allowed = (if 1 \<le> ?L then 1 else 0)" "db' key = Some (\<lparr>rh_capacity = pol_Capacity p, rh_tokens = snd (taken ?L),
      rh_refill_per_second = pol_RefillPerSecond p, rh_last_refill_ms = now_ms now, rh_last_seen_ms = now_ms now\<rparr>, now_ms now + of_int ret)"
    using script unfolding redisTakeScript_def Let_def lev by (auto simp: taken_snd split: if_splits)
  have t: "fst (bucket_take p ?b (micro now)) = fst (taken ?L)" "lb_tokens (snd (bucket_take p ?b (micro now))) = snd (taken ?L)"
    using h by (metis fst_conv, metis snd_conv)
  have "\<exists>m. lb_lastRefill (snd (bucket_take p ?b (micro now))) = 1000 * m \<and> now_ms now = of_int m / 1000"
    using h by (intro exI [of _ "now div 1000"] conjI) (simp_all only: micro_def now_ms_micro)
  with conjunct2 [OF h] show ?thesis by (simp add: redis_rel_def res t)
qed

lemma postgres_step:
  assumes rel: "postgres_rel p (table key) bo" and pol: "policy_ok p" and na: "not_after bo (micro now)"
    and take: "ratelimit_take key (pol_Capacity p) (pol_RefillPerSecond p) now table = ((allowed, tokens), row)"
  shows "allowed = fst (bucket_take p (bucket_for p bo (micro now)) (micro now))
    \<and> postgres_rel p (Some row) (Some (snd (bucket_take p (bucket_for p bo (micro now)) (micro now)))) \<and> row_ok row"
proof -
  let ?b = "bucket_for p bo (micro now)"
  have "\<forall>b. bo = Some b \<longrightarrow> held p b" using rel by (auto simp: postgres_rel_def split: option.splits)
  note h = held_take [OF bucket_for_held [OF pol this na]]
  have "0 \<le> lb_tokens (snd (bucket_take p ?b (micro now)))" using h by (simp add: held_def bucket_inv_def)
  note nonneg = this and lev = postgres_level [of p table key bo now, OF rel na]
  let ?L = "refilled (of_int (pol_Capacity p)) (pol_RefillPerSecond p) (lb_tokens ?b) (micro now - lb_lastRefill ?b)"
  have res: "allowed = (1 \<le> ?L)" "row = \<lparr>br_capacity = pol_Capacity p, br_tokens = snd (taken ?L),
      br_refill_per_second = pol_RefillPerSecond p, br_last_refill = now div 1000, br_last_seen_at = now div 1000\<rparr>"
    using take unfolding ratelimit_take_def Let_def lev by (auto simp: taken_snd clock_timestamp_def split: if_splits)
  have t: "fst (bucket_take p ?b (micro now)) = fst (taken ?L)" "lb_tokens (snd (bucket_take p ?b (micro now))) = snd (taken ?L)"
    using h by (metis fst_conv, metis snd_conv)
  have "lb_lastRefill (snd (bucket_take p ?b (micro now))) = 1000 * (now div 1000)" using h by (simp only: micro_def)
  with conjunct2 [OF h] nonneg pol show ?thesis by (simp add: postgres_rel_def row_ok_def res t policy_ok_def)
qed

definition calls_of :: "go_string \<Rightarrow> (go_string \<times> 'a) list \<Rightarrow> 'a list" where
  "calls_of key xs = map snd (filter (\<lambda>(k, x). k = key) xs)"

lemma calls_of_simps [simp]:
  "calls_of key [] = []" "calls_of key ((k, x) # xs) = (if k = key then x # calls_of key xs else calls_of key xs)"
  by (simp_all add: calls_of_def)

text \<open>The instants of the calls do not go back.\<close>

fun in_time :: "instant \<Rightarrow> (go_string \<times> instant) list \<Rightarrow> bool" where
  "in_time t [] = True"
| "in_time t ((k, now) # calls) = (t \<le> now \<and> in_time now calls)"

lemma not_after_take: "not_after (Some (snd (bucket_take p (bucket_for p bo t) t))) t"
  if "held p (bucket_for p bo t)" "lb_lastRefill (bucket_for p bo t) \<le> t"
  using held_take [OF that] by (simp add: not_after_def)

lemma micro_mono: "a \<le> b \<Longrightarrow> micro a \<le> micro b"
  by (simp add: micro_def zdiv_mono1)

lemma not_after_mono: "not_after bo t \<Longrightarrow> t \<le> u \<Longrightarrow> not_after bo u"
  by (auto simp: not_after_def split: option.splits)

lemma redis_run:
  assumes "policy_ok p" and "of_int (pol_Capacity p) \<le> pol_RefillPerSecond p * (of_int (Milliseconds (rd_retention s)) / 1000)"
    and "\<forall>t. rd_outage s t = None" and "in_time t calls" and "not_after bo (micro t)"
    and "redis_rel p (Milliseconds (rd_retention s)) (rd_db s (redis_key s key)) bo"
  shows "\<exists>out. run_calls redis_ops p s calls = Some out
    \<and> calls_of key out = map Inr (reference p bo (map micro (calls_of key calls)))"
  using assms
proof (induction calls arbitrary: s t bo)
  case (Cons call calls)
  obtain k now where call: "call = (k, now)" by fastforce
  let ?ret = "Milliseconds (rd_retention s)"
  obtain allowed tokens db where sc: "redisTakeScript (redis_key s k) (pol_Capacity p) (pol_RefillPerSecond p) ?ret now (rd_db s)
      = ((allowed, tokens), db)" by (metis surj_pair)
  let ?s = "s\<lparr>rd_db := db\<rparr>"
  have take: "st_Take redis_ops s k p now = Some (Inr \<lparr>ld_Allowed = (allowed = 1), ld_Bucket = remote_state p tokens ''redis''\<rparr>, ?s)"
    using sc Cons.prems(3) by (simp add: redis_ops_def RedisStore_Take_def)
  have na: "not_after bo (micro now)" using Cons.prems(4,5) by (auto simp: call intro: not_after_mono micro_mono)
  have key: "redis_key ?s key = redis_key s key" by (simp add: redis_key_def)
  show ?case
  proof (cases "k = key")
    case True
    let ?b = "bucket_for p bo (micro now)"
    from redis_step [OF Cons.prems(6,1) na Cons.prems(2) sc [unfolded True]]
    have ok: "(allowed = 1) = fst (bucket_take p ?b (micro now))"
      and rel: "redis_rel p ?ret (rd_db ?s (redis_key ?s key)) (Some (snd (bucket_take p ?b (micro now))))" by (simp_all add: key)
    have "\<forall>b. bo = Some b \<longrightarrow> held p b" using Cons.prems(6) by (auto simp: redis_rel_def split: option.splits prod.splits)
    note after = not_after_take [OF bucket_for_held [OF Cons.prems(1) this na]]
    from Cons.IH [of ?s now, OF Cons.prems(1) _ _ _ after] Cons.prems(2-4) rel
    obtain out where "run_calls redis_ops p ?s calls = Some out"
      "calls_of key out = map Inr (reference p (Some (snd (bucket_take p ?b (micro now)))) (map micro (calls_of key calls)))"
      by (auto simp: call)
    with take ok True show ?thesis by (simp add: call split_def)
  next
    case False
    then have "db (redis_key s key) = rd_db s (redis_key s key)"
      using sc by (auto simp: redisTakeScript_def redis_key_def Let_def split: if_splits)
    with Cons.IH [of ?s now bo] Cons.prems na obtain out where "run_calls redis_ops p ?s calls = Some out"
      "calls_of key out = map Inr (reference p bo (map micro (calls_of key calls)))"
      by (auto simp: call key)
    with take False show ?thesis by (simp add: call)
  qed
qed simp

lemma postgres_run:
  assumes "policy_ok p" and "int4 (pol_Capacity p)" and "\<forall>t. pg_outage s t = None" and "in_time t calls"
    and "\<forall>key. not_after (bo key) (micro t) \<and> postgres_rel p (pg_table s key) (bo key)"
  shows "\<exists>out. run_calls postgres_ops p s calls = Some out
    \<and> calls_of key out = map Inr (reference p (bo key) (map micro (calls_of key calls)))"
  using assms
proof (induction calls arbitrary: s t bo)
  case (Cons call calls)
  obtain k now where call: "call = (k, now)" by fastforce
  obtain allowed tokens row where sc: "ratelimit_take k (pol_Capacity p) (pol_RefillPerSecond p) now (pg_table s)
      = ((allowed, tokens), row)" by (metis surj_pair)
  let ?s = "s\<lparr>pg_table := (pg_table s)(k \<mapsto> row)\<rparr>"
  have na: "not_after (bo key) (micro now)" for key
    using Cons.prems(4,5) by (auto simp: call intro: not_after_mono micro_mono)
  let ?b = "bucket_for p (bo k) (micro now)"
  have rel0: "postgres_rel p (pg_table s k) (bo k)" using Cons.prems(5) by blast
  from postgres_step [OF rel0 Cons.prems(1) na sc]
  have ok: "allowed = fst (bucket_take p ?b (micro now))" "row_ok row"
    and rel: "postgres_rel p (Some row) (Some (snd (bucket_take p ?b (micro now))))" by simp_all
  have take: "st_Take postgres_ops s k p now = Some (Inr \<lparr>ld_Allowed = allowed, ld_Bucket = remote_state p tokens ''postgres''\<rparr>, ?s)"
    using sc ok(2) Cons.prems(2,3) by (simp add: postgres_ops_def PostgresStore_Take_def)
  have "\<forall>b. bo k = Some b \<longrightarrow> held p b" using rel0 by (auto simp: postgres_rel_def split: option.splits)
  note after = not_after_take [OF bucket_for_held [OF Cons.prems(1) this na]]
  let ?bo = "bo(k := Some (snd (bucket_take p ?b (micro now))))"
  have "\<forall>key. not_after (?bo key) (micro now) \<and> postgres_rel p (pg_table ?s key) (?bo key)"
    using na rel after Cons.prems(5) by simp
  moreover have "\<forall>t. pg_outage ?s t = None" "in_time now calls" using Cons.prems(3,4) by (simp_all add: call)
  ultimately obtain out where "run_calls postgres_ops p ?s calls = Some out"
    "calls_of key out = map Inr (reference p (?bo key) (map micro (calls_of key calls)))"
    using Cons.IH [of ?s now ?bo, OF Cons.prems(1,2)] by blast
  with take ok(1) show ?case by (auto simp: call split_def)
qed simp

lemma reference_draws:
  "held p b \<Longrightarrow> chronological (lb_lastRefill b) ts \<Longrightarrow>
   length (filter (\<lambda>ok. ok) (reference p (Some b) ts)) = fst (run_draws (\<lambda>b. bucket_take (own_policy b) b) b ts)"
proof (induction ts arbitrary: b)
  case (Cons t ts)
  have own: "own_policy b = p" using Cons.prems by (simp add: held_def)
  obtain ok b' where take: "bucket_take p b t = (ok, b')" by fastforce
  with held_take [of p b t] Cons.prems have "held p b'" "lb_lastRefill b' = t" by simp_all
  with Cons.IH [of b'] Cons.prems have "length (filter (\<lambda>ok. ok) (reference p (Some b') ts)) = fst (run_draws (\<lambda>b. bucket_take (own_policy b) b) b' ts)"
    by simp
  then show ?case by (simp add: take own bucket_for_def split_def)
qed simp

lemma reference_fresh: "reference p None (t # ts) = reference p (Some (newBucket p t)) (t # ts)"
  by (simp add: bucket_for_def)

lemma reference_bound:
  assumes "policy_ok p" and "chronological t ts"
  shows "of_nat (length (filter (\<lambda>ok. ok) (reference p None (t # ts)))) \<le> of_int (pol_Capacity p) + pol_RefillPerSecond p * seconds (last (t # ts) - t)"
proof -
  have inv: "bucket_inv (newBucket p t)" by (rule newBucket_inv [OF assms(1)])
  have chron: "chronological (lb_lastRefill (newBucket p t)) (t # ts)" using assms(2) by (simp add: newBucket_def)
  from local_bucket.admitted_at_most [OF inv chron] reference_draws [OF held_new [OF assms(1)] chron]
  show ?thesis unfolding reference_fresh by (simp add: newBucket_def)
qed

lemma in_time_weaken: "in_time u calls \<Longrightarrow> t \<le> u \<Longrightarrow> in_time t calls"
  by (induction calls rule: in_time.induct) auto

lemma in_time_calls: "in_time t calls \<Longrightarrow> chronological (micro t) (map micro (calls_of key calls))"
proof (induction calls arbitrary: t)
  case (Cons c calls)
  obtain k u where c: "c = (k, u)" by fastforce
  with Cons.prems have u: "t \<le> u" "in_time u calls" by simp_all
  with Cons.IH [of u] Cons.IH [of t] in_time_weaken [of u calls t] micro_mono [of t u] show ?case by (simp add: c)
qed simp


definition demo_redis :: RedisStore where
  "demo_redis = NewRedisStore \<lparr>ro_Retention = 0, ro_Prefix = []\<rparr> Map.empty (\<lambda>t. None) None"

definition demo_postgres :: PostgresStore where
  "demo_postgres = \<lparr>pg_table = Map.empty, pg_outage = (\<lambda>t. None), pg_ping = None\<rparr>"


text \<open>A retention shorter than the time a bucket takes to fill, which the configuration accepts, forgets that a bucket
  was used up: a client that waits for the expiry is admitted again at once.\<close>

lemma short_retention_forgets:
  "run_calls redis_ops \<lparr>pol_Capacity = 1, pol_RefillPerSecond = 1 / 1000\<rparr> (demo_redis\<lparr>rd_retention := second\<rparr>)
     [(''a'', 0), (''a'', 2 * second)] = Some [(''a'', Inr True), (''a'', Inr True)]
   \<and> reference \<lparr>pol_Capacity = 1, pol_RefillPerSecond = 1 / 1000\<rparr> None [0, 2 * second] = [True, False]"
  by code_simp

text \<open>The stores part when the policy changes: the local store credits the time before the change at the old rate, the
  shared ones credit it at the new one.\<close>

lemma policy_change_differs:
  defines "slow \<equiv> \<lparr>pol_Capacity = 10, pol_RefillPerSecond = 1 / 1000\<rparr>" and "fast \<equiv> \<lparr>pol_Capacity = 10, pol_RefillPerSecond = 1\<rparr>"
  shows "fst (bucket_take fast ((newBucket slow 0)\<lparr>lb_tokens := 0\<rparr>) (5 * second)) = False
    \<and> fst (fst (ratelimit_take ''a'' 10 1 (5 * second) [''a'' \<mapsto> \<lparr>br_capacity = 10, br_tokens = 0, br_refill_per_second = 1 / 1000,
        br_last_refill = 0, br_last_seen_at = 0\<rparr>]))"
  unfolding slow_def fast_def by code_simp

text \<open>The SQL function reads the clock before it waits for the lock of its key, and writes what it read: a call that
  waited while a later one was served moves \<open>last_refill\<close> back, and the time between them is credited again. The local
  store, at the same instants, does not.\<close>

lemma late_lock_credits_twice:
  "run_calls postgres_ops \<lparr>pol_Capacity = 1, pol_RefillPerSecond = 1\<rparr> demo_postgres
     [(''a'', 10 * second), (''a'', 9 * second), (''a'', 10 * second)] = Some [(''a'', Inr True), (''a'', Inr False), (''a'', Inr True)]
   \<and> reference \<lparr>pol_Capacity = 1, pol_RefillPerSecond = 1\<rparr> None [10 * second, 9 * second, 10 * second] = [True, False, False]"
  by code_simp

section \<open>Facts about migrations\<close>

lemma migrations_applied: "set names \<subseteq> set (sm_versions db) \<Longrightarrow> run_migrations exec names db = (None, db)"
  by (induction names) auto

text \<open>A migration is executed at most once and recorded exactly when it was; after a run without an error all of them
  are recorded, and running again, for instance by another replica, executes nothing.\<close>

lemma migrations_once:
  assumes "run_migrations exec names db = (res, db')"
  shows "\<exists>new. sm_executed db' = sm_executed db @ new \<and> sm_versions db' = sm_versions db @ new
    \<and> distinct new \<and> set new \<subseteq> set names - set (sm_versions db) \<and> (\<forall>v \<in> set new. exec v = None)
    \<and> (res = None \<longrightarrow> set names \<subseteq> set (sm_versions db') \<and> run_migrations exec' names db' = (None, db'))"
proof -
  have "\<exists>new. sm_executed db' = sm_executed db @ new \<and> sm_versions db' = sm_versions db @ new
    \<and> distinct new \<and> set new \<subseteq> set names - set (sm_versions db) \<and> (\<forall>v \<in> set new. exec v = None)
    \<and> (res = None \<longrightarrow> set names \<subseteq> set (sm_versions db'))"
    using assms
  proof (induction names arbitrary: db)
    case (Cons n names)
    show ?case
    proof (cases "n \<in> set (sm_versions db)")
      case True
      with Cons.prems Cons.IH [of db] obtain new where "sm_executed db' = sm_executed db @ new" "sm_versions db' = sm_versions db @ new"
        "distinct new" "set new \<subseteq> set names - set (sm_versions db)" "\<forall>v \<in> set new. exec v = None"
        "res = None \<longrightarrow> set names \<subseteq> set (sm_versions db')" by auto
      with True show ?thesis by (intro exI [of _ new]) auto
    next
      case False
      show ?thesis
      proof (cases "exec n")
        case None
        let ?db = "db\<lparr>sm_versions := sm_versions db @ [n], sm_executed := sm_executed db @ [n]\<rparr>"
        from Cons.prems False None Cons.IH [of ?db] obtain new where "sm_executed db' = sm_executed ?db @ new"
          "sm_versions db' = sm_versions ?db @ new" "distinct new" "set new \<subseteq> set names - set (sm_versions ?db)"
          "\<forall>v \<in> set new. exec v = None" "res = None \<longrightarrow> set names \<subseteq> set (sm_versions db')" by auto
        with False None show ?thesis by (intro exI [of _ "n # new"]) auto
      next
        case (Some err)
        with False Cons.prems show ?thesis by auto
      qed
    qed
  qed simp
  with migrations_applied show ?thesis by blast
qed

end
