(* ===== verification/Fan_Out.thy ===== *)
theory Fan_Out
  imports Prelude "HOL-Library.Multiset"
begin

text \<open>
  Goroutines started in a loop, as \<open>broadcastDiscovery\<close> and \<open>deliverDiscovery\<close> of
  \<open>cmd/balancer/controller.go\<close> start them: a channel of \<open>slots\<close> tokens bounds how many work at a time, a wait group
  how long the loop waits, and the context ends the loop early. A job is the set of the sequences of visible actions
  it may do: a job that itself starts goroutines has several. The machine makes every send and receive of the token
  channel, every visible action and every \<open>Done\<close> of the wait group a step of its own, and the locale has what holds
  under every schedule.
\<close>

section \<open>The machine\<close>

text \<open>A goroutine works with the actions it has left, has given its token back, or has called \<open>Done\<close>: the deferred
  functions run in the opposite order of their \<open>defer\<close>s.\<close>

datatype 'a goroutine = Working "'a list" | Released | Gone

record 'a fan =
  fa_next :: nat
  fa_tokens :: nat
  fa_stopped :: bool
  fa_threads :: "'a goroutine list"
  fa_log :: "(nat \<times> 'a) list"

definition fan_start :: "'a fan" where
  "fan_start = \<lparr>fa_next = 0, fa_tokens = 0, fa_stopped = False, fa_threads = [], fa_log = []\<rparr>"

text \<open>The loop waits in \<open>group.Wait()\<close> when it has started every job or left early.\<close>

definition waiting :: "'a list set list \<Rightarrow> 'a fan \<Rightarrow> bool" where
  "waiting jobs f \<longleftrightarrow> fa_stopped f \<or> length jobs \<le> fa_next f"

definition fan_finished :: "'a list set list \<Rightarrow> 'a fan \<Rightarrow> bool" where
  "fan_finished jobs f \<longleftrightarrow> waiting jobs f \<and> list_all (\<lambda>g. g = Gone) (fa_threads f)"

inductive fan_step :: "bool \<Rightarrow> nat \<Rightarrow> 'a list set list \<Rightarrow> 'a fan \<Rightarrow> 'a fan \<Rightarrow> bool" for cancellable slots jobs where
  spawn: "\<not> waiting jobs f \<Longrightarrow> fa_tokens f < slots \<Longrightarrow> t \<in> jobs ! fa_next f \<Longrightarrow>
    fan_step cancellable slots jobs f
      (f\<lparr>fa_next := fa_next f + 1, fa_tokens := fa_tokens f + 1, fa_threads := fa_threads f @ [Working t]\<rparr>)"
| leave: "\<not> waiting jobs f \<Longrightarrow> cancellable \<Longrightarrow> fan_step cancellable slots jobs f (f\<lparr>fa_stopped := True\<rparr>)"
| act: "i < length (fa_threads f) \<Longrightarrow> fa_threads f ! i = Working (a # t) \<Longrightarrow>
    fan_step cancellable slots jobs f (f\<lparr>fa_threads := (fa_threads f)[i := Working t], fa_log := fa_log f @ [(i, a)]\<rparr>)"
| release: "i < length (fa_threads f) \<Longrightarrow> fa_threads f ! i = Working [] \<Longrightarrow>
    fan_step cancellable slots jobs f (f\<lparr>fa_threads := (fa_threads f)[i := Released], fa_tokens := fa_tokens f - 1\<rparr>)"
| wait_done: "i < length (fa_threads f) \<Longrightarrow> fa_threads f ! i = Released \<Longrightarrow>
    fan_step cancellable slots jobs f (f\<lparr>fa_threads := (fa_threads f)[i := Gone]\<rparr>)"

inductive_cases fan_stepE: "fan_step cancellable slots jobs f g"

abbreviation fan_run :: "bool \<Rightarrow> nat \<Rightarrow> 'a list set list \<Rightarrow> 'a fan \<Rightarrow> 'a fan \<Rightarrow> bool" where
  "fan_run cancellable slots jobs \<equiv> (fan_step cancellable slots jobs)\<^sup>*\<^sup>*"

section \<open>What the goroutines have done\<close>

definition actions_of :: "nat \<Rightarrow> (nat \<times> 'a) list \<Rightarrow> 'a list" where
  "actions_of i l = map snd (filter (\<lambda>(j, a). j = i) l)"

lemma actions_of_simps [simp]:
  "actions_of i [] = []" "actions_of i (l @ m) = actions_of i l @ actions_of i m"
  "actions_of i [(j, a)] = (if j = i then [a] else [])"
  by (simp_all add: actions_of_def)

text \<open>The log is made of what each goroutine did.\<close>

lemma mset_actions:
  "\<forall>(i, a) \<in> set l. i < n \<Longrightarrow> mset (map snd l) = (\<Sum>i < n. mset (actions_of i l))"
proof (induction l rule: rev_induct)
  case (snoc x l)
  obtain i a where x: "x = (i, a)" by (cases x)
  have "(\<Sum>k < n. mset (actions_of k [(i, a)])) = (\<Sum>k < n. if k = i then {#a#} else {#})"
    by (intro sum.cong) auto
  also have "\<dots> = {#a#}" using snoc.prems by (simp add: x)
  finally show ?case using snoc by (simp add: x sum.distrib)
qed simp

text \<open>One sequence for each member of a list of sets.\<close>

lemma listset_iff: "xs \<in> listset As \<longleftrightarrow> list_all2 (\<in>) xs As"
  by (induction As arbitrary: xs) (auto simp: set_Cons_def list_all2_Cons2)

lemma listset_empty: "listset As = {} \<longleftrightarrow> {} \<in> set As"
  by (induction As) (auto simp: set_Cons_def)

fun remaining :: "'a goroutine \<Rightarrow> 'a list" where
  "remaining (Working t) = t"
| "remaining Released = []"
| "remaining Gone = []"

fun working :: "'a goroutine \<Rightarrow> bool" where
  "working (Working t) = True"
| "working Released = False"
| "working Gone = False"

definition workers :: "'a fan \<Rightarrow> nat" where
  "workers f = length (filter working (fa_threads f))"

fun work_left :: "'a goroutine \<Rightarrow> nat" where
  "work_left (Working t) = length t + 2"
| "work_left Released = 1"
| "work_left Gone = 0"

definition fan_rank :: "'a list set list \<Rightarrow> 'a fan \<Rightarrow> nat \<times> nat" where
  "fan_rank jobs f = ((if waiting jobs f then 0 else length jobs - fa_next f), sum_list (map work_left (fa_threads f)))"

lemma sum_list_map_update_less:
  assumes "i < length xs" and "h x < (h (xs ! i) :: nat)"
  shows "sum_list (map h (xs[i := x])) < sum_list (map h xs)"
  using assms by (induction xs arbitrary: i) (auto split: nat.splits)

definition fan_ok :: "nat \<Rightarrow> 'a list set list \<Rightarrow> 'a fan \<Rightarrow> bool" where
  "fan_ok slots jobs f \<longleftrightarrow>
     fa_tokens f = workers f \<and> workers f \<le> slots \<and> length (fa_threads f) = fa_next f \<and> fa_next f \<le> length jobs
     \<and> (\<forall>(i, a) \<in> set (fa_log f). i < fa_next f)
     \<and> (\<forall>i < fa_next f. actions_of i (fa_log f) @ remaining (fa_threads f ! i) \<in> jobs ! i)"

section \<open>Every schedule\<close>

text \<open>The contract of such a loop: there is a token, and a job can always be done in some way.\<close>

locale bounded_fan_out =
  fixes cancellable :: bool and slots :: nat and jobs :: "'a list set list"
  assumes some_slot: "0 < slots"
    and doable: "j \<in> set jobs \<Longrightarrow> j \<noteq> {}"
begin

lemma start_ok: "fan_ok slots jobs fan_start"
  by (simp add: fan_ok_def fan_start_def workers_def)

lemma step_ok:
  assumes "fan_step cancellable slots jobs f g" and "fan_ok slots jobs f"
  shows "fan_ok slots jobs g"
  using assms
proof (cases rule: fan_step.cases)
  case (spawn t)
  have fresh: "actions_of (fa_next f) (fa_log f) = []"
    using assms(2) by (auto simp: fan_ok_def actions_of_def filter_empty_conv)
  have "actions_of i (fa_log f) @ remaining ((fa_threads f @ [Working t]) ! i) \<in> jobs ! i" if "i < fa_next f + 1" for i
    using that spawn assms(2) fresh by (cases "i = fa_next f") (auto simp: fan_ok_def nth_append)
  then show ?thesis
    using spawn assms(2) by (auto simp: fan_ok_def workers_def waiting_def less_Suc_eq)
next
  case leave
  with assms(2) show ?thesis by (simp add: fan_ok_def workers_def)
next
  case (act i a t)
  have "workers g = workers f"
    using filter_update_length [of i "fa_threads f" working "Working t"] act by (simp add: workers_def)
  moreover have "actions_of j (fa_log g) @ remaining (fa_threads g ! j) \<in> jobs ! j" if "j < fa_next f" for j
    using that act assms(2) by (cases "j = i") (auto simp: fan_ok_def)
  ultimately show ?thesis using act assms(2) by (auto simp: fan_ok_def)
next
  case (release i)
  have "workers g + 1 = workers f"
    using filter_update_length [of i "fa_threads f" working Released] release by (simp add: workers_def)
  moreover have "actions_of j (fa_log g) @ remaining (fa_threads g ! j) \<in> jobs ! j" if "j < fa_next f" for j
    using that release assms(2) by (cases "j = i") (auto simp: fan_ok_def)
  ultimately show ?thesis using release assms(2) by (auto simp: fan_ok_def)
next
  case (wait_done i)
  have "workers g = workers f"
    using filter_update_length [of i "fa_threads f" working Gone] wait_done by (simp add: workers_def)
  moreover have "actions_of j (fa_log g) @ remaining (fa_threads g ! j) \<in> jobs ! j" if "j < fa_next f" for j
    using that wait_done assms(2) by (cases "j = i") (auto simp: fan_ok_def)
  ultimately show ?thesis using wait_done assms(2) by (auto simp: fan_ok_def)
qed

lemma run_ok: "fan_run cancellable slots jobs fan_start f \<Longrightarrow> fan_ok slots jobs f"
  by (induction rule: rtranclp_induct) (auto intro: start_ok step_ok)

text \<open>At most \<open>slots\<close> goroutines work at a time.\<close>

lemma bounded: "fan_run cancellable slots jobs fan_start f \<Longrightarrow> workers f \<le> slots"
  using run_ok by (simp add: fan_ok_def)

text \<open>The loop is never stuck: until it has returned, some step is possible.\<close>

lemma progress:
  assumes "fan_run cancellable slots jobs fan_start f" and "\<not> fan_finished jobs f"
  shows "\<exists>g. fan_step cancellable slots jobs f g"
proof (cases "\<exists>i < length (fa_threads f). fa_threads f ! i \<noteq> Gone")
  case True
  then obtain i where i: "i < length (fa_threads f)" "fa_threads f ! i \<noteq> Gone" by blast
  show ?thesis
  proof (cases "fa_threads f ! i")
    case (Working t)
    with i(1) show ?thesis by (cases t) (auto intro: fan_step.release fan_step.act)
  next
    case Released
    with i(1) show ?thesis by (auto intro: fan_step.wait_done)
  qed (use i in simp)
next
  case False
  then have gone: "list_all (\<lambda>g. g = Gone) (fa_threads f)" by (auto simp: list_all_length)
  with assms(2) have nw: "\<not> waiting jobs f" by (simp add: fan_finished_def)
  have "filter working (fa_threads f) = []" using gone by (auto simp: filter_empty_conv list_all_iff)
  then have "fa_tokens f < slots" using run_ok [OF assms(1)] some_slot by (simp add: fan_ok_def workers_def)
  moreover obtain t where "t \<in> jobs ! fa_next f"
    using nw doable [of "jobs ! fa_next f"] by (auto simp: waiting_def)
  ultimately show ?thesis using nw fan_step.spawn by blast
qed

text \<open>Every schedule ends: a step takes the rank down.\<close>

lemma step_rank:
  assumes "fan_step cancellable slots jobs f g"
  shows "(fan_rank jobs g, fan_rank jobs f) \<in> less_than <*lex*> less_than"
  using assms
proof (cases rule: fan_step.cases)
  case (act i a t)
  then have "sum_list (map work_left (fa_threads g)) < sum_list (map work_left (fa_threads f))"
    by (auto intro!: sum_list_map_update_less)
  with act show ?thesis by (simp add: fan_rank_def waiting_def)
next
  case (release i)
  then have "sum_list (map work_left (fa_threads g)) < sum_list (map work_left (fa_threads f))"
    by (auto intro!: sum_list_map_update_less)
  with release show ?thesis by (simp add: fan_rank_def waiting_def)
next
  case (wait_done i)
  then have "sum_list (map work_left (fa_threads g)) < sum_list (map work_left (fa_threads f))"
    by (auto intro!: sum_list_map_update_less)
  with wait_done show ?thesis by (simp add: fan_rank_def waiting_def)
qed (auto simp: fan_rank_def waiting_def)

lemma terminates: "wfP (\<lambda>g f. fan_step cancellable slots jobs f g)"
  unfolding wfp_def
  by (rule wf_subset [OF wf_inv_image [OF wf_lex_prod [OF wf_less_than wf_less_than], of "fan_rank jobs"]])
    (auto simp: inv_image_def step_rank)

text \<open>When the loop has returned, each job that was started has been done, and without a cancellation every job.\<close>

lemma complete:
  assumes "fan_run cancellable slots jobs fan_start f" and "fan_finished jobs f"
  shows "\<forall>i < fa_next f. actions_of i (fa_log f) \<in> jobs ! i" and "fa_stopped f \<or> fa_next f = length jobs"
proof -
  note ok = run_ok [OF assms(1)]
  have "remaining (fa_threads f ! i) = []" if "i < fa_next f" for i
    using that ok assms(2) by (auto simp: fan_ok_def fan_finished_def list_all_length)
  with ok show "\<forall>i < fa_next f. actions_of i (fa_log f) \<in> jobs ! i" by (fastforce simp: fan_ok_def)
  from ok assms(2) show "fa_stopped f \<or> fa_next f = length jobs"
    by (auto simp: fan_ok_def fan_finished_def waiting_def)
qed

lemma not_stopped:
  assumes "fan_run cancellable slots jobs fan_start f" and "\<not> cancellable"
  shows "\<not> fa_stopped f"
  using assms(1)
  by (induction rule: rtranclp_induct) (auto simp: fan_start_def assms(2) elim!: fan_stepE)

text \<open>A returned loop exists: the steps of any schedule lead to one.\<close>

lemma returns: "\<exists>f. fan_run cancellable slots jobs fan_start f \<and> fan_finished jobs f"
proof -
  have "\<exists>g. fan_run cancellable slots jobs f g \<and> fan_finished jobs g" if "fan_run cancellable slots jobs fan_start f" for f
    using that
  proof (induction f rule: wfp_induct_rule [OF terminates])
    case (1 f)
    show ?case
    proof (cases "fan_finished jobs f")
      case False
      then obtain g where step: "fan_step cancellable slots jobs f g" using progress 1(2) by blast
      with 1(1) [of g] 1(2) obtain h where "fan_run cancellable slots jobs g h" "fan_finished jobs h"
        by (auto intro: rtranclp.rtrancl_into_rtrancl)
      with step show ?thesis by (meson converse_rtranclp_into_rtranclp)
    qed auto
  qed
  then show ?thesis by blast
qed

end

end
