(* ===== verification/Go_Url.thy ===== *)
theory Go_Url
  imports Go_Text
begin

text \<open>
  A parsed URL, as \<open>net/url\<close> gives it: the fields the program reads and, as \<open>u_text\<close>, what
  \<open>String()\<close> prints. \<open>url.Parse\<close> itself is a parameter of the definitions that call it.
\<close>

record url =
  u_Scheme :: go_string
  u_User :: "go_string option"
  u_Host :: go_string
  u_Path :: go_string
  u_RawPath :: go_string
  u_RawQuery :: go_string
  u_Fragment :: go_string
  u_text :: go_string

type_synonym url_parser = "go_string \<Rightarrow> url option"

text \<open>A concrete parser, for the examples: \<open>http://\<close> followed by the host.\<close>

definition simple_url :: "go_string \<Rightarrow> url" where
  "simple_url host = \<lparr>u_Scheme = ''http'', u_User = None, u_Host = host, u_Path = [], u_RawPath = [],
     u_RawQuery = [], u_Fragment = [], u_text = ''http://'' @ host\<rparr>"

definition simple_parse :: url_parser where
  "simple_parse s = (if HasPrefix s ''http://'' then Some (simple_url (drop 7 s)) else None)"

end
