(* ===== verification/Gateway_Types.thy ===== *)
theory Gateway_Types
  imports Go_Url
begin

text \<open>
  The configuration of the gateway as data (\<open>internal/config/gateway.go\<close>, \<open>types.go\<close>,
  \<open>security.go\<close>). A pointer to a sub-structure is an option. A slice is a list, except the
  methods and statuses of a retry policy, whose \<open>nil\<close> the program tells from an empty slice:
  they are \<open>slice\<close>s. A Go map of header names is an association list in iteration order.
\<close>

type_synonym 'a slice = "'a list option"

definition elems :: "'a slice \<Rightarrow> 'a list" where
  "elems s = (case s of None \<Rightarrow> [] | Some xs \<Rightarrow> xs)"

text \<open>\<open>append([]T(nil), xs...)\<close>: a copy, \<open>nil\<close> when there is nothing to copy.\<close>

definition copy_slice :: "'a list \<Rightarrow> 'a slice" where
  "copy_slice xs = (if xs = [] then None else Some xs)"

lemma elems_copy_slice [simp]: "elems (copy_slice xs) = xs"
  by (simp add: elems_def copy_slice_def)

lemma elems_simps [simp]: "elems None = []" "elems (Some xs) = xs"
  by (simp_all add: elems_def)

record ServerTLSConfig =
  st_CertFile :: go_string
  st_KeyFile :: go_string
  st_CAFile :: go_string
  st_RequireClientCert :: bool

record ClientTLSConfig =
  ct_Enabled :: bool
  ct_CAFile :: go_string
  ct_ServerName :: go_string
  ct_ClientCertFile :: go_string
  ct_ClientKeyFile :: go_string

record UpstreamConfig =
  up_DialTimeout :: duration
  up_TLSHandshakeTimeout :: duration
  up_ResponseHeaderTimeout :: duration
  up_ExpectContinueTimeout :: duration
  up_IdleConnTimeout :: duration
  up_MaxIdleConns :: int
  up_MaxIdleConnsPerHost :: int
  up_MaxConnsPerHost :: int
  up_MaxConcurrentRequests :: int

record RetryConfig =
  rc_MaxAttempts :: int
  rc_PerTryTimeout :: duration
  rc_BodyLimit :: int
  rc_Methods :: "go_string list"
  rc_Statuses :: "int list"
  rc_BudgetCapacity :: int
  rc_BudgetRefillPerSecond :: rat

record HealthCheckConfig =
  hcc_Mode :: go_string
  hcc_Path :: go_string
  hcc_Interval :: duration
  hcc_Timeout :: duration
  hcc_FailureThreshold :: int
  hcc_SuccessThreshold :: int
  hcc_MaxConcurrency :: int
  hcc_Jitter :: duration
  hcc_Cooldown :: duration
  hcc_ExpectedStatuses :: "int list"
  hcc_SlowStart :: duration
  hcc_SlowStartMinimum :: int

record GatewayListenerConfig =
  gl_ID :: go_string
  gl_Address :: go_string
  gl_Protocol :: go_string
  gl_Hostnames :: "go_string list"
  gl_Default :: bool
  gl_TLS :: ServerTLSConfig

record GatewayHeaderMatchConfig =
  gh_Name :: go_string
  gh_Exact :: go_string
  gh_Present :: "bool option"

record GatewayRouteMatch =
  gm_Hosts :: "go_string list"
  gm_PathExact :: go_string
  gm_PathPrefix :: go_string
  gm_Methods :: "go_string list"
  gm_Headers :: "GatewayHeaderMatchConfig list"

record GatewayWeightedClusterConfig =
  gw_Cluster :: go_string
  gw_Weight :: int

record GatewayRedirectConfig =
  gd_Scheme :: go_string
  gd_Host :: go_string
  gd_Path :: go_string
  gd_StatusCode :: int
  gd_PreserveQuery :: bool

record GatewayRouteAction =
  ga_Cluster :: go_string
  ga_WeightedClusters :: "GatewayWeightedClusterConfig list"
  ga_Redirect :: "GatewayRedirectConfig option"
  ga_RewritePrefix :: go_string
  ga_PreserveHost :: bool
  ga_HostRewrite :: go_string

record GatewayTimeoutConfig =
  gt_Request :: duration
  gt_PerTry :: duration

record GatewayRateLimitConfig =
  grl_Enabled :: bool
  grl_Capacity :: int
  grl_RefillPerSecond :: rat

record GatewayHeaderPolicy =
  ghp_Set :: "(go_string \<times> go_string) list"
  ghp_Add :: "(go_string \<times> go_string list) list"
  ghp_Remove :: "go_string list"

record GatewayRetryConfig =
  grc_MaxAttempts :: int
  grc_PerTryTimeout :: duration
  grc_BodyLimit :: int
  grc_Methods :: "go_string slice"
  grc_Statuses :: "int slice"
  grc_BudgetCapacity :: int
  grc_BudgetRefillPerSecond :: rat

record GatewayRouteConfig =
  gr_ID :: go_string
  gr_Listener :: go_string
  gr_Priority :: int
  gr_Match :: GatewayRouteMatch
  gr_Action :: GatewayRouteAction
  gr_Retry :: "GatewayRetryConfig option"
  gr_Timeouts :: GatewayTimeoutConfig
  gr_MaxRequestBodyBytes :: int
  gr_RateLimit :: "GatewayRateLimitConfig option"
  gr_RequestHeaders :: GatewayHeaderPolicy
  gr_ResponseHeaders :: GatewayHeaderPolicy

record GatewayEndpointConfig =
  ge_ID :: go_string
  ge_URL :: go_string
  ge_Weight :: int
  ge_Disabled :: bool

record GatewayHealthCheckConfig =
  ghc_Enabled :: bool
  ghc_Mode :: go_string
  ghc_Path :: go_string
  ghc_Interval :: duration
  ghc_Timeout :: duration
  ghc_FailureThreshold :: int
  ghc_SuccessThreshold :: int
  ghc_MaxConcurrency :: int
  ghc_Jitter :: duration
  ghc_Cooldown :: duration
  ghc_ExpectedStatuses :: "int list"
  ghc_SlowStart :: duration
  ghc_SlowStartMinimum :: int

record GatewayTransportConfig =
  gtc_Protocol :: go_string
  gtc_DialTimeout :: duration
  gtc_TLSHandshakeTimeout :: duration
  gtc_ResponseHeaderTimeout :: duration
  gtc_ExpectContinueTimeout :: duration
  gtc_IdleConnTimeout :: duration
  gtc_MaxIdleConns :: int
  gtc_MaxIdleConnsPerHost :: int
  gtc_MaxConnsPerHost :: int
  gtc_MaxConcurrentRequests :: int
  gtc_MaxResponseHeaderBytes :: int

record GatewayDiscoveryConfig =
  gdc_Type :: go_string
  gdc_Hostname :: go_string
  gdc_Port :: int
  gdc_Scheme :: go_string
  gdc_Namespace :: go_string
  gdc_Service :: go_string
  gdc_APIServer :: go_string
  gdc_TokenFile :: go_string
  gdc_CAFile :: go_string
  gdc_RefreshInterval :: duration
  gdc_StaleAfter :: duration

record GatewayClusterConfig =
  gc_ID :: go_string
  gc_Strategy :: go_string
  gc_HashKey :: go_string
  gc_Endpoints :: "GatewayEndpointConfig list"
  gc_Health :: GatewayHealthCheckConfig
  gc_Retry :: "GatewayRetryConfig option"
  gc_Transport :: GatewayTransportConfig
  gc_TLS :: ClientTLSConfig
  gc_Discovery :: GatewayDiscoveryConfig

record GatewayConfig =
  gg_APIVersion :: go_string
  gg_HistoryLimit :: int
  gg_Listeners :: "GatewayListenerConfig list"
  gg_Routes :: "GatewayRouteConfig list"
  gg_Clusters :: "GatewayClusterConfig list"

definition GatewayAPIVersion :: go_string where
  "GatewayAPIVersion = ''proxy/v1''"

text \<open>A configuration with one listener, one route and one cluster, for the examples.\<close>

definition no_headers :: GatewayHeaderPolicy where
  "no_headers = \<lparr>ghp_Set = [], ghp_Add = [], ghp_Remove = []\<rparr>"

definition demo_route :: GatewayRouteConfig where
  "demo_route = \<lparr>gr_ID = ''r'', gr_Listener = [], gr_Priority = 0,
     gr_Match = \<lparr>gm_Hosts = [], gm_PathExact = [], gm_PathPrefix = ''/api'', gm_Methods = [], gm_Headers = []\<rparr>,
     gr_Action = \<lparr>ga_Cluster = ''c'', ga_WeightedClusters = [], ga_Redirect = None, ga_RewritePrefix = [],
       ga_PreserveHost = False, ga_HostRewrite = []\<rparr>,
     gr_Retry = None, gr_Timeouts = \<lparr>gt_Request = 0, gt_PerTry = 0\<rparr>, gr_MaxRequestBodyBytes = 0,
     gr_RateLimit = None, gr_RequestHeaders = no_headers, gr_ResponseHeaders = no_headers\<rparr>"

definition demo_cluster :: GatewayClusterConfig where
  "demo_cluster = \<lparr>gc_ID = ''c'', gc_Strategy = [], gc_HashKey = [],
     gc_Endpoints = [\<lparr>ge_ID = ''a'', ge_URL = ''http://a'', ge_Weight = 0, ge_Disabled = False\<rparr>],
     gc_Health = \<lparr>ghc_Enabled = False, ghc_Mode = [], ghc_Path = [], ghc_Interval = 0, ghc_Timeout = 0,
       ghc_FailureThreshold = 0, ghc_SuccessThreshold = 0, ghc_MaxConcurrency = 0, ghc_Jitter = 0,
       ghc_Cooldown = 0, ghc_ExpectedStatuses = [], ghc_SlowStart = 0, ghc_SlowStartMinimum = 0\<rparr>,
     gc_Retry = None,
     gc_Transport = \<lparr>gtc_Protocol = [], gtc_DialTimeout = 0, gtc_TLSHandshakeTimeout = 0,
       gtc_ResponseHeaderTimeout = 0, gtc_ExpectContinueTimeout = 0, gtc_IdleConnTimeout = 0,
       gtc_MaxIdleConns = 0, gtc_MaxIdleConnsPerHost = 0, gtc_MaxConnsPerHost = 0,
       gtc_MaxConcurrentRequests = 0, gtc_MaxResponseHeaderBytes = 0\<rparr>,
     gc_TLS = \<lparr>ct_Enabled = False, ct_CAFile = [], ct_ServerName = [], ct_ClientCertFile = [], ct_ClientKeyFile = []\<rparr>,
     gc_Discovery = \<lparr>gdc_Type = [], gdc_Hostname = [], gdc_Port = 0, gdc_Scheme = [], gdc_Namespace = [],
       gdc_Service = [], gdc_APIServer = [], gdc_TokenFile = [], gdc_CAFile = [], gdc_RefreshInterval = 0,
       gdc_StaleAfter = 0\<rparr>\<rparr>"

definition demo_listener :: GatewayListenerConfig where
  "demo_listener = \<lparr>gl_ID = ''l'', gl_Address = '':80'', gl_Protocol = [], gl_Hostnames = [], gl_Default = False,
     gl_TLS = \<lparr>st_CertFile = [], st_KeyFile = [], st_CAFile = [], st_RequireClientCert = False\<rparr>\<rparr>"

definition demo_gateway :: GatewayConfig where
  "demo_gateway = \<lparr>gg_APIVersion = [], gg_HistoryLimit = 0, gg_Listeners = [demo_listener],
     gg_Routes = [demo_route], gg_Clusters = [demo_cluster]\<rparr>"

end
