(* ===== verification/Gateway_Config.thy ===== *)
theory Gateway_Config
  imports Gateway_Types
begin

text \<open>
  Defaults and validation of a gateway configuration (\<open>internal/config/gateway.go\<close>). A sequence
  of guarded early returns is a list of checks, each a condition and the message returned when it
  holds; \<open>first_error\<close> gives the first that fails. \<open>url.Parse\<close> is a parameter.
\<close>

section \<open>Defaults\<close>

definition default_listener :: "GatewayListenerConfig \<Rightarrow> GatewayListenerConfig" where
  "default_listener l = (if gl_Protocol l = [] then l\<lparr>gl_Protocol := ''http1''\<rparr> else l)"

definition default_redirect :: "GatewayRouteAction \<Rightarrow> GatewayRouteAction" where
  "default_redirect a =
     a\<lparr>ga_Redirect := map_option (\<lambda>r. if gd_StatusCode r = 0 then r\<lparr>gd_StatusCode := 307\<rparr> else r) (ga_Redirect a)\<rparr>"

definition default_route :: "GatewayRouteConfig \<Rightarrow> GatewayRouteConfig" where
  "default_route r =
     r\<lparr>gr_Match := (gr_Match r)\<lparr>gm_Methods := map ToUpper (gm_Methods (gr_Match r))\<rparr>,
       gr_Action := default_redirect (gr_Action r)\<rparr>"

definition default_tls :: "ClientTLSConfig \<Rightarrow> ClientTLSConfig" where
  "default_tls t =
     (if ct_CAFile t \<noteq> [] \<or> ct_ServerName t \<noteq> [] \<or> ct_ClientCertFile t \<noteq> [] \<or> ct_ClientKeyFile t \<noteq> []
      then t\<lparr>ct_Enabled := True\<rparr> else t)"

definition default_discovery :: "GatewayDiscoveryConfig \<Rightarrow> GatewayDiscoveryConfig" where
  "default_discovery d =
     (let d = (if gdc_Type d = [] then d\<lparr>gdc_Type := ''static''\<rparr> else d);
          d = (if gdc_Type d \<noteq> ''static'' \<and> gdc_RefreshInterval d = 0
               then d\<lparr>gdc_RefreshInterval := 30 * second\<rparr> else d)
      in if gdc_Type d \<noteq> ''static'' \<and> gdc_StaleAfter d = 0 then d\<lparr>gdc_StaleAfter := 120 * second\<rparr> else d)"

definition default_endpoint :: "GatewayEndpointConfig \<Rightarrow> GatewayEndpointConfig" where
  "default_endpoint e = (if ge_Weight e = 0 then e\<lparr>ge_Weight := 1\<rparr> else e)"

definition default_cluster :: "GatewayClusterConfig \<Rightarrow> GatewayClusterConfig" where
  "default_cluster c =
     c\<lparr>gc_TLS := default_tls (gc_TLS c),
       gc_Strategy := (if gc_Strategy c = [] then ''round_robin'' else gc_Strategy c),
       gc_Discovery := default_discovery (gc_Discovery c),
       gc_Transport := (if gtc_Protocol (gc_Transport c) = []
                        then (gc_Transport c)\<lparr>gtc_Protocol := ''auto''\<rparr> else gc_Transport c),
       gc_Endpoints := map default_endpoint (gc_Endpoints c)\<rparr>"

definition single_default :: "GatewayListenerConfig list \<Rightarrow> GatewayListenerConfig list" where
  "single_default ls = (case ls of [l] \<Rightarrow> [l\<lparr>gl_Default := True\<rparr>] | _ \<Rightarrow> ls)"

definition ApplyDefaults :: "GatewayConfig \<Rightarrow> GatewayConfig" where
  "ApplyDefaults g =
     g\<lparr>gg_APIVersion := (if gg_APIVersion g = [] then GatewayAPIVersion else gg_APIVersion g),
       gg_HistoryLimit := (if gg_HistoryLimit g = 0 then 10 else gg_HistoryLimit g),
       gg_Listeners := single_default (map default_listener (gg_Listeners g)),
       gg_Routes := map default_route (gg_Routes g),
       gg_Clusters := map default_cluster (gg_Clusters g)\<rparr>"

definition or_else :: "'a :: zero \<Rightarrow> 'a \<Rightarrow> 'a" where
  "or_else x d = (if x = 0 then d else x)"

definition or_nil :: "'a list \<Rightarrow> 'a list \<Rightarrow> 'a list" where
  "or_nil x d = (if x = [] then d else x)"

definition inherit_transport :: "GatewayTransportConfig \<Rightarrow> UpstreamConfig \<Rightarrow> GatewayTransportConfig" where
  "inherit_transport t u =
     t\<lparr>gtc_DialTimeout := or_else (gtc_DialTimeout t) (up_DialTimeout u),
       gtc_TLSHandshakeTimeout := or_else (gtc_TLSHandshakeTimeout t) (up_TLSHandshakeTimeout u),
       gtc_ResponseHeaderTimeout := or_else (gtc_ResponseHeaderTimeout t) (up_ResponseHeaderTimeout u),
       gtc_ExpectContinueTimeout := or_else (gtc_ExpectContinueTimeout t) (up_ExpectContinueTimeout u),
       gtc_IdleConnTimeout := or_else (gtc_IdleConnTimeout t) (up_IdleConnTimeout u),
       gtc_MaxIdleConns := or_else (gtc_MaxIdleConns t) (up_MaxIdleConns u),
       gtc_MaxIdleConnsPerHost := or_else (gtc_MaxIdleConnsPerHost t) (up_MaxIdleConnsPerHost u),
       gtc_MaxConnsPerHost := or_else (gtc_MaxConnsPerHost t) (up_MaxConnsPerHost u),
       gtc_MaxConcurrentRequests := or_else (gtc_MaxConcurrentRequests t) (up_MaxConcurrentRequests u),
       gtc_MaxResponseHeaderBytes := or_else (gtc_MaxResponseHeaderBytes t) 1048576\<rparr>"

definition mergeGatewayRetryDefaults :: "GatewayRetryConfig \<Rightarrow> RetryConfig \<Rightarrow> GatewayRetryConfig" where
  "mergeGatewayRetryDefaults t s =
     t\<lparr>grc_MaxAttempts := or_else (grc_MaxAttempts t) (rc_MaxAttempts s),
       grc_PerTryTimeout := or_else (grc_PerTryTimeout t) (rc_PerTryTimeout s),
       grc_BodyLimit := or_else (grc_BodyLimit t) (rc_BodyLimit s),
       grc_Methods := (if elems (grc_Methods t) = [] then copy_slice (rc_Methods s) else grc_Methods t),
       grc_Statuses := (if elems (grc_Statuses t) = [] then copy_slice (rc_Statuses s) else grc_Statuses t),
       grc_BudgetCapacity := or_else (grc_BudgetCapacity t) (rc_BudgetCapacity s),
       grc_BudgetRefillPerSecond := or_else (grc_BudgetRefillPerSecond t) (rc_BudgetRefillPerSecond s)\<rparr>"

definition mergeGatewayHealthDefaults ::
    "GatewayHealthCheckConfig \<Rightarrow> HealthCheckConfig \<Rightarrow> GatewayHealthCheckConfig" where
  "mergeGatewayHealthDefaults t s =
     t\<lparr>ghc_Mode := or_nil (ghc_Mode t) (hcc_Mode s),
       ghc_Path := or_nil (ghc_Path t) (hcc_Path s),
       ghc_Interval := or_else (ghc_Interval t) (hcc_Interval s),
       ghc_Timeout := or_else (ghc_Timeout t) (hcc_Timeout s),
       ghc_FailureThreshold := or_else (ghc_FailureThreshold t) (hcc_FailureThreshold s),
       ghc_SuccessThreshold := or_else (ghc_SuccessThreshold t) (hcc_SuccessThreshold s),
       ghc_MaxConcurrency := or_else (ghc_MaxConcurrency t) (hcc_MaxConcurrency s),
       ghc_Jitter := or_else (ghc_Jitter t) (hcc_Jitter s),
       ghc_Cooldown := or_else (ghc_Cooldown t) (hcc_Cooldown s),
       ghc_ExpectedStatuses := or_nil (ghc_ExpectedStatuses t) (hcc_ExpectedStatuses s),
       ghc_SlowStart := or_else (ghc_SlowStart t) (hcc_SlowStart s),
       ghc_SlowStartMinimum := or_else (ghc_SlowStartMinimum t) (hcc_SlowStartMinimum s)\<rparr>"

definition empty_retry :: GatewayRetryConfig where
  "empty_retry = \<lparr>grc_MaxAttempts = 0, grc_PerTryTimeout = 0, grc_BodyLimit = 0, grc_Methods = None,
     grc_Statuses = None, grc_BudgetCapacity = 0, grc_BudgetRefillPerSecond = 0\<rparr>"

definition inherit_cluster ::
    "UpstreamConfig \<Rightarrow> RetryConfig \<Rightarrow> HealthCheckConfig \<Rightarrow> GatewayClusterConfig \<Rightarrow> GatewayClusterConfig" where
  "inherit_cluster upstream retry health c =
     c\<lparr>gc_Transport := inherit_transport (gc_Transport c) upstream,
       gc_Retry := Some (mergeGatewayRetryDefaults
         (case gc_Retry c of None \<Rightarrow> empty_retry | Some r \<Rightarrow> r) retry),
       gc_Health := (if ghc_Enabled (gc_Health c) then mergeGatewayHealthDefaults (gc_Health c) health
                     else gc_Health c)\<rparr>"

definition ApplyInheritedDefaults ::
    "UpstreamConfig \<Rightarrow> RetryConfig \<Rightarrow> HealthCheckConfig \<Rightarrow> GatewayConfig \<Rightarrow> GatewayConfig" where
  "ApplyInheritedDefaults upstream retry health g =
     (let g = ApplyDefaults g
      in g\<lparr>gg_Clusters := map (inherit_cluster upstream retry health) (gg_Clusters g),
           gg_Routes := map (\<lambda>r. r\<lparr>gr_Retry := map_option (\<lambda>t. mergeGatewayRetryDefaults t retry) (gr_Retry r)\<rparr>)
             (gg_Routes g)\<rparr>)"

section \<open>Validation\<close>

type_synonym check = "bool \<times> go_string"

fun first_error :: "check list \<Rightarrow> go_string option" where
  "first_error [] = None"
| "first_error ((failed, msg) # cs) = (if failed then Some msg else first_error cs)"

text \<open>\<open>url.URL.Hostname\<close>: the host without a port and without the brackets of an IPv6 address.\<close>

definition valid_optional_port :: "go_string \<Rightarrow> bool" where
  "valid_optional_port port \<longleftrightarrow> port = [] \<or> (hd port = CHR '':'' \<and> list_all is_digit (tl port))"

definition Hostname :: "url \<Rightarrow> go_string" where
  "Hostname u =
     (let h = u_Host u;
          h = (case split_last_colon h of
                 Some (host, port) \<Rightarrow> if valid_optional_port port then host else h
               | None \<Rightarrow> h)
      in if HasPrefix h ''['' \<and> HasSuffix h '']'' then butlast (tl h) else h)"

definition validHTTPToken :: "go_string \<Rightarrow> bool" where
  "validHTTPToken v \<longleftrightarrow> v \<noteq> [] \<and> list_all (\<lambda>c. 33 \<le> byte c \<and> byte c \<le> 126
     \<and> byte c \<noteq> 34 \<and> byte c \<noteq> 92 \<and> c \<notin> set ''()<>@,;:/[]?={}'') v"

definition validHeaderName :: "go_string \<Rightarrow> bool" where
  "validHeaderName name \<longleftrightarrow> name \<noteq> [] \<and> CanonicalHeaderKey name \<noteq> []"

definition line_break :: "go_string \<Rightarrow> bool" where
  "line_break s = list_ex (\<lambda>c. byte c = 13 \<or> byte c = 10) s"

definition forbiddenGatewayHeader :: "go_string \<Rightarrow> bool" where
  "forbiddenGatewayHeader name =
     (let lower = ToLower name
      in HasPrefix lower ''x-balancer-'' \<or> HasPrefix lower ''x-forwarded-''
         \<or> lower \<in> {''connection'', ''content-length'', ''forwarded'', ''host'', ''keep-alive'',
             ''proxy-connection'', ''te'', ''trailer'', ''transfer-encoding'', ''upgrade'', ''x-real-ip''})"

definition parsed_authority :: "url_parser \<Rightarrow> go_string \<Rightarrow> bool" where
  "parsed_authority parse v =
     (case parse (''http://'' @ v) of
        None \<Rightarrow> False
      | Some u \<Rightarrow> u_Host u = v \<and> Hostname u \<noteq> [] \<and> u_User u = None \<and> u_Path u = [])"

definition validAuthority :: "url_parser \<Rightarrow> go_string \<Rightarrow> bool" where
  "validAuthority parse v \<longleftrightarrow>
     v \<noteq> [] \<and> TrimSpace v = v
     \<and> \<not> list_ex (\<lambda>c. c \<in> set ''/?#@ '' \<or> byte c \<in> {92, 13, 10, 9}) v
     \<and> parsed_authority parse v \<and> \<not> HasSuffix v '':''"

definition validHashKey :: "go_string \<Rightarrow> bool" where
  "validHashKey v \<longleftrightarrow>
     v \<in> {''client_ip'', ''host'', ''path''}
     \<or> (case SplitN2 v (CHR '':'') of
          [kind, name] \<Rightarrow> (kind = ''header'' \<or> kind = ''cookie'') \<and> TrimSpace name \<noteq> []
        | _ \<Rightarrow> False)"

definition validateHostnamePattern :: "go_string \<Rightarrow> check list" where
  "validateHostnamePattern host =
     (let host = TrimSpace (ToLower host)
      in [(host = [] \<or> ContainsAny host ''/?#@'', ''invalid hostname pattern''),
          (ContainsChar host (CHR ''*'') \<and> \<not> HasPrefix host ''*.'',
           ''wildcard hostname must use a leading wildcard label'')])"

definition ServerTLS_Validate :: "ServerTLSConfig \<Rightarrow> check list" where
  "ServerTLS_Validate t =
     [((st_CertFile t = []) \<noteq> (st_KeyFile t = []), ''TLS certificate and key must be configured together''),
      (st_RequireClientCert t \<and> (st_CAFile t = [] \<or> st_CertFile t = []),
       ''mutual TLS requires server certificate, key and client CA'')]"

definition validateGatewayRetry :: "GatewayRetryConfig \<Rightarrow> check list" where
  "validateGatewayRetry r =
     (grc_MaxAttempts r < 1 \<or> grc_MaxAttempts r > 5 \<or> grc_PerTryTimeout r \<le> 0 \<or> grc_BodyLimit r < 0
        \<or> grc_BudgetCapacity r < 1 \<or> grc_BudgetRefillPerSecond r \<le> 0, ''retry policy is invalid'')
     # map (\<lambda>status. (status < 400 \<or> status > 599, ''retry status is invalid'')) (elems (grc_Statuses r))"

definition header_name_checks :: "go_string \<Rightarrow> check list" where
  "header_name_checks name =
     [(\<not> validHeaderName name, ''header name cannot be empty''),
      (forbiddenGatewayHeader name, ''header cannot be rewritten'')]"

definition header_policy_checks :: "GatewayHeaderPolicy \<Rightarrow> check list" where
  "header_policy_checks p =
     concat (map (\<lambda>(name, v). header_name_checks name @ [(line_break v, ''header contains a line break'')])
       (ghp_Set p))
     @ concat (map (\<lambda>(name, vs). header_name_checks name
         @ map (\<lambda>v. (line_break v, ''header contains a line break'')) vs) (ghp_Add p))
     @ concat (map header_name_checks (ghp_Remove p))"

definition validateHeaderPolicies :: "GatewayHeaderPolicy list \<Rightarrow> check list" where
  "validateHeaderPolicies policies = concat (map header_policy_checks policies)"

definition match_checks :: "GatewayRouteMatch \<Rightarrow> check list" where
  "match_checks m =
     [(gm_PathExact m \<noteq> [] \<and> gm_PathPrefix m \<noteq> [], ''path_exact and path_prefix are mutually exclusive''),
      (gm_PathExact m \<noteq> [] \<and> \<not> HasPrefix (gm_PathExact m) ''/'', ''path_exact must start with /''),
      (gm_PathPrefix m \<noteq> [] \<and> \<not> HasPrefix (gm_PathPrefix m) ''/'', ''path_prefix must start with /'')]
     @ map (\<lambda>x. (x = [] \<or> \<not> validHTTPToken x, ''method is invalid'')) (gm_Methods m)
     @ concat (map validateHostnamePattern (gm_Hosts m))
     @ concat (map (\<lambda>h.
         [(\<not> validHeaderName (gh_Name h) \<or> (gh_Exact h = [] \<and> gh_Present h = None),
           ''header matches require name and exact or present''),
          (forbiddenGatewayHeader (gh_Name h), ''header cannot be used for route matching''),
          (line_break (gh_Exact h), ''header match contains a line break''),
          (gh_Exact h \<noteq> [] \<and> gh_Present h = Some False,
           ''header match cannot require an exact value and absence'')]) (gm_Headers m))"

fun weighted_checks :: "go_string list \<Rightarrow> go_string list \<Rightarrow> GatewayWeightedClusterConfig list \<Rightarrow> check list" where
  "weighted_checks clusters seen [] = []"
| "weighted_checks clusters seen (t # ts) =
     (gw_Cluster t \<notin> set clusters, ''unknown weighted cluster'')
     # (gw_Weight t < 1, ''weighted cluster weight must be positive'')
     # (gw_Cluster t \<in> set seen, ''duplicate weighted cluster'')
     # weighted_checks clusters (gw_Cluster t # seen) ts"

definition action_count :: "GatewayRouteAction \<Rightarrow> nat" where
  "action_count a = of_bool (ga_Cluster a \<noteq> []) + of_bool (ga_WeightedClusters a \<noteq> [])
     + of_bool (ga_Redirect a \<noteq> None)"

definition action_checks :: "go_string list \<Rightarrow> GatewayRouteAction \<Rightarrow> check list" where
  "action_checks clusters a =
     (action_count a \<noteq> 1, ''action must define exactly one of cluster, weighted_clusters or redirect'')
     # (ga_Cluster a \<noteq> [] \<and> ga_Cluster a \<notin> set clusters, ''unknown cluster'')
     # weighted_checks clusters [] (ga_WeightedClusters a)"

definition redirect_checks :: "url_parser \<Rightarrow> GatewayRedirectConfig option \<Rightarrow> check list" where
  "redirect_checks parse redirect =
     (case redirect of
        None \<Rightarrow> []
      | Some r \<Rightarrow>
          [(gd_StatusCode r \<notin> {301, 302, 303, 307, 308}, ''unsupported redirect status''),
           (gd_Scheme r \<noteq> [] \<and> gd_Scheme r \<noteq> ''http'' \<and> gd_Scheme r \<noteq> ''https'',
            ''redirect scheme must be http or https''),
           (gd_Host r \<noteq> [] \<and> \<not> validAuthority parse (gd_Host r), ''redirect host is invalid''),
           (gd_Path r \<noteq> [] \<and> (\<not> HasPrefix (gd_Path r) ''/'' \<or> line_break (gd_Path r)),
            ''redirect path must be an absolute path'')])"

definition policy_checks :: "url_parser \<Rightarrow> GatewayRouteConfig \<Rightarrow> check list" where
  "policy_checks parse r =
     [(ga_HostRewrite (gr_Action r) \<noteq> [] \<and> ga_PreserveHost (gr_Action r),
       ''host_rewrite and preserve_host are mutually exclusive''),
      (ga_HostRewrite (gr_Action r) \<noteq> [] \<and> \<not> validAuthority parse (ga_HostRewrite (gr_Action r)),
       ''host_rewrite is invalid'')]
     @ (case gr_Retry r of None \<Rightarrow> [] | Some retry \<Rightarrow> validateGatewayRetry retry)
     @ [(gt_Request (gr_Timeouts r) < 0 \<or> gt_PerTry (gr_Timeouts r) < 0, ''timeouts cannot be negative''),
        (gr_MaxRequestBodyBytes r < 0, ''max_request_body_bytes cannot be negative''),
        (case gr_RateLimit r of None \<Rightarrow> False
         | Some l \<Rightarrow> grl_Enabled l \<and> (grl_Capacity l < 1 \<or> grl_RefillPerSecond l \<le> 0),
         ''route rate_limit values must be positive'')]
     @ validateHeaderPolicies [gr_RequestHeaders r, gr_ResponseHeaders r]"

text \<open>\<open>validateRoute\<close> fills in the status of a redirect on its way, through the pointer it was
  given; the second component is the route it leaves behind.\<close>

definition validateRoute ::
    "url_parser \<Rightarrow> go_string list \<Rightarrow> GatewayRouteConfig \<Rightarrow> go_string option \<times> GatewayRouteConfig" where
  "validateRoute parse clusters r =
     (case first_error (match_checks (gr_Match r) @ action_checks clusters (gr_Action r)) of
        Some err \<Rightarrow> (Some err, r)
      | None \<Rightarrow>
          (let r = r\<lparr>gr_Action := default_redirect (gr_Action r)\<rparr>
           in (first_error (redirect_checks parse (ga_Redirect (gr_Action r)) @ policy_checks parse r), r)))"

definition endpoint_invalid :: "url_parser \<Rightarrow> GatewayEndpointConfig \<Rightarrow> bool" where
  "endpoint_invalid parse e =
     (case parse (ge_URL e) of
        None \<Rightarrow> True
      | Some u \<Rightarrow> ge_ID e = [] \<or> u_Host u = [] \<or> u_User u \<noteq> None \<or> u_Fragment u \<noteq> []
          \<or> u_Scheme u \<notin> {''http'', ''https''})"

fun endpoint_checks ::
    "url_parser \<Rightarrow> GatewayClusterConfig \<Rightarrow> go_string list \<Rightarrow> go_string list \<Rightarrow> GatewayEndpointConfig list
     \<Rightarrow> check list" where
  "endpoint_checks parse c ids urls [] = []"
| "endpoint_checks parse c ids urls (e # es) =
     (endpoint_invalid parse e, ''invalid endpoint'')
     # (let u = the (parse (ge_URL e))
        in (gtc_Protocol (gc_Transport c) = ''h2c'' \<and> u_Scheme u \<noteq> ''http'', ''h2c endpoint must use http'')
           # (gtc_Protocol (gc_Transport c) = ''http2'' \<and> u_Scheme u \<noteq> ''https'', ''HTTP/2 endpoint must use https'')
           # (ct_Enabled (gc_TLS c) \<and> u_Scheme u \<noteq> ''https'', ''TLS endpoint must use https'')
           # (ge_Weight e < 1, ''weight must be positive'')
           # (ge_ID e \<in> set ids, ''duplicate endpoint ID'')
           # (u_text u \<in> set urls, ''duplicate endpoint URL'')
           # endpoint_checks parse c (ge_ID e # ids) (u_text u # urls) es)"

definition transport_negative :: "GatewayTransportConfig \<Rightarrow> bool" where
  "transport_negative t \<longleftrightarrow>
     gtc_DialTimeout t < 0 \<or> gtc_TLSHandshakeTimeout t < 0 \<or> gtc_ResponseHeaderTimeout t < 0
     \<or> gtc_ExpectContinueTimeout t < 0 \<or> gtc_IdleConnTimeout t < 0 \<or> gtc_MaxIdleConns t < 0
     \<or> gtc_MaxIdleConnsPerHost t < 0 \<or> gtc_MaxConnsPerHost t < 0 \<or> gtc_MaxConcurrentRequests t < 0
     \<or> gtc_MaxResponseHeaderBytes t < 0"

definition discovery_checks :: "GatewayClusterConfig \<Rightarrow> check list" where
  "discovery_checks c =
     (let d = gc_Discovery c;
          type = (if gdc_Type d = [] then ''static'' else gdc_Type d)
      in [(type \<notin> {''static'', ''dns'', ''kubernetes''}, ''unsupported discovery''),
          (type = ''static'' \<and> gc_Endpoints c = [], ''at least one static endpoint required''),
          (type = ''dns'' \<and> (gdc_Hostname d = [] \<or> gdc_Port d < 1 \<or> gdc_Port d > 65535),
           ''DNS discovery requires hostname and valid port''),
          (type = ''kubernetes'' \<and> (gdc_Namespace d = [] \<or> gdc_Service d = [] \<or> gdc_Port d < 1 \<or> gdc_Port d > 65535),
           ''Kubernetes discovery requires namespace, service and explicit port''),
          (type \<noteq> ''static'' \<and> (gdc_RefreshInterval d \<le> 0 \<or> gdc_StaleAfter d \<le> 0),
           ''discovery intervals must be positive'')])"

definition health_checks :: "GatewayHealthCheckConfig \<Rightarrow> check list" where
  "health_checks h =
     (if ghc_Enabled h
      then [(ghc_Mode h \<notin> {''tcp'', ''http'', ''https''} \<or> ghc_Interval h \<le> 0 \<or> ghc_Timeout h \<le> 0
               \<or> ghc_FailureThreshold h < 1 \<or> ghc_SuccessThreshold h < 1 \<or> ghc_MaxConcurrency h < 1,
             ''invalid health policy''),
            (ghc_Mode h \<noteq> ''tcp'' \<and> \<not> HasPrefix (ghc_Path h) ''/'', ''health path must start with /'')]
      else [])"

definition validateGatewayCluster :: "url_parser \<Rightarrow> GatewayClusterConfig \<Rightarrow> check list" where
  "validateGatewayCluster parse c =
     [(gc_ID c = [], ''gateway cluster ID is required''),
      (gc_Strategy c \<notin> {''round_robin'', ''weighted_round_robin'', ''least_request'', ''rendezvous''},
       ''unsupported strategy''),
      (gc_Strategy c = ''rendezvous'' \<and> gc_HashKey c = [], ''rendezvous strategy requires hash_key''),
      (gc_Strategy c = ''rendezvous'' \<and> \<not> validHashKey (gc_HashKey c), ''unsupported hash_key''),
      (gtc_Protocol (gc_Transport c) \<notin> {''auto'', ''http1'', ''http2'', ''h2c''}, ''unsupported transport protocol''),
      (transport_negative (gc_Transport c), ''invalid transport limits''),
      (ct_Enabled (gc_TLS c) \<and> ct_ServerName (gc_TLS c) = [] \<and> gc_Endpoints c = [],
       ''TLS discovery requires server_name''),
      ((ct_ClientCertFile (gc_TLS c) = []) \<noteq> (ct_ClientKeyFile (gc_TLS c) = []),
       ''client certificate and key must be configured together'')]
     @ discovery_checks c
     @ endpoint_checks parse c [] [] (gc_Endpoints c)
     @ health_checks (gc_Health c)
     @ (case gc_Retry c of None \<Rightarrow> [] | Some retry \<Rightarrow> validateGatewayRetry retry)"

fun listener_checks :: "go_string list \<Rightarrow> GatewayListenerConfig list \<Rightarrow> check list" where
  "listener_checks seen [] = []"
| "listener_checks seen (l # ls) =
     [(gl_ID l = [] \<or> gl_ID l \<in> set seen, ''gateway listener IDs must be unique and nonempty''),
      (gl_Protocol l \<notin> {''http1'', ''h2c'', ''http2''}, ''unsupported protocol''),
      (gl_Address l = [], ''listener requires address'')]
     @ ServerTLS_Validate (gl_TLS l)
     @ [(gl_Protocol l = ''http2'' \<and> st_CertFile (gl_TLS l) = [], ''HTTP/2 requires TLS'')]
     @ concat (map validateHostnamePattern (gl_Hostnames l))
     @ listener_checks (gl_ID l # seen) ls"

fun cluster_checks :: "url_parser \<Rightarrow> go_string list \<Rightarrow> GatewayClusterConfig list \<Rightarrow> check list" where
  "cluster_checks parse seen [] = []"
| "cluster_checks parse seen (c # cs) =
     validateGatewayCluster parse c
     @ (gc_ID c \<in> set seen, ''duplicate gateway cluster'')
     # cluster_checks parse (gc_ID c # seen) cs"

text \<open>The loop over the routes; routes already visited keep the changes \<open>validateRoute\<close> made.\<close>

fun validate_routes ::
    "url_parser \<Rightarrow> go_string list \<Rightarrow> go_string list \<Rightarrow> go_string list \<Rightarrow> GatewayRouteConfig list
     \<Rightarrow> go_string option \<times> GatewayRouteConfig list" where
  "validate_routes parse listeners clusters seen [] = (None, [])"
| "validate_routes parse listeners clusters seen (r # rs) =
     (case first_error [(gr_ID r = [], ''gateway route ID is required''),
        (gr_ID r \<in> set seen, ''duplicate gateway route''),
        (gr_Listener r \<noteq> [] \<and> gr_Listener r \<notin> set listeners, ''route references unknown listener'')] of
        Some err \<Rightarrow> (Some err, r # rs)
      | None \<Rightarrow>
          (case validateRoute parse clusters r of
             (Some err, r) \<Rightarrow> (Some err, r # rs)
           | (None, r) \<Rightarrow>
               (let (err, rs) = validate_routes parse listeners clusters (gr_ID r # seen) rs
                in (err, r # rs))))"

definition Validate :: "url_parser \<Rightarrow> GatewayConfig \<Rightarrow> go_string option \<times> GatewayConfig" where
  "Validate parse g =
     (case first_error
        ([(gg_APIVersion g \<noteq> GatewayAPIVersion, ''gateway.apiVersion must be proxy/v1''),
          (gg_HistoryLimit g < 1 \<or> gg_HistoryLimit g > 100, ''gateway.history_limit must be between 1 and 100'')]
         @ listener_checks [] (gg_Listeners g)
         @ [(gg_Listeners g = [], ''gateway requires at least one listener''),
            (1 < length (filter gl_Default (gg_Listeners g)), ''gateway can have at most one default listener'')]
         @ cluster_checks parse [] (gg_Clusters g)) of
        Some err \<Rightarrow> (Some err, g)
      | None \<Rightarrow>
          (let (err, rs) = validate_routes parse (map gl_ID (gg_Listeners g)) (map gc_ID (gg_Clusters g)) []
                             (gg_Routes g);
               g = g\<lparr>gg_Routes := rs\<rparr>
           in case err of
                Some e \<Rightarrow> (Some e, g)
              | None \<Rightarrow> (if rs = [] then Some ''gateway requires at least one route'' else None, g)))"

section \<open>Facts about defaults\<close>

lemma default_redirect_idem [simp]: "default_redirect (default_redirect a) = default_redirect a"
  by (cases "ga_Redirect a") (simp_all add: default_redirect_def)

lemma default_listener_idem [simp]: "default_listener (default_listener l) = default_listener l"
  by (simp add: default_listener_def)

lemma default_route_idem [simp]: "default_route (default_route r) = default_route r"
  by (simp add: default_route_def comp_def)

lemma default_tls_idem [simp]: "default_tls (default_tls t) = default_tls t"
  by (simp add: default_tls_def)

lemma default_discovery_idem [simp]: "default_discovery (default_discovery d) = default_discovery d"
  by (simp add: default_discovery_def Let_def second_def)

lemma default_endpoint_idem [simp]: "default_endpoint (default_endpoint e) = default_endpoint e"
  by (simp add: default_endpoint_def)

lemma default_cluster_idem [simp]: "default_cluster (default_cluster c) = default_cluster c"
  by (simp add: default_cluster_def comp_def)

lemma single_default_idem:
  "single_default (map default_listener (single_default (map default_listener ls))) =
   single_default (map default_listener ls)"
proof (cases "\<exists>l. ls = [l]")
  case True
  then show ?thesis by (auto simp: single_default_def default_listener_def)
next
  case False
  then have "single_default (map default_listener ls) = map default_listener ls"
    by (auto simp: single_default_def split: list.splits)
  then show ?thesis by (simp add: comp_def)
qed

lemma ApplyDefaults_idem: "ApplyDefaults (ApplyDefaults g) = ApplyDefaults g"
  by (simp add: ApplyDefaults_def single_default_idem comp_def GatewayAPIVersion_def)

section \<open>Facts about validation\<close>

text \<open>A list of checks passes when none fails; kept as a predicate of lists, it does not unfold.\<close>

abbreviation passes :: "check list \<Rightarrow> bool" where
  "passes cs \<equiv> first_error cs = None"

lemma passes_append [simp]: "passes (cs @ ds) \<longleftrightarrow> passes cs \<and> passes ds"
  by (induction cs rule: first_error.induct) auto

lemma passes_Cons [simp]: "passes (c # cs) \<longleftrightarrow> \<not> fst c \<and> passes cs"
  by (cases c) simp

lemma passes_concat [simp]: "passes (concat css) \<longleftrightarrow> (\<forall>cs \<in> set css. passes cs)"
  by (induction css) auto

lemma passes_map [simp]: "passes (map f xs) \<longleftrightarrow> (\<forall>x \<in> set xs. \<not> fst (f x))"
  by (induction xs) auto

declare first_error.simps(2) [simp del]

lemma weighted_checks_ok:
  "passes (weighted_checks clusters seen ts) \<Longrightarrow>
   (\<forall>t \<in> set ts. gw_Cluster t \<in> set clusters \<and> 1 \<le> gw_Weight t)
   \<and> distinct (map gw_Cluster ts) \<and> set (map gw_Cluster ts) \<inter> set seen = {}"
  by (induction clusters seen ts rule: weighted_checks.induct) auto

lemma listener_checks_ok:
  "passes (listener_checks seen ls) \<Longrightarrow>
   distinct (map gl_ID ls) \<and> set (map gl_ID ls) \<inter> set seen = {}
   \<and> (\<forall>l \<in> set ls. gl_ID l \<noteq> [] \<and> gl_Address l \<noteq> [] \<and> gl_Protocol l \<in> {''http1'', ''h2c'', ''http2''}
        \<and> (gl_Protocol l = ''http2'' \<longrightarrow> st_CertFile (gl_TLS l) \<noteq> [] \<and> st_KeyFile (gl_TLS l) \<noteq> []))"
  by (induction seen ls rule: listener_checks.induct) (auto simp: ServerTLS_Validate_def)

lemma cluster_checks_ok:
  "passes (cluster_checks parse seen cs) \<Longrightarrow>
   distinct (map gc_ID cs) \<and> set (map gc_ID cs) \<inter> set seen = {}
   \<and> (\<forall>c \<in> set cs. passes (validateGatewayCluster parse c))"
  by (induction parse seen cs rule: cluster_checks.induct) auto

text \<open>What a route that passed refers to.\<close>

definition route_resolves :: "go_string list \<Rightarrow> go_string list \<Rightarrow> GatewayRouteConfig \<Rightarrow> bool" where
  "route_resolves listeners clusters r \<longleftrightarrow>
     gr_ID r \<noteq> [] \<and> (gr_Listener r = [] \<or> gr_Listener r \<in> set listeners)
     \<and> action_count (gr_Action r) = 1
     \<and> (ga_Cluster (gr_Action r) = [] \<or> ga_Cluster (gr_Action r) \<in> set clusters)
     \<and> (\<forall>t \<in> set (ga_WeightedClusters (gr_Action r)). gw_Cluster t \<in> set clusters \<and> 1 \<le> gw_Weight t)
     \<and> distinct (map gw_Cluster (ga_WeightedClusters (gr_Action r)))
     \<and> (case ga_Redirect (gr_Action r) of None \<Rightarrow> True | Some d \<Rightarrow> gd_StatusCode d \<in> {301, 302, 303, 307, 308})"

definition route_valid :: "url_parser \<Rightarrow> go_string list \<Rightarrow> go_string list \<Rightarrow> GatewayRouteConfig \<Rightarrow> bool" where
  "route_valid parse listeners clusters r \<longleftrightarrow>
     route_resolves listeners clusters r \<and> passes (match_checks (gr_Match r)) \<and> passes (policy_checks parse r)"

lemma default_redirect_simps [simp]:
  "ga_Cluster (default_redirect a) = ga_Cluster a"
  "ga_WeightedClusters (default_redirect a) = ga_WeightedClusters a"
  "action_count (default_redirect a) = action_count a"
  by (simp_all add: default_redirect_def action_count_def)

definition with_redirect_status :: "GatewayRouteConfig \<Rightarrow> GatewayRouteConfig" where
  "with_redirect_status r = r\<lparr>gr_Action := default_redirect (gr_Action r)\<rparr>"

lemma with_redirect_status_simps [simp]:
  "gr_ID (with_redirect_status r) = gr_ID r" "gr_Listener (with_redirect_status r) = gr_Listener r"
  "gr_Match (with_redirect_status r) = gr_Match r"
  "gr_Action (with_redirect_status r) = default_redirect (gr_Action r)"
  by (simp_all add: with_redirect_status_def)

lemma validateRoute_ok:
  assumes "validateRoute parse clusters r = (None, r')" and "gr_ID r \<noteq> []"
    and "gr_Listener r = [] \<or> gr_Listener r \<in> set listeners"
  shows "route_valid parse listeners clusters r' \<and> r' = with_redirect_status r"
proof -
  from assms(1) have one: "passes (match_checks (gr_Match r))" "passes (action_checks clusters (gr_Action r))"
    and r': "r' = with_redirect_status r"
    and two: "passes (redirect_checks parse (ga_Redirect (gr_Action r')))" "passes (policy_checks parse r')"
    by (auto simp: validateRoute_def with_redirect_status_def Let_def split: option.splits)
  from one(2) have "passes (weighted_checks clusters [] (ga_WeightedClusters (gr_Action r)))"
    and c: "action_count (gr_Action r) = 1"
      "ga_Cluster (gr_Action r) = [] \<or> ga_Cluster (gr_Action r) \<in> set clusters"
    by (auto simp: action_checks_def)
  from weighted_checks_ok [OF this(1)] c two(1) assms(2,3)
  have "route_resolves listeners clusters r'"
    by (auto simp: r' route_resolves_def redirect_checks_def split: option.splits)
  with one(1) two(2) r' show ?thesis by (simp add: route_valid_def)
qed

lemma validate_routes_ok:
  assumes "validate_routes parse listeners clusters seen rs = (None, rs')"
  shows "list_all (route_valid parse listeners clusters) rs' \<and> distinct (map gr_ID rs')
    \<and> set (map gr_ID rs') \<inter> set seen = {} \<and> rs' = map with_redirect_status rs"
  using assms
proof (induction parse listeners clusters seen rs arbitrary: rs' rule: validate_routes.induct)
  case (1 parse listeners clusters seen)
  then show ?case by simp
next
  case (2 parse listeners clusters seen r rs)
  from 2(2) have id: "gr_ID r \<noteq> []" "gr_ID r \<notin> set seen"
      "gr_Listener r = [] \<or> gr_Listener r \<in> set listeners"
    by (auto split: option.splits)
  from 2(2) id obtain r1 rs1 where v: "validateRoute parse clusters r = (None, r1)"
    and rest: "validate_routes parse listeners clusters (gr_ID r1 # seen) rs = (None, rs1)" and rs': "rs' = r1 # rs1"
    by (auto split: prod.splits option.splits)
  note ok = validateRoute_ok [OF v id(1,3)]
  have "passes [(gr_ID r = [], ''gateway route ID is required''),
      (gr_ID r \<in> set seen, ''duplicate gateway route''),
      (gr_Listener r \<noteq> [] \<and> gr_Listener r \<notin> set listeners, ''route references unknown listener'')]"
    using id by auto
  from 2(1) [OF this v [symmetric] refl rest] ok id(2) show ?case
    unfolding rs' by (elim conjE, hypsubst) (simp add: image_image comp_def)
qed

text \<open>What a configuration that passed \<open>Validate\<close> is.\<close>

definition gateway_valid :: "url_parser \<Rightarrow> GatewayConfig \<Rightarrow> bool" where
  "gateway_valid parse g \<longleftrightarrow>
     gg_APIVersion g = GatewayAPIVersion \<and> 1 \<le> gg_HistoryLimit g \<and> gg_HistoryLimit g \<le> 100
     \<and> gg_Listeners g \<noteq> [] \<and> distinct (map gl_ID (gg_Listeners g))
     \<and> (\<forall>l \<in> set (gg_Listeners g). gl_ID l \<noteq> [] \<and> gl_Address l \<noteq> [])
     \<and> length (filter gl_Default (gg_Listeners g)) \<le> 1
     \<and> distinct (map gc_ID (gg_Clusters g))
     \<and> (\<forall>c \<in> set (gg_Clusters g). passes (validateGatewayCluster parse c))
     \<and> gg_Routes g \<noteq> [] \<and> distinct (map gr_ID (gg_Routes g))
     \<and> list_all (route_valid parse (map gl_ID (gg_Listeners g)) (map gc_ID (gg_Clusters g))) (gg_Routes g)"

lemma Validate_ok:
  assumes "Validate parse g = (None, g')"
  shows "g' = g\<lparr>gg_Routes := map with_redirect_status (gg_Routes g)\<rparr> \<and> gateway_valid parse g'"
proof -
  from assms obtain rs where top: "gg_APIVersion g = GatewayAPIVersion" "1 \<le> gg_HistoryLimit g"
      "gg_HistoryLimit g \<le> 100" "gg_Listeners g \<noteq> []" "length (filter gl_Default (gg_Listeners g)) \<le> 1"
    and ls: "passes (listener_checks [] (gg_Listeners g))" and cs: "passes (cluster_checks parse [] (gg_Clusters g))"
    and rs: "validate_routes parse (map gl_ID (gg_Listeners g)) (map gc_ID (gg_Clusters g)) [] (gg_Routes g) = (None, rs)"
      "rs \<noteq> []" "g' = g\<lparr>gg_Routes := rs\<rparr>"
    by (auto simp: Validate_def Let_def split: option.splits prod.splits if_splits)
  from listener_checks_ok [OF ls] cluster_checks_ok [OF cs] validate_routes_ok [OF rs(1)] top rs(2,3)
  show ?thesis by (auto simp: gateway_valid_def)
qed

text \<open>Once the redirects have their status, \<open>Validate\<close> changes nothing.\<close>

lemma with_redirect_status_default: "with_redirect_status (default_route r) = default_route r"
  by (simp add: with_redirect_status_def default_route_def)

end
