(* ===== verification/Route_Limiter.thy ===== *)
theory Route_Limiter
  imports Token_Bucket
begin

text \<open>
  The limiter of one route (\<open>internal/gateway/limiter.go\<close>): its record, constructor and
  \<open>allow\<close>, and that it is a token bucket.
\<close>

record routeLimiter =
  rl_capacity :: rat
  rl_refillRate :: rat
  rl_tokens :: rat
  rl_updatedAt :: instant

definition newRouteLimiter :: "int \<Rightarrow> rat \<Rightarrow> instant \<Rightarrow> routeLimiter" where
  "newRouteLimiter capacity refill now =
     \<lparr>rl_capacity = of_int capacity, rl_refillRate = refill, rl_tokens = of_int capacity,
      rl_updatedAt = now\<rparr>"

definition routeLimiter_allow :: "routeLimiter \<Rightarrow> instant \<Rightarrow> bool \<times> routeLimiter" where
  "routeLimiter_allow limiter now =
     (let tokens = rl_tokens limiter + seconds (now - rl_updatedAt limiter) * rl_refillRate limiter;
          tokens = (if tokens > rl_capacity limiter then rl_capacity limiter else tokens);
          limiter = limiter\<lparr>rl_tokens := tokens, rl_updatedAt := now\<rparr>
      in if tokens < 1 then (False, limiter)
         else (True, limiter\<lparr>rl_tokens := tokens - 1\<rparr>))"

text \<open>A route without a limiter (the \<open>nil\<close> receiver) admits every request.\<close>

definition route_allow :: "routeLimiter option \<Rightarrow> instant \<Rightarrow> bool \<times> routeLimiter option" where
  "route_allow limiter now =
     (case limiter of None \<Rightarrow> (True, None)
      | Some l \<Rightarrow> (case routeLimiter_allow l now of (ok, l') \<Rightarrow> (ok, Some l')))"

definition routeLimiter_inv :: "routeLimiter \<Rightarrow> bool" where
  "routeLimiter_inv l \<longleftrightarrow> 0 \<le> rl_tokens l \<and> rl_tokens l \<le> rl_capacity l \<and> 0 \<le> rl_refillRate l"

lemma newRouteLimiter_inv:
  "0 \<le> capacity \<Longrightarrow> 0 \<le> refill \<Longrightarrow> routeLimiter_inv (newRouteLimiter capacity refill now)"
  by (simp add: newRouteLimiter_def routeLimiter_inv_def)

interpretation route_bucket: token_bucket routeLimiter_allow rl_tokens rl_updatedAt rl_capacity
  rl_refillRate routeLimiter_inv
  by unfold_locales
    (auto simp: routeLimiter_allow_def routeLimiter_inv_def taken_def refilled_def Let_def min_def
      intro!: add_nonneg_nonneg mult_nonneg_nonneg)

section \<open>Properties\<close>

text \<open>Over any sequence of requests, a route's limiter admits at most its capacity plus what
  its refill rate yields between its last update and the last request.\<close>

theorem route_limit_bound:
  assumes "routeLimiter_inv l" and "chronological (rl_updatedAt l) ts"
  shows "of_nat (fst (run_draws routeLimiter_allow l ts))
    \<le> rl_capacity l + rl_refillRate l * seconds (last (rl_updatedAt l # ts) - rl_updatedAt l)"
  using assms by (rule route_bucket.admitted_at_most)

theorem route_limit_bound_witness:
  "fst (run_draws routeLimiter_allow (newRouteLimiter 2 1 0) [0, 0, 0, 1000000000]) = 3
   \<and> of_nat (fst (run_draws routeLimiter_allow (newRouteLimiter 2 1 0) [0, 0, 0, 1000000000]))
     \<le> rl_capacity (newRouteLimiter 2 1 0) + 1 * seconds (1000000000 - 0)"
  using route_limit_bound [of "newRouteLimiter 2 1 0" "[0, 0, 0, 1000000000]"]
  by (simp add: newRouteLimiter_def routeLimiter_inv_def routeLimiter_allow_def seconds_def)

end
