(* ===== verification/Backend.thy ===== *)
theory Backend
  imports Go_Url
begin

text \<open>
  Backends, their shared state and the pools that serve them
  (\<open>internal/balancer/backend.go\<close> and \<open>backend_state.go\<close>). Several pools may hold backends that
  point to one \<open>backendState\<close>, so the objects live in an explicit store, \<open>world\<close>: addresses of
  backend states, of backends and of pools. A method body between \<open>Lock\<close> and \<open>Unlock\<close> is one
  step, and so is the cache refresh that follows it.
\<close>

type_synonym addr = nat

section \<open>Data\<close>

record BackendSpec =
  spec_ID :: go_string
  spec_URL :: go_string
  spec_Weight :: int
  spec_Disabled :: bool

record PassivePolicy =
  pp_FailureThreshold :: int
  pp_Cooldown :: duration
  pp_MaxConcurrentRequests :: int
  pp_SlowStart :: duration
  pp_SlowStartMinimum :: int

text \<open>The set of pools of a state is a list without repetitions; \<open>ejectedUntil\<close> and
  \<open>healthySince\<close> are the code's Unix nanoseconds, 0 for unset.\<close>

record backendState =
  s_pools :: "addr list"
  s_healthOwner :: "addr option"
  s_configuredDisabled :: bool
  s_maxConcurrent :: int
  s_healthy :: bool
  s_enabled :: bool
  s_requests :: uint64
  s_passiveFailures :: int
  s_consecutiveSuccess :: int
  s_consecutiveFailure :: int
  s_ejectedUntil :: int
  s_healthySince :: int
  s_inflight :: int
  s_draining :: bool

record Backend =
  b_state :: addr
  b_id :: go_string
  b_URL :: url
  b_weight :: int
  b_pool :: "addr option"

record BackendPool =
  p_all :: "addr list"
  p_available :: "addr list"
  p_policy :: PassivePolicy
  p_nextRecovery :: int
  p_stateVersion :: uint64
  p_cacheVersion :: uint64

record world =
  w_states :: "addr \<Rightarrow> backendState"
  w_backends :: "addr \<Rightarrow> Backend"
  w_pools :: "addr \<Rightarrow> BackendPool"
  w_next :: addr

abbreviation state_of :: "world \<Rightarrow> addr \<Rightarrow> backendState" where
  "state_of w b \<equiv> w_states w (b_state (w_backends w b))"

definition set_state :: "world \<Rightarrow> addr \<Rightarrow> backendState \<Rightarrow> world" where
  "set_state w a s = w\<lparr>w_states := (w_states w)(a := s)\<rparr>"

definition set_pool :: "world \<Rightarrow> addr \<Rightarrow> BackendPool \<Rightarrow> world" where
  "set_pool w p pool = w\<lparr>w_pools := (w_pools w)(p := pool)\<rparr>"

section \<open>Invalidation\<close>

text \<open>\<open>scheduleRecovery\<close>: without a concurrent writer the compare-and-swap succeeds at once.\<close>

definition scheduleRecovery :: "BackendPool \<Rightarrow> int \<Rightarrow> BackendPool" where
  "scheduleRecovery pool deadline =
     (let current = p_nextRecovery pool
      in if current > 0 \<and> current \<le> deadline then pool
         else pool\<lparr>p_nextRecovery := deadline\<rparr>)"

definition invalidate_pool :: "int \<Rightarrow> BackendPool \<Rightarrow> BackendPool" where
  "invalidate_pool until pool =
     (let pool = (if until > 0 then scheduleRecovery pool until else pool)
      in pool\<lparr>p_stateVersion := p_stateVersion pool + 1\<rparr>)"

definition invalidateLocked :: "addr \<Rightarrow> world \<Rightarrow> world" where
  "invalidateLocked a w =
     (let until = s_ejectedUntil (w_states w a)
      in fold (\<lambda>p w. set_pool w p (invalidate_pool until (w_pools w p))) (s_pools (w_states w a)) w)"

definition refreshAvailability :: "addr \<Rightarrow> bool \<Rightarrow> world \<Rightarrow> world" where
  "refreshAvailability a changed w = (if changed then invalidateLocked a w else w)"

section \<open>State transitions of one backend\<close>

definition IsEjected :: "backendState \<Rightarrow> instant \<Rightarrow> bool" where
  "IsEjected s now \<longleftrightarrow> s_ejectedUntil s > 0 \<and> now < s_ejectedUntil s"

definition IsAlive :: "backendState \<Rightarrow> instant \<Rightarrow> bool" where
  "IsAlive s now \<longleftrightarrow> s_healthy s \<and> s_enabled s \<and> \<not> s_draining s \<and> \<not> IsEjected s now"

definition setAliveLocked :: "bool \<Rightarrow> instant \<Rightarrow> backendState \<Rightarrow> bool \<times> backendState" where
  "setAliveLocked alive now s =
     (let changed = (s_healthy s \<noteq> alive);
          s = s\<lparr>s_healthy := alive\<rparr>
      in if alive then
           (let s = s\<lparr>s_passiveFailures := 0, s_ejectedUntil := 0\<rparr>
            in (changed, if changed \<or> s_healthySince s = 0 then s\<lparr>s_healthySince := now\<rparr> else s))
         else (changed, if changed then s\<lparr>s_healthySince := 0\<rparr> else s))"

definition SetAlive :: "addr \<Rightarrow> bool \<Rightarrow> instant \<Rightarrow> world \<Rightarrow> world" where
  "SetAlive b alive now w =
     (let a = b_state (w_backends w b); (changed, s) = setAliveLocked alive now (w_states w a)
      in refreshAvailability a changed (set_state w a s))"

definition recordHealthResultLocked ::
    "Backend \<Rightarrow> bool \<Rightarrow> int \<Rightarrow> int \<Rightarrow> instant \<Rightarrow> backendState \<Rightarrow> bool \<times> backendState" where
  "recordHealthResultLocked b success successThreshold failureThreshold now s =
     (if s_healthOwner s \<noteq> None \<and> s_healthOwner s \<noteq> b_pool b then (False, s)
      else if success then
        (let s = s\<lparr>s_consecutiveFailure := 0\<rparr>
         in if s_ejectedUntil s > now then (False, s\<lparr>s_consecutiveSuccess := 0\<rparr>)
            else
              (let s = s\<lparr>s_consecutiveSuccess := s_consecutiveSuccess s + 1\<rparr>
               in if s_consecutiveSuccess s \<ge> successThreshold then setAliveLocked True now s
                  else (False, s)))
      else
        (let s = s\<lparr>s_consecutiveSuccess := 0\<rparr>;
             s = s\<lparr>s_consecutiveFailure := s_consecutiveFailure s + 1\<rparr>
         in if s_consecutiveFailure s \<ge> failureThreshold then setAliveLocked False now s
            else (False, s)))"

definition RecordHealthResult :: "addr \<Rightarrow> bool \<Rightarrow> int \<Rightarrow> int \<Rightarrow> instant \<Rightarrow> world \<Rightarrow> world" where
  "RecordHealthResult b success successThreshold failureThreshold now w =
     (let a = b_state (w_backends w b);
          (changed, s) = recordHealthResultLocked (w_backends w b) success successThreshold
                           failureThreshold now (w_states w a)
      in refreshAvailability a changed (set_state w a s))"

text \<open>The locked part of \<open>RecordPassiveFailure\<close>; the flag says that the threshold was reached.\<close>

definition passive_failure :: "PassivePolicy \<Rightarrow> instant \<Rightarrow> backendState \<Rightarrow> bool \<times> backendState" where
  "passive_failure policy now s =
     (let s = s\<lparr>s_passiveFailures := s_passiveFailures s + 1\<rparr>
      in if s_passiveFailures s < pp_FailureThreshold policy then (False, s)
         else (True, snd (setAliveLocked False now
                 (s\<lparr>s_ejectedUntil := now + pp_Cooldown policy\<rparr>))))"

definition RecordPassiveFailure :: "addr \<Rightarrow> PassivePolicy \<Rightarrow> instant \<Rightarrow> world \<Rightarrow> world" where
  "RecordPassiveFailure b policy now w =
     (if pp_FailureThreshold policy < 1 then w
      else
        (let a = b_state (w_backends w b); (reached, s) = passive_failure policy now (w_states w a)
         in refreshAvailability a reached (set_state w a s)))"

definition RecordPassiveSuccess :: "addr \<Rightarrow> world \<Rightarrow> world" where
  "RecordPassiveSuccess b w =
     (let a = b_state (w_backends w b) in set_state w a ((w_states w a)\<lparr>s_passiveFailures := 0\<rparr>))"

definition recoverExpiredEjection :: "addr \<Rightarrow> instant \<Rightarrow> world \<Rightarrow> world" where
  "recoverExpiredEjection b now w =
     (let a = b_state (w_backends w b); s = w_states w a
      in if s_ejectedUntil s = 0 \<or> now < s_ejectedUntil s then w
         else invalidateLocked a (set_state w a
                (snd (setAliveLocked True now (s\<lparr>s_ejectedUntil := 0, s_passiveFailures := 0\<rparr>)))))"

definition SetEnabled :: "addr \<Rightarrow> bool \<Rightarrow> world \<Rightarrow> world" where
  "SetEnabled b enabled w =
     (let a = b_state (w_backends w b); s = w_states w a;
          wasDraining = s_draining s;
          s = (if enabled then s\<lparr>s_draining := False\<rparr> else s);
          changed = (s_enabled s \<noteq> enabled)
      in refreshAvailability a (changed \<or> wasDraining) (set_state w a (s\<lparr>s_enabled := enabled\<rparr>)))"

definition RecordRequest :: "addr \<Rightarrow> world \<Rightarrow> world" where
  "RecordRequest b w =
     (let a = b_state (w_backends w b); s = w_states w a
      in set_state w a (s\<lparr>s_requests := s_requests s + 1\<rparr>))"

definition SetDraining :: "addr \<Rightarrow> bool \<Rightarrow> world \<Rightarrow> world" where
  "SetDraining b draining w =
     (let a = b_state (w_backends w b); s = (w_states w a)\<lparr>s_draining := draining\<rparr>
      in refreshAvailability a True
           (set_state w a (if draining then s\<lparr>s_enabled := False\<rparr> else s)))"

definition TryAcquire :: "addr \<Rightarrow> instant \<Rightarrow> world \<Rightarrow> bool \<times> world" where
  "TryAcquire b now w =
     (let a = b_state (w_backends w b); s = w_states w a;
          limit = (if s_maxConcurrent s < 1 then 1 else s_maxConcurrent s)
      in if \<not> IsAlive s now \<or> s_inflight s \<ge> limit then (False, w)
         else (True, set_state w a (s\<lparr>s_inflight := s_inflight s + 1\<rparr>)))"

definition Release :: "addr \<Rightarrow> world \<Rightarrow> world" where
  "Release b w =
     (let a = b_state (w_backends w b); s = w_states w a; n = s_inflight s - 1
      in set_state w a (s\<lparr>s_inflight := (if n < 0 then 0 else n)\<rparr>))"

definition Weight :: "Backend \<Rightarrow> int" where
  "Weight b = (if b_weight b < 1 then 1 else b_weight b)"

text \<open>A backend that has no pool yet makes \<open>SlowStartPercent\<close> panic (a nil pointer).\<close>

definition slowStartPercent :: "PassivePolicy \<Rightarrow> int \<Rightarrow> instant \<Rightarrow> int" where
  "slowStartPercent policy since now =
     (if pp_SlowStart policy \<le> 0 then 100
      else if since = 0 then pp_SlowStartMinimum policy
      else
        (let elapsed = now - since
         in if elapsed \<ge> pp_SlowStart policy then 100
            else
              (let minimum = (if pp_SlowStartMinimum policy < 1 then 1 else pp_SlowStartMinimum policy);
                   percent = minimum + trunc (of_int (100 - minimum)
                               * (of_int elapsed / of_int (pp_SlowStart policy)))
               in if percent > 100 then 100 else percent)))"

definition SlowStartPercent :: "world \<Rightarrow> addr \<Rightarrow> instant \<Rightarrow> int option" where
  "SlowStartPercent w b now =
     (case b_pool (w_backends w b) of
        None \<Rightarrow> None
      | Some p \<Rightarrow> Some (slowStartPercent (p_policy (w_pools w p)) (s_healthySince (state_of w b)) now))"

definition circuitState :: "backendState \<Rightarrow> instant \<Rightarrow> go_string" where
  "circuitState s now =
     (if s_draining s then ''draining''
      else if IsEjected s now \<or> \<not> s_healthy s then ''open'' else ''closed'')"

record BackendSnapshot =
  sn_ID :: go_string
  sn_URL :: go_string
  sn_Healthy :: bool
  sn_Enabled :: bool
  sn_Available :: bool
  sn_Ejected :: bool
  sn_Requests :: uint64
  sn_PassiveFailures :: int
  sn_Inflight :: int
  sn_Draining :: bool
  sn_SlowStartPercent :: int
  sn_CircuitState :: go_string
  sn_Weight :: int

definition Backend_Snapshot :: "world \<Rightarrow> addr \<Rightarrow> instant \<Rightarrow> BackendSnapshot option" where
  "Backend_Snapshot w b now =
     (let s = state_of w b in
      case SlowStartPercent w b now of
        None \<Rightarrow> None
      | Some percent \<Rightarrow> Some
          \<lparr>sn_ID = b_id (w_backends w b), sn_URL = u_text (b_URL (w_backends w b)),
           sn_Healthy = s_healthy s, sn_Enabled = s_enabled s, sn_Available = IsAlive s now,
           sn_Ejected = IsEjected s now, sn_Requests = s_requests s,
           sn_PassiveFailures = s_passiveFailures s, sn_Inflight = s_inflight s,
           sn_Draining = s_draining s, sn_SlowStartPercent = percent,
           sn_CircuitState = circuitState s now, sn_Weight = Weight (w_backends w b)\<rparr>)"

section \<open>Pools\<close>

text \<open>\<open>refreshAvailableLocked\<close>\<close>

definition refreshAvailable :: "addr \<Rightarrow> instant \<Rightarrow> world \<Rightarrow> world" where
  "refreshAvailable p now w =
     (let pool = w_pools w p
      in set_pool w p (pool\<lparr>p_available := filter (\<lambda>b. IsAlive (state_of w b) now) (p_all pool),
                            p_cacheVersion := p_stateVersion pool\<rparr>))"

text \<open>The checks \<open>buildBackends\<close> makes of one specification, given the IDs and URLs seen.\<close>

definition spec_error ::
    "url_parser \<Rightarrow> go_string list \<Rightarrow> go_string list \<Rightarrow> BackendSpec \<Rightarrow> go_string + url" where
  "spec_error parse ids urls spec =
     (case parse (spec_URL spec) of
        None \<Rightarrow> Inl ''invalid backend''
      | Some u \<Rightarrow>
          if spec_ID spec = [] \<or> u_Host u = [] \<or> (u_Scheme u \<noteq> ''http'' \<and> u_Scheme u \<noteq> ''https'')
          then Inl ''invalid backend''
          else if spec_ID spec \<in> set ids then Inl ''duplicate backend ID''
          else if u_text u \<in> set urls then Inl ''duplicate backend URL''
          else Inr u)"

definition new_state :: "PassivePolicy \<Rightarrow> BackendSpec \<Rightarrow> backendState" where
  "new_state policy spec =
     \<lparr>s_pools = [], s_healthOwner = None, s_configuredDisabled = spec_Disabled spec,
      s_maxConcurrent = pp_MaxConcurrentRequests policy, s_healthy = False,
      s_enabled = (\<not> spec_Disabled spec), s_requests = 0, s_passiveFailures = 0,
      s_consecutiveSuccess = 0, s_consecutiveFailure = 0, s_ejectedUntil = 0, s_healthySince = 0,
      s_inflight = 0, s_draining = False\<rparr>"

text \<open>A new backend and its state are stored at the next free address.\<close>

fun buildBackends ::
    "url_parser \<Rightarrow> PassivePolicy \<Rightarrow> go_string list \<Rightarrow> go_string list \<Rightarrow> BackendSpec list \<Rightarrow> world
     \<Rightarrow> go_string + addr list \<times> world" where
  "buildBackends parse policy ids urls [] w = Inr ([], w)"
| "buildBackends parse policy ids urls (spec # specs) w =
     (case spec_error parse ids urls spec of
        Inl err \<Rightarrow> Inl err
      | Inr u \<Rightarrow>
          (let a = w_next w;
               b = \<lparr>b_state = a, b_id = spec_ID spec, b_URL = u,
                    b_weight = (if spec_Weight spec < 1 then 1 else spec_Weight spec), b_pool = None\<rparr>;
               w = w\<lparr>w_states := (w_states w)(a := new_state policy spec),
                     w_backends := (w_backends w)(a := b), w_next := a + 1\<rparr>
           in case buildBackends parse policy (spec_ID spec # ids) (u_text u # urls) specs w of
                Inl err \<Rightarrow> Inl err
              | Inr (bs, w) \<Rightarrow> Inr (a # bs, w)))"

definition default_policy :: PassivePolicy where
  "default_policy = \<lparr>pp_FailureThreshold = 2, pp_Cooldown = 10 * second,
     pp_MaxConcurrentRequests = 512, pp_SlowStart = 0, pp_SlowStartMinimum = 10\<rparr>"

definition attach_pool :: "addr \<Rightarrow> addr \<Rightarrow> world \<Rightarrow> world" where
  "attach_pool p b w =
     (let w = w\<lparr>w_backends := (w_backends w)(b := (w_backends w b)\<lparr>b_pool := Some p\<rparr>)\<rparr>;
          a = b_state (w_backends w b); s = w_states w a
      in set_state w a (s\<lparr>s_pools := List.insert p (s_pools s)\<rparr>))"

definition NewBackendPool ::
    "url_parser \<Rightarrow> BackendSpec list \<Rightarrow> PassivePolicy option \<Rightarrow> instant \<Rightarrow> world
     \<Rightarrow> go_string + addr \<times> world" where
  "NewBackendPool parse specs policy now w =
     (let policy = (case policy of None \<Rightarrow> default_policy | Some p \<Rightarrow> p);
          p = w_next w
      in case buildBackends parse policy [] [] specs (w\<lparr>w_next := p + 1\<rparr>) of
           Inl err \<Rightarrow> Inl err
         | Inr (bs, w) \<Rightarrow>
             (let w = fold (attach_pool p) bs w;
                  w = set_pool w p \<lparr>p_all = bs, p_available = [], p_policy = policy,
                        p_nextRecovery = 0, p_stateVersion = 0, p_cacheVersion = 0\<rparr>
              in Inr (p, refreshAvailable p now w)))"

record BackendReplacement =
  br_owner :: addr
  br_backends :: "addr list"

definition PrepareReplacement ::
    "url_parser \<Rightarrow> addr \<Rightarrow> BackendSpec list \<Rightarrow> world \<Rightarrow> go_string + BackendReplacement \<times> world" where
  "PrepareReplacement parse p specs w =
     (case buildBackends parse (p_policy (w_pools w p)) [] [] specs w of
        Inl err \<Rightarrow> Inl err
      | Inr (bs, w) \<Rightarrow> Inr (\<lparr>br_owner = p, br_backends = bs\<rparr>, w))"

text \<open>The key under which \<open>CommitReplacement\<close> and \<open>needsWarmup\<close> look a backend up.\<close>

definition backend_key :: "world \<Rightarrow> addr \<Rightarrow> go_string" where
  "backend_key w b = b_id (w_backends w b) @ [char_of (0 :: nat)] @ u_text (b_URL (w_backends w b))"

definition find_current :: "world \<Rightarrow> addr list \<Rightarrow> go_string \<Rightarrow> addr option" where
  "find_current w current key = first_match (\<lambda>b. backend_key w b = key) (rev current)"

definition applyReplacementState :: "addr \<Rightarrow> bool \<Rightarrow> bool \<Rightarrow> int \<Rightarrow> instant \<Rightarrow> world \<Rightarrow> world" where
  "applyReplacementState b enabled warmedHealthy weight now w =
     (let a = b_state (w_backends w b); s = w_states w a;
          s = (if s_configuredDisabled s \<noteq> (\<not> enabled)
               then s\<lparr>s_configuredDisabled := \<not> enabled, s_draining := False, s_enabled := enabled\<rparr>
               else s);
          w = w\<lparr>w_backends := (w_backends w)(b := (w_backends w b)\<lparr>b_weight := weight\<rparr>)\<rparr>
      in set_state w a (if warmedHealthy \<and> \<not> s_healthy s \<and> \<not> IsEjected s now
                        then snd (setAliveLocked True now s) else s))"

fun commit_backends :: "addr \<Rightarrow> addr list \<Rightarrow> instant \<Rightarrow> addr list \<Rightarrow> world \<Rightarrow> addr list \<times> world" where
  "commit_backends p current now [] w = ([], w)"
| "commit_backends p current now (b # bs) w =
     (case find_current w current (backend_key w b) of
        Some previous \<Rightarrow>
          (let w = applyReplacementState previous (s_enabled (state_of w b)) (s_healthy (state_of w b))
                     (Weight (w_backends w b)) now w;
               (rest, w) = commit_backends p current now bs w
           in (previous # rest, w))
      | None \<Rightarrow>
          (let w = attach_pool p b w; a = b_state (w_backends w b);
               w = set_state w a ((w_states w a)\<lparr>s_maxConcurrent :=
                     pp_MaxConcurrentRequests (p_policy (w_pools w p))\<rparr>);
               (rest, w) = commit_backends p current now bs w
           in (b # rest, w)))"

definition CommitReplacement ::
    "addr \<Rightarrow> BackendReplacement option \<Rightarrow> instant \<Rightarrow> world \<Rightarrow> go_string option \<times> world" where
  "CommitReplacement p replacement now w =
     (case replacement of
        None \<Rightarrow> (Some ''backend replacement belongs to another pool'', w)
      | Some r \<Rightarrow>
          if br_owner r \<noteq> p then (Some ''backend replacement belongs to another pool'', w)
          else
            (let (bs, w) = commit_backends p (p_all (w_pools w p)) now (br_backends r) w;
                 w = set_pool w p ((w_pools w p)\<lparr>p_all := bs\<rparr>)
             in (None, refreshAvailable p now w)))"

definition ReplaceBackends ::
    "url_parser \<Rightarrow> addr \<Rightarrow> BackendSpec list \<Rightarrow> instant \<Rightarrow> world \<Rightarrow> go_string option \<times> world" where
  "ReplaceBackends parse p specs now w =
     (case PrepareReplacement parse p specs w of
        Inl err \<Rightarrow> (Some err, w)
      | Inr (r, w) \<Rightarrow> CommitReplacement p (Some r) now w)"

definition ready :: "world \<Rightarrow> BackendReplacement option \<Rightarrow> instant \<Rightarrow> bool" where
  "ready w replacement now =
     (case replacement of None \<Rightarrow> False
      | Some r \<Rightarrow> (\<exists>b \<in> set (br_backends r). IsAlive (state_of w b) now))"

fun warmup_scan :: "world \<Rightarrow> addr list \<Rightarrow> instant \<Rightarrow> bool \<Rightarrow> addr list \<Rightarrow> bool" where
  "warmup_scan w current now hasEnabled [] = hasEnabled"
| "warmup_scan w current now hasEnabled (c # cs) =
     (if \<not> s_enabled (state_of w c) then warmup_scan w current now hasEnabled cs
      else
        (case find_current w current (backend_key w c) of
           Some previous \<Rightarrow>
             if s_healthy (state_of w previous) \<and> \<not> IsEjected (state_of w previous) now then False
             else warmup_scan w current now True cs
         | None \<Rightarrow> warmup_scan w current now True cs))"

definition needsWarmup :: "world \<Rightarrow> BackendReplacement option \<Rightarrow> instant \<Rightarrow> bool" where
  "needsWarmup w replacement now =
     (case replacement of None \<Rightarrow> False
      | Some r \<Rightarrow> warmup_scan w (p_all (w_pools w (br_owner r))) now False (br_backends r))"

definition UpdatePassivePolicy :: "addr \<Rightarrow> PassivePolicy \<Rightarrow> world \<Rightarrow> world" where
  "UpdatePassivePolicy p policy w =
     fold (\<lambda>b w. set_state w (b_state (w_backends w b))
             ((state_of w b)\<lparr>s_maxConcurrent := pp_MaxConcurrentRequests policy\<rparr>))
       (p_all (w_pools w p)) (set_pool w p ((w_pools w p)\<lparr>p_policy := policy\<rparr>))"

text \<open>The scan of \<open>recoverExpiredEjections\<close>: recover what has expired, and remember the earliest
  deadline still to come.\<close>

fun recover_scan :: "instant \<Rightarrow> addr list \<Rightarrow> int \<Rightarrow> world \<Rightarrow> int \<times> world" where
  "recover_scan now [] earliest w = (earliest, w)"
| "recover_scan now (b # bs) earliest w =
     (let w = recoverExpiredEjection b now w;
          until = s_ejectedUntil (state_of w b);
          earliest = (if until > now \<and> (earliest = 0 \<or> until < earliest) then until else earliest)
      in recover_scan now bs earliest w)"

definition recoverExpiredEjections :: "addr \<Rightarrow> instant \<Rightarrow> world \<Rightarrow> world" where
  "recoverExpiredEjections p now w =
     (let deadline = p_nextRecovery (w_pools w p)
      in if deadline = 0 \<or> now < deadline then w
         else
           (let w = set_pool w p ((w_pools w p)\<lparr>p_nextRecovery := 0\<rparr>);
                (earliest, w) = recover_scan now (p_all (w_pools w p)) 0 w;
                w = (if earliest > 0 then set_pool w p (scheduleRecovery (w_pools w p) earliest) else w)
            in refreshAvailable p now w))"

definition AvailableBackends :: "addr \<Rightarrow> instant \<Rightarrow> world \<Rightarrow> addr list \<times> world" where
  "AvailableBackends p now w =
     (let deadline = p_nextRecovery (w_pools w p);
          w = (if deadline > 0 \<and> now \<ge> deadline then recoverExpiredEjections p now w else w);
          w = (if p_stateVersion (w_pools w p) \<noteq> p_cacheVersion (w_pools w p)
               then refreshAvailable p now w else w)
      in (p_available (w_pools w p), w))"

definition MarkBackendStatus :: "addr \<Rightarrow> go_string \<Rightarrow> bool \<Rightarrow> instant \<Rightarrow> world \<Rightarrow> world" where
  "MarkBackendStatus p backendURL alive now w =
     (case first_match (\<lambda>b. u_text (b_URL (w_backends w b)) = backendURL) (p_all (w_pools w p)) of
        Some b \<Rightarrow> SetAlive b alive now w | None \<Rightarrow> w)"

definition SetBackendEnabled :: "addr \<Rightarrow> go_string \<Rightarrow> bool \<Rightarrow> world \<Rightarrow> bool \<times> world" where
  "SetBackendEnabled p id0 enabled w =
     (case first_match (\<lambda>b. b_id (w_backends w b) = id0) (p_all (w_pools w p)) of
        Some b \<Rightarrow> (True, SetEnabled b enabled w) | None \<Rightarrow> (False, w))"

fun set_active :: "nat \<Rightarrow> int \<Rightarrow> addr list \<Rightarrow> world \<Rightarrow> world" where
  "set_active index count [] w = w"
| "set_active index count (b # bs) w =
     set_active (Suc index) count bs (SetEnabled b (int index < count) w)"

definition SetActiveCount :: "addr \<Rightarrow> int \<Rightarrow> world \<Rightarrow> bool \<times> world" where
  "SetActiveCount p count w =
     (let backends = p_all (w_pools w p)
      in if count < 1 \<or> count > int (length backends) then (False, w)
         else (True, set_active 0 count backends w))"

definition DrainBackend :: "addr \<Rightarrow> go_string \<Rightarrow> world \<Rightarrow> bool \<times> world" where
  "DrainBackend p id0 w =
     (case first_match (\<lambda>b. b_id (w_backends w b) = id0) (p_all (w_pools w p)) of
        Some b \<Rightarrow> (True, SetDraining b True w) | None \<Rightarrow> (False, w))"

definition Pool_Snapshot :: "world \<Rightarrow> addr \<Rightarrow> instant \<Rightarrow> BackendSnapshot option list" where
  "Pool_Snapshot w p now = map (\<lambda>b. Backend_Snapshot w b now) (p_all (w_pools w p))"

definition Pool_Ready :: "addr \<Rightarrow> instant \<Rightarrow> world \<Rightarrow> bool \<times> world" where
  "Pool_Ready p now w = (let (bs, w) = AvailableBackends p now w in (0 < length bs, w))"

end
