(* ===== verification/Backend_Facts.thy ===== *)
theory Backend_Facts
  imports Backend
begin

text \<open>
  The invariant of backends and pools and what every operation of \<open>Backend\<close> keeps of it: an
  ejected backend is never healthy, a draining one never enabled; a pool's cached list is the
  list of its live backends whenever the two version counters agree; and every ejection has a
  recovery scheduled in every pool that holds the backend.
\<close>

section \<open>Invariants\<close>

definition state_inv :: "backendState \<Rightarrow> bool" where
  "state_inv s \<longleftrightarrow> (s_healthy s \<longrightarrow> s_ejectedUntil s = 0) \<and> (s_draining s \<longrightarrow> \<not> s_enabled s)
     \<and> 0 \<le> s_inflight s \<and> 0 \<le> s_passiveFailures s \<and> distinct (s_pools s)"

text \<open>A live backend, whatever the time.\<close>

definition up :: "backendState \<Rightarrow> bool" where
  "up s \<longleftrightarrow> s_healthy s \<and> s_enabled s \<and> \<not> s_draining s"

definition cache_inv :: "world \<Rightarrow> addr \<Rightarrow> bool" where
  "cache_inv w p \<longleftrightarrow> set (p_available (w_pools w p)) \<subseteq> set (p_all (w_pools w p))
     \<and> (p_stateVersion (w_pools w p) = p_cacheVersion (w_pools w p) \<longrightarrow>
          p_available (w_pools w p) = filter (\<lambda>b. up (state_of w b)) (p_all (w_pools w p)))"

definition link_inv :: "world \<Rightarrow> addr \<Rightarrow> bool" where
  "link_inv w p \<longleftrightarrow> (\<forall>b \<in> set (p_all (w_pools w p)). p \<in> set (s_pools (state_of w b)))"

definition sched_inv :: "world \<Rightarrow> addr \<Rightarrow> bool" where
  "sched_inv w p \<longleftrightarrow> (\<forall>b \<in> set (p_all (w_pools w p)). 0 < s_ejectedUntil (state_of w b) \<longrightarrow>
     0 < p_nextRecovery (w_pools w p) \<and> p_nextRecovery (w_pools w p) \<le> s_ejectedUntil (state_of w b))"

definition world_inv :: "world \<Rightarrow> bool" where
  "world_inv w \<longleftrightarrow> (\<forall>a. state_inv (w_states w a))
     \<and> (\<forall>p. cache_inv w p \<and> link_inv w p \<and> sched_inv w p)"

text \<open>How many more invalidations a pool's 64-bit version can count before it meets the cached
  version again.\<close>

definition version_room :: "nat \<Rightarrow> world \<Rightarrow> bool" where
  "version_room n w \<longleftrightarrow>
     (\<forall>p. n \<le> unat (p_cacheVersion (w_pools w p) - p_stateVersion (w_pools w p) - 1))"

section \<open>Facts about single operations\<close>

lemma IsAlive_up: "state_inv s \<Longrightarrow> IsAlive s now \<longleftrightarrow> up s"
  by (auto simp: IsAlive_def IsEjected_def up_def state_inv_def)

lemma set_state_simps [simp]:
  "w_states (set_state w a s) = (w_states w)(a := s)"
  "w_backends (set_state w a s) = w_backends w"
  "w_pools (set_state w a s) = w_pools w"
  "w_next (set_state w a s) = w_next w"
  by (simp_all add: set_state_def)

lemma set_pool_simps [simp]:
  "w_pools (set_pool w p q) = (w_pools w)(p := q)"
  "w_backends (set_pool w p q) = w_backends w"
  "w_states (set_pool w p q) = w_states w"
  "w_next (set_pool w p q) = w_next w"
  by (simp_all add: set_pool_def)

lemma invalidate_pool_simps [simp]:
  "p_all (invalidate_pool u q) = p_all q"
  "p_available (invalidate_pool u q) = p_available q"
  "p_cacheVersion (invalidate_pool u q) = p_cacheVersion q"
  "p_policy (invalidate_pool u q) = p_policy q"
  "p_stateVersion (invalidate_pool u q) = p_stateVersion q + 1"
  by (simp_all add: invalidate_pool_def scheduleRecovery_def Let_def)

lemma invalidate_pool_next:
  "p_nextRecovery (invalidate_pool u q) =
     (if 0 < u \<and> \<not> (0 < p_nextRecovery q \<and> p_nextRecovery q \<le> u) then u else p_nextRecovery q)"
  by (simp add: invalidate_pool_def scheduleRecovery_def Let_def)

lemma fold_set_pool:
  "distinct ps \<Longrightarrow> w_pools (fold (\<lambda>p w. set_pool w p (f (w_pools w p))) ps w) p =
     (if p \<in> set ps then f (w_pools w p) else w_pools w p)"
  by (induction ps arbitrary: w) auto

lemma fold_set_pool_frame [simp]:
  "w_states (fold (\<lambda>p w. set_pool w p (f (w_pools w p))) ps w) = w_states w"
  "w_backends (fold (\<lambda>p w. set_pool w p (f (w_pools w p))) ps w) = w_backends w"
  "w_next (fold (\<lambda>p w. set_pool w p (f (w_pools w p))) ps w) = w_next w"
  by (induction ps arbitrary: w) auto

lemma invalidateLocked_frame [simp, frame]:
  "w_states (invalidateLocked a w) = w_states w"
  "w_backends (invalidateLocked a w) = w_backends w"
  "w_next (invalidateLocked a w) = w_next w"
  by (simp_all add: invalidateLocked_def Let_def)

lemma invalidateLocked_pools:
  "distinct (s_pools (w_states w a)) \<Longrightarrow>
   w_pools (invalidateLocked a w) p =
     (if p \<in> set (s_pools (w_states w a))
      then invalidate_pool (s_ejectedUntil (w_states w a)) (w_pools w p) else w_pools w p)"
  by (simp add: invalidateLocked_def Let_def fold_set_pool)

lemma refreshAvailability_frame [simp, frame]:
  "w_states (refreshAvailability a c w) = w_states w"
  "w_backends (refreshAvailability a c w) = w_backends w"
  "w_next (refreshAvailability a c w) = w_next w"
  by (simp_all add: refreshAvailability_def)

lemma refreshAvailability_pools:
  "distinct (s_pools (w_states w a)) \<Longrightarrow>
   w_pools (refreshAvailability a c w) p =
     (if c \<and> p \<in> set (s_pools (w_states w a))
      then invalidate_pool (s_ejectedUntil (w_states w a)) (w_pools w p) else w_pools w p)"
  by (simp add: refreshAvailability_def invalidateLocked_pools)

lemma version_room_D: "version_room n w \<Longrightarrow> n \<le> unat (p_cacheVersion (w_pools w p) - p_stateVersion (w_pools w p) - 1)"
  by (simp add: version_room_def)

lemma version_room_ne: "version_room (Suc n) w \<Longrightarrow> p_stateVersion (w_pools w p) + 1 \<noteq> p_cacheVersion (w_pools w p)"
  using version_room_D [of "Suc n" w p] by (auto simp: algebra_simps)

lemma unat_minus_one_ge: "Suc n \<le> unat (x :: 'a :: len word) \<Longrightarrow> n \<le> unat (x - 1)"
  by (metis Suc_le_D diff_Suc_1 nat.simps(3) not_less_eq_eq unat_minus_one unsigned_0)

lemma version_room_mono: "version_room n w \<Longrightarrow> m \<le> n \<Longrightarrow> version_room m w"
  unfolding version_room_def using order_trans by blast

section \<open>The shape of every state change\<close>

text \<open>A step on the state at address \<open>a\<close>: the state is replaced, and the pools that hold it are
  invalidated if \<open>changed\<close> is set. It is legitimate when liveness and new ejections are never
  changed silently.\<close>

definition state_step :: "addr \<Rightarrow> bool \<Rightarrow> backendState \<Rightarrow> world \<Rightarrow> world" where
  "state_step a changed s w = refreshAvailability a changed (set_state w a s)"

definition legit :: "bool \<Rightarrow> backendState \<Rightarrow> backendState \<Rightarrow> bool" where
  "legit changed s s' \<longleftrightarrow> state_inv s' \<and> s_pools s' = s_pools s \<and> (up s' \<noteq> up s \<longrightarrow> changed)
     \<and> (0 < s_ejectedUntil s' \<and> s_ejectedUntil s' \<noteq> s_ejectedUntil s \<longrightarrow> changed)"

lemma state_step_frame [simp, frame]:
  "w_states (state_step a c s w) = (w_states w)(a := s)"
  "w_backends (state_step a c s w) = w_backends w"
  "w_next (state_step a c s w) = w_next w"
  by (simp_all add: state_step_def)

lemma state_step_pools:
  "distinct (s_pools s) \<Longrightarrow>
   w_pools (state_step a c s w) p =
     (if c \<and> p \<in> set (s_pools s) then invalidate_pool (s_ejectedUntil s) (w_pools w p) else w_pools w p)"
  by (simp add: state_step_def refreshAvailability_pools)

lemma legit_distinct: "legit c s0 s \<Longrightarrow> distinct (s_pools s)"
  unfolding legit_def state_inv_def by blast

lemma step_pools:
  "legit c s0 s \<Longrightarrow> w_pools (state_step a c s w) p =
     (if c \<and> p \<in> set (s_pools s) then invalidate_pool (s_ejectedUntil s) (w_pools w p) else w_pools w p)"
  by (rule state_step_pools [OF legit_distinct])

lemma state_step_all: "legit c s0 s \<Longrightarrow> p_all (w_pools (state_step a c s w) p) = p_all (w_pools w p)"
  by (simp add: step_pools)

lemma state_step_room:
  assumes "legit c s0 s" and "version_room (Suc n) w"
  shows "version_room n (state_step a c s w)"
  unfolding version_room_def
proof
  fix p
  let ?x = "p_cacheVersion (w_pools w p) - p_stateVersion (w_pools w p) - 1"
  have "Suc n \<le> unat ?x" by (rule version_room_D [OF assms(2)])
  then have "n \<le> unat ?x" "n \<le> unat (?x - 1)" by (rule Suc_leD, rule unat_minus_one_ge)
  moreover have "p_cacheVersion (w_pools w p) - (p_stateVersion (w_pools w p) + 1) - 1 = ?x - 1" by simp
  ultimately show "n \<le> unat (p_cacheVersion (w_pools (state_step a c s w) p)
      - p_stateVersion (w_pools (state_step a c s w) p) - 1)"
    by (simp only: step_pools [OF assms(1)] split: if_split) simp
qed

lemma state_step_states:
  "legit c (w_states w a) s \<Longrightarrow> \<forall>x. state_inv (w_states w x) \<Longrightarrow>
   \<forall>x. state_inv (w_states (state_step a c s w) x)"
  by (simp add: legit_def)

lemma state_step_link: "legit c (w_states w a) s \<Longrightarrow> link_inv w p \<Longrightarrow> link_inv (state_step a c s w) p"
  by (subst link_inv_def, subst state_step_all) (auto simp: link_inv_def legit_def)

lemma state_step_cache:
  assumes leg: "legit c (w_states w a) s"
    and "version_room (Suc n) w" and "link_inv w p" and "cache_inv w p"
  shows "cache_inv (state_step a c s w) p"
proof (cases "c \<and> p \<in> set (s_pools s)")
  case True
  then show ?thesis
    using version_room_ne [OF assms(2), of p] assms(4)
    unfolding cache_inv_def step_pools [OF leg] by simp
next
  case False
  have "up (state_of (state_step a c s w) b) = up (state_of w b)"
    if "b \<in> set (p_all (w_pools w p))" for b
    using that False leg assms(3) by (auto simp: link_inv_def legit_def)
  then have "filter (\<lambda>b. up (state_of (state_step a c s w) b)) (p_all (w_pools w p)) =
      filter (\<lambda>b. up (state_of w b)) (p_all (w_pools w p))" by (rule filter_cong [OF refl])
  with False assms(4) show ?thesis
    unfolding cache_inv_def step_pools [OF leg] by (auto simp del: state_step_frame)
qed

lemma state_step_sched:
  assumes leg: "legit c (w_states w a) s" and "link_inv w p" and "sched_inv w p"
  shows "sched_inv (state_step a c s w) p"
  unfolding sched_inv_def state_step_all [OF leg]
proof (intro ballI impI)
  fix b assume b: "b \<in> set (p_all (w_pools w p))"
    and pos: "0 < s_ejectedUntil (state_of (state_step a c s w) b)"
  have old: "0 < s_ejectedUntil (state_of w b) \<Longrightarrow> 0 < p_nextRecovery (w_pools w p) \<and>
      p_nextRecovery (w_pools w p) \<le> s_ejectedUntil (state_of w b)"
    using assms(3) b by (auto simp: sched_inv_def)
  have mem: "p \<in> set (s_pools (state_of w b))" using assms(2) b by (auto simp: link_inv_def)
  show "0 < p_nextRecovery (w_pools (state_step a c s w) p) \<and>
      p_nextRecovery (w_pools (state_step a c s w) p) \<le> s_ejectedUntil (state_of (state_step a c s w) b)"
  proof (cases "b_state (w_backends w b) = a")
    case True
    then show ?thesis
      using pos old mem leg unfolding step_pools [OF leg]
      by (auto simp: invalidate_pool_next legit_def)
  next
    case False
    then show ?thesis
      using pos old unfolding step_pools [OF leg] by (auto simp: invalidate_pool_next)
  qed
qed

lemma state_step_inv [inv_intros]:
  assumes "legit c (w_states w a) s" and "version_room (Suc n) w" and "world_inv w"
  shows "world_inv (state_step a c s w)"
  using assms(3) state_step_states [OF assms(1)] state_step_link [OF assms(1)]
    state_step_cache [OF assms(1,2)] state_step_sched [OF assms(1)]
  unfolding world_inv_def by blast

section \<open>The operations are legitimate steps\<close>

lemma setAliveLocked_simps [simp]:
  "s_healthy (snd (setAliveLocked alive now s)) = alive"
  "s_enabled (snd (setAliveLocked alive now s)) = s_enabled s"
  "s_draining (snd (setAliveLocked alive now s)) = s_draining s"
  "s_pools (snd (setAliveLocked alive now s)) = s_pools s"
  "s_inflight (snd (setAliveLocked alive now s)) = s_inflight s"
  "s_maxConcurrent (snd (setAliveLocked alive now s)) = s_maxConcurrent s"
  "s_ejectedUntil (snd (setAliveLocked alive now s)) = (if alive then 0 else s_ejectedUntil s)"
  "s_passiveFailures (snd (setAliveLocked alive now s)) = (if alive then 0 else s_passiveFailures s)"
  "s_consecutiveSuccess (snd (setAliveLocked alive now s)) = s_consecutiveSuccess s"
  "s_consecutiveFailure (snd (setAliveLocked alive now s)) = s_consecutiveFailure s"
  "s_healthOwner (snd (setAliveLocked alive now s)) = s_healthOwner s"
  "fst (setAliveLocked alive now s) \<longleftrightarrow> s_healthy s \<noteq> alive"
  by (simp_all add: setAliveLocked_def Let_def)

lemma SetAlive_step:
  "SetAlive b alive now w =
     (let a = b_state (w_backends w b); r = setAliveLocked alive now (w_states w a)
      in state_step a (fst r) (snd r) w)"
  by (simp add: SetAlive_def state_step_def Let_def split_def)

lemma legit_setAlive: "state_inv s \<Longrightarrow> legit (fst (setAliveLocked alive now s)) s (snd (setAliveLocked alive now s))"
  by (auto simp: legit_def state_inv_def up_def)

lemma legit_health:
  "state_inv s \<Longrightarrow>
   legit (fst (recordHealthResultLocked b ok st ft now s)) s (snd (recordHealthResultLocked b ok st ft now s))"
  unfolding recordHealthResultLocked_def Let_def
  by (auto simp: legit_def state_inv_def up_def)

lemma RecordHealthResult_step:
  "RecordHealthResult b ok st ft now w =
     (let a = b_state (w_backends w b);
          r = recordHealthResultLocked (w_backends w b) ok st ft now (w_states w a)
      in state_step a (fst r) (snd r) w)"
  by (simp add: RecordHealthResult_def state_step_def Let_def split_def)

lemma legit_passive_failure:
  "state_inv s \<Longrightarrow> legit (fst (passive_failure policy now s)) s (snd (passive_failure policy now s))"
  unfolding passive_failure_def Let_def
  by (auto simp: legit_def state_inv_def up_def)

lemma RecordPassiveFailure_step:
  "RecordPassiveFailure b policy now w =
     (if pp_FailureThreshold policy < 1 then w
      else let a = b_state (w_backends w b); r = passive_failure policy now (w_states w a)
           in state_step a (fst r) (snd r) w)"
  by (simp add: RecordPassiveFailure_def state_step_def Let_def split_def)

text \<open>The other operations, each as one step.\<close>

lemma RecordPassiveSuccess_step:
  "RecordPassiveSuccess b w = (let a = b_state (w_backends w b)
     in state_step a False ((w_states w a)\<lparr>s_passiveFailures := 0\<rparr>) w)"
  by (simp add: RecordPassiveSuccess_def state_step_def refreshAvailability_def Let_def)

lemma RecordRequest_step:
  "RecordRequest b w = (let a = b_state (w_backends w b); s = w_states w a
     in state_step a False (s\<lparr>s_requests := s_requests s + 1\<rparr>) w)"
  by (simp add: RecordRequest_def state_step_def refreshAvailability_def Let_def)

lemma Release_step:
  "Release b w = (let a = b_state (w_backends w b); s = w_states w a
     in state_step a False (s\<lparr>s_inflight := max 0 (s_inflight s - 1)\<rparr>) w)"
  by (simp add: Release_def state_step_def refreshAvailability_def Let_def max_def)

lemma TryAcquire_step:
  "TryAcquire b now w = (let a = b_state (w_backends w b); s = w_states w a
     in if IsAlive s now \<and> s_inflight s < max 1 (s_maxConcurrent s)
        then (True, state_step a False (s\<lparr>s_inflight := s_inflight s + 1\<rparr>) w) else (False, w))"
  by (auto simp: TryAcquire_def state_step_def refreshAvailability_def Let_def max_def)

lemma SetEnabled_step:
  "SetEnabled b enabled w = (let a = b_state (w_backends w b); s = w_states w a
     in state_step a (s_enabled s \<noteq> enabled \<or> s_draining s)
          ((if enabled then s\<lparr>s_draining := False\<rparr> else s)\<lparr>s_enabled := enabled\<rparr>) w)"
  by (auto simp: SetEnabled_def state_step_def Let_def)

lemma SetDraining_step:
  "SetDraining b draining w = (let a = b_state (w_backends w b); s = w_states w a
     in state_step a True (s\<lparr>s_draining := draining, s_enabled := (s_enabled s \<and> \<not> draining)\<rparr>) w)"
  by (auto simp: SetDraining_def state_step_def Let_def)

definition recovered :: "instant \<Rightarrow> backendState \<Rightarrow> backendState" where
  "recovered now s =
     (if s_ejectedUntil s = 0 \<or> now < s_ejectedUntil s then s
      else snd (setAliveLocked True now (s\<lparr>s_ejectedUntil := 0, s_passiveFailures := 0\<rparr>)))"

lemma recoverExpiredEjection_step:
  "recoverExpiredEjection b now w = (let a = b_state (w_backends w b); s = w_states w a
     in state_step a (s_ejectedUntil s \<noteq> 0 \<and> s_ejectedUntil s \<le> now) (recovered now s) w)"
  by (auto simp: recoverExpiredEjection_def recovered_def state_step_def refreshAvailability_def
      set_state_def Let_def)

lemma legit_simple:
  assumes "state_inv s"
  shows "legit False s (s\<lparr>s_passiveFailures := 0\<rparr>)" "legit False s (s\<lparr>s_requests := r\<rparr>)"
    "legit False s (s\<lparr>s_inflight := max 0 (s_inflight s - 1)\<rparr>)"
    "legit False s (s\<lparr>s_inflight := s_inflight s + 1\<rparr>)"
    "legit (s_enabled s \<noteq> e \<or> s_draining s) s
       ((if e then s\<lparr>s_draining := False\<rparr> else s)\<lparr>s_enabled := e\<rparr>)"
    "legit True s (s\<lparr>s_draining := d, s_enabled := (s_enabled s \<and> \<not> d)\<rparr>)"
    "legit (s_ejectedUntil s \<noteq> 0 \<and> s_ejectedUntil s \<le> now) s (recovered now s)"
  using assms by (auto simp: legit_def state_inv_def up_def recovered_def)

lemmas op_steps = SetAlive_step RecordHealthResult_step RecordPassiveFailure_step
  RecordPassiveSuccess_step RecordRequest_step Release_step TryAcquire_step SetEnabled_step
  SetDraining_step recoverExpiredEjection_step
lemmas legit_ops = legit_setAlive legit_health legit_passive_failure legit_simple

text \<open>The operations a request, a health check or an operator performs on one backend.\<close>

datatype backend_op =
    OpSetAlive addr bool | OpHealth addr bool int int | OpPassiveFailure addr PassivePolicy
  | OpPassiveSuccess addr | OpRequest addr | OpAcquire addr | OpRelease addr
  | OpSetEnabled addr bool | OpSetDraining addr bool | OpRecover addr

fun run_op :: "backend_op \<Rightarrow> instant \<Rightarrow> world \<Rightarrow> world" where
  "run_op (OpSetAlive b alive) now w = SetAlive b alive now w"
| "run_op (OpHealth b ok st ft) now w = RecordHealthResult b ok st ft now w"
| "run_op (OpPassiveFailure b policy) now w = RecordPassiveFailure b policy now w"
| "run_op (OpPassiveSuccess b) now w = RecordPassiveSuccess b w"
| "run_op (OpRequest b) now w = RecordRequest b w"
| "run_op (OpAcquire b) now w = snd (TryAcquire b now w)"
| "run_op (OpRelease b) now w = Release b w"
| "run_op (OpSetEnabled b enabled) now w = SetEnabled b enabled w"
| "run_op (OpSetDraining b draining) now w = SetDraining b draining w"
| "run_op (OpRecover b) now w = recoverExpiredEjection b now w"

text \<open>A world that one legitimate step, or none, leads to.\<close>

definition legit_step :: "world \<Rightarrow> world \<Rightarrow> bool" where
  "legit_step w w' \<longleftrightarrow> w' = w \<or> (\<exists>a c s. w' = state_step a c s w \<and> legit c (w_states w a) s)"

lemma legit_stepI: "legit c (w_states w a) s \<Longrightarrow> legit_step w (state_step a c s w)"
  by (auto simp: legit_step_def)

lemma legit_step_refl: "legit_step w w"
  by (simp add: legit_step_def)

lemma legit_step_if: "(P \<Longrightarrow> legit_step w x) \<Longrightarrow> (\<not> P \<Longrightarrow> legit_step w y) \<Longrightarrow> legit_step w (if P then x else y)"
  by simp

lemma run_op_step:
  assumes "\<forall>a. state_inv (w_states w a)"
  shows "legit_step w (run_op op now w)"
proof -
  have "state_inv (w_states w a)" for a using assms by blast
  then show ?thesis
    by (cases op)
      (simp_all only: run_op.simps op_steps Let_def if_distrib [of snd] snd_conv,
        (intro legit_step_if legit_stepI legit_step_refl legit_ops; assumption)+)
qed

lemma legit_step_inv:
  assumes "legit_step w w'" and "version_room (Suc n) w" and "world_inv w"
  shows "world_inv w' \<and> version_room n w'"
  using assms state_step_inv state_step_room version_room_mono [OF assms(2)]
  by (fastforce simp: legit_step_def)

lemma run_op_inv [inv_intros]:
  assumes "version_room (Suc n) w" and "world_inv w"
  shows "world_inv (run_op op now w) \<and> version_room n (run_op op now w)"
  using legit_step_inv [OF run_op_step assms] assms(2) by (simp add: world_inv_def)

lemma run_op_all:
  "\<forall>a. state_inv (w_states w a) \<Longrightarrow> p_all (w_pools (run_op op now w) p) = p_all (w_pools w p)"
  using run_op_step [of w op now] by (auto simp: legit_step_def state_step_all)

lemma run_ops_inv:
  assumes "version_room (length ops + n) w" and "world_inv w"
  shows "world_inv (fold (\<lambda>(op, now). run_op op now) ops w)
    \<and> version_room n (fold (\<lambda>(op, now). run_op op now) ops w)"
  using assms
proof (induction ops arbitrary: w)
  case Nil
  then show ?case by simp
next
  case (Cons x ops)
  obtain op now where x: "x = (op, now)" by (cases x)
  from run_op_inv [of "length ops + n" w op now] Cons.prems Cons.IH [of "run_op op now w"]
  show ?case by (simp add: x)
qed

section \<open>Recovery and the available list\<close>

lemma recovered_idem [simp]: "recovered now (recovered now s) = recovered now s"
  by (simp add: recovered_def)

lemma recovered_pools [simp]: "s_pools (recovered now s) = s_pools s"
  by (simp add: recovered_def)

lemma recovered_until: "s_ejectedUntil (recovered now s) =
    (if s_ejectedUntil s = 0 \<or> now < s_ejectedUntil s then s_ejectedUntil s else 0)"
  by (simp add: recovered_def)

lemma recovered_up:
  "up (recovered now s) \<longleftrightarrow>
   (if s_ejectedUntil s = 0 \<or> now < s_ejectedUntil s then up s else s_enabled s \<and> \<not> s_draining s)"
  by (simp add: recovered_def up_def)

lemma recoverExpiredEjection_frame [simp, frame]:
  "w_backends (recoverExpiredEjection b now w) = w_backends w"
  "w_next (recoverExpiredEjection b now w) = w_next w"
  by (simp_all add: recoverExpiredEjection_step Let_def)

lemma recoverExpiredEjection_states:
  "w_states (recoverExpiredEjection b now w) =
     (w_states w)(b_state (w_backends w b) := recovered now (state_of w b))"
  by (simp add: recoverExpiredEjection_step Let_def)

lemma recover_scan_frame [simp, frame]:
  "w_backends (snd (recover_scan now bs e w)) = w_backends w"
  "w_next (snd (recover_scan now bs e w)) = w_next w"
  by (induction bs arbitrary: e w) (simp_all add: Let_def)

lemma recover_scan_states:
  "w_states (snd (recover_scan now bs e w)) a =
     (if a \<in> (\<lambda>b. b_state (w_backends w b)) ` set bs then recovered now (w_states w a) else w_states w a)"
  by (induction bs arbitrary: e w) (auto simp: Let_def recoverExpiredEjection_states)

lemma recover_scan_earliest:
  assumes "0 \<le> now" and "e = 0 \<or> now < e"
  shows "(fst (recover_scan now bs e w) = 0 \<or> now < fst (recover_scan now bs e w))
    \<and> (e \<noteq> 0 \<longrightarrow> fst (recover_scan now bs e w) \<noteq> 0 \<and> fst (recover_scan now bs e w) \<le> e)
    \<and> (\<forall>b \<in> set bs. now < s_ejectedUntil (recovered now (state_of w b)) \<longrightarrow>
         fst (recover_scan now bs e w) \<noteq> 0
         \<and> fst (recover_scan now bs e w) \<le> s_ejectedUntil (recovered now (state_of w b)))"
  using assms(2)
proof (induction bs arbitrary: e w)
  case Nil
  then show ?case by simp
next
  case (Cons b bs)
  let ?w = "recoverExpiredEjection b now w" and ?u = "s_ejectedUntil (recovered now (state_of w b))"
  let ?e = "if ?u > now \<and> (e = 0 \<or> ?u < e) then ?u else e"
  have eq: "recover_scan now (b # bs) e w = recover_scan now bs ?e ?w"
    by (auto simp: Let_def recoverExpiredEjection_states)
  have st: "recovered now (state_of ?w c) = recovered now (state_of w c)" for c
    by (simp add: recoverExpiredEjection_states)
  have "?e = 0 \<or> now < ?e" using Cons.prems by auto
  note IH = Cons.IH [OF this, of ?w, unfolded st]
  show ?case
    unfolding eq using IH assms(1) by (auto split: if_splits)
qed

text \<open>What a scan keeps: everything but the schedule of the pool that is being scanned.\<close>

definition base_inv :: "addr \<Rightarrow> world \<Rightarrow> bool" where
  "base_inv p w \<longleftrightarrow> (\<forall>a. state_inv (w_states w a))
     \<and> (\<forall>q. cache_inv w q \<and> link_inv w q \<and> (q \<noteq> p \<longrightarrow> sched_inv w q))"

lemma base_inv_step:
  assumes "legit c (w_states w a) s" and "version_room (Suc n) w" and "base_inv p w"
  shows "base_inv p (state_step a c s w)"
  using assms(3) state_step_states [OF assms(1)] state_step_link [OF assms(1)]
    state_step_cache [OF assms(1,2)] state_step_sched [OF assms(1)]
  unfolding base_inv_def by blast

lemma recover_step:
  assumes "base_inv p w"
  shows "\<exists>a c s. recoverExpiredEjection b now w = state_step a c s w \<and> legit c (w_states w a) s"
  using assms legit_simple(7) unfolding base_inv_def recoverExpiredEjection_step Let_def by blast

lemma recover_scan_inv:
  assumes "version_room (length bs + n) w" and "base_inv p w"
  shows "base_inv p (snd (recover_scan now bs e w)) \<and> version_room n (snd (recover_scan now bs e w))
    \<and> (\<forall>q. p_all (w_pools (snd (recover_scan now bs e w)) q) = p_all (w_pools w q))"
  using assms
proof (induction bs arbitrary: e w)
  case Nil
  then show ?case by simp
next
  case (Cons b bs)
  from recover_step [OF Cons.prems(2)] obtain a c s where
    r: "recoverExpiredEjection b now w = state_step a c s w" "legit c (w_states w a) s" by blast
  from Cons.prems(1) have room: "version_room (Suc (length bs + n)) w" by simp
  note i = base_inv_step [OF r(2) room Cons.prems(2)] and v = state_step_room [OF r(2) room, of a]
  show ?case
    using Cons.IH [OF v i] by (simp add: Let_def r(1) state_step_all [OF r(2)])
qed

lemma refreshAvailable_simps [simp]:
  "w_states (refreshAvailable p now w) = w_states w"
  "w_backends (refreshAvailable p now w) = w_backends w"
  "w_next (refreshAvailable p now w) = w_next w"
  "p_all (w_pools (refreshAvailable p now w) q) = p_all (w_pools w q)"
  "p_nextRecovery (w_pools (refreshAvailable p now w) q) = p_nextRecovery (w_pools w q)"
  "p_stateVersion (w_pools (refreshAvailable p now w) q) = p_stateVersion (w_pools w q)"
  "p_policy (w_pools (refreshAvailable p now w) q) = p_policy (w_pools w q)"
  "p_cacheVersion (w_pools (refreshAvailable p now w) p) = p_stateVersion (w_pools w p)"
  by (simp_all add: refreshAvailable_def Let_def)

lemma refreshAvailable_list:
  "\<forall>a. state_inv (w_states w a) \<Longrightarrow>
   p_available (w_pools (refreshAvailable p now w) p) =
     filter (\<lambda>b. up (state_of w b)) (p_all (w_pools w p))"
  by (simp add: refreshAvailable_def Let_def IsAlive_up)

lemma refreshAvailable_inv [inv_intros]:
  assumes "world_inv w"
  shows "world_inv (refreshAvailable p now w)"
proof -
  have c: "cache_inv (refreshAvailable p now w) q" for q
  proof (cases "q = p")
    case True
    with assms refreshAvailable_list [of w p now] show ?thesis
      by (auto simp: cache_inv_def world_inv_def)
  next
    case False
    then have "w_pools (refreshAvailable p now w) q = w_pools w q"
      by (simp add: refreshAvailable_def Let_def)
    with assms show ?thesis by (auto simp: cache_inv_def world_inv_def)
  qed
  with assms show ?thesis by (simp add: world_inv_def link_inv_def sched_inv_def)
qed

lemma recoverExpiredEjections_inv:
  assumes inv: "world_inv w" and room: "version_room (length (p_all (w_pools w p)) + n) w"
    and now: "0 < p_nextRecovery (w_pools w p)" "p_nextRecovery (w_pools w p) \<le> now"
  shows "world_inv (recoverExpiredEjections p now w)"
    and "w_backends (recoverExpiredEjections p now w) = w_backends w"
    and "p_all (w_pools (recoverExpiredEjections p now w) q) = p_all (w_pools w q)"
    and "b \<in> set (p_all (w_pools w p)) \<Longrightarrow>
      state_of (recoverExpiredEjections p now w) b = recovered now (state_of w b)"
    and "p_stateVersion (w_pools (recoverExpiredEjections p now w) p) =
      p_cacheVersion (w_pools (recoverExpiredEjections p now w) p)"
proof -
  let ?w0 = "set_pool w p ((w_pools w p)\<lparr>p_nextRecovery := 0\<rparr>)"
  let ?all = "p_all (w_pools w p)"
  define e w1 where "e = fst (recover_scan now ?all 0 ?w0)" and "w1 = snd (recover_scan now ?all 0 ?w0)"
  define w2 where "w2 = (if e > 0 then set_pool w1 p (scheduleRecovery (w_pools w1 p) e) else w1)"
  have eq: "recoverExpiredEjections p now w = refreshAvailable p now w2"
    using now by (simp add: recoverExpiredEjections_def Let_def split_def e_def w1_def w2_def)
  have base0: "base_inv p ?w0"
    using inv by (auto simp: base_inv_def world_inv_def cache_inv_def link_inv_def sched_inv_def)
  have room0: "version_room (length ?all + n) ?w0" using room by (auto simp: version_room_def)
  from recover_scan_inv [OF room0 base0, of now 0]
  have b1: "base_inv p w1" and all1: "\<And>q. p_all (w_pools w1 q) = p_all (w_pools w q)"
    by (auto simp: w1_def)
  have st1: "b \<in> set ?all \<Longrightarrow> state_of w1 b = recovered now (state_of w b)" for b
    by (auto simp: w1_def recover_scan_states)
  have bk: "w_backends w1 = w_backends w" "w_backends w2 = w_backends w" "w_states w2 = w_states w1"
    by (simp_all add: w1_def w2_def)
  have all2: "p_all (w_pools w2 q) = p_all (w_pools w q)" for q
    by (simp add: w2_def all1 scheduleRecovery_def Let_def)
  have pos: "0 \<le> now" using now by simp
  note er = recover_scan_earliest [OF pos, of 0 ?all ?w0, simplified, folded e_def]
  have "sched_inv w2 p"
    unfolding sched_inv_def all2
  proof (intro ballI impI)
    fix b assume b: "b \<in> set ?all" and u: "0 < s_ejectedUntil (state_of w2 b)"
    have s: "state_of w2 b = recovered now (state_of w b)" using st1 [OF b] by (simp add: bk)
    with u have "now < s_ejectedUntil (recovered now (state_of w b))"
      by (auto simp: recovered_until split: if_splits)
    with er b have "e \<noteq> 0" "e \<le> s_ejectedUntil (recovered now (state_of w b))" by auto
    moreover from er have "e = 0 \<or> now < e" by auto
    ultimately show "0 < p_nextRecovery (w_pools w2 p) \<and>
        p_nextRecovery (w_pools w2 p) \<le> s_ejectedUntil (state_of w2 b)"
      using pos unfolding s by (auto simp: w2_def scheduleRecovery_def Let_def)
  qed
  moreover have "base_inv p w2"
    using b1 by (auto simp: base_inv_def cache_inv_def link_inv_def sched_inv_def w2_def
        scheduleRecovery_def Let_def)
  ultimately have "world_inv w2" by (auto simp: world_inv_def base_inv_def)
  then show "world_inv (recoverExpiredEjections p now w)" unfolding eq by (rule refreshAvailable_inv)
  show "w_backends (recoverExpiredEjections p now w) = w_backends w"
    "p_all (w_pools (recoverExpiredEjections p now w) q) = p_all (w_pools w q)"
    "p_stateVersion (w_pools (recoverExpiredEjections p now w) p) =
      p_cacheVersion (w_pools (recoverExpiredEjections p now w) p)"
    unfolding eq by (simp_all add: bk all2)
  show "state_of (recoverExpiredEjections p now w) b = recovered now (state_of w b)"
    if "b \<in> set (p_all (w_pools w p))" for b using st1 [OF that] unfolding eq by (simp add: bk)
qed

text \<open>\<open>AvailableBackends\<close> returns the live backends of the pool, in order, and every ejection
  whose time has come is over.\<close>

lemma AvailableBackends_ok:
  assumes inv: "world_inv w" and room: "version_room (length (p_all (w_pools w p)) + n) w"
    and r: "AvailableBackends p now w = (bs, w')"
  shows "world_inv w'"
    and "bs = filter (\<lambda>b. IsAlive (state_of w' b) now) (p_all (w_pools w p))"
    and "p_all (w_pools w' p) = p_all (w_pools w p)"
    and "b \<in> set (p_all (w_pools w p)) \<Longrightarrow> 0 < s_ejectedUntil (state_of w b) \<Longrightarrow>
      s_ejectedUntil (state_of w b) \<le> now \<Longrightarrow> state_of w' b = recovered now (state_of w b)"
    and "b \<in> set (p_all (w_pools w p)) \<Longrightarrow>
      state_of w' b = state_of w b \<or> state_of w' b = recovered now (state_of w b)"
    and "w_backends w' = w_backends w"
proof -
  let ?due = "0 < p_nextRecovery (w_pools w p) \<and> p_nextRecovery (w_pools w p) \<le> now"
  define w1 where "w1 = (if ?due then recoverExpiredEjections p now w else w)"
  define w2 where "w2 = (if p_stateVersion (w_pools w1 p) \<noteq> p_cacheVersion (w_pools w1 p)
      then refreshAvailable p now w1 else w1)"
  have eq: "bs = p_available (w_pools w2 p)" "w' = w2"
    using r unfolding AvailableBackends_def Let_def w1_def w2_def by (auto simp only: prod.inject)
  note rec = recoverExpiredEjections_inv [OF inv room]
  have i1: "world_inv w1" using rec(1) inv by (simp add: w1_def)
  have i2: "world_inv w2" using i1 refreshAvailable_inv by (simp add: w2_def)
  have all: "p_all (w_pools w1 p) = p_all (w_pools w p)" "p_all (w_pools w2 p) = p_all (w_pools w p)"
    using rec(3) by (auto simp: w1_def w2_def)
  have same: "w_states w2 = w_states w1" "w_backends w2 = w_backends w" "w_backends w1 = w_backends w"
    using rec(2) by (auto simp: w1_def w2_def)
  have v: "p_stateVersion (w_pools w2 p) = p_cacheVersion (w_pools w2 p)" by (simp add: w2_def)
  show "world_inv w'" "p_all (w_pools w' p) = p_all (w_pools w p)" "w_backends w' = w_backends w"
    using i2 all same eq by auto
  have si: "state_inv (state_of w2 b)" for b using i2 by (simp add: world_inv_def)
  show "bs = filter (\<lambda>b. IsAlive (state_of w' b) now) (p_all (w_pools w p))"
    using i2 v all unfolding eq by (auto simp: world_inv_def cache_inv_def IsAlive_up [OF si])
  have one: "?due \<and> state_of w' b = recovered now (state_of w b) \<or> \<not> ?due \<and> state_of w' b = state_of w b"
    if "b \<in> set (p_all (w_pools w p))" for b
    using rec(4) [OF _ _ that] rec(2) by (auto simp: eq same w1_def)
  show "state_of w' b = state_of w b \<or> state_of w' b = recovered now (state_of w b)"
    if "b \<in> set (p_all (w_pools w p))" for b using one [OF that] by blast
  show "state_of w' b = recovered now (state_of w b)"
    if b: "b \<in> set (p_all (w_pools w p))" "0 < s_ejectedUntil (state_of w b)"
      "s_ejectedUntil (state_of w b) \<le> now" for b
  proof -
    have "?due" using inv b by (fastforce simp: world_inv_def sched_inv_def)
    with one [OF b(1)] show ?thesis by blast
  qed
qed

section \<open>Building pools\<close>

definition empty_world :: world where
  "empty_world =
     \<lparr>w_states = (\<lambda>a. new_state default_policy \<lparr>spec_ID = [], spec_URL = [], spec_Weight = 0, spec_Disabled = True\<rparr>),
      w_backends = (\<lambda>a. \<lparr>b_state = 0, b_id = [], b_URL = simple_url [], b_weight = 0, b_pool = None\<rparr>),
      w_pools = (\<lambda>a. \<lparr>p_all = [], p_available = [], p_policy = default_policy, p_nextRecovery = 0,
                   p_stateVersion = 0, p_cacheVersion = 0\<rparr>),
      w_next = 0\<rparr>"

text \<open>Addresses from \<open>w_next\<close> on are unused.\<close>

definition fresh_inv :: "world \<Rightarrow> bool" where
  "fresh_inv w \<longleftrightarrow>
     (\<forall>p. \<forall>b \<in> set (p_all (w_pools w p)). b < w_next w \<and> b_state (w_backends w b) < w_next w)
     \<and> (\<forall>p \<ge> w_next w. p_all (w_pools w p) = [])"

definition built_backend :: "url_parser \<Rightarrow> BackendSpec \<Rightarrow> addr \<Rightarrow> Backend" where
  "built_backend parse spec a =
     \<lparr>b_state = a, b_id = spec_ID spec, b_URL = the (parse (spec_URL spec)),
      b_weight = max 1 (spec_Weight spec), b_pool = None\<rparr>"

lemma spec_error_Inr:
  "spec_error parse ids urls spec = Inr u \<longleftrightarrow>
   parse (spec_URL spec) = Some u \<and> spec_ID spec \<noteq> [] \<and> u_Host u \<noteq> []
   \<and> u_Scheme u \<in> {''http'', ''https''} \<and> spec_ID spec \<notin> set ids \<and> u_text u \<notin> set urls"
  by (auto simp: spec_error_def split: option.splits)

lemma buildBackends_ok:
  assumes "buildBackends parse policy ids urls specs w = Inr (bs, w')"
  shows "bs = [w_next w ..< w_next w + length specs] \<and> w_next w' = w_next w + length specs
    \<and> w_pools w' = w_pools w
    \<and> (\<forall>a < w_next w. w_states w' a = w_states w a \<and> w_backends w' a = w_backends w a)
    \<and> (\<forall>i < length specs. w_states w' (w_next w + i) = new_state policy (specs ! i)
         \<and> w_backends w' (w_next w + i) = built_backend parse (specs ! i) (w_next w + i))
    \<and> (\<forall>a \<ge> w_next w + length specs. w_states w' a = w_states w a)"
  using assms
proof (induction specs arbitrary: ids urls w bs w')
  case Nil
  then show ?case by simp
next
  case (Cons spec specs)
  from Cons.prems obtain u where u: "spec_error parse ids urls spec = Inr u"
    by (auto split: sum.splits)
  define w1 where "w1 = w\<lparr>w_states := (w_states w)(w_next w := new_state policy spec),
      w_backends := (w_backends w)(w_next w := \<lparr>b_state = w_next w, b_id = spec_ID spec, b_URL = u,
        b_weight = (if spec_Weight spec < 1 then 1 else spec_Weight spec), b_pool = None\<rparr>),
      w_next := w_next w + 1\<rparr>"
  from Cons.prems u obtain bs1 where b:
    "buildBackends parse policy (spec_ID spec # ids) (u_text u # urls) specs w1 = Inr (bs1, w')"
    "bs = w_next w # bs1"
    by (auto simp: w1_def Let_def split: sum.splits)
  note IH = Cons.IH [OF b(1)]
  have new: "w_states w1 (w_next w) = new_state policy spec"
    "w_backends w1 (w_next w) = built_backend parse spec (w_next w)"
    using u by (auto simp: w1_def built_backend_def spec_error_Inr)
  have n: "w_next w1 = Suc (w_next w)" by (simp add: w1_def)
  have "bs = [w_next w ..< w_next w + length (spec # specs)]"
    using IH b(2) by (simp add: n upt_rec)
  moreover have "w_states w' (w_next w + i) = new_state policy ((spec # specs) ! i)
      \<and> w_backends w' (w_next w + i) = built_backend parse ((spec # specs) ! i) (w_next w + i)"
    if "i < length (spec # specs)" for i
    using IH new that by (cases i) (auto simp: n)
  ultimately show ?case using IH by (simp add: n) (simp add: w1_def)
qed

lemma buildBackends_ids:
  assumes "buildBackends parse policy ids urls specs w = Inr (bs, w')"
  shows "distinct (map spec_ID specs) \<and> set (map spec_ID specs) \<inter> set ids = {}
    \<and> (\<forall>spec \<in> set specs. spec_ID spec \<noteq> []
         \<and> (\<exists>u. parse (spec_URL spec) = Some u \<and> u_Host u \<noteq> [] \<and> u_Scheme u \<in> {''http'', ''https''}))"
  using assms
proof (induction specs arbitrary: ids urls w bs w')
  case Nil
  then show ?case by simp
next
  case (Cons spec specs)
  from Cons.prems obtain u where u: "spec_error parse ids urls spec = Inr u"
    by (auto split: sum.splits)
  with Cons.prems obtain w1 bs1 where
    "buildBackends parse policy (spec_ID spec # ids) (u_text u # urls) specs w1 = Inr (bs1, w')"
    by (auto simp: Let_def split: sum.splits)
  from Cons.IH [OF this] u show ?case by (auto simp: spec_error_Inr)
qed

lemma attach_pool_simps [simp]:
  "w_pools (attach_pool p b w) = w_pools w" "w_next (attach_pool p b w) = w_next w"
  "w_backends (attach_pool p b w) = (w_backends w)(b := (w_backends w b)\<lparr>b_pool := Some p\<rparr>)"
  "w_states (attach_pool p b w) = (w_states w)(b_state (w_backends w b) :=
     (state_of w b)\<lparr>s_pools := List.insert p (s_pools (state_of w b))\<rparr>)"
  by (simp_all add: attach_pool_def Let_def)

lemma fold_attach_pool:
  assumes "distinct bs" and "\<forall>b \<in> set bs. b_state (w_backends w b) = b"
  shows "w_pools (fold (attach_pool p) bs w) = w_pools w"
    and "w_next (fold (attach_pool p) bs w) = w_next w"
    and "w_backends (fold (attach_pool p) bs w) a =
      (if a \<in> set bs then (w_backends w a)\<lparr>b_pool := Some p\<rparr> else w_backends w a)"
    and "w_states (fold (attach_pool p) bs w) a =
      (if a \<in> set bs then (w_states w a)\<lparr>s_pools := List.insert p (s_pools (w_states w a))\<rparr>
       else w_states w a)"
  using assms by (induction bs arbitrary: w) auto

lemma new_state_inv: "state_inv (new_state policy spec)"
  by (simp add: state_inv_def new_state_def)

lemma map_upt_shift:
  "(\<And>i. i < length xs \<Longrightarrow> f (n + i) = g (xs ! i)) \<Longrightarrow> map f [n..<n + length xs] = map g xs"
  by (rule nth_equalityI) (simp_all del: upt_Suc)

text \<open>A successful \<open>NewBackendPool\<close>: the new pool holds one backend per specification, in order,
  and the invariant is kept; so are the other pools.\<close>

lemma NewBackendPool_ok:
  assumes inv: "world_inv w" and fr: "fresh_inv w"
    and new: "NewBackendPool parse specs policy now w = Inr (p, w')"
  shows "world_inv w' \<and> fresh_inv w' \<and> p = w_next w
    \<and> map (\<lambda>b. b_id (w_backends w' b)) (p_all (w_pools w' p)) = map spec_ID specs
    \<and> map (\<lambda>b. Weight (w_backends w' b)) (p_all (w_pools w' p)) = map (\<lambda>s. max 1 (spec_Weight s)) specs
    \<and> distinct (map spec_ID specs) \<and> distinct (p_all (w_pools w' p))
    \<and> (\<forall>b \<in> set (p_all (w_pools w' p)). b_pool (w_backends w' b) = Some p
         \<and> \<not> s_healthy (state_of w' b))
    \<and> (\<forall>q. q \<noteq> p \<longrightarrow> w_pools w' q = w_pools w q)"
proof -
  let ?pol = "case policy of None \<Rightarrow> default_policy | Some x \<Rightarrow> x"
  from new obtain bs w1 where b: "buildBackends parse ?pol [] [] specs (w\<lparr>w_next := w_next w + 1\<rparr>) = Inr (bs, w1)"
    by (auto simp: NewBackendPool_def Let_def split: sum.splits)
  let ?pool = "\<lparr>p_all = bs, p_available = [], p_policy = ?pol, p_nextRecovery = 0,
      p_stateVersion = 0, p_cacheVersion = 0\<rparr>"
  define w2 where "w2 = fold (attach_pool p) bs w1"
  define w3 where "w3 = set_pool w2 p ?pool"
  from new b have p: "p = w_next w" and w': "w' = refreshAvailable p now w3"
    by (auto simp: NewBackendPool_def Let_def w3_def w2_def)
  note bb = buildBackends_ok [OF b, simplified]
  have bs: "bs = [Suc p ..< Suc p + length specs]" using bb by (simp add: p)
  have self: "b_state (w_backends w1 x) = x" if x: "x \<in> set bs" for x
  proof -
    from x obtain i where "x = Suc (w_next w + i)" "i < length specs"
      by (auto simp: bs p dest!: le_Suc_ex)
    with bb show ?thesis by (simp add: built_backend_def)
  qed
  note at = fold_attach_pool [of bs w1 p, folded w2_def]
  have d: "distinct bs" by (simp add: bs)
  have old_b: "x < w_next w \<Longrightarrow> w_backends w3 x = w_backends w x" for x
    using at(3) [OF d, of x] self bb by (auto simp: w3_def bs p)
  have old_s: "x < w_next w \<Longrightarrow> w_states w3 x = w_states w x" for x
    using at(4) [OF d, of x] self bb by (auto simp: w3_def bs p)
  have pools: "w_pools w3 q = (if q = p then ?pool else w_pools w q)" for q
    using at(1) [OF d] self bb by (auto simp: w3_def)
  have new_b: "w_backends w3 (Suc (p + i)) = (built_backend parse (specs ! i) (Suc (p + i)))\<lparr>b_pool := Some p\<rparr>
      \<and> w_states w3 (Suc (p + i)) = (new_state ?pol (specs ! i))\<lparr>s_pools := [p]\<rparr>"
    if "i < length specs" for i
    using at(3,4) [OF d, of "Suc (p + i)"] self bb that by (auto simp: w3_def bs p new_state_def)
  have st: "state_inv (w_states w3 a)" for a
  proof (cases "a \<in> set bs")
    case True
    then obtain i where "a = Suc (p + i)" "i < length specs" by (auto simp: bs dest!: le_Suc_ex)
    with new_b new_state_inv [of ?pol "specs ! i"] show ?thesis by (simp add: state_inv_def)
  next
    case False
    then have "w_states w3 a = w_states w1 a" using at(4) [OF d, of a] self by (simp add: w3_def)
    moreover have "w_states w1 a = w_states w a"
      using False bb by (cases "a < Suc (w_next w)") (auto simp: bs p)
    ultimately show ?thesis using inv by (simp add: world_inv_def)
  qed
  have lt: "x < w_next w" "b_state (w_backends w x) < w_next w"
    if "x \<in> set (p_all (w_pools w q))" for x q using that fr by (auto simp: fresh_inv_def)
  have same: "state_of w3 x = state_of w x" if "x \<in> set (p_all (w_pools w q))" for x q
    using old_b old_s lt [OF that] by simp
  have "cache_inv w3 q \<and> link_inv w3 q \<and> sched_inv w3 q" if "q \<noteq> p" for q
  proof -
    have "filter (\<lambda>b. up (state_of w3 b)) (p_all (w_pools w q)) = filter (\<lambda>b. up (state_of w b)) (p_all (w_pools w q))"
      by (rule filter_cong) (simp_all add: same)
    with inv that show ?thesis
      by (auto simp: cache_inv_def link_inv_def sched_inv_def pools world_inv_def same)
  qed
  moreover have newp: "x \<in> set bs \<Longrightarrow> s_pools (state_of w3 x) = [p] \<and> \<not> s_healthy (state_of w3 x)
      \<and> s_ejectedUntil (state_of w3 x) = 0 \<and> b_pool (w_backends w3 x) = Some p" for x
    using new_b by (auto simp: bs built_backend_def new_state_def dest!: le_Suc_ex)
  then have "cache_inv w3 p \<and> link_inv w3 p \<and> sched_inv w3 p"
    by (auto simp: cache_inv_def link_inv_def sched_inv_def pools up_def intro!: filter_False [symmetric])
  ultimately have "world_inv w3" using st by (metis world_inv_def)
  then have "world_inv w'" unfolding w' by (rule refreshAvailable_inv)
  moreover have nx: "w_next w' = Suc p + length specs"
    using bb at(2) [OF d] self by (simp add: w' w3_def p)
  have "fresh_inv w'"
    unfolding fresh_inv_def
  proof (intro conjI allI ballI impI)
    fix q x assume "x \<in> set (p_all (w_pools w' q))"
    then have "x \<in> set bs \<or> x \<in> set (p_all (w_pools w q))" by (auto simp: w' pools split: if_splits)
    then show "x < w_next w'" "b_state (w_backends w' x) < w_next w'"
      using lt [of x q] old_b [of x] new_b unfolding nx
      by (auto simp: w' bs p built_backend_def dest!: le_Suc_ex)
  next
    fix q assume "w_next w' \<le> q"
    then show "p_all (w_pools w' q) = []" using fr unfolding nx by (auto simp: w' pools fresh_inv_def p)
  qed
  moreover have "map (\<lambda>b. b_id (w_backends w' b)) bs = map spec_ID specs"
    "map (\<lambda>b. Weight (w_backends w' b)) bs = map (\<lambda>s. max 1 (spec_Weight s)) specs"
    unfolding w' bs
    by (rule map_upt_shift; simp add: new_b built_backend_def Weight_def max_def)+
  moreover have "\<forall>b \<in> set bs. b_pool (w_backends w' b) = Some p \<and> \<not> s_healthy (state_of w' b)"
    using newp by (simp add: w')
  moreover have "q \<noteq> p \<Longrightarrow> w_pools w' q = w_pools w q" for q
    by (simp add: w' refreshAvailable_def Let_def pools)
  moreover have "distinct (map spec_ID specs)" using buildBackends_ids [OF b] by blast
  moreover have all': "p_all (w_pools w' p) = bs" by (simp add: w' pools)
  ultimately show ?thesis using d p unfolding all' by blast
qed

lemma empty_world_inv: "world_inv empty_world" "fresh_inv empty_world"
  by (simp_all add: world_inv_def fresh_inv_def empty_world_def cache_inv_def link_inv_def
      sched_inv_def new_state_inv)

section \<open>Limits, thresholds and slow start\<close>

text \<open>The concurrency limit of a state.\<close>

definition slots :: "backendState \<Rightarrow> int" where
  "slots s = max 1 (s_maxConcurrent s)"

definition within_limits :: "world \<Rightarrow> bool" where
  "within_limits w \<longleftrightarrow> (\<forall>a. 0 \<le> s_inflight (w_states w a) \<and> s_inflight (w_states w a) \<le> slots (w_states w a))"

lemma health_inflight [simp]:
  "s_inflight (snd (recordHealthResultLocked b ok st ft now s)) = s_inflight s"
  "s_maxConcurrent (snd (recordHealthResultLocked b ok st ft now s)) = s_maxConcurrent s"
  by (simp_all add: recordHealthResultLocked_def Let_def)

lemma passive_inflight [simp]:
  "s_inflight (snd (passive_failure policy now s)) = s_inflight s"
  "s_maxConcurrent (snd (passive_failure policy now s)) = s_maxConcurrent s"
  by (simp_all add: passive_failure_def Let_def)

lemma recovered_inflight [simp]:
  "s_inflight (recovered now s) = s_inflight s" "s_maxConcurrent (recovered now s) = s_maxConcurrent s"
  by (simp_all add: recovered_def)

lemma within_limits_step:
  "within_limits w \<Longrightarrow> 0 \<le> s_inflight s \<and> s_inflight s \<le> slots s \<Longrightarrow> within_limits (state_step a c s w)"
  by (simp add: within_limits_def)

lemma run_op_limits: "within_limits w \<Longrightarrow> within_limits (run_op op now w)"
proof -
  assume w: "within_limits w"
  then have b: "0 \<le> s_inflight (w_states w a)" "s_inflight (w_states w a) \<le> slots (w_states w a)" for a
    by (simp_all add: within_limits_def)
  note r = within_limits_step [OF w] and bs = b [unfolded slots_def]
  have less: "s_inflight (w_states w a) - 1 \<le> max 1 (s_maxConcurrent (w_states w a))" for a
    using bs(2) [of a] by linarith
  have pos: "0 \<le> max 1 (x :: int)" for x by linarith
  show ?thesis
    using w bs less pos
    by (cases op; simp only: run_op.simps op_steps Let_def if_distrib [of snd] snd_conv split: if_split)
      (auto intro!: r simp: slots_def)
qed

lemma run_ops_limits:
  "within_limits w \<Longrightarrow> within_limits (fold (\<lambda>(op, now). run_op op now) ops w)"
  by (induction ops arbitrary: w) (auto simp: run_op_limits)

text \<open>Repeated failed probes, from a healthy state.\<close>

lemma failed_probes:
  assumes "s_healthOwner s = None \<or> s_healthOwner s = b_pool b" and "0 < ft"
    and "s_consecutiveFailure s = 0" and "s_healthy s"
  shows "s_consecutiveFailure (((\<lambda>s. snd (recordHealthResultLocked b False st ft now s)) ^^ n) s) = int n
    \<and> s_healthOwner (((\<lambda>s. snd (recordHealthResultLocked b False st ft now s)) ^^ n) s) = s_healthOwner s
    \<and> s_healthy (((\<lambda>s. snd (recordHealthResultLocked b False st ft now s)) ^^ n) s) = (int n < ft)"
proof (induction n)
  case 0
  then show ?case using assms by simp
next
  case (Suc n)
  let ?f = "\<lambda>s. snd (recordHealthResultLocked b False st ft now s)"
  have own: "s_healthOwner ((?f ^^ n) s) = None \<or> s_healthOwner ((?f ^^ n) s) = b_pool b"
    using Suc assms(1) by simp
  have "?f ((?f ^^ n) s) = (let t = ((?f ^^ n) s)\<lparr>s_consecutiveSuccess := 0, s_consecutiveFailure := int n + 1\<rparr>
      in if int n + 1 \<ge> ft then snd (setAliveLocked False now t) else t)"
    using own Suc by (auto simp: recordHealthResultLocked_def Let_def)
  with Suc show ?case by (auto simp: Let_def)
qed

text \<open>Repeated successful probes, from an unhealthy state whose ejection is over.\<close>

lemma passed_probes:
  assumes "s_healthOwner s = None \<or> s_healthOwner s = b_pool b" and "0 < st"
    and "s_consecutiveSuccess s = 0" and "\<not> s_healthy s" and "s_ejectedUntil s \<le> now" and "0 \<le> now"
  shows "let t = ((\<lambda>s. snd (recordHealthResultLocked b True st ft now s)) ^^ n) s
    in s_consecutiveSuccess t = int n \<and> s_healthOwner t = s_healthOwner s \<and> s_ejectedUntil t \<le> now
       \<and> s_healthy t = (st \<le> int n)"
proof (induction n)
  case 0
  then show ?case using assms by simp
next
  case (Suc n)
  let ?f = "\<lambda>s. snd (recordHealthResultLocked b True st ft now s)"
  let ?t = "(?f ^^ n) s"
  have own: "s_healthOwner ?t = None \<or> s_healthOwner ?t = b_pool b"
    using Suc assms(1) by (simp add: Let_def)
  have "?f ?t = (let u = ?t\<lparr>s_consecutiveFailure := 0, s_consecutiveSuccess := int n + 1\<rparr>
      in if int n + 1 \<ge> st then snd (setAliveLocked True now u) else u)"
    using own Suc by (auto simp: recordHealthResultLocked_def Let_def)
  with Suc assms(6) show ?case by (auto simp: Let_def)
qed

lemma slowStartPercent_bounds:
  assumes "1 \<le> pp_SlowStartMinimum policy" and "pp_SlowStartMinimum policy \<le> 100" and "since \<le> now"
  shows "pp_SlowStartMinimum policy \<le> slowStartPercent policy since now
    \<and> slowStartPercent policy since now \<le> 100"
proof -
  let ?x = "rat_of_int (100 - pp_SlowStartMinimum policy) * (of_int (now - since) / of_int (pp_SlowStart policy))"
  have "0 \<le> trunc ?x" if "0 < pp_SlowStart policy"
    using assms that by (intro trunc_nonneg mult_nonneg_nonneg divide_nonneg_nonneg) auto
  with assms show ?thesis by (auto simp: slowStartPercent_def Let_def)
qed

lemma slowStartPercent_mono:
  assumes "1 \<le> pp_SlowStartMinimum policy" and "pp_SlowStartMinimum policy \<le> 100"
    and "since \<noteq> 0" and "since \<le> t1" and "t1 \<le> t2"
  shows "slowStartPercent policy since t1 \<le> slowStartPercent policy since t2"
proof (cases "0 < pp_SlowStart policy \<and> t2 - since < pp_SlowStart policy")
  case True
  let ?x = "\<lambda>t. rat_of_int (100 - pp_SlowStartMinimum policy) * (of_int (t - since) / of_int (pp_SlowStart policy))"
  have "0 \<le> ?x t1" using True assms by (intro mult_nonneg_nonneg divide_nonneg_nonneg) auto
  moreover have "?x t1 \<le> ?x t2"
    using True assms by (intro mult_left_mono divide_right_mono) auto
  ultimately have "trunc (?x t1) \<le> trunc (?x t2)" by (rule trunc_mono)
  with True assms show ?thesis by (auto simp: slowStartPercent_def Let_def)
next
  case False
  then have "slowStartPercent policy since t2 = 100"
    using assms by (auto simp: slowStartPercent_def Let_def)
  with slowStartPercent_bounds [OF assms(1,2,4)] show ?thesis by simp
qed

section \<open>Operations by backend ID\<close>

lemma SetDraining_state:
  "state_of (SetDraining b d w) b =
     (state_of w b)\<lparr>s_draining := d, s_enabled := (s_enabled (state_of w b) \<and> \<not> d)\<rparr>"
  by (simp add: SetDraining_step Let_def)

lemma run_op_frame [simp]: "w_backends (run_op op now w) = w_backends w"
  by (cases op) (simp_all add: op_steps Let_def)

text \<open>A drained backend is not served again by \<open>AvailableBackends\<close> or \<open>TryAcquire\<close> until it is
  enabled.\<close>

lemma drained_not_available:
  assumes inv: "world_inv w" and room: "version_room (Suc (length (p_all (w_pools w p)))) w"
    and d: "DrainBackend p i w = (True, w1)" and a: "AvailableBackends p now w1 = (bs, w2)"
  shows "\<exists>b. first_match (\<lambda>b. b_id (w_backends w b) = i) (p_all (w_pools w p)) = Some b
    \<and> b \<notin> set bs \<and> fst (TryAcquire b now w2) = False"
proof -
  from d obtain b where b: "first_match (\<lambda>b. b_id (w_backends w b) = i) (p_all (w_pools w p)) = Some b"
    and w1: "w1 = SetDraining b True w" by (auto simp: DrainBackend_def split: option.splits)
  have si: "state_inv (state_of w b)" using inv by (simp add: world_inv_def)
  have step: "w1 = state_step (b_state (w_backends w b)) True
      ((state_of w b)\<lparr>s_draining := True, s_enabled := (s_enabled (state_of w b) \<and> \<not> True)\<rparr>) w"
    unfolding w1 SetDraining_step Let_def ..
  note leg = legit_simple(6) [OF si, of True]
  have inv1: "world_inv w1" unfolding step by (rule state_step_inv [OF leg room inv])
  have room1: "version_room (length (p_all (w_pools w1 p)) + 0) w1"
    unfolding step add_0_right state_step_all [OF leg] by (rule state_step_room [OF leg room])
  note av = AvailableBackends_ok [OF inv1 room1 a]
  have mem: "b \<in> set (p_all (w_pools w1 p))"
    using first_match_SomeD [OF b] unfolding step state_step_all [OF leg] by blast
  have dr: "s_draining (state_of w1 b)" unfolding w1 SetDraining_state by simp
  from av(5) [OF mem] dr have dr2: "s_draining (state_of w2 b)"
    by (auto simp: recovered_def)
  then have "\<not> IsAlive (state_of w2 b) now" by (simp add: IsAlive_def)
  with av(2) b show ?thesis by (auto simp: TryAcquire_def Let_def)
qed

section \<open>A pool to compute with\<close>

definition demo_specs :: "BackendSpec list" where
  "demo_specs = [\<lparr>spec_ID = ''a'', spec_URL = ''http://a'', spec_Weight = 3, spec_Disabled = False\<rparr>,
                 \<lparr>spec_ID = ''b'', spec_URL = ''http://b'', spec_Weight = 1, spec_Disabled = False\<rparr>]"

definition demo_world :: world where
  "demo_world = (case NewBackendPool simple_parse demo_specs None 0 empty_world of
     Inr (p, w) \<Rightarrow> w | Inl e \<Rightarrow> empty_world)"

lemma demo_new: "NewBackendPool simple_parse demo_specs None 0 empty_world = Inr (0, demo_world)"
  by (simp add: demo_world_def NewBackendPool_def demo_specs_def Let_def spec_error_def
      simple_parse_def simple_url_def HasPrefix_def empty_world_def)

lemma demo_world_inv: "world_inv demo_world"
  using NewBackendPool_ok [OF empty_world_inv demo_new] by blast

lemma demo_pools: "w_pools demo_world q = (if q = 0 then \<lparr>p_all = [1, 2], p_available = [],
    p_policy = default_policy, p_nextRecovery = 0, p_stateVersion = 0, p_cacheVersion = 0\<rparr>
  else w_pools empty_world q)"
  by (simp add: demo_world_def NewBackendPool_def demo_specs_def Let_def spec_error_def new_state_def
      simple_parse_def simple_url_def HasPrefix_def empty_world_def refreshAvailable_def attach_pool_def
      set_state_def set_pool_def IsAlive_def)

lemma demo_room: "n < 2 ^ 64 \<Longrightarrow> version_room n demo_world"
  by (simp add: version_room_def demo_pools empty_world_def unsigned_minus_1_eq_mask mask_eq_exp_minus_1)

lemma demo_run_all: "p_all (w_pools (run_op op now demo_world) 0) = [1, 2]"
  using demo_world_inv by (subst run_op_all) (simp_all add: world_inv_def demo_pools)

lemma demo_run:
  "world_inv (run_op op now demo_world)"
  "version_room (length (p_all (w_pools (run_op op now demo_world) 0))) (run_op op now demo_world)"
proof -
  have "version_room (Suc 2) demo_world" by (rule demo_room) simp
  from run_op_inv [OF this demo_world_inv, of op now]
  show "world_inv (run_op op now demo_world)"
    "version_room (length (p_all (w_pools (run_op op now demo_world) 0))) (run_op op now demo_world)"
    unfolding demo_run_all by (simp_all add: eval_nat_numeral)
qed

section \<open>Properties\<close>

text \<open>C3. The invariant of backends and pools survives any sequence of operations (health
  results, passive failures, enabling, draining, acquiring, releasing), as long as fewer than
  $2^{64}$ invalidations are pending in a pool: an ejected backend is never healthy, a cache
  with an up-to-date version lists exactly the live backends, and every ejection has a recovery
  scheduled.\<close>

theorem backend_invariant:
  assumes "world_inv w" and "version_room (length ops) w"
  shows "world_inv (fold (\<lambda>(op, now). run_op op now) ops w)"
  using run_ops_inv [of ops 0 w] assms by simp

theorem backend_invariant_witness:
  "world_inv (fold (\<lambda>(op, now). run_op op now) [(OpSetAlive 1 True, 5), (OpSetDraining 1 True, 6)] demo_world)"
  by (rule backend_invariant [OF demo_world_inv demo_room]) simp



text \<open>\<open>TryAcquire\<close> takes a slot only of a backend that is healthy, enabled, not draining and
  not ejected and has a free slot; otherwise it changes nothing; \<open>Release\<close> gives the slot
  back.\<close>

theorem acquire_release:
  "(fst (TryAcquire b now w) \<longleftrightarrow>
      s_healthy (state_of w b) \<and> s_enabled (state_of w b) \<and> \<not> s_draining (state_of w b)
      \<and> \<not> IsEjected (state_of w b) now \<and> s_inflight (state_of w b) < max 1 (s_maxConcurrent (state_of w b)))
   \<and> (if fst (TryAcquire b now w)
      then s_inflight (state_of (snd (TryAcquire b now w)) b) = s_inflight (state_of w b) + 1
      else snd (TryAcquire b now w) = w)
   \<and> s_inflight (state_of (Release b (snd (TryAcquire b now w))) b) =
       (if fst (TryAcquire b now w) then max 0 (s_inflight (state_of w b))
        else max 0 (s_inflight (state_of w b) - 1))"
  by (simp add: TryAcquire_step Release_step Let_def IsAlive_def)

text \<open>C1. \<open>AvailableBackends\<close> returns exactly the live backends of the pool, in the order of the
  pool.\<close>

theorem available_exact:
  assumes "world_inv w" and "version_room (length (p_all (w_pools w p))) w"
    and "AvailableBackends p now w = (bs, w')"
  shows "bs = filter (\<lambda>b. IsAlive (state_of w' b) now) (p_all (w_pools w p)) \<and> world_inv w'
    \<and> p_all (w_pools w' p) = p_all (w_pools w p)"
  using AvailableBackends_ok [of w p 0 now bs w'] assms by simp

theorem available_exact_witness:
  "set (fst (AvailableBackends 0 9 (run_op (OpSetAlive 1 True) 5 demo_world))) \<subseteq> {1, 2}"
proof -
  let ?w = "run_op (OpSetAlive 1 True) 5 demo_world"
  note i = demo_run
  obtain bs w' where r: "AvailableBackends 0 9 ?w = (bs, w')" by fastforce
  have "bs = filter (\<lambda>b. IsAlive (state_of w' b) 9) (p_all (w_pools ?w 0))"
    by (rule available_exact [OF i r, THEN conjunct1])
  with r show ?thesis by (simp only: demo_run_all) auto
qed

text \<open>C4. An ejection ends: once the cooldown of an ejected backend has passed, the next
  \<open>AvailableBackends\<close> makes it healthy again and, if it is enabled and not draining, lists it.\<close>

theorem ejection_ends:
  assumes "world_inv w" and "version_room (length (p_all (w_pools w p))) w"
    and "b \<in> set (p_all (w_pools w p))" and "0 < s_ejectedUntil (state_of w b)"
    and "s_ejectedUntil (state_of w b) \<le> now" and "AvailableBackends p now w = (bs, w')"
  shows "s_healthy (state_of w' b) \<and> s_ejectedUntil (state_of w' b) = 0
    \<and> s_passiveFailures (state_of w' b) = 0
    \<and> (s_enabled (state_of w b) \<and> \<not> s_draining (state_of w b) \<longrightarrow> b \<in> set bs)"
proof -
  have "version_room (length (p_all (w_pools w p)) + 0) w" using assms(2) by simp
  note av = AvailableBackends_ok [OF assms(1) this assms(6)]
  from av(4) [OF assms(3,4,5)] have "state_of w' b = recovered now (state_of w b)" .
  with av(2) assms(3,4,5) show ?thesis by (auto simp: recovered_def IsAlive_def IsEjected_def)
qed

theorem ejection_ends_witness:
  "1 \<in> set (fst (AvailableBackends 0 (20 * second)
      (run_op (OpPassiveFailure 1 (default_policy\<lparr>pp_FailureThreshold := 1\<rparr>)) 5 demo_world)))"
proof -
  let ?pol = "default_policy\<lparr>pp_FailureThreshold := 1\<rparr>"
  let ?w = "run_op (OpPassiveFailure 1 ?pol) 5 demo_world"
  note i = demo_run
  have d: "w_states demo_world 1 = (new_state default_policy (demo_specs ! 0))\<lparr>s_pools := [0]\<rparr>"
    "b_state (w_backends demo_world 1) = 1"
    by (simp_all add: demo_world_def NewBackendPool_def demo_specs_def Let_def spec_error_def new_state_def
      simple_parse_def simple_url_def HasPrefix_def empty_world_def refreshAvailable_def attach_pool_def
      set_state_def set_pool_def IsAlive_def)
  have s: "state_of ?w 1 = snd (passive_failure ?pol 5 (w_states demo_world 1))"
    unfolding run_op.simps RecordPassiveFailure_step Let_def using d(2) by (simp add: default_policy_def)
  have st: "s_ejectedUntil (state_of ?w 1) = 5 + 10 * second" "s_enabled (state_of ?w 1)"
    "\<not> s_draining (state_of ?w 1)"
    unfolding s d by (simp_all add: passive_failure_def new_state_def default_policy_def demo_specs_def)
  have mem: "1 \<in> set (p_all (w_pools ?w 0))" unfolding demo_run_all by simp
  obtain bs w' where r: "AvailableBackends 0 (20 * second) ?w = (bs, w')" by fastforce
  have "1 \<in> set bs"
    using ejection_ends [OF i mem _ _ r] st(2,3) unfolding st(1) by (simp only: second_def) simp
  with r show ?thesis by simp
qed

text \<open>Draining a backend by ID takes it out of service at once: the next available list does
  not contain it, and no slot of it can be acquired.\<close>

theorem drain_takes_effect:
  assumes "world_inv w" and "version_room (Suc (length (p_all (w_pools w p)))) w"
    and "DrainBackend p i w = (True, w1)" and "AvailableBackends p now w1 = (bs, w2)"
  shows "\<exists>b. first_match (\<lambda>b. b_id (w_backends w b) = i) (p_all (w_pools w p)) = Some b
    \<and> b \<notin> set bs \<and> fst (TryAcquire b now w2) = False"
  using assms by (rule drained_not_available)

theorem drain_takes_effect_witness:
  "2 \<notin> set (fst (AvailableBackends 0 9 (snd (DrainBackend 0 ''b'' demo_world))))"
proof -
  let ?w = "snd (DrainBackend 0 ''b'' demo_world)"
  have f: "first_match (\<lambda>b. b_id (w_backends demo_world b) = ''b'') (p_all (w_pools demo_world 0)) = Some 2"
    by (simp add: demo_pools)
      (simp add: demo_world_def NewBackendPool_def demo_specs_def Let_def spec_error_def new_state_def
      simple_parse_def simple_url_def HasPrefix_def empty_world_def refreshAvailable_def attach_pool_def
      set_state_def set_pool_def IsAlive_def)
  have d: "DrainBackend 0 ''b'' demo_world = (True, ?w)" unfolding DrainBackend_def f by simp
  have room: "version_room (Suc (length (p_all (w_pools demo_world 0)))) demo_world"
    by (rule demo_room) (simp add: demo_pools)
  obtain bs w2 where r: "AvailableBackends 0 9 ?w = (bs, w2)" by fastforce
  from drain_takes_effect [OF demo_world_inv room d r] f r show ?thesis by simp
qed

text \<open>Health-check thresholds: from a healthy state, exactly \<open>failureThreshold\<close> failed probes
  in a row take a backend down; from an unhealthy state whose ejection is over, exactly
  \<open>successThreshold\<close> successful probes in a row bring it back.\<close>

theorem probe_thresholds:
  assumes "s_healthOwner s = None \<or> s_healthOwner s = b_pool b" and "0 < st" and "0 < ft" and "0 \<le> now"
  shows "(s_healthy s \<and> s_consecutiveFailure s = 0 \<longrightarrow>
      s_healthy (((\<lambda>s. snd (recordHealthResultLocked b False st ft now s)) ^^ n) s) = (int n < ft))
    \<and> (\<not> s_healthy s \<and> s_consecutiveSuccess s = 0 \<and> s_ejectedUntil s \<le> now \<longrightarrow>
      s_healthy (((\<lambda>s. snd (recordHealthResultLocked b True st ft now s)) ^^ n) s) = (st \<le> int n))"
  using failed_probes [OF assms(1,3), where st = st and now = now and n = n]
    passed_probes [OF assms(1,2) _ _ _ assms(4), where ft = ft and n = n]
  by (auto simp: Let_def)

theorem probe_thresholds_witness:
  "s_healthy (((\<lambda>s. snd (recordHealthResultLocked (w_backends empty_world 0) True 2 3 7 s)) ^^ 2)
     (w_states empty_world 0))"
  using probe_thresholds [of "w_states empty_world 0" "w_backends empty_world 0" 2 3 7 2]
  by (simp add: empty_world_def new_state_def)

text \<open>Slow start: the share of traffic of a recovering backend is between the configured
  minimum and 100 percent, never falls with time, and is 100 when the ramp is over.\<close>

theorem slow_start_ramp:
  assumes "1 \<le> pp_SlowStartMinimum policy" and "pp_SlowStartMinimum policy \<le> 100"
    and "since \<noteq> 0" and "since \<le> t1" and "t1 \<le> t2"
  shows "pp_SlowStartMinimum policy \<le> slowStartPercent policy since t1
    \<and> slowStartPercent policy since t1 \<le> slowStartPercent policy since t2
    \<and> slowStartPercent policy since t2 \<le> 100
    \<and> (pp_SlowStart policy \<le> t1 - since \<longrightarrow> slowStartPercent policy since t1 = 100)"
  using slowStartPercent_bounds [OF assms(1,2)] slowStartPercent_mono [OF assms] assms
  by (auto simp: slowStartPercent_def Let_def)

theorem slow_start_ramp_witness:
  "slowStartPercent (default_policy\<lparr>pp_SlowStart := 100\<rparr>) 1 51 = 55
   \<and> slowStartPercent (default_policy\<lparr>pp_SlowStart := 100\<rparr>) 1 51
     \<le> slowStartPercent (default_policy\<lparr>pp_SlowStart := 100\<rparr>) 1 81"
  using slow_start_ramp [of "default_policy\<lparr>pp_SlowStart := 100\<rparr>" 1 51 81]
  by (simp add: default_policy_def slowStartPercent_def trunc_def Let_def)

text \<open>A pool that is built holds one backend per specification, in order, with distinct IDs,
  weights of at least 1 and every backend unhealthy until its first health check, and building
  it leaves every other pool as it was.\<close>

theorem new_pool:
  assumes "world_inv w" and "fresh_inv w" and "NewBackendPool parse specs policy now w = Inr (p, w')"
  shows "world_inv w' \<and> fresh_inv w'
    \<and> map (\<lambda>b. b_id (w_backends w' b)) (p_all (w_pools w' p)) = map spec_ID specs
    \<and> map (\<lambda>b. Weight (w_backends w' b)) (p_all (w_pools w' p)) = map (\<lambda>s. max 1 (spec_Weight s)) specs
    \<and> distinct (map spec_ID specs)
    \<and> (\<forall>b \<in> set (p_all (w_pools w' p)). \<not> s_healthy (state_of w' b))
    \<and> (\<forall>q. q \<noteq> p \<longrightarrow> w_pools w' q = w_pools w q)"
  using NewBackendPool_ok [OF assms] by blast

theorem new_pool_witness:
  "map (\<lambda>b. Weight (w_backends demo_world b)) (p_all (w_pools demo_world 0)) = [3, 1]"
  using new_pool [OF empty_world_inv demo_new] by (simp add: demo_specs_def)

end
