(* ===== verification/Strategy.thy ===== *)
theory Strategy
  imports Backend_Facts
begin

text \<open>
  The four balancing strategies (\<open>internal/balancer/strategies.go\<close>). A strategy chooses among the
  pool's available backends those whose ID is not excluded; the shared counters are 64-bit words
  that wrap. \<open>percent\<close> is \<open>SlowStartPercent\<close>, which is defined for every backend of a pool.
  Logarithms and scores of the rendezvous strategy are exact reals.
\<close>

section \<open>Selection\<close>

definition percent :: "world \<Rightarrow> instant \<Rightarrow> addr \<Rightarrow> int" where
  "percent w now b = (case SlowStartPercent w b now of Some x \<Rightarrow> x | None \<Rightarrow> 0)"

definition effectiveWeight :: "world \<Rightarrow> instant \<Rightarrow> addr \<Rightarrow> int" where
  "effectiveWeight w now b =
     (let weight = go_div (Weight (w_backends w b) * percent w now b) 100
      in if weight < 1 then 1 else weight)"

abbreviation bid :: "world \<Rightarrow> addr \<Rightarrow> go_string" where
  "bid w b \<equiv> b_id (w_backends w b)"

text \<open>The loop of the round robin: \<open>n\<close> turns are left, \<open>position\<close> is \<open>start + offset\<close>.\<close>

fun rr_scan :: "world \<Rightarrow> instant \<Rightarrow> go_string list \<Rightarrow> addr list \<Rightarrow> nat \<Rightarrow> uint64 \<Rightarrow> addr option \<Rightarrow> addr option" where
  "rr_scan w now excluded bs 0 position fallback = fallback"
| "rr_scan w now excluded bs (Suc n) position fallback =
     (let candidate = bs ! unat (position mod of_nat (length bs))
      in if bid w candidate \<in> set excluded
         then rr_scan w now excluded bs n (position + 1) fallback
         else
           (let fallback = (case fallback of None \<Rightarrow> Some candidate | Some f \<Rightarrow> Some f);
                percentage = percent w now candidate
            in if percentage \<ge> 100 \<or> uint (position mod 100) < percentage then Some candidate
               else rr_scan w now excluded bs n (position + 1) fallback))"

definition rr_pick :: "world \<Rightarrow> instant \<Rightarrow> go_string list \<Rightarrow> addr list \<Rightarrow> uint64 \<Rightarrow> addr option \<times> uint64" where
  "rr_pick w now excluded bs counter =
     (if length bs = 0 then (None, counter)
      else (rr_scan w now excluded bs (length bs) counter None, counter + 1))"

fun wrr_scan :: "world \<Rightarrow> instant \<Rightarrow> go_string list \<Rightarrow> int \<Rightarrow> addr list \<Rightarrow> addr option" where
  "wrr_scan w now excluded position [] = None"
| "wrr_scan w now excluded position (b # bs) =
     (if bid w b \<in> set excluded then wrr_scan w now excluded position bs
      else
        (let weight = effectiveWeight w now b
         in if position < weight then Some b
            else wrr_scan w now excluded (position - weight) bs))"

definition wrr_total :: "world \<Rightarrow> instant \<Rightarrow> go_string list \<Rightarrow> addr list \<Rightarrow> int" where
  "wrr_total w now excluded bs =
     (\<Sum>b \<leftarrow> bs. if bid w b \<in> set excluded then 0 else effectiveWeight w now b)"

definition wrr_pick :: "world \<Rightarrow> instant \<Rightarrow> go_string list \<Rightarrow> addr list \<Rightarrow> uint64 \<Rightarrow> addr option \<times> uint64" where
  "wrr_pick w now excluded bs counter =
     (let total = wrr_total w now excluded bs
      in if total = 0 then (None, counter)
         else (wrr_scan w now excluded (uint (counter mod word_of_int total)) bs, counter + 1))"

definition lessLoaded :: "world \<Rightarrow> instant \<Rightarrow> addr \<Rightarrow> addr \<Rightarrow> bool" where
  "lessLoaded w now left right \<longleftrightarrow>
     (s_inflight (state_of w left) + 1) * effectiveWeight w now right
     < (s_inflight (state_of w right) + 1) * effectiveWeight w now left"

text \<open>The loop both remaining strategies run: keep the candidate that beats the selected one.\<close>

fun scan_best :: "world \<Rightarrow> go_string list \<Rightarrow> (addr \<Rightarrow> addr \<Rightarrow> bool) \<Rightarrow> addr list \<Rightarrow> addr option \<Rightarrow> addr option" where
  "scan_best w excluded better [] selected = selected"
| "scan_best w excluded better (c # cs) selected =
     (if bid w c \<in> set excluded then scan_best w excluded better cs selected
      else scan_best w excluded better cs
             (case selected of None \<Rightarrow> Some c | Some s \<Rightarrow> if better c s then Some c else Some s))"

definition lr_pick :: "world \<Rightarrow> instant \<Rightarrow> go_string list \<Rightarrow> addr list \<Rightarrow> uint64 \<Rightarrow> addr option \<times> uint64" where
  "lr_pick w now excluded bs counter =
     (if length bs = 0 then (None, counter)
      else
        (let start = unat (counter mod of_nat (length bs))
         in (scan_best w excluded (lessLoaded w now)
               (map (\<lambda>offset. bs ! ((start + offset) mod length bs)) [0..<length bs]) None,
             counter + 1)))"

text \<open>The score of a backend for a key.\<close>

definition rendezvous_hash :: "go_string \<Rightarrow> go_string \<Rightarrow> uint64" where
  "rendezvous_hash key i = fnv64a (key @ [char_of (0 :: nat)] @ i)"

definition score :: "world \<Rightarrow> instant \<Rightarrow> go_string \<Rightarrow> addr \<Rightarrow> real" where
  "score w now key b =
     (let uniform = (real (unat (rendezvous_hash key (bid w b))) + 1) / (real (2 ^ 64 - 1) + 2)
      in - ln uniform / of_int (effectiveWeight w now b))"

definition selectBackend :: "world \<Rightarrow> instant \<Rightarrow> go_string list \<Rightarrow> addr list \<Rightarrow> go_string \<Rightarrow> addr option" where
  "selectBackend w now excluded bs key =
     scan_best w excluded (\<lambda>c s. score w now key c < score w now key s) bs None"

text \<open>A strategy with its counter; the rendezvous strategy has the key function of a request, and
  may have none.\<close>

datatype 'r Strategy =
    RoundRobinStrategy uint64
  | WeightedRoundRobinStrategy uint64
  | LeastRequestStrategy uint64
  | RendezvousStrategy "('r \<Rightarrow> go_string) option"

definition NewRoundRobinStrategy :: "'r Strategy" where
  "NewRoundRobinStrategy = RoundRobinStrategy 0"
definition NewWeightedRoundRobinStrategy :: "'r Strategy" where
  "NewWeightedRoundRobinStrategy = WeightedRoundRobinStrategy 0"
definition NewLeastRequestStrategy :: "'r Strategy" where
  "NewLeastRequestStrategy = LeastRequestStrategy 0"
definition NewRendezvousStrategy :: "('r \<Rightarrow> go_string) option \<Rightarrow> 'r Strategy" where
  "NewRendezvousStrategy key = RendezvousStrategy key"

fun pick :: "'r Strategy \<Rightarrow> world \<Rightarrow> instant \<Rightarrow> go_string list \<Rightarrow> addr list \<Rightarrow> go_string \<Rightarrow> addr option \<times> 'r Strategy" where
  "pick (RoundRobinStrategy c) w now excluded bs key =
     (case rr_pick w now excluded bs c of (r, c') \<Rightarrow> (r, RoundRobinStrategy c'))"
| "pick (WeightedRoundRobinStrategy c) w now excluded bs key =
     (case wrr_pick w now excluded bs c of (r, c') \<Rightarrow> (r, WeightedRoundRobinStrategy c'))"
| "pick (LeastRequestStrategy c) w now excluded bs key =
     (case lr_pick w now excluded bs c of (r, c') \<Rightarrow> (r, LeastRequestStrategy c'))"
| "pick (RendezvousStrategy k) w now excluded bs key =
     (selectBackend w now excluded bs key, RendezvousStrategy k)"

definition GetNextPeerExcluding ::
    "'r Strategy \<Rightarrow> addr \<Rightarrow> go_string list \<Rightarrow> instant \<Rightarrow> world \<Rightarrow> addr option \<times> 'r Strategy \<times> world" where
  "GetNextPeerExcluding strategy p excluded now w =
     (let (bs, w) = AvailableBackends p now w;
          (r, strategy) = pick strategy w now excluded bs []
      in (r, strategy, w))"

definition GetNextPeer :: "'r Strategy \<Rightarrow> addr \<Rightarrow> instant \<Rightarrow> world \<Rightarrow> addr option \<times> 'r Strategy \<times> world" where
  "GetNextPeer strategy p now w = GetNextPeerExcluding strategy p [] now w"

text \<open>\<open>GetNextPeerForRequest\<close>, which only the rendezvous strategy has.\<close>

definition GetNextPeerForRequest ::
    "('r \<Rightarrow> go_string) option \<Rightarrow> addr \<Rightarrow> go_string list \<Rightarrow> 'r \<Rightarrow> instant \<Rightarrow> world \<Rightarrow> addr option \<times> world" where
  "GetNextPeerForRequest key p excluded request now w =
     (let k = (case key of None \<Rightarrow> [] | Some f \<Rightarrow> f request);
          (bs, w) = AvailableBackends p now w
      in (selectBackend w now excluded bs k, w))"

section \<open>The contract of a strategy\<close>

text \<open>What the proxy relies on: a selected backend is one of those offered and is not excluded,
  and nothing is selected only when every backend is excluded. \<open>fits\<close> is the part of the state
  space where the second law holds: the round robin's positions must not wrap within a scan.\<close>

definition candidates :: "world \<Rightarrow> go_string list \<Rightarrow> addr list \<Rightarrow> addr list" where
  "candidates w excluded bs = filter (\<lambda>b. bid w b \<notin> set excluded) bs"

locale peer_selector =
  fixes sel :: "'s \<Rightarrow> world \<Rightarrow> instant \<Rightarrow> go_string list \<Rightarrow> addr list \<Rightarrow> addr option"
    and fits :: "'s \<Rightarrow> world \<Rightarrow> instant \<Rightarrow> go_string list \<Rightarrow> addr list \<Rightarrow> bool"
  assumes sound: "length bs < 2 ^ 64 \<Longrightarrow> sel s w now excluded bs = Some b \<Longrightarrow>
      b \<in> set (candidates w excluded bs)"
    and complete: "length bs < 2 ^ 64 \<Longrightarrow> fits s w now excluded bs \<Longrightarrow> candidates w excluded bs \<noteq> [] \<Longrightarrow>
      sel s w now excluded bs \<noteq> None"
begin

lemma chosen_offered:
  "length bs < 2 ^ 64 \<Longrightarrow> sel s w now excluded bs = Some b \<Longrightarrow> b \<in> set bs \<and> bid w b \<notin> set excluded"
  using sound by (force simp: candidates_def)

lemma none_iff:
  "length bs < 2 ^ 64 \<Longrightarrow> fits s w now excluded bs \<Longrightarrow>
   sel s w now excluded bs = None \<longleftrightarrow> candidates w excluded bs = []"
  using sound [of bs s w now excluded] complete [of bs s w now excluded]
  by (cases "sel s w now excluded bs") auto

end

section \<open>Round robin\<close>

lemma rr_index: "bs \<noteq> [] \<Longrightarrow> length bs < 2 ^ 64 \<Longrightarrow> unat (c mod of_nat (length bs) :: uint64) = unat c mod length bs"
  by (simp add: unat_mod_distrib unsigned_of_nat take_bit_nat_eq_self)

lemma rr_scan_sound:
  "bs \<noteq> [] \<Longrightarrow> length bs < 2 ^ 64 \<Longrightarrow> rr_scan w now excluded bs n c fb = Some b \<Longrightarrow>
   fb = Some b \<or> b \<in> set (candidates w excluded bs)"
proof (induction n arbitrary: c fb)
  case 0
  then show ?case by simp
next
  case (Suc n)
  let ?c = "bs ! unat (c mod of_nat (length bs))"
  have mem: "?c \<in> set bs" using Suc.prems(1,2) by (simp add: rr_index)
  show ?case
    using Suc.prems(3) Suc.IH [OF Suc.prems(1,2)] mem
    by (cases fb) (fastforce simp: Let_def candidates_def split: if_splits)+
qed

lemma rr_scan_fallback: "rr_scan w now excluded bs n c (Some f) \<noteq> None"
  by (induction n arbitrary: c) (auto simp: Let_def)

lemma rr_scan_complete:
  assumes "bs \<noteq> []" and "length bs < 2 ^ 64" and "unat c + n \<le> 2 ^ 64"
    and "\<exists>i < n. bid w (bs ! ((unat c + i) mod length bs)) \<notin> set excluded"
  shows "rr_scan w now excluded bs n c fb \<noteq> None"
  using assms(3,4)
proof (induction n arbitrary: c fb)
  case 0
  then show ?case by simp
next
  case (Suc n)
  let ?c = "bs ! unat (c mod of_nat (length bs))"
  have idx: "?c = bs ! (unat c mod length bs)" using assms(1,2) by (simp add: rr_index)
  show ?case
  proof (cases "bid w ?c \<in> set excluded")
    case False
    then show ?thesis using rr_scan_fallback by (auto simp: Let_def split: option.splits)
  next
    case True
    then have "\<not> bid w (bs ! ((unat c + 0) mod length bs)) \<notin> set excluded" using idx by simp
    with Suc.prems(2) obtain i where i: "i < n" "bid w (bs ! ((unat c + Suc i) mod length bs)) \<notin> set excluded"
      by (metis less_Suc_eq_0_disj)
    then have lt: "unat c + 1 < 2 ^ 64" using Suc.prems(1) by linarith
    then have u: "unat (c + 1) = unat c + 1" by (simp add: unat_word_ariths)
    have "rr_scan w now excluded bs n (c + 1) fb \<noteq> None"
    proof (rule Suc.IH)
      show "unat (c + 1) + n \<le> 2 ^ 64" using Suc.prems(1) u by simp
      show "\<exists>i < n. bid w (bs ! ((unat (c + 1) + i) mod length bs)) \<notin> set excluded"
        using i u by auto
    qed
    with True show ?thesis by (simp add: Let_def)
  qed
qed

text \<open>A full scan that does not wrap visits every index.\<close>

lemma rotation_covers: "j < n \<Longrightarrow> \<exists>i < n. (s + i) mod n = (j :: nat)"
proof -
  assume j: "j < n"
  let ?i = "(j + (n - s mod n)) mod n"
  have "(s + ?i) mod n = (s mod n + (j + (n - s mod n))) mod n"
    by (simp add: mod_simps)
  also have "s mod n + (j + (n - s mod n)) = j + n" using j mod_less_divisor [of n s] by linarith
  finally show ?thesis using j by (intro exI [of _ ?i]) auto
qed

interpretation round_robin: peer_selector
  "\<lambda>c w now excluded bs. fst (rr_pick w now excluded bs c)"
  "\<lambda>c w now excluded bs. unat c + length bs \<le> 2 ^ 64"
proof unfold_locales
  fix c :: uint64 and w now excluded b and bs :: "addr list"
  assume "length bs < 2 ^ 64" and "fst (rr_pick w now excluded bs c) = Some b"
  then show "b \<in> set (candidates w excluded bs)"
    using rr_scan_sound [of bs w now excluded "length bs" c None b]
    by (cases "bs = []") (auto simp: rr_pick_def split: if_splits)
next
  fix c :: uint64 and w now excluded and bs :: "addr list"
  assume lt: "length bs < 2 ^ 64" and fit: "unat c + length bs \<le> 2 ^ 64"
    and ne: "candidates w excluded bs \<noteq> []"
  then have bs: "bs \<noteq> []" by (auto simp: candidates_def)
  from ne obtain j where j: "j < length bs" "bid w (bs ! j) \<notin> set excluded"
    by (auto simp: candidates_def filter_empty_conv in_set_conv_nth)
  from rotation_covers [OF j(1), of "unat c"] obtain i where
    i: "i < length bs" "(unat c + i) mod length bs = j" by blast
  with j have "\<exists>i < length bs. bid w (bs ! ((unat c + i) mod length bs)) \<notin> set excluded" by blast
  from rr_scan_complete [OF bs lt fit this] show "fst (rr_pick w now excluded bs c) \<noteq> None"
    using bs by (simp add: rr_pick_def)
qed

section \<open>Weighted round robin\<close>

lemma effectiveWeight_pos: "1 \<le> effectiveWeight w now b"
  by (simp add: effectiveWeight_def Let_def)

lemma wrr_total_nonneg: "0 \<le> wrr_total w now excluded bs"
  unfolding wrr_total_def
  by (rule sum_list_nonneg) (use effectiveWeight_pos [of w now] order_trans zero_le_one in \<open>auto, blast\<close>)

lemma wrr_total_0: "wrr_total w now excluded bs = 0 \<longleftrightarrow> candidates w excluded bs = []"
proof (induction bs)
  case Nil
  then show ?case by (simp add: wrr_total_def candidates_def)
next
  case (Cons b bs)
  then show ?case
    using effectiveWeight_pos [of w now b] wrr_total_nonneg [of w now excluded bs]
    by (auto simp: wrr_total_def candidates_def)
qed

lemma wrr_scan_sound:
  "wrr_scan w now excluded position bs = Some b \<Longrightarrow> b \<in> set (candidates w excluded bs)"
  by (induction bs arbitrary: position) (auto simp: Let_def candidates_def split: if_splits)

lemma wrr_scan_complete:
  "0 \<le> position \<Longrightarrow> position < wrr_total w now excluded bs \<Longrightarrow>
   wrr_scan w now excluded position bs \<noteq> None"
  by (induction bs arbitrary: position) (auto simp: Let_def wrr_total_def)

lemma wrr_position:
  assumes "0 < t" and "t < 2 ^ 64"
  shows "uint (c mod word_of_int t :: uint64) = uint c mod t"
  using assms by (simp add: uint_mod_distrib uint_word_of_int_eq take_bit_int_eq_self)

interpretation weighted_round_robin: peer_selector
  "\<lambda>c w now excluded bs. fst (wrr_pick w now excluded bs c)"
  "\<lambda>c w now excluded bs. wrr_total w now excluded bs < 2 ^ 64"
proof unfold_locales
  fix c :: uint64 and w now excluded b and bs :: "addr list"
  assume "fst (wrr_pick w now excluded bs c) = Some b"
  then show "b \<in> set (candidates w excluded bs)"
    using wrr_scan_sound by (auto simp: wrr_pick_def Let_def split: if_splits)
next
  fix c :: uint64 and w now excluded and bs :: "addr list"
  assume fit: "wrr_total w now excluded bs < 2 ^ 64" and ne: "candidates w excluded bs \<noteq> []"
  have nz: "wrr_total w now excluded bs \<noteq> 0" using ne wrr_total_0 by blast
  then have pos: "0 < wrr_total w now excluded bs" using wrr_total_nonneg [of w now excluded bs] by simp
  have "wrr_scan w now excluded (uint (c mod word_of_int (wrr_total w now excluded bs))) bs \<noteq> None"
    by (rule wrr_scan_complete) (simp_all only: wrr_position [OF pos fit], simp_all add: pos)
  then show "fst (wrr_pick w now excluded bs c) \<noteq> None" using nz by (simp add: wrr_pick_def Let_def)
qed

section \<open>Least requests and rendezvous\<close>

lemma scan_best_sound:
  "scan_best w excluded better cs selected = Some b \<Longrightarrow>
   selected = Some b \<or> b \<in> set (candidates w excluded cs)"
  by (induction cs arbitrary: selected)
    (fastforce simp: candidates_def split: if_splits option.splits)+

lemma scan_best_Some: "\<exists>y. scan_best w excluded better cs (Some s) = Some y"
  by (induction cs arbitrary: s) auto

lemma scan_best_complete:
  "candidates w excluded cs \<noteq> [] \<Longrightarrow> scan_best w excluded better cs selected \<noteq> None"
  by (induction cs arbitrary: selected) (auto simp: candidates_def scan_best_Some split: option.splits)

definition rotation :: "addr list \<Rightarrow> nat \<Rightarrow> addr list" where
  "rotation bs start = map (\<lambda>offset. bs ! ((start + offset) mod length bs)) [0..<length bs]"

lemma set_rotation: "set (rotation bs start) = set bs"
proof (cases "bs = []")
  case False
  show ?thesis
  proof (intro equalityI subsetI)
    fix b assume "b \<in> set bs"
    then obtain j where j: "j < length bs" "bs ! j = b" by (auto simp: in_set_conv_nth)
    from rotation_covers [OF j(1), of start] j show "b \<in> set (rotation bs start)"
      by (force simp: rotation_def)
  qed (use False in \<open>auto simp: rotation_def\<close>)
qed (simp add: rotation_def)

lemma set_candidates: "set (candidates w excluded bs) = {b \<in> set bs. bid w b \<notin> set excluded}"
  by (auto simp: candidates_def)

lemma candidates_empty_iff: "candidates w excluded bs = [] \<longleftrightarrow> set (candidates w excluded bs) = {}"
  by simp

interpretation least_request: peer_selector
  "\<lambda>c w now excluded bs. fst (lr_pick w now excluded bs c)" "\<lambda>c w now excluded bs. True"
proof unfold_locales
  fix c :: uint64 and w now excluded b and bs :: "addr list"
  assume "fst (lr_pick w now excluded bs c) = Some b"
  then have "b \<in> set (candidates w excluded (rotation bs (unat (c mod of_nat (length bs)))))"
    using scan_best_sound by (fastforce simp: lr_pick_def rotation_def Let_def split: if_splits)
  then show "b \<in> set (candidates w excluded bs)" by (simp add: set_candidates set_rotation)
next
  fix c :: uint64 and w now excluded and bs :: "addr list"
  assume ne: "candidates w excluded bs \<noteq> []"
  then have "candidates w excluded (rotation bs (unat (c mod of_nat (length bs)))) \<noteq> []"
    by (simp add: candidates_empty_iff set_candidates set_rotation)
  moreover have "bs \<noteq> []" using ne by (auto simp: candidates_def)
  ultimately show "fst (lr_pick w now excluded bs c) \<noteq> None"
    using scan_best_complete by (auto simp: lr_pick_def rotation_def Let_def)
qed

interpretation rendezvous: peer_selector
  "\<lambda>key w now excluded bs. selectBackend w now excluded bs key" "\<lambda>key w now excluded bs. True"
  by unfold_locales (use scan_best_sound scan_best_complete in \<open>fastforce simp: selectBackend_def\<close>)+

section \<open>Shares, loads and stability\<close>

text \<open>Counting over one full turn of a counter.\<close>

lemma card_rotation: "card {i. i < n \<and> P ((s + i) mod n)} = card {p. p < n \<and> P (p :: nat)}"
proof -
  let ?f = "\<lambda>i. (s + i) mod n"
  have surj: "?f ` {..<n} = {..<n}"
  proof (intro equalityI subsetI)
    fix p assume "p \<in> {..<n}"
    then show "p \<in> ?f ` {..<n}" using rotation_covers [of p n s] by force
  qed (auto intro: mod_less_divisor)
  then have inj: "inj_on ?f {..<n}" by (intro eq_card_imp_inj_on) auto
  have "{p. p < n \<and> P p} = ?f ` {i. i < n \<and> P (?f i)}"
  proof (intro equalityI subsetI)
    fix p assume p: "p \<in> {p. p < n \<and> P p}"
    then obtain i where "i < n" "p = ?f i" using surj by blast
    with p show "p \<in> ?f ` {i. i < n \<and> P (?f i)}" by blast
  qed auto
  moreover have "inj_on ?f {i. i < n \<and> P (?f i)}" using inj by (rule inj_on_subset) auto
  ultimately show ?thesis by (simp add: card_image)
qed

lemma unat_add_small: "unat (c :: uint64) + i < 2 ^ 64 \<Longrightarrow> unat (c + of_nat i) = unat c + i"
  by (simp add: unat_word_ariths unsigned_of_nat take_bit_nat_eq_self)

lemma image_add_iff: "p \<in> (\<lambda>p. p + n) ` A \<longleftrightarrow> n \<le> p \<and> p - n \<in> (A :: nat set)"
  by (auto simp: image_iff) (metis le_add_diff_inverse2)

lemma wrr_share:
  "distinct bs \<Longrightarrow>
   finite {p. wrr_scan w now excluded (int p) bs = Some b} \<and>
   card {p. wrr_scan w now excluded (int p) bs = Some b} =
     (if b \<in> set (candidates w excluded bs) then nat (effectiveWeight w now b) else 0)"
proof (induction bs)
  case Nil
  then show ?case by (simp add: candidates_def)
next
  case (Cons x bs)
  let ?S = "\<lambda>bs. {p. wrr_scan w now excluded (int p) bs = Some b}"
  show ?case
  proof (cases "bid w x \<in> set excluded")
    case True
    with Cons show ?thesis by (auto simp: candidates_def)
  next
    case False
    let ?n = "nat (effectiveWeight w now x)"
    have n: "int ?n = effectiveWeight w now x" using effectiveWeight_pos [of w now x] by simp
    have eq: "?S (x # bs) = (if x = b then {..<?n} else {}) \<union> (\<lambda>p. p + ?n) ` ?S bs"
    proof (intro set_eqI)
      fix p
      have "int p < effectiveWeight w now x \<longleftrightarrow> p < ?n" using n by linarith
      moreover have "?n \<le> p \<Longrightarrow> int p - effectiveWeight w now x = int (p - ?n)" using n by linarith
      ultimately show "p \<in> ?S (x # bs) \<longleftrightarrow>
          p \<in> (if x = b then {..<?n} else {}) \<union> (\<lambda>p. p + ?n) ` ?S bs"
        using False by (cases "p < ?n") (auto simp: Let_def image_add_iff)
    qed
    have IH: "finite (?S bs)" "card (?S bs) = (if b \<in> set (candidates w excluded bs)
        then nat (effectiveWeight w now b) else 0)" using Cons by auto
    have inj: "card ((\<lambda>p. p + ?n) ` ?S bs) = card (?S bs)" by (simp add: card_image)
    show ?thesis
    proof (cases "x = b")
      case True
      then have "b \<notin> set (candidates w excluded bs)" using Cons.prems by (auto simp: candidates_def)
      with IH have "?S bs = {}" by simp
      with True False eq show ?thesis by (simp add: candidates_def)
    next
      case False2: False
      with IH inj eq False show ?thesis by (auto simp: candidates_def)
    qed
  qed
qed

lemma wrr_scan_total:
  "0 \<le> position \<Longrightarrow> wrr_scan w now excluded position bs = Some b \<Longrightarrow> position < wrr_total w now excluded bs"
proof (induction bs arbitrary: position)
  case Nil
  then show ?case by simp
next
  case (Cons x bs)
  have t: "wrr_total w now excluded (x # bs) =
      (if bid w x \<in> set excluded then 0 else effectiveWeight w now x) + wrr_total w now excluded bs"
    by (simp add: wrr_total_def)
  show ?case
    using Cons.prems Cons.IH [of position] Cons.IH [of "position - effectiveWeight w now x"]
      wrr_total_nonneg [of w now excluded bs]
    by (simp add: t Let_def split: if_splits)
qed

lemma wrr_exact_shares:
  assumes "distinct bs" and "wrr_total w now excluded bs = int t" and "0 < t" and "t < 2 ^ 64" and "unat c + t \<le> 2 ^ 64"
    and "b \<in> set (candidates w excluded bs)"
  shows "card {i. i < t \<and> fst (wrr_pick w now excluded bs (c + of_nat i)) = Some b} =
    nat (effectiveWeight w now b)"
proof -
  have T: "0 < wrr_total w now excluded bs" "wrr_total w now excluded bs < 2 ^ 64"
    using assms(2-4) by auto
  have pick: "fst (wrr_pick w now excluded bs (c + of_nat i)) =
      wrr_scan w now excluded (int ((unat c + i) mod t)) bs" if "i < t" for i
  proof -
    have "unat c + i < 2 ^ 64" using that assms(5) by linarith
    then have "uint (c + of_nat i) = int (unat c + i)"
      using unat_add_small [of c i] by (metis uint_nat)
    with wrr_position [OF T, of "c + of_nat i"] assms(2) T show ?thesis
      by (simp add: wrr_pick_def Let_def zmod_int)
  qed
  have "{i. i < t \<and> fst (wrr_pick w now excluded bs (c + of_nat i)) = Some b} =
      {i. i < t \<and> wrr_scan w now excluded (int ((unat c + i) mod t)) bs = Some b}"
    using pick by auto
  moreover have "{p. p < t \<and> wrr_scan w now excluded (int p) bs = Some b} =
      {p. wrr_scan w now excluded (int p) bs = Some b}"
    using wrr_scan_total [of "int _" w now excluded bs b] assms(2) by auto
  ultimately show ?thesis
    using wrr_share [OF assms(1), of w now excluded b] assms(6)
      card_rotation [of t "\<lambda>p. wrr_scan w now excluded (int p) bs = Some b" "unat c"] by simp
qed

lemma rr_pick_full:
  assumes "bs \<noteq> []" and "length bs < 2 ^ 64" and "\<forall>b \<in> set bs. 100 \<le> percent w now b"
  shows "fst (rr_pick w now [] bs c) = Some (bs ! (unat c mod length bs))"
proof -
  obtain n where n: "length bs = Suc n" using assms(1) by (cases bs) auto
  have "bs ! unat (c mod of_nat (length bs)) \<in> set bs" using assms by (simp add: rr_index)
  then have "rr_scan w now [] bs (Suc n) c None = Some (bs ! unat (c mod of_nat (length bs)))"
    using assms(3) by (simp add: Let_def)
  then show ?thesis using assms(1,2) n rr_index [OF assms(1,2), of c] by (simp add: rr_pick_def)
qed

lemma rr_fair:
  assumes "distinct bs" and "b \<in> set bs" and "\<forall>b \<in> set bs. 100 \<le> percent w now b"
    and "unat c + length bs \<le> 2 ^ 64" and "length bs < 2 ^ 64"
  shows "card {i. i < length bs \<and> fst (rr_pick w now [] bs (c + of_nat i)) = Some b} = 1"
proof -
  have ne: "bs \<noteq> []" using assms(2) by auto
  have "fst (rr_pick w now [] bs (c + of_nat i)) = Some (bs ! ((unat c + i) mod length bs))"
    if "i < length bs" for i
    using rr_pick_full [OF ne assms(5,3)] unat_add_small [of c i] that assms(4) by simp
  then have "{i. i < length bs \<and> fst (rr_pick w now [] bs (c + of_nat i)) = Some b} =
      {i. i < length bs \<and> bs ! ((unat c + i) mod length bs) = b}" by auto
  moreover obtain k where k: "k < length bs" "bs ! k = b" using assms(2) by (auto simp: in_set_conv_nth)
  then have "{p. p < length bs \<and> bs ! p = b} = {k}"
    using assms(1) by (auto simp: nth_eq_iff_index_eq)
  ultimately show ?thesis
    using card_rotation [of "length bs" "\<lambda>p. bs ! p = b" "unat c"] by simp
qed

text \<open>The best of a list by a measure: the first of the least.\<close>

lemma scan_best_candidates:
  "scan_best w excluded better cs selected = scan_best w [] better (candidates w excluded cs) selected"
  by (induction cs arbitrary: selected) (auto simp: candidates_def)

definition better_of :: "(addr \<Rightarrow> 'b :: linorder) \<Rightarrow> addr \<Rightarrow> addr \<Rightarrow> addr" where
  "better_of f s c = (if f c < f s then c else s)"

lemma better_of_simps [simp]:
  "f c < f s \<Longrightarrow> better_of f s c = c" "\<not> f c < f s \<Longrightarrow> better_of f s c = s"
  by (simp_all add: better_of_def)

lemma scan_best_foldl:
  "scan_best w [] (\<lambda>c s. f c < f s) cs (Some s) = Some (foldl (better_of f) s cs)"
  by (induction cs arbitrary: s) (auto simp: better_of_def)

lemma scan_best_None_foldl:
  "scan_best w [] (\<lambda>c s. f c < f s) cs None = (case cs of [] \<Rightarrow> None | s # cs \<Rightarrow> Some (foldl (better_of f) s cs))"
  by (cases cs) (simp_all add: scan_best_foldl)

lemma foldl_better_in: "foldl (better_of f) s cs \<in> set (s # cs)"
proof (induction cs arbitrary: s)
  case Nil
  then show ?case by simp
next
  case (Cons c cs)
  from Cons [of "better_of f s c"] show ?case by (auto simp: better_of_def split: if_splits)
qed

lemma foldl_better_split:
  "\<exists>us vs. s # cs = us @ foldl (better_of f) s cs # vs
    \<and> (\<forall>u \<in> set us. f (foldl (better_of f) s cs) < f u) \<and> (\<forall>v \<in> set vs. f (foldl (better_of f) s cs) \<le> f v)"
proof (induction cs rule: rev_induct)
  case Nil
  then show ?case by (intro exI [of _ "[]"]) simp
next
  case (snoc c cs)
  let ?b = "foldl (better_of f) s cs"
  from snoc obtain us vs where h: "s # cs = us @ ?b # vs" "\<forall>u \<in> set us. f ?b < f u" "\<forall>v \<in> set vs. f ?b \<le> f v"
    by blast
  show ?case
  proof (cases "f c < f ?b")
    case True
    have "\<forall>x \<in> set (s # cs). f c < f x" using h True unfolding h(1) by (auto intro: less_trans less_le_trans)
    with True show ?thesis
      by - (rule exI [of _ "s # cs"], rule exI [of _ "[]"], simp)
  next
    case False
    with h show ?thesis
      by - (rule exI [of _ us], rule exI [of _ "vs @ [c]"], auto)
  qed
qed

lemma foldl_better_eqI:
  assumes "s # cs = us @ b # vs" and "\<forall>u \<in> set us. f b < f u" and "\<forall>v \<in> set vs. f b \<le> f v"
  shows "foldl (better_of f) s cs = b"
proof -
  have stay: "foldl (better_of f) b vs = b"
    using assms(3) by (induction vs) (auto simp: not_less)
  show ?thesis
  proof (cases us)
    case Nil
    with assms stay show ?thesis by simp
  next
    case (Cons u us')
    then have "f b < f (foldl (better_of f) s us')"
      using assms(1,2) foldl_better_in [of f u us'] by auto
    with assms(1) Cons stay show ?thesis by simp
  qed
qed

text \<open>The chosen one is least, and stays chosen when others are excluded.\<close>

lemma scan_best_least:
  fixes f :: "addr \<Rightarrow> 'b :: linorder"
  assumes "scan_best w excluded (\<lambda>c s. f c < f s) cs None = Some b" and "c \<in> set (candidates w excluded cs)"
  shows "f b \<le> f c"
proof -
  obtain x xs where x: "candidates w excluded cs = x # xs" using assms(2) by (cases "candidates w excluded cs") auto
  from assms(1) have b: "b = foldl (better_of f) x xs"
    by (simp add: scan_best_candidates [of w excluded] scan_best_None_foldl scan_best_foldl x)
  from foldl_better_split [of x xs f] obtain us vs where
    "x # xs = us @ b # vs" "\<forall>u \<in> set us. f b < f u" "\<forall>v \<in> set vs. f b \<le> f v" unfolding b by blast
  with assms(2) x show ?thesis by (auto simp: less_imp_le)
qed

lemma scan_best_stable:
  fixes f :: "addr \<Rightarrow> 'b :: linorder"
  assumes "scan_best w excluded (\<lambda>c s. f c < f s) cs None = Some b"
    and "set excluded \<subseteq> set excluded'" and "bid w b \<notin> set excluded'"
  shows "scan_best w excluded' (\<lambda>c s. f c < f s) cs None = Some b"
proof -
  obtain x xs where x: "candidates w excluded cs = x # xs"
    using assms(1) by (cases "candidates w excluded cs") (auto simp: scan_best_candidates [of w excluded])
  from assms(1) have b: "b = foldl (better_of f) x xs"
    by (simp add: scan_best_candidates [of w excluded] scan_best_None_foldl scan_best_foldl x)
  from foldl_better_split [of x xs f] obtain us vs where
    s: "x # xs = us @ b # vs" "\<forall>u \<in> set us. f b < f u" "\<forall>v \<in> set vs. f b \<le> f v" unfolding b by blast
  let ?keep = "filter (\<lambda>b. bid w b \<notin> set excluded')"
  have "candidates w excluded' cs = ?keep (candidates w excluded cs)"
    using assms(2) by (auto simp: candidates_def intro!: filter_cong)
  also have "\<dots> = ?keep us @ b # ?keep vs" using assms(3) by (simp add: x s)
  finally have c: "candidates w excluded' cs = ?keep us @ b # ?keep vs" .
  then obtain y ys where y: "candidates w excluded' cs = y # ys" by (metis list.exhaust append_is_Nil_conv list.distinct(1))
  have "foldl (better_of f) y ys = b"
    by (rule foldl_better_eqI [of y ys "?keep us" b "?keep vs"]) (use c y s in auto)
  then show ?thesis by (simp add: scan_best_candidates [of w excluded'] scan_best_None_foldl scan_best_foldl y)
qed

definition load :: "world \<Rightarrow> instant \<Rightarrow> addr \<Rightarrow> rat" where
  "load w now b = of_int (s_inflight (state_of w b) + 1) / of_int (effectiveWeight w now b)"

lemma lessLoaded_load: "lessLoaded w now l r \<longleftrightarrow> load w now l < load w now r"
proof -
  have "0 < rat_of_int (effectiveWeight w now l)" "0 < rat_of_int (effectiveWeight w now r)"
    using effectiveWeight_pos [of w now l] effectiveWeight_pos [of w now r] by simp_all
  then show ?thesis
    by (simp add: load_def lessLoaded_def divide_less_eq pos_less_divide_eq frac_less_eq mult.commute)
      (simp flip: of_int_mult of_int_add add: algebra_simps)
qed

lemma lr_least:
  assumes "length bs < 2 ^ 64" and "fst (lr_pick w now excluded bs c) = Some b"
    and "d \<in> set (candidates w excluded bs)"
  shows "load w now b \<le> load w now d"
proof -
  let ?r = "rotation bs (unat (c mod of_nat (length bs)))"
  have "bs \<noteq> []" using assms(3) by (auto simp: candidates_def)
  with assms(2) have "scan_best w excluded (\<lambda>c s. load w now c < load w now s) ?r None = Some b"
    by (simp add: lr_pick_def rotation_def Let_def lessLoaded_load [abs_def])
  moreover have "d \<in> set (candidates w excluded ?r)" using assms(3) by (simp add: set_candidates set_rotation)
  ultimately show ?thesis by (rule scan_best_least)
qed

section \<open>Any strategy over a pool\<close>

fun strategy_fits :: "'r Strategy \<Rightarrow> world \<Rightarrow> instant \<Rightarrow> go_string list \<Rightarrow> addr list \<Rightarrow> bool" where
  "strategy_fits (RoundRobinStrategy c) w now excluded bs = (unat c + length bs \<le> 2 ^ 64)"
| "strategy_fits (WeightedRoundRobinStrategy c) w now excluded bs = (wrr_total w now excluded bs < 2 ^ 64)"
| "strategy_fits (LeastRequestStrategy c) w now excluded bs = True"
| "strategy_fits (RendezvousStrategy k) w now excluded bs = True"

interpretation any_strategy: peer_selector
  "\<lambda>(s, key) w now excluded bs. fst (pick s w now excluded bs key)"
  "\<lambda>(s, key) w now excluded bs. strategy_fits s w now excluded bs"
proof unfold_locales
  fix s :: "'a Strategy \<times> go_string" and w now excluded b and bs :: "addr list"
  assume "length bs < 2 ^ 64" and "(case s of (s, key) \<Rightarrow> \<lambda>w now excluded bs. fst (pick s w now excluded bs key)) w now excluded bs = Some b"
  then show "b \<in> set (candidates w excluded bs)"
    using round_robin.sound weighted_round_robin.sound least_request.sound rendezvous.sound
    by (cases s; cases "fst s") (auto simp: split_def)
next
  fix s :: "'a Strategy \<times> go_string" and w now excluded and bs :: "addr list"
  assume "length bs < 2 ^ 64" "(case s of (s, key) \<Rightarrow> strategy_fits s) w now excluded bs"
    "candidates w excluded bs \<noteq> []"
  then show "(case s of (s, key) \<Rightarrow> \<lambda>w now excluded bs. fst (pick s w now excluded bs key)) w now excluded bs \<noteq> None"
    using round_robin.complete weighted_round_robin.complete least_request.complete rendezvous.complete
    by (cases s; cases "fst s") (auto simp: split_def)
qed

lemma GetNextPeerExcluding_ok:
  assumes inv: "world_inv w" and room: "version_room (length (p_all (w_pools w p)) + n) w"
    and small: "length (p_all (w_pools w p)) < 2 ^ 64"
    and r: "GetNextPeerExcluding s p excluded now w = (Some b, s', w')"
  shows "b \<in> set (p_all (w_pools w p)) \<and> IsAlive (state_of w' b) now \<and> bid w b \<notin> set excluded \<and> world_inv w'"
proof -
  obtain bs where a: "AvailableBackends p now w = (bs, w')"
    and pk: "fst (pick s w' now excluded bs []) = Some b"
    using r by (auto simp: GetNextPeerExcluding_def Let_def split: prod.splits)
  note av = AvailableBackends_ok [OF inv room a]
  have "length bs < 2 ^ 64" using small unfolding av(2) by (meson le_less_trans length_filter_le)
  from any_strategy.chosen_offered [OF this, of "(s, [])" w' now excluded b] pk
  have "b \<in> set bs \<and> bid w' b \<notin> set excluded" by simp
  with av(1,2,6) show ?thesis by auto
qed

section \<open>Properties\<close>

text \<open>Whatever the strategy, the backend it returns belongs to the pool, is live and is not
  excluded.\<close>

theorem strategy_selects_live:
  assumes "world_inv w" and "version_room (length (p_all (w_pools w p))) w"
    and "length (p_all (w_pools w p)) < 2 ^ 64"
    and "GetNextPeerExcluding s p excluded now w = (Some b, s', w')"
  shows "b \<in> set (p_all (w_pools w p)) \<and> IsAlive (state_of w' b) now \<and> bid w b \<notin> set excluded"
  using GetNextPeerExcluding_ok [of w p 0 s excluded now b s' w'] assms by simp

definition alive_demo :: world where
  "alive_demo = run_op (OpSetAlive 1 True) 5 demo_world"

lemma alive_demo_available: "fst (AvailableBackends 0 9 alive_demo) = [1]"
  by (simp add: alive_demo_def SetAlive_def setAliveLocked_def demo_world_def NewBackendPool_def
      demo_specs_def Let_def spec_error_def new_state_def simple_parse_def simple_url_def HasPrefix_def
      empty_world_def refreshAvailable_def attach_pool_def set_state_def set_pool_def IsAlive_def
      IsEjected_def AvailableBackends_def refreshAvailability_def invalidateLocked_def invalidate_pool_def)

theorem strategy_selects_live_witness:
  "\<exists>b s' w'. GetNextPeerExcluding (LeastRequestStrategy 7 :: unit Strategy) 0 [] 9 alive_demo = (Some b, s', w')
     \<and> IsAlive (state_of w' b) 9"
proof -
  let ?s = "LeastRequestStrategy 7 :: unit Strategy"
  obtain w' where a: "AvailableBackends 0 9 alive_demo = ([1], w')"
    using alive_demo_available by (metis prod.collapse)
  have "fst (lr_pick w' 9 [] [1] 7) \<noteq> None"
    using least_request.complete [of "[1]" w' "[]" 9 7] by (simp add: candidates_def)
  with a obtain b s' where r: "GetNextPeerExcluding ?s 0 [] 9 alive_demo = (Some b, s', w')"
    by (cases "lr_pick w' 9 [] [1] 7") (auto simp: GetNextPeerExcluding_def)
  have "length (p_all (w_pools alive_demo 0)) < 2 ^ 64" unfolding alive_demo_def demo_run_all by simp
  from strategy_selects_live [OF _ _ this r] r show ?thesis
    using demo_run unfolding alive_demo_def by blast
qed

text \<open>Whatever the strategy, it finds a backend if there is one that is not excluded, provided
  that the round robin's counter does not wrap within the scan and the weights' sum fits 64
  bits.\<close>

theorem strategy_finds_candidate:
  assumes "length bs < 2 ^ 64" and "strategy_fits s w now excluded bs"
  shows "fst (pick s w now excluded bs key) = None \<longleftrightarrow> (\<forall>b \<in> set bs. bid w b \<in> set excluded)"
  using any_strategy.none_iff [OF assms(1), of "(s, key)" w now excluded] assms(2)
  by (simp add: candidates_def filter_empty_conv)

theorem strategy_finds_candidate_witness:
  "fst (pick (RoundRobinStrategy 5 :: unit Strategy) demo_world 9 [] [1, 2] []) \<noteq> None"
  using strategy_finds_candidate [of "[1, 2]" "RoundRobinStrategy 5" demo_world 9 "[]" "[]"]
  by (auto simp del: pick.simps)



text \<open>With every backend fully ramped up, \<open>n\<close> consecutive choices of the round robin over
  \<open>n\<close> backends choose each exactly once.\<close>

theorem round_robin_fair:
  assumes "distinct bs" and "b \<in> set bs" and "\<forall>b \<in> set bs. 100 \<le> percent w now b"
    and "unat c + length bs \<le> 2 ^ 64" and "length bs < 2 ^ 64"
  shows "card {i. i < length bs \<and> fst (rr_pick w now [] bs (c + of_nat i)) = Some b} = 1"
  using assms by (rule rr_fair)

definition ramped_world :: world where
  "ramped_world = empty_world\<lparr>w_backends := (\<lambda>a. \<lparr>b_state = a, b_id = replicate a CHR ''x'',
     b_URL = simple_url [], b_weight = 1, b_pool = Some 0\<rparr>)\<rparr>"

lemma ramped_percent: "percent ramped_world now b = 100"
  by (simp add: percent_def SlowStartPercent_def ramped_world_def empty_world_def slowStartPercent_def
      default_policy_def)

theorem round_robin_fair_witness:
  "card {i. i < 3 \<and> fst (rr_pick ramped_world 0 [] [0, 1, 2] (7 + of_nat i)) = Some 1} = 1"
  using round_robin_fair [of "[0, 1, 2]" 1 ramped_world 0 7] by (simp add: ramped_percent numeral_3_eq_3)

text \<open>When its counter wraps, a round-robin scan visits some index twice and misses another:
  with three backends and two of them excluded it can return nothing although the third is
  available.\<close>

theorem round_robin_wrap_misses:
  "fst (rr_pick ramped_world 0 [bid ramped_world 0, bid ramped_world 1] [0, 1, 2] (- 1)) = None
   \<and> bid ramped_world 2 \<notin> set [bid ramped_world 0, bid ramped_world 1]"
proof -
  let ?e = "[bid ramped_world 0, bid ramped_world 1]"
  have m: "(- 1 :: uint64) mod 3 = 0" "(0 :: uint64) mod 3 = 0" "(1 :: uint64) mod 3 = 1" by simp_all
  have "rr_scan ramped_world 0 ?e [0, 1, 2] (Suc (Suc (Suc 0))) (- 1) None = None"
    by (simp only: rr_scan.simps list.size of_nat_numeral) (simp add: m)
  then show ?thesis by (simp add: rr_pick_def ramped_world_def numeral_2_eq_2)
qed

text \<open>The least-request strategy chooses a backend with the least load, in-flight requests
  plus one per unit of effective weight, among those not excluded.\<close>

theorem least_request_optimal:
  assumes "length bs < 2 ^ 64" and "fst (lr_pick w now excluded bs c) = Some b"
    and "d \<in> set bs" and "bid w d \<notin> set excluded"
  shows "(s_inflight (state_of w b) + 1) * effectiveWeight w now d
    \<le> (s_inflight (state_of w d) + 1) * effectiveWeight w now b"
  using lr_least [OF assms(1,2), of d] assms(3,4) lessLoaded_load [of w now d b]
  by (simp add: set_candidates lessLoaded_def)

theorem least_request_optimal_witness:
  "\<exists>b. fst (lr_pick ramped_world 0 [] [0, 1, 2] 1) = Some b
     \<and> (s_inflight (state_of ramped_world b) + 1) * effectiveWeight ramped_world 0 2
       \<le> (s_inflight (state_of ramped_world 2) + 1) * effectiveWeight ramped_world 0 b"
proof -
  have "fst (lr_pick ramped_world 0 [] [0, 1, 2] 1) \<noteq> None"
    using least_request.complete [of "[0, 1, 2]" ramped_world "[]" 0 1] by (simp add: candidates_def)
  then obtain b where b: "fst (lr_pick ramped_world 0 [] [0, 1, 2] 1) = Some b" by auto
  from least_request_optimal [OF _ b, of 2] b show ?thesis by simp
qed

text \<open>Rendezvous hashing is stable: excluding other backends, as a retry does, leaves a key
  with its backend; only the keys of an excluded backend move.\<close>

theorem rendezvous_stable:
  assumes "selectBackend w now excluded bs key = Some b"
    and "set excluded \<subseteq> set excluded'" and "bid w b \<notin> set excluded'"
  shows "selectBackend w now excluded' bs key = Some b"
  using scan_best_stable [OF _ assms(2,3), of "score w now key" bs] assms(1)
  by (simp add: selectBackend_def)

theorem rendezvous_stable_witness:
  "selectBackend ramped_world 0 [bid ramped_world 1] [2] ''user'' = Some 2"
  by (rule rendezvous_stable [of _ _ "[]"]) (simp_all add: selectBackend_def ramped_world_def numeral_2_eq_2)

end
