(* ===== verification/Retry_Budget.thy ===== *)
theory Retry_Budget
  imports Token_Bucket
begin

text \<open>
  The retry budget of a cluster (\<open>internal/balancer/retry_budget.go\<close>): \<open>newRetryBudget\<close>,
  \<open>Update\<close>, \<open>Allow\<close>, \<open>Snapshot\<close> and \<open>refillLocked\<close>. The mutex makes each operation
  one atomic step. The zero \<open>updatedAt\<close> of a budget that was never updated is \<open>None\<close>.
\<close>

record RetryBudget =
  rb_capacity :: int
  rb_refillPerSecond :: rat
  rb_tokens :: rat
  rb_updatedAt :: "instant option"

record RetryBudgetSnapshot =
  rbs_Capacity :: int
  rbs_Tokens :: rat
  rbs_RefillPerSecond :: rat

definition refillLocked :: "RetryBudget \<Rightarrow> instant \<Rightarrow> RetryBudget" where
  "refillLocked budget now =
     (case rb_updatedAt budget of
        None \<Rightarrow> budget\<lparr>rb_updatedAt := Some now\<rparr>
      | Some t \<Rightarrow>
          (let tokens = rb_tokens budget + seconds (now - t) * rb_refillPerSecond budget;
               tokens = (if tokens > of_int (rb_capacity budget) then of_int (rb_capacity budget)
                         else tokens)
           in budget\<lparr>rb_tokens := tokens, rb_updatedAt := Some now\<rparr>))"

definition RetryBudget_Update :: "RetryBudget \<Rightarrow> int \<Rightarrow> rat \<Rightarrow> instant \<Rightarrow> RetryBudget" where
  "RetryBudget_Update budget capacity refillPerSecond now =
     (let capacity = (if capacity < 1 then 1 else capacity);
          refillPerSecond = (if refillPerSecond \<le> 0 then 1 else refillPerSecond);
          uninitialized = (rb_updatedAt budget = None);
          budget = (if uninitialized then budget else refillLocked budget now);
          budget = budget\<lparr>rb_capacity := capacity, rb_refillPerSecond := refillPerSecond\<rparr>;
          budget = (if uninitialized \<or> rb_tokens budget > of_int capacity
                    then budget\<lparr>rb_tokens := of_int capacity\<rparr> else budget)
      in budget\<lparr>rb_updatedAt := Some now\<rparr>)"

definition newRetryBudget :: "int \<Rightarrow> rat \<Rightarrow> instant \<Rightarrow> RetryBudget" where
  "newRetryBudget capacity refillPerSecond now =
     RetryBudget_Update
       \<lparr>rb_capacity = 0, rb_refillPerSecond = 0, rb_tokens = 0, rb_updatedAt = None\<rparr>
       capacity refillPerSecond now"

definition RetryBudget_Allow :: "RetryBudget \<Rightarrow> instant \<Rightarrow> bool \<times> RetryBudget" where
  "RetryBudget_Allow budget now =
     (let budget = refillLocked budget now
      in if rb_tokens budget < 1 then (False, budget)
         else (True, budget\<lparr>rb_tokens := rb_tokens budget - 1\<rparr>))"

definition RetryBudget_Snapshot :: "RetryBudget \<Rightarrow> instant \<Rightarrow> RetryBudgetSnapshot \<times> RetryBudget" where
  "RetryBudget_Snapshot budget now =
     (let budget = refillLocked budget now
      in (\<lparr>rbs_Capacity = rb_capacity budget, rbs_Tokens = rb_tokens budget,
           rbs_RefillPerSecond = rb_refillPerSecond budget\<rparr>, budget))"

text \<open>A budget in use: initialised, positive parameters, level within the capacity.\<close>

definition RetryBudget_inv :: "RetryBudget \<Rightarrow> bool" where
  "RetryBudget_inv b \<longleftrightarrow> rb_updatedAt b \<noteq> None \<and> 1 \<le> rb_capacity b \<and> 0 < rb_refillPerSecond b
     \<and> 0 \<le> rb_tokens b \<and> rb_tokens b \<le> of_int (rb_capacity b)"

definition rb_clock :: "RetryBudget \<Rightarrow> instant" where
  "rb_clock b = (case rb_updatedAt b of None \<Rightarrow> 0 | Some t \<Rightarrow> t)"

lemma refillLocked_frame [simp, frame]:
  "rb_capacity (refillLocked b now) = rb_capacity b"
  "rb_refillPerSecond (refillLocked b now) = rb_refillPerSecond b"
  "rb_updatedAt (refillLocked b now) = Some now"
  by (auto simp: refillLocked_def Let_def split: option.splits)

lemma refillLocked_tokens:
  "rb_updatedAt b = Some t \<Longrightarrow>
   rb_tokens (refillLocked b now) =
     refilled (of_int (rb_capacity b)) (rb_refillPerSecond b) (rb_tokens b) (now - t)"
  by (auto simp: refillLocked_def refilled_def Let_def)

lemma refillLocked_inv [inv_intros]:
  "RetryBudget_inv b \<Longrightarrow> rb_clock b \<le> now \<Longrightarrow> RetryBudget_inv (refillLocked b now)"
  by (auto simp: RetryBudget_inv_def rb_clock_def refillLocked_tokens
      intro!: refilled_nonneg refilled_le_cap)

lemma RetryBudget_Update_inv [inv_intros]:
  assumes "rb_updatedAt b \<noteq> None \<longrightarrow> RetryBudget_inv b \<and> rb_clock b \<le> now"
  shows "RetryBudget_inv (RetryBudget_Update b capacity refill now)"
proof (cases "rb_updatedAt b")
  case None
  then show ?thesis by (simp add: RetryBudget_Update_def RetryBudget_inv_def Let_def)
next
  case (Some t)
  with assms have "RetryBudget_inv (refillLocked b now)" by (auto intro: refillLocked_inv)
  with Some show ?thesis by (simp add: RetryBudget_Update_def RetryBudget_inv_def Let_def)
qed

lemma newRetryBudget_inv [inv_intros]: "RetryBudget_inv (newRetryBudget capacity refill now)"
  unfolding newRetryBudget_def by (rule RetryBudget_Update_inv) simp

lemma RetryBudget_Allow_inv [inv_intros]:
  "RetryBudget_inv b \<Longrightarrow> rb_clock b \<le> now \<Longrightarrow> RetryBudget_inv (snd (RetryBudget_Allow b now))"
  using refillLocked_inv [of b now]
  by (auto simp: RetryBudget_Allow_def RetryBudget_inv_def Let_def)

interpretation retry_bucket: token_bucket RetryBudget_Allow rb_tokens rb_clock
  "\<lambda>b. of_int (rb_capacity b)" rb_refillPerSecond RetryBudget_inv
proof unfold_locales
  fix s now
  assume i: "RetryBudget_inv s" and le: "rb_clock s \<le> now"
  then obtain t where t: "rb_updatedAt s = Some t" "rb_clock s = t"
    by (auto simp: RetryBudget_inv_def rb_clock_def)
  show "(fst (RetryBudget_Allow s now), rb_tokens (snd (RetryBudget_Allow s now))) =
        taken (refilled (of_int (rb_capacity s)) (rb_refillPerSecond s) (rb_tokens s)
          (now - rb_clock s))"
    using refillLocked_tokens [OF t(1), of now] t(2)
    by (simp add: RetryBudget_Allow_def taken_def Let_def)
  show "rb_clock (snd (RetryBudget_Allow s now)) = now"
    by (simp add: RetryBudget_Allow_def rb_clock_def Let_def)
  show "of_int (rb_capacity (snd (RetryBudget_Allow s now))) = of_int (rb_capacity s)"
    "rb_refillPerSecond (snd (RetryBudget_Allow s now)) = rb_refillPerSecond s"
    by (simp_all add: RetryBudget_Allow_def Let_def)
  show "RetryBudget_inv (snd (RetryBudget_Allow s now))"
    using i le by (rule RetryBudget_Allow_inv)
next
  fix s assume "RetryBudget_inv s"
  then show "0 \<le> rb_tokens s \<and> rb_tokens s \<le> of_int (rb_capacity s) \<and> 0 \<le> rb_refillPerSecond s"
    by (simp add: RetryBudget_inv_def)
qed

section \<open>Properties\<close>

text \<open>Over any sequence of retries, the budget grants at most its capacity plus what its
  refill rate yields, and its state stays within bounds.\<close>

theorem retry_budget_bound:
  assumes "RetryBudget_inv b" and "chronological (rb_clock b) ts"
  shows "of_nat (fst (run_draws RetryBudget_Allow b ts))
      \<le> of_int (rb_capacity b) + rb_refillPerSecond b * seconds (last (rb_clock b # ts) - rb_clock b)
    \<and> RetryBudget_inv (snd (run_draws RetryBudget_Allow b ts))"
  using retry_bucket.admitted_at_most [OF assms] retry_bucket.run_draws_bound [OF assms] by blast

theorem retry_budget_bound_witness:
  "of_nat (fst (run_draws RetryBudget_Allow (newRetryBudget 2 1 0) [0, 0, 0])) \<le> (2 :: rat)
   \<and> fst (run_draws RetryBudget_Allow (newRetryBudget 2 1 0) [0, 0, 0]) = 2"
  using retry_budget_bound [of "newRetryBudget 2 1 0" "[0, 0, 0]"]
  by (simp add: newRetryBudget_def RetryBudget_Update_def RetryBudget_inv_def rb_clock_def
      RetryBudget_Allow_def refillLocked_def Let_def)

end
