(* ===== verification/Proxy.thy ===== *)
theory Proxy
  imports Strategy Retry_Budget
begin

text \<open>
  The proxy of one cluster: the retrying transport (\<open>internal/balancer/retry.go\<close>), the load
  balancer around it (\<open>balancer.go\<close>), the per-request options and the path join
  (\<open>request_options.go\<close>, \<open>url.go\<close>, \<open>joinPath\<close>). What the base transport answers to an attempt is
  a parameter, \<open>base\<close>; so is \<open>EscapedPath\<close> of \<open>net/url\<close>. A response holds a slot of its backend
  until its body is closed.
\<close>

section \<open>Data\<close>

record RetryPolicy =
  rp_MaxAttempts :: int
  rp_PerTryTimeout :: duration
  rp_BodyLimit :: int
  rp_Methods :: "go_string list"
  rp_Statuses :: "int list"
  rp_BudgetCapacity :: int
  rp_BudgetRefillPerSecond :: rat

record upstreamHostPolicy =
  uh_preserve :: bool
  uh_rewrite :: go_string

datatype proxy_error = ErrNoBackend | ErrAttemptTimeout | ErrBody go_string | ErrTransport go_string

text \<open>A request with the values its context carries; a nil or empty body is \<open>None\<close>, and
  \<open>rq_GetBody\<close> is what a call of \<open>GetBody\<close> gives, if the request has one. \<open>rq_maxBody\<close> is the
  limit of a \<open>MaxBytesReader\<close> around the body and \<open>rq_timeout\<close> the timeout its context was given,
  0 for none.\<close>

record request =
  rq_Method :: go_string
  rq_URL :: url
  rq_Host :: go_string
  rq_RequestURI :: go_string
  rq_Header :: http_header
  rq_Body :: "go_string option"
  rq_GetBody :: "(go_string + go_string) option"
  rq_ContentLength :: int
  rq_TLS :: bool
  rq_retryPolicy :: "RetryPolicy option"
  rq_upstreamHost :: "upstreamHostPolicy option"
  rq_clientIP :: go_string
  rq_forwardedProto :: go_string
  rq_TransferEncoding :: "go_string list"
  rq_listener :: go_string
  rq_diagnostics :: bool
  rq_maxBody :: "int option"
  rq_timeout :: duration

record response =
  rs_StatusCode :: int
  rs_Header :: http_header
  rs_backend :: addr
  rs_released :: bool

text \<open>The outcome of one attempt: the answer or error of the base transport, whether the attempt
  timer fired, whether the request's context is done, and the time.\<close>

record outcome =
  ao_response :: "(int \<times> http_header) option"
  ao_error :: "go_string option"
  ao_timedOut :: bool
  ao_contextDone :: bool
  ao_time :: instant

datatype proxy_event =
    AttemptEvent go_string int "proxy_error option" bool
  | ProtectionEvent go_string go_string

record retryTransport =
  rt_pool :: addr
  rt_strategy :: "request Strategy"
  rt_policy :: "RetryPolicy option"
  rt_budget :: "RetryBudget option"
  rt_events :: "proxy_event list"

definition WithRetryPolicy :: "request \<Rightarrow> RetryPolicy \<Rightarrow> request" where
  "WithRetryPolicy r policy = r\<lparr>rq_retryPolicy := Some policy\<rparr>"

definition WithUpstreamHost :: "request \<Rightarrow> bool \<Rightarrow> go_string \<Rightarrow> request" where
  "WithUpstreamHost r preserve rewrite =
     r\<lparr>rq_upstreamHost := Some \<lparr>uh_preserve = preserve, uh_rewrite = rewrite\<rparr>\<rparr>"

definition requestRetryPolicy :: "request \<Rightarrow> RetryPolicy \<Rightarrow> RetryPolicy" where
  "requestRetryPolicy r fallback = (case rq_retryPolicy r of None \<Rightarrow> fallback | Some p \<Rightarrow> p)"

section \<open>Policies\<close>

definition allowsMethod :: "RetryPolicy \<Rightarrow> go_string \<Rightarrow> bool" where
  "allowsMethod policy method = list_ex (\<lambda>allowed. EqualFold allowed method) (rp_Methods policy)"

definition retriesStatus :: "RetryPolicy \<Rightarrow> int \<Rightarrow> bool" where
  "retriesStatus policy status = list_ex (\<lambda>s. s = status) (rp_Statuses policy)"

definition UpdatePolicy :: "retryTransport \<Rightarrow> RetryPolicy \<Rightarrow> instant \<Rightarrow> retryTransport" where
  "UpdatePolicy t policy now =
     (let policy = (if rp_MaxAttempts policy < 1 then policy\<lparr>rp_MaxAttempts := 1\<rparr> else policy);
          policy = (if rp_BudgetCapacity policy < 1 then policy\<lparr>rp_BudgetCapacity := 1\<rparr> else policy);
          policy = (if rp_BudgetRefillPerSecond policy \<le> 0
                    then policy\<lparr>rp_BudgetRefillPerSecond := 1\<rparr> else policy);
          budget = (case rt_budget t of
              None \<Rightarrow> newRetryBudget (rp_BudgetCapacity policy) (rp_BudgetRefillPerSecond policy) now
            | Some b \<Rightarrow> RetryBudget_Update b (rp_BudgetCapacity policy) (rp_BudgetRefillPerSecond policy) now)
      in t\<lparr>rt_budget := Some budget, rt_policy := Some policy\<rparr>)"

definition zero_RetryPolicy :: RetryPolicy where
  "zero_RetryPolicy = \<lparr>rp_MaxAttempts = 0, rp_PerTryTimeout = 0, rp_BodyLimit = 0, rp_Methods = [],
     rp_Statuses = [], rp_BudgetCapacity = 0, rp_BudgetRefillPerSecond = 0\<rparr>"

definition transport_Policy :: "retryTransport \<Rightarrow> RetryPolicy" where
  "transport_Policy t =
     (case rt_policy t of None \<Rightarrow> zero_RetryPolicy\<lparr>rp_MaxAttempts := 1\<rparr> | Some p \<Rightarrow> p)"

section \<open>Requests and responses of an attempt\<close>

definition joinPath :: "go_string \<Rightarrow> go_string \<Rightarrow> go_string" where
  "joinPath base requestPath =
     (let baseSlash = (base \<noteq> [] \<and> last base = CHR ''/'');
          requestSlash = (requestPath \<noteq> [] \<and> hd requestPath = CHR ''/'')
      in if baseSlash \<and> requestSlash then base @ tl requestPath
         else if \<not> baseSlash \<and> \<not> requestSlash then base @ ''/'' @ requestPath
         else base @ requestPath)"

definition joinURLPath :: "(url \<Rightarrow> go_string) \<Rightarrow> url \<Rightarrow> url \<Rightarrow> go_string \<times> go_string" where
  "joinURLPath EscapedPath baseURL requestURL =
     (if u_RawPath baseURL = [] \<and> u_RawPath requestURL = []
      then (joinPath (u_Path baseURL) (u_Path requestURL), [])
      else (joinPath (u_Path baseURL) (u_Path requestURL),
            joinPath (EscapedPath baseURL) (EscapedPath requestURL)))"

definition cloneForAttempt ::
    "(url \<Rightarrow> go_string) \<Rightarrow> request \<Rightarrow> Backend \<Rightarrow> nat \<Rightarrow> go_string + request" where
  "cloneForAttempt EscapedPath request backend attempt =
     (case (if attempt > 1 then rq_GetBody request else None) of
        Some (Inl err) \<Rightarrow> Inl err
      | newBody \<Rightarrow>
          (let bu = b_URL backend; ru = rq_URL request;
               (path, rawPath) = joinURLPath EscapedPath bu ru;
               out = request\<lparr>rq_Body := (case newBody of Some (Inr body) \<Rightarrow> Some body | _ \<Rightarrow> rq_Body request),
                 rq_URL := ru\<lparr>u_Scheme := u_Scheme bu, u_Host := u_Host bu, u_Path := path,
                   u_RawPath := rawPath,
                   u_RawQuery := (if u_RawQuery bu = [] \<or> u_RawQuery ru = []
                                  then u_RawQuery bu @ u_RawQuery ru
                                  else u_RawQuery bu @ ''&'' @ u_RawQuery ru)\<rparr>,
                 rq_RequestURI := []\<rparr>;
               out = (case rq_upstreamHost request of
                   None \<Rightarrow> out
                 | Some policy \<Rightarrow>
                     if uh_rewrite policy \<noteq> [] then out\<lparr>rq_Host := uh_rewrite policy\<rparr>
                     else if \<not> uh_preserve policy then out\<lparr>rq_Host := u_Host bu\<rparr> else out)
           in Inr (out\<lparr>rq_Header := Header_Set (rq_Header out) ''X-Balancer-Backend-Attempt'' (b_id backend)\<rparr>)))"

text \<open>Deleting the names of a header that satisfy a test, one by one.\<close>

definition del_matching :: "(go_string \<Rightarrow> bool) \<Rightarrow> http_header \<Rightarrow> http_header" where
  "del_matching drop_name h = fold (\<lambda>name h. if drop_name name then Header_Del h name else h) (keys h) h"

definition balancer_header :: "go_string \<Rightarrow> bool" where
  "balancer_header name = HasPrefix (ToLower name) ''x-balancer-''"

definition setAttemptHeaders :: "http_header \<Rightarrow> go_string \<Rightarrow> nat \<Rightarrow> bool \<Rightarrow> http_header" where
  "setAttemptHeaders h backendID attempt budgetRejected =
     (let h = del_matching balancer_header h;
          h = Header_Set h ''X-Balancer-Backend'' backendID;
          h = Header_Set h ''X-Balancer-Attempts'' (Itoa (int attempt))
      in if budgetRejected then Header_Set h ''X-Balancer-Retry-Budget'' ''exhausted'' else h)"

text \<open>\<open>attemptBody.Close\<close>: the first close gives the slot back.\<close>

definition close_body :: "response \<Rightarrow> world \<Rightarrow> response \<times> world" where
  "close_body r w =
     (if rs_released r then (r, w) else (r\<lparr>rs_released := True\<rparr>, Release (rs_backend r) w))"

section \<open>Selecting a backend with a free slot\<close>

definition next_peer ::
    "request \<Rightarrow> go_string list \<Rightarrow> instant \<Rightarrow> retryTransport \<Rightarrow> world \<Rightarrow> addr option \<times> retryTransport \<times> world" where
  "next_peer request excluded now t w =
     (let (b, s, w) = GetNextPeerExcluding (rt_strategy t) (rt_pool t) excluded now w;
          t = t\<lparr>rt_strategy := s\<rparr>
      in case s of
           RendezvousStrategy key \<Rightarrow>
             (let (b, w) = GetNextPeerForRequest key (rt_pool t) excluded request now w in (b, t, w))
         | _ \<Rightarrow> (b, t, w))"

text \<open>\<open>nextAvailableBackend\<close>, with fuel: each turn that fails excludes one more ID of the pool.\<close>

fun nextAvailableBackend ::
    "nat \<Rightarrow> request \<Rightarrow> go_string list \<Rightarrow> instant \<Rightarrow> retryTransport \<Rightarrow> world
     \<Rightarrow> (addr option \<times> go_string list \<times> retryTransport \<times> world) option" where
  "nextAvailableBackend 0 request excluded now t w = None"
| "nextAvailableBackend (Suc n) request excluded now t w =
     (let (b, t, w) = next_peer request excluded now t w in
      case b of
        None \<Rightarrow> Some (None, excluded, t, w)
      | Some b \<Rightarrow>
          (let (ok, w) = TryAcquire b now w in
           if ok then Some (Some b, excluded, t, w)
           else nextAvailableBackend n request (bid w b # excluded) now
                  (t\<lparr>rt_events := rt_events t @ [ProtectionEvent ''backend_concurrency_limit'' (bid w b)]\<rparr>) w))"

text \<open>Enough turns for a pool.\<close>

definition pool_fuel :: "retryTransport \<Rightarrow> world \<Rightarrow> nat" where
  "pool_fuel t w = Suc (length (p_all (w_pools w (rt_pool t))))"

section \<open>The retry loop\<close>

record trip =
  tr_response :: "response option"
  tr_error :: "proxy_error option"
  tr_transport :: retryTransport
  tr_world :: world
  tr_attempts :: "addr list"

definition outcome_error :: "outcome \<Rightarrow> proxy_error option" where
  "outcome_error o0 = (if ao_timedOut o0 then Some ErrAttemptTimeout else map_option ErrTransport (ao_error o0))"

definition stamp :: "http_header \<Rightarrow> addr \<Rightarrow> world \<Rightarrow> nat \<Rightarrow> bool \<Rightarrow> http_header" where
  "stamp h b w attempt rejected = setAttemptHeaders h (bid w b) attempt rejected"

text \<open>What an attempt did before its result is judged: the request is counted, and without a
  response the slot is given back.\<close>

definition after_attempt :: "addr \<Rightarrow> outcome \<Rightarrow> world \<Rightarrow> response option \<times> world" where
  "after_attempt b o0 w =
     (let w = RecordRequest b w in
      case ao_response o0 of
        Some (status, h) \<Rightarrow>
          (Some \<lparr>rs_StatusCode = status, rs_Header = h, rs_backend = b, rs_released = False\<rparr>, w)
      | None \<Rightarrow> (None, Release b w))"

definition judge :: "addr \<Rightarrow> addr \<Rightarrow> outcome \<Rightarrow> bool \<Rightarrow> bool \<Rightarrow> world \<Rightarrow> world" where
  "judge p b o0 failed clientAborted w =
     (if failed \<and> \<not> clientAborted then RecordPassiveFailure b (p_policy (w_pools w p)) (ao_time o0) w
      else if \<not> failed then RecordPassiveSuccess b w else w)"

text \<open>\<open>failed\<close> and \<open>clientAborted\<close> of the loop, and what it returns.\<close>

definition attempt_failed :: "RetryPolicy \<Rightarrow> outcome \<Rightarrow> response option \<Rightarrow> bool" where
  "attempt_failed policy o0 resp \<longleftrightarrow> outcome_error o0 \<noteq> None
     \<or> (case resp of None \<Rightarrow> False | Some r \<Rightarrow> retriesStatus policy (rs_StatusCode r))"

definition attempt_aborted :: "outcome \<Rightarrow> bool" where
  "attempt_aborted o0 \<longleftrightarrow> ao_contextDone o0 \<and> \<not> ao_timedOut o0"

definition trip_result ::
    "addr \<Rightarrow> nat \<Rightarrow> outcome \<Rightarrow> response option \<Rightarrow> addr list \<Rightarrow> bool \<Rightarrow> retryTransport \<Rightarrow> world \<Rightarrow> trip" where
  "trip_result b attempt o0 resp tried rejected t w =
     \<lparr>tr_response = map_option (\<lambda>r. r\<lparr>rs_Header := stamp (rs_Header r) b w attempt rejected\<rparr>) resp,
      tr_error = outcome_error o0, tr_transport = t, tr_world = w, tr_attempts = tried\<rparr>"

definition attempt_event :: "addr \<Rightarrow> nat \<Rightarrow> outcome \<Rightarrow> response option \<Rightarrow> world \<Rightarrow> retryTransport \<Rightarrow> retryTransport" where
  "attempt_event b attempt o0 resp w t =
     t\<lparr>rt_events := rt_events t @ [AttemptEvent (bid w b)
        (case resp of None \<Rightarrow> 0 | Some r \<Rightarrow> rs_StatusCode r) (outcome_error o0) (attempt > 1)]\<rparr>"

definition exhausted_event :: "addr \<Rightarrow> world \<Rightarrow> retryTransport \<Rightarrow> retryTransport" where
  "exhausted_event b w t =
     t\<lparr>rt_events := rt_events t @ [ProtectionEvent ''retry_budget_exhausted'' (bid w b)]\<rparr>"

definition close_response :: "response option \<Rightarrow> world \<Rightarrow> world" where
  "close_response resp w = (case resp of None \<Rightarrow> w | Some r \<Rightarrow> snd (close_body r w))"

text \<open>The loop of \<open>RoundTrip\<close>: \<open>n\<close> attempts are left, \<open>attempt\<close> is the number of this one, and
  the slot of \<open>b\<close> is held. \<open>None\<close> is a lack of fuel, or the nil pointer of a missing budget.\<close>

fun attempts ::
    "(url \<Rightarrow> go_string) \<Rightarrow> (nat \<Rightarrow> request \<Rightarrow> outcome) \<Rightarrow> RetryPolicy \<Rightarrow> request \<Rightarrow> nat \<Rightarrow> nat \<Rightarrow> addr
     \<Rightarrow> go_string list \<Rightarrow> retryTransport \<Rightarrow> world \<Rightarrow> addr list \<Rightarrow> trip option" where
  "attempts EscapedPath base policy request 0 attempt b excluded t w tried =
     Some \<lparr>tr_response = None, tr_error = Some ErrNoBackend, tr_transport = t, tr_world = w, tr_attempts = tried\<rparr>"
| "attempts EscapedPath base policy request (Suc n) attempt b excluded t w tried =
     (case cloneForAttempt EscapedPath request (w_backends w b) attempt of
        Inl err \<Rightarrow>
          Some \<lparr>tr_response = None, tr_error = Some (ErrBody err), tr_transport = t,
                tr_world = Release b w, tr_attempts = tried\<rparr>
      | Inr outgoing \<Rightarrow>
          (let o0 = base attempt outgoing;
               (resp, w1) = after_attempt b o0 w;
               failed = attempt_failed policy o0 resp;
               w2 = judge (rt_pool t) b o0 failed (attempt_aborted o0) w1;
               t2 = attempt_event b attempt o0 resp w2 t;
               result = trip_result b attempt o0 resp (tried @ [b])
           in if \<not> failed \<or> n = 0 \<or> attempt_aborted o0 then Some (result False t2 w2)
              else
                (case nextAvailableBackend (pool_fuel t2 w2) request (bid w b # excluded) (ao_time o0) t2 w2 of
                   None \<Rightarrow> None
                 | Some (None, excluded', t3, w3) \<Rightarrow> Some (result False t3 w3)
                 | Some (Some b', excluded', t3, w3) \<Rightarrow>
                     (case rt_budget t3 of
                        None \<Rightarrow> None
                      | Some budget \<Rightarrow>
                          (let (ok, budget') = RetryBudget_Allow budget (ao_time o0);
                               t4 = t3\<lparr>rt_budget := Some budget'\<rparr>
                           in if \<not> ok then Some (result True (exhausted_event b w3 t4) (Release b' w3))
                              else attempts EscapedPath base policy request n (Suc attempt) b' excluded' t4
                                     (close_response resp w3) (tried @ [b]))))))"

definition max_attempts :: "RetryPolicy \<Rightarrow> request \<Rightarrow> int" where
  "max_attempts policy request =
     (if allowsMethod policy (rq_Method request)
         \<and> (rq_Body request = None \<or> rq_GetBody request \<noteq> None)
      then rp_MaxAttempts policy else 1)"

definition RoundTrip ::
    "(url \<Rightarrow> go_string) \<Rightarrow> (nat \<Rightarrow> request \<Rightarrow> outcome) \<Rightarrow> request \<Rightarrow> instant \<Rightarrow> retryTransport \<Rightarrow> world
     \<Rightarrow> trip option" where
  "RoundTrip EscapedPath base request now t w =
     (let policy = requestRetryPolicy request (transport_Policy t) in
      case nextAvailableBackend (pool_fuel t w) request [] now t w of
        None \<Rightarrow> None
      | Some (None, excluded, t, w) \<Rightarrow>
          Some \<lparr>tr_response = None, tr_error = Some ErrNoBackend, tr_transport = t, tr_world = w, tr_attempts = []\<rparr>
      | Some (Some b, excluded, t, w) \<Rightarrow>
          attempts EscapedPath base policy request (nat (max_attempts policy request)) 1 b excluded t w [])"

section \<open>The load balancer\<close>

definition default_RetryPolicy :: RetryPolicy where
  "default_RetryPolicy = \<lparr>rp_MaxAttempts = 1, rp_PerTryTimeout = 10 * second, rp_BodyLimit = 1048576,
     rp_Methods = [''GET'', ''HEAD'', ''OPTIONS''], rp_Statuses = [], rp_BudgetCapacity = 100,
     rp_BudgetRefillPerSecond = 10\<rparr>"

definition NewLoadBalancer :: "addr \<Rightarrow> request Strategy \<Rightarrow> RetryPolicy option \<Rightarrow> instant \<Rightarrow> retryTransport" where
  "NewLoadBalancer p strategy options now =
     (let retry = (case options of None \<Rightarrow> default_RetryPolicy | Some r \<Rightarrow> r)
      in UpdatePolicy
           \<lparr>rt_pool = p, rt_strategy = strategy, rt_policy = None,
            rt_budget = Some (newRetryBudget (rp_BudgetCapacity retry) (rp_BudgetRefillPerSecond retry) now),
            rt_events = []\<rparr> retry now)"

definition unsafe_proxy_header :: "go_string \<Rightarrow> bool" where
  "unsafe_proxy_header name =
     (let lower = ToLower name
      in lower = ''forwarded'' \<or> lower = ''x-real-ip'' \<or> HasPrefix lower ''x-forwarded-''
         \<or> HasPrefix lower ''x-balancer-'')"

definition sanitizeProxyHeaders :: "http_header \<Rightarrow> http_header" where
  "sanitizeProxyHeaders h = del_matching unsafe_proxy_header h"

text \<open>The \<open>Rewrite\<close> hook of the reverse proxy: the headers of the outgoing request.\<close>

definition rewrite_headers :: "request \<Rightarrow> http_header \<Rightarrow> http_header" where
  "rewrite_headers inr h =
     (let h = sanitizeProxyHeaders h;
          h = (if rq_clientIP inr \<noteq> []
               then Header_Set (Header_Set h ''X-Forwarded-For'' (rq_clientIP inr)) ''X-Real-IP'' (rq_clientIP inr)
               else h);
          h = (if rq_Host inr \<noteq> [] then Header_Set h ''X-Forwarded-Host'' (rq_Host inr) else h);
          protocol = (if rq_forwardedProto inr = [] then (if rq_TLS inr then ''https'' else ''http'')
                      else rq_forwardedProto inr);
          h = Header_Set h ''X-Forwarded-Proto'' protocol
      in Header_Set h ''X-Balancer-Proxy'' ''go-load-balancer'')"

text \<open>\<open>prepareReplayableBody\<close>; the body's bytes are those the client sends, and reading them may
  fail. An error of the code is \<open>Inl\<close> with the status that \<open>ServeHTTP\<close> answers.\<close>

definition prepareReplayableBody :: "retryTransport \<Rightarrow> request \<Rightarrow> bool \<Rightarrow> int + request" where
  "prepareReplayableBody t request readFails =
     (let policy = requestRetryPolicy request (transport_Policy t) in
      case rq_Body request of
        None \<Rightarrow> Inr request
      | Some body \<Rightarrow>
          if rp_MaxAttempts policy < 2 \<or> \<not> allowsMethod policy (rq_Method request)
             \<or> rq_GetBody request \<noteq> None then Inr request
          else if rq_ContentLength request < 0 \<or> rq_ContentLength request > rp_BodyLimit policy
          then Inr request
          else if readFails then Inl 400
          else if int (length (take (nat (rp_BodyLimit policy + 1)) body)) > rp_BodyLimit policy then Inl 413
          else Inr (request\<lparr>rq_Body := Some (take (nat (rp_BodyLimit policy + 1)) body),
                 rq_GetBody := Some (Inr (take (nat (rp_BodyLimit policy + 1)) body))\<rparr>))"

text \<open>The proxy's \<open>ErrorHandler\<close>: the status for an error; a body over the server's limit and a
  deadline are told apart by the caller.\<close>

datatype handler_error = MaxBytes | Deadline | ProxyError proxy_error

definition error_status :: "handler_error \<Rightarrow> int" where
  "error_status e = (case e of MaxBytes \<Rightarrow> 413 | ProxyError ErrNoBackend \<Rightarrow> 503 | Deadline \<Rightarrow> 504 | _ \<Rightarrow> 502)"

end
