(* ===== verification/Routing.thy ===== *)
theory Routing
  imports Gateway_Config Route_Limiter Proxy
begin

text \<open>
  Routes of the gateway (\<open>internal/gateway/routing.go\<close>): the compiled table, matching, weighted
  clusters, redirects, the prepared request, path rewriting, header policies and the writer that
  applies them to responses. \<open>url.Parse\<close>, \<open>EscapedPath\<close> and \<open>PathUnescape\<close> are parameters.
\<close>

record compiledRoute =
  cr_config :: GatewayRouteConfig
  cr_order :: nat
  cr_counter :: uint64
  cr_limiter :: "routeLimiter option"

section \<open>The table\<close>

text \<open>\<open>sort.SliceStable\<close>, as insertion: an element goes before the later ones it is not greater than.\<close>

fun insert_stable :: "('a \<Rightarrow> 'a \<Rightarrow> bool) \<Rightarrow> 'a \<Rightarrow> 'a list \<Rightarrow> 'a list" where
  "insert_stable lt x [] = [x]"
| "insert_stable lt x (y # ys) = (if lt y x then y # insert_stable lt x ys else x # y # ys)"

definition SliceStable :: "('a \<Rightarrow> 'a \<Rightarrow> bool) \<Rightarrow> 'a list \<Rightarrow> 'a list" where
  "SliceStable lt xs = foldr (insert_stable lt) xs []"

definition route_before :: "compiledRoute \<Rightarrow> compiledRoute \<Rightarrow> bool" where
  "route_before left right =
     (let l = cr_config left; r = cr_config right;
          leftExact = gm_PathExact (gr_Match l) \<noteq> []; rightExact = gm_PathExact (gr_Match r) \<noteq> [];
          leftLen = length (gm_PathPrefix (gr_Match l)); rightLen = length (gm_PathPrefix (gr_Match r))
      in if gr_Priority l \<noteq> gr_Priority r then gr_Priority l > gr_Priority r
         else if leftExact \<noteq> rightExact then leftExact
         else if leftLen \<noteq> rightLen then leftLen > rightLen
         else cr_order left < cr_order right)"

definition compile_route :: "instant \<Rightarrow> nat \<Rightarrow> GatewayRouteConfig \<Rightarrow> compiledRoute" where
  "compile_route now index value =
     \<lparr>cr_config = value, cr_order = index, cr_counter = 0,
      cr_limiter = (case gr_RateLimit value of
          Some l \<Rightarrow> if grl_Enabled l then Some (newRouteLimiter (grl_Capacity l) (grl_RefillPerSecond l) now) else None
        | None \<Rightarrow> None)\<rparr>"

definition compileRoutes :: "instant \<Rightarrow> GatewayRouteConfig list \<Rightarrow> compiledRoute list" where
  "compileRoutes now values =
     SliceStable route_before (map (\<lambda>(i, v). compile_route now i v) (enumerate 0 values))"

section \<open>Matching\<close>

definition withListener :: "request \<Rightarrow> go_string \<Rightarrow> request" where
  "withListener request listenerID = request\<lparr>rq_listener := listenerID\<rparr>"

definition canonicalHost :: "go_string \<Rightarrow> go_string" where
  "canonicalHost v =
     (let v = TrimSpace (ToLower v);
          v = (case SplitHostPort v of Some (host, port) \<Rightarrow> host | None \<Rightarrow> v)
      in TrimSuffix v ''.'')"

definition host_matches :: "go_string \<Rightarrow> go_string \<Rightarrow> bool" where
  "host_matches host pattern0 =
     (let p = canonicalHost pattern0; suffix = TrimPrefix p ''*''
      in p = host \<or> (HasPrefix p ''*.'' \<and> HasSuffix host suffix \<and> length host > length suffix))"

definition matchesAnyHost :: "go_string list \<Rightarrow> go_string \<Rightarrow> bool" where
  "matchesAnyHost patterns host \<longleftrightarrow> patterns = [] \<or> list_ex (host_matches host) patterns"

definition pathPrefixMatch :: "go_string \<Rightarrow> go_string \<Rightarrow> bool" where
  "pathPrefixMatch path prefix =
     (if prefix = ''/'' then HasPrefix path ''/''
      else if \<not> HasPrefix path prefix then False
      else length path = length prefix \<or> HasSuffix prefix ''/'' \<or> path ! length prefix = CHR ''/'')"

definition header_matches :: "http_header \<Rightarrow> GatewayHeaderMatchConfig \<Rightarrow> bool" where
  "header_matches h m =
     (let found = map_of h (CanonicalHeaderKey (gh_Name m))
      in (case gh_Present m of None \<Rightarrow> True | Some p \<Rightarrow> (found \<noteq> None) = p)
         \<and> (gh_Exact m = [] \<or> (case found of None \<Rightarrow> False | Some vs \<Rightarrow> list_ex (\<lambda>v. v = gh_Exact m) vs)))"

definition matches :: "compiledRoute \<Rightarrow> go_string \<Rightarrow> GatewayListenerConfig \<Rightarrow> request \<Rightarrow> bool" where
  "matches route listenerID listener request =
     (let config = cr_config route; m = gr_Match config; host = canonicalHost (rq_Host request);
          path = u_Path (rq_URL request)
      in if gr_Listener config \<noteq> [] \<and> gr_Listener config \<noteq> listenerID then False
         else if \<not> matchesAnyHost (gl_Hostnames listener) host \<or> \<not> matchesAnyHost (gm_Hosts m) host then False
         else if gm_Methods m \<noteq> [] \<and> \<not> list_ex (\<lambda>x. EqualFold x (rq_Method request)) (gm_Methods m) then False
         else if gm_PathExact m \<noteq> [] \<and> path \<noteq> gm_PathExact m then False
         else if gm_PathPrefix m \<noteq> [] \<and> \<not> pathPrefixMatch path (gm_PathPrefix m) then False
         else list_all (header_matches (rq_Header request)) (gm_Headers m))"

section \<open>Choosing a cluster\<close>

fun weighted_scan :: "int \<Rightarrow> GatewayWeightedClusterConfig list \<Rightarrow> go_string" where
  "weighted_scan position [] = []"
| "weighted_scan position (t # ts) =
     (if position < gw_Weight t then gw_Cluster t else weighted_scan (position - gw_Weight t) ts)"

definition clusterID :: "compiledRoute \<Rightarrow> go_string \<times> compiledRoute" where
  "clusterID route =
     (let action = gr_Action (cr_config route); targets = ga_WeightedClusters action;
          sum = (\<Sum>t \<leftarrow> targets. gw_Weight t)
      in if ga_Cluster action \<noteq> [] then (ga_Cluster action, route)
         else if sum = 0 then ([], route)
         else (weighted_scan (uint (cr_counter route mod word_of_int sum)) targets,
               route\<lparr>cr_counter := cr_counter route + 1\<rparr>))"

section \<open>Redirects\<close>

text \<open>The target and status of a redirect; \<open>http.Redirect\<close> writes them.\<close>

definition redirect :: "compiledRoute \<Rightarrow> request \<Rightarrow> (url \<times> int) option" where
  "redirect route request =
     (case ga_Redirect (gr_Action (cr_config route)) of
        None \<Rightarrow> None
      | Some r \<Rightarrow>
          (let ru = rq_URL request;
               scheme = (if gd_Scheme r = [] then u_Scheme ru else gd_Scheme r);
               scheme = (if scheme = [] then (if rq_TLS request then ''https'' else ''http'') else scheme)
           in Some (\<lparr>u_Scheme = scheme, u_User = None,
                 u_Host = (if gd_Host r = [] then rq_Host request else gd_Host r),
                 u_Path = (if gd_Path r = [] then u_Path ru else gd_Path r), u_RawPath = [],
                 u_RawQuery = (if gd_PreserveQuery r then u_RawQuery ru else []), u_Fragment = [], u_text = []\<rparr>,
               gd_StatusCode r)))"

section \<open>The prepared request\<close>

definition joinRoutePath :: "go_string \<Rightarrow> go_string \<Rightarrow> go_string" where
  "joinRoutePath prefix suffix =
     (let prefix = (if prefix = [] then ''/'' else prefix);
          prefix = (if HasPrefix prefix ''/'' then prefix else ''/'' @ prefix)
      in if suffix = [] then prefix
         else if HasSuffix prefix ''/'' \<and> HasPrefix suffix ''/'' then prefix @ tl suffix
         else if \<not> HasSuffix prefix ''/'' \<and> \<not> HasPrefix suffix ''/'' then prefix @ ''/'' @ suffix
         else prefix @ suffix)"

definition joinEscapedRoutePath :: "go_string \<Rightarrow> go_string \<Rightarrow> go_string \<Rightarrow> go_string \<Rightarrow> go_string" where
  "joinEscapedRoutePath prefix escapedPrefix suffix escapedSuffix =
     (if HasSuffix prefix ''/'' \<and> HasPrefix suffix ''/'' then TrimSuffix escapedPrefix ''/'' @ escapedSuffix
      else if \<not> HasSuffix prefix ''/'' \<and> \<not> HasPrefix suffix ''/'' \<and> suffix \<noteq> []
      then escapedPrefix @ ''/'' @ escapedSuffix
      else escapedPrefix @ escapedSuffix)"

definition path_url :: "go_string \<Rightarrow> url" where
  "path_url p = \<lparr>u_Scheme = [], u_User = None, u_Host = [], u_Path = p, u_RawPath = [], u_RawQuery = [],
     u_Fragment = [], u_text = []\<rparr>"

definition rewriteRoutePrefix ::
    "(url \<Rightarrow> go_string) \<Rightarrow> (go_string \<Rightarrow> go_string option) \<Rightarrow> url \<Rightarrow> go_string \<Rightarrow> go_string \<Rightarrow> url" where
  "rewriteRoutePrefix EscapedPath PathUnescape target matchedPrefix replacement =
     (let originalEscaped = EscapedPath target;
          suffix = TrimPrefix (u_Path target) matchedPrefix;
          target = target\<lparr>u_Path := joinRoutePath replacement suffix, u_RawPath := []\<rparr>;
          matchedEscaped = EscapedPath (path_url matchedPrefix)
      in if \<not> HasPrefix originalEscaped matchedEscaped then target
         else
           (let replacementEscaped = EscapedPath (path_url replacement);
                rawSuffix = TrimPrefix originalEscaped matchedEscaped;
                rawPath = joinEscapedRoutePath replacement replacementEscaped suffix rawSuffix
            in if PathUnescape rawPath = Some (u_Path target) then target\<lparr>u_RawPath := rawPath\<rparr> else target))"

definition applyHeaderPolicy :: "http_header \<Rightarrow> GatewayHeaderPolicy \<Rightarrow> http_header" where
  "applyHeaderPolicy h policy =
     (let h = fold (\<lambda>name h. Header_Del h name) (ghp_Remove policy) h;
          h = fold (\<lambda>(name, v) h. Header_Set h name v) (ghp_Set policy) h
      in fold (\<lambda>(name, vs) h. fold (\<lambda>v h. Header_Add h name v) vs h) (ghp_Add policy) h)"

definition gateway_normalizeRetry :: "RetryPolicy \<Rightarrow> RetryPolicy" where
  "gateway_normalizeRetry p =
     p\<lparr>rp_MaxAttempts := (if rp_MaxAttempts p < 1 then 1 else rp_MaxAttempts p),
       rp_PerTryTimeout := (if rp_PerTryTimeout p \<le> 0 then 10 * second else rp_PerTryTimeout p),
       rp_BodyLimit := (if rp_BodyLimit p < 0 then 0 else rp_BodyLimit p),
       rp_Methods := (if rp_Methods p = [] then [''GET'', ''HEAD'', ''OPTIONS''] else rp_Methods p),
       rp_BudgetCapacity := (if rp_BudgetCapacity p < 1 then 100 else rp_BudgetCapacity p),
       rp_BudgetRefillPerSecond := (if rp_BudgetRefillPerSecond p \<le> 0 then 10 else rp_BudgetRefillPerSecond p)\<rparr>"

definition retryPolicy :: "GatewayRetryConfig option \<Rightarrow> RetryPolicy" where
  "retryPolicy policy =
     (case policy of
        None \<Rightarrow> gateway_normalizeRetry zero_RetryPolicy
      | Some p \<Rightarrow> \<lparr>rp_MaxAttempts = grc_MaxAttempts p, rp_PerTryTimeout = grc_PerTryTimeout p,
          rp_BodyLimit = grc_BodyLimit p, rp_Methods = elems (grc_Methods p), rp_Statuses = elems (grc_Statuses p),
          rp_BudgetCapacity = grc_BudgetCapacity p, rp_BudgetRefillPerSecond = grc_BudgetRefillPerSecond p\<rparr>)"

datatype prepared = Rejected go_string int | Prepared request

definition route_retry :: "GatewayRouteConfig \<Rightarrow> RetryPolicy \<Rightarrow> RetryPolicy option" where
  "route_retry config clusterRetry =
     (if gr_Retry config \<noteq> None \<or> gt_PerTry (gr_Timeouts config) > 0
      then (let policy = (case gr_Retry config of None \<Rightarrow> clusterRetry | Some r \<Rightarrow> retryPolicy (Some r))
            in Some (if gt_PerTry (gr_Timeouts config) > 0
                     then policy\<lparr>rp_PerTryTimeout := gt_PerTry (gr_Timeouts config)\<rparr> else policy))
      else None)"

definition prepareRequest ::
    "(url \<Rightarrow> go_string) \<Rightarrow> (go_string \<Rightarrow> go_string option) \<Rightarrow> compiledRoute \<Rightarrow> request \<Rightarrow> RetryPolicy \<Rightarrow> instant
     \<Rightarrow> prepared \<times> compiledRoute" where
  "prepareRequest EscapedPath PathUnescape route request clusterRetry now =
     (let config = cr_config route; action = gr_Action config; limit = gr_MaxRequestBodyBytes config;
          (allowed, limiter) = route_allow (cr_limiter route) now;
          route = route\<lparr>cr_limiter := limiter\<rparr>
      in if \<not> allowed then (Rejected ''rate_limit'' 429, route)
         else if limit > 0 \<and> rq_ContentLength request > limit then (Rejected ''body'' 413, route)
         else
           (let copy = request\<lparr>rq_Header := applyHeaderPolicy (rq_Header request) (gr_RequestHeaders config)\<rparr>;
                prefix = gm_PathPrefix (gr_Match config);
                copy = (if prefix \<noteq> [] \<and> ga_RewritePrefix action \<noteq> []
                        then copy\<lparr>rq_URL := rewriteRoutePrefix EscapedPath PathUnescape (rq_URL copy) prefix
                                    (ga_RewritePrefix action)\<rparr>
                        else copy);
                copy = WithUpstreamHost copy (ga_PreserveHost action) (ga_HostRewrite action);
                copy = (case route_retry config clusterRetry of
                          None \<Rightarrow> copy | Some policy \<Rightarrow> WithRetryPolicy copy policy);
                copy = (if gt_Request (gr_Timeouts config) > 0
                        then copy\<lparr>rq_timeout := gt_Request (gr_Timeouts config)\<rparr> else copy);
                copy = (if limit > 0 \<and> rq_Body copy \<noteq> None then copy\<lparr>rq_maxBody := Some limit\<rparr> else copy)
            in (Prepared copy, route)))"

section \<open>Checks of an incoming request\<close>

definition control_chars :: "go_string \<Rightarrow> bool" where
  "control_chars s = list_ex (\<lambda>c. byte c = 13 \<or> byte c = 10 \<or> byte c = 0) s"

definition validateIncomingRequest :: "url_parser \<Rightarrow> request \<Rightarrow> go_string option" where
  "validateIncomingRequest parse request =
     (let u = rq_URL request; lengths = Header_Values (rq_Header request) ''Content-Length'';
          encodings = rq_TransferEncoding request
      in first_error
        [((u_Scheme u \<noteq> [] \<or> u_Host u \<noteq> []) \<and> rq_RequestURI request \<noteq> [],
          ''absolute-form request targets are not accepted''),
         (control_chars (rq_Method request) \<or> control_chars (rq_Host request),
          ''request line contains control characters''),
         (rq_Host request \<noteq> [] \<and> \<not> parsed_authority parse (rq_Host request), ''request authority is invalid''),
         (length lengths > 1 \<or> (length lengths = 1 \<and> ContainsChar (hd lengths) (CHR '','')),
          ''ambiguous Content-Length''),
         (Header_Get (rq_Header request) ''Transfer-Encoding'' \<noteq> [],
          ''raw Transfer-Encoding header is not accepted''),
         (encodings \<noteq> [] \<and> (rq_ContentLength request \<ge> 0 \<or> length encodings \<noteq> 1
            \<or> \<not> EqualFold (hd encodings) ''chunked''), ''ambiguous transfer framing'')])"

section \<open>The response writer\<close>

text \<open>\<open>headerPolicyWriter\<close> around a \<open>ResponseWriter\<close>; \<open>hw_sent\<close> records the heads passed to the wrapped
  writer, status and header, the last one first.\<close>

record headerPolicyWriter =
  hw_header :: http_header
  hw_policy :: GatewayHeaderPolicy
  hw_applied :: bool
  hw_diagnostics :: bool
  hw_status :: int
  hw_sent :: "(int \<times> http_header) list"

definition hw_apply :: "headerPolicyWriter \<Rightarrow> headerPolicyWriter" where
  "hw_apply w =
     (if hw_applied w then w
      else
        (let h = (if hw_diagnostics w then hw_header w else del_matching balancer_header (hw_header w))
         in w\<lparr>hw_applied := True, hw_header := applyHeaderPolicy h (hw_policy w)\<rparr>))"

definition hw_WriteHeader :: "headerPolicyWriter \<Rightarrow> int \<Rightarrow> headerPolicyWriter" where
  "hw_WriteHeader w status =
     (let w = hw_apply w;
          w = (if status \<ge> 200 \<and> hw_status w = 0 then w\<lparr>hw_status := status\<rparr> else w)
      in w\<lparr>hw_sent := (status, hw_header w) # hw_sent w\<rparr>)"

text \<open>\<open>Write\<close> and \<open>ReadFrom\<close>; the wrapped writer sends the head with status 200 if no final one was
  sent before.\<close>

definition hw_Write :: "headerPolicyWriter \<Rightarrow> headerPolicyWriter" where
  "hw_Write w =
     (let w = hw_apply w;
          w = (if hw_status w = 0 then w\<lparr>hw_status := 200\<rparr> else w)
      in if list_ex (\<lambda>(status, h). status \<ge> 200) (hw_sent w) then w
         else w\<lparr>hw_sent := (200, hw_header w) # hw_sent w\<rparr>)"

end
