(* ===== verification/Health.thy ===== *)
theory Health
  imports Proxy
begin

text \<open>
  Active health checks (\<open>internal/balancer/healthcheck.go\<close>): settings, probes, one round of checks
  and the warm-up of a replacement. What a dial or an HTTP probe answers is a parameter; the
  workers of a round record their results one by one, so a round is a sequence of
  \<open>RecordHealthResult\<close> in the order of completion, here the order of the list.
\<close>

record HealthSettings =
  hs_Mode :: go_string
  hs_Path :: go_string
  hs_Interval :: duration
  hs_Timeout :: duration
  hs_FailureThreshold :: int
  hs_SuccessThreshold :: int
  hs_MaxConcurrency :: int
  hs_Jitter :: duration
  hs_Cooldown :: duration
  hs_ExpectedStatuses :: "int list"
  hs_SlowStart :: duration
  hs_SlowStartMinimum :: int
  hs_MaxConcurrentRequests :: int

record HealthChecker =
  hc_pool :: addr
  hc_settings :: HealthSettings
  hc_updated :: bool

definition normalizeHealthSettings :: "HealthSettings \<Rightarrow> HealthSettings" where
  "normalizeHealthSettings s =
     (let s = (if hs_SlowStartMinimum s = 0 then s\<lparr>hs_SlowStartMinimum := 10\<rparr> else s)
      in if hs_MaxConcurrentRequests s = 0 then s\<lparr>hs_MaxConcurrentRequests := 512\<rparr> else s)"

definition validateHealthSettings :: "HealthSettings \<Rightarrow> go_string option" where
  "validateHealthSettings s =
     (if hs_Mode s \<noteq> ''tcp'' \<and> hs_Mode s \<noteq> ''http'' \<and> hs_Mode s \<noteq> ''https''
      then Some ''health mode must be tcp, http or https''
      else if hs_Interval s \<le> 0 \<or> hs_Timeout s \<le> 0 \<or> hs_FailureThreshold s < 1
         \<or> hs_SuccessThreshold s < 1 \<or> hs_MaxConcurrency s < 1 \<or> hs_Jitter s < 0 \<or> hs_Cooldown s < 0
         \<or> hs_SlowStart s < 0 \<or> hs_SlowStartMinimum s < 1 \<or> hs_SlowStartMinimum s > 100
         \<or> hs_MaxConcurrentRequests s < 1
      then Some ''health-check settings are invalid''
      else if hs_Mode s \<noteq> ''tcp'' \<and> (hs_Path s = [] \<or> hd (hs_Path s) \<noteq> CHR ''/'')
      then Some ''HTTP health path must start with /''
      else None)"

definition policyFromHealth :: "HealthSettings \<Rightarrow> PassivePolicy" where
  "policyFromHealth s =
     \<lparr>pp_FailureThreshold = hs_FailureThreshold s, pp_Cooldown = hs_Cooldown s,
      pp_MaxConcurrentRequests = hs_MaxConcurrentRequests s, pp_SlowStart = hs_SlowStart s,
      pp_SlowStartMinimum = hs_SlowStartMinimum s\<rparr>"

definition NewHealthChecker :: "addr \<Rightarrow> HealthSettings \<Rightarrow> world \<Rightarrow> go_string + HealthChecker \<times> world" where
  "NewHealthChecker p s w =
     (let s = normalizeHealthSettings s in
      case validateHealthSettings s of
        Some err \<Rightarrow> Inl err
      | None \<Rightarrow> Inr (\<lparr>hc_pool = p, hc_settings = s, hc_updated = False\<rparr>,
                      UpdatePassivePolicy p (policyFromHealth s) w))"

text \<open>\<open>Update\<close>; the one-place channel \<open>updated\<close> is full after it.\<close>

definition HealthChecker_Update ::
    "HealthChecker \<Rightarrow> HealthSettings \<Rightarrow> world \<Rightarrow> go_string option \<times> HealthChecker \<times> world" where
  "HealthChecker_Update hc s w =
     (let s = normalizeHealthSettings s in
      case validateHealthSettings s of
        Some err \<Rightarrow> (Some err, hc, w)
      | None \<Rightarrow> (None, hc\<lparr>hc_settings := s, hc_updated := True\<rparr>,
                  UpdatePassivePolicy (hc_pool hc) (policyFromHealth s) w))"

text \<open>The delay before the next round; \<open>rand n\<close> is a random number below \<open>n\<close>.\<close>

definition nextDelay :: "(int \<Rightarrow> int) \<Rightarrow> HealthSettings \<Rightarrow> duration" where
  "nextDelay rand s =
     (if hs_Jitter s \<le> 0 then hs_Interval s else hs_Interval s + rand (hs_Jitter s + 1))"

text \<open>\<open>dial\<close> says whether a connection succeeds, \<open>get\<close> gives the status an HTTP GET answers, if
  it answers.\<close>

definition checkBackend :: "(go_string \<Rightarrow> bool) \<Rightarrow> (url \<Rightarrow> int option) \<Rightarrow> url \<Rightarrow> HealthSettings \<Rightarrow> bool" where
  "checkBackend dial get backendURL s =
     (if hs_Mode s = ''tcp'' then dial (u_Host backendURL)
      else
        (let probe = (if hs_Mode s = ''https'' then backendURL\<lparr>u_Scheme := ''https''\<rparr> else backendURL);
             probe = probe\<lparr>u_Path := joinPath (u_Path backendURL) (hs_Path s), u_RawPath := []\<rparr>
         in case get probe of
              None \<Rightarrow> False
            | Some status \<Rightarrow> list_ex (\<lambda>expected. status = expected) (hs_ExpectedStatuses s)))"

text \<open>One round: \<open>ctxErr\<close> says that the context was done when a worker had its result.\<close>

definition check ::
    "(go_string \<Rightarrow> bool) \<Rightarrow> (url \<Rightarrow> int option) \<Rightarrow> (addr \<Rightarrow> bool) \<Rightarrow> addr list \<Rightarrow> HealthSettings \<Rightarrow> instant
     \<Rightarrow> world \<Rightarrow> world" where
  "check dial get ctxErr backends s now w =
     fold (\<lambda>b w. if ctxErr b then w
            else RecordHealthResult b (checkBackend dial get (b_URL (w_backends w b)) s)
                   (hs_SuccessThreshold s) (hs_FailureThreshold s) now w) backends w"

definition CheckBackends ::
    "(go_string \<Rightarrow> bool) \<Rightarrow> (url \<Rightarrow> int option) \<Rightarrow> (addr \<Rightarrow> bool) \<Rightarrow> HealthChecker \<Rightarrow> addr list \<Rightarrow> instant
     \<Rightarrow> world \<Rightarrow> world" where
  "CheckBackends dial get ctxErr hc backends now w = check dial get ctxErr backends (hc_settings hc) now w"

definition HealthChecker_Check ::
    "(go_string \<Rightarrow> bool) \<Rightarrow> (url \<Rightarrow> int option) \<Rightarrow> (addr \<Rightarrow> bool) \<Rightarrow> HealthChecker \<Rightarrow> instant \<Rightarrow> world \<Rightarrow> world" where
  "HealthChecker_Check dial get ctxErr hc now w =
     CheckBackends dial get ctxErr hc (p_all (w_pools w (hc_pool hc))) now w"

text \<open>The rounds of a warm-up; a done context ends them with an error.\<close>

fun warm_rounds ::
    "(go_string \<Rightarrow> bool) \<Rightarrow> (url \<Rightarrow> int option) \<Rightarrow> (nat \<Rightarrow> bool) \<Rightarrow> addr list \<Rightarrow> HealthSettings \<Rightarrow> instant
     \<Rightarrow> nat \<Rightarrow> world \<Rightarrow> bool \<times> world" where
  "warm_rounds dial get ctxErr backends s now 0 w = (True, w)"
| "warm_rounds dial get ctxErr backends s now (Suc n) w =
     (let w = check dial get (\<lambda>b. ctxErr n) backends s now w
      in if ctxErr n then (False, w) else warm_rounds dial get ctxErr backends s now n w)"

definition WarmReplacement ::
    "(go_string \<Rightarrow> bool) \<Rightarrow> (url \<Rightarrow> int option) \<Rightarrow> (nat \<Rightarrow> bool) \<Rightarrow> HealthChecker \<Rightarrow> BackendReplacement option
     \<Rightarrow> HealthSettings \<Rightarrow> instant \<Rightarrow> world \<Rightarrow> go_string option \<times> world" where
  "WarmReplacement dial get ctxErr hc replacement s now w =
     (let s = normalizeHealthSettings s in
      case validateHealthSettings s of
        Some err \<Rightarrow> (Some err, w)
      | None \<Rightarrow>
          (case replacement of
             None \<Rightarrow> (Some ''backend replacement belongs to another pool'', w)
           | Some r \<Rightarrow>
               if br_owner r \<noteq> hc_pool hc then (Some ''backend replacement belongs to another pool'', w)
               else if \<not> needsWarmup w (Some r) now then (None, w)
               else
                 (case warm_rounds dial get ctxErr (br_backends r) s now (nat (hs_SuccessThreshold s)) w of
                    (False, w) \<Rightarrow> (Some ''warm backend replacement'', w)
                  | (True, w) \<Rightarrow>
                      if \<not> ready w (Some r) now
                      then (Some ''backend replacement is not ready: no enabled backend passed'', w)
                      else (None, w))))"

section \<open>Settings\<close>

lemma validateHealthSettings_policy:
  "validateHealthSettings s = None \<Longrightarrow>
   1 \<le> pp_SlowStartMinimum (policyFromHealth s) \<and> pp_SlowStartMinimum (policyFromHealth s) \<le> 100
   \<and> 1 \<le> pp_FailureThreshold (policyFromHealth s) \<and> 1 \<le> pp_MaxConcurrentRequests (policyFromHealth s)
   \<and> 0 \<le> pp_Cooldown (policyFromHealth s) \<and> 0 < hs_Interval s \<and> 1 \<le> hs_SuccessThreshold s"
  by (auto simp: validateHealthSettings_def policyFromHealth_def split: if_splits)

lemma joinPath_slashes:
  "joinPath a b = (if a \<noteq> [] \<and> last a = CHR ''/'' then butlast a else a) @ ''/''
     @ (if b \<noteq> [] \<and> hd b = CHR ''/'' then tl b else b)"
  by (cases b; cases a rule: rev_cases) (auto simp: joinPath_def Let_def)

section \<open>Rounds\<close>

lemma RecordHealthResult_state:
  "w_states (RecordHealthResult b ok st ft now w) =
     (w_states w)(b_state (w_backends w b) :=
        snd (recordHealthResultLocked (w_backends w b) ok st ft now (state_of w b)))"
  "w_backends (RecordHealthResult b ok st ft now w) = w_backends w"
  by (simp_all add: RecordHealthResult_step Let_def)

lemma check_frame: "w_backends (check dial get c bs s now w) = w_backends w"
  unfolding check_def by (induction bs arbitrary: w) (simp_all add: RecordHealthResult_state)

text \<open>A round over backends with states of their own records one result in each.\<close>

lemma check_state:
  assumes "b \<in> set bs" and "distinct bs" and "inj_on (\<lambda>b. b_state (w_backends w b)) (set bs)" and "\<not> c b"
  shows "w_states (check dial get c bs s now w) (b_state (w_backends w b)) =
    snd (recordHealthResultLocked (w_backends w b) (checkBackend dial get (b_URL (w_backends w b)) s)
      (hs_SuccessThreshold s) (hs_FailureThreshold s) now (state_of w b))"
proof -
  have skip: "w_states (check dial get c xs s now w) (b_state (w_backends w b)) = state_of w b"
    if "\<forall>x \<in> set xs. b_state (w_backends w x) \<noteq> b_state (w_backends w b)" for xs w
    using that
  proof (induction xs arbitrary: w)
    case Nil
    then show ?case by (simp add: check_def)
  next
    case (Cons x xs)
    let ?w = "if c x then w else RecordHealthResult x (checkBackend dial get (b_URL (w_backends w x)) s)
        (hs_SuccessThreshold s) (hs_FailureThreshold s) now w"
    have bk: "w_backends ?w = w_backends w" by (simp add: RecordHealthResult_state)
    have same: "w_states ?w (b_state (w_backends w b)) = state_of w b"
      using Cons.prems by (auto simp: RecordHealthResult_state)
    have "check dial get c (x # xs) s now w = check dial get c xs s now ?w" by (simp add: check_def)
    with Cons.IH [of ?w] Cons.prems same show ?case by (simp add: bk)
  qed
  from assms show ?thesis
  proof (induction bs arbitrary: w)
    case Nil
    then show ?case by simp
  next
    case (Cons x bs)
    let ?w = "if c x then w else RecordHealthResult x (checkBackend dial get (b_URL (w_backends w x)) s)
        (hs_SuccessThreshold s) (hs_FailureThreshold s) now w"
    have step: "check dial get c (x # bs) s now w = check dial get c bs s now ?w" by (simp add: check_def)
    have bk: "w_backends ?w = w_backends w" by (simp add: RecordHealthResult_state)
    show ?case
    proof (cases "x = b")
      case True
      with Cons.prems have "\<forall>y \<in> set bs. b_state (w_backends ?w y) \<noteq> b_state (w_backends ?w b)"
        unfolding bk by (auto simp: inj_on_def)
      from skip [OF this] True Cons.prems(4) show ?thesis
        unfolding step by (simp add: RecordHealthResult_state)
    next
      case False
      with Cons.prems have "b_state (w_backends w x) \<noteq> b_state (w_backends w b)"
        by (auto simp: inj_on_def)
      then have same: "w_states ?w (b_state (w_backends w b)) = state_of w b"
        by (simp add: RecordHealthResult_state)
      have "b \<in> set bs" "distinct bs" "inj_on (\<lambda>b. b_state (w_backends ?w b)) (set bs)"
        using Cons.prems False unfolding bk by (auto simp: inj_on_def)
      from Cons.IH [OF this Cons.prems(4)] show ?thesis unfolding step bk same .
    qed
  qed
qed

text \<open>So \<open>n\<close> undisturbed rounds record the backend's result \<open>n\<close> times.\<close>

lemma warm_rounds_state:
  assumes "b \<in> set bs" and "distinct bs" and "inj_on (\<lambda>b. b_state (w_backends w b)) (set bs)"
    and "\<forall>k < n. \<not> c k"
  shows "fst (warm_rounds dial get c bs s now n w)
    \<and> w_backends (snd (warm_rounds dial get c bs s now n w)) = w_backends w
    \<and> state_of (snd (warm_rounds dial get c bs s now n w)) b =
      ((\<lambda>t. snd (recordHealthResultLocked (w_backends w b) (checkBackend dial get (b_URL (w_backends w b)) s)
         (hs_SuccessThreshold s) (hs_FailureThreshold s) now t)) ^^ n) (state_of w b)"
  using assms
proof (induction n arbitrary: w)
  case 0
  then show ?case by simp
next
  case (Suc n)
  let ?w = "check dial get (\<lambda>b. c n) bs s now w"
  have cn: "\<not> c n" using Suc.prems(4) by simp
  have bk: "w_backends ?w = w_backends w" by (rule check_frame)
  have st: "w_states ?w (b_state (w_backends w b)) =
      snd (recordHealthResultLocked (w_backends w b) (checkBackend dial get (b_URL (w_backends w b)) s)
        (hs_SuccessThreshold s) (hs_FailureThreshold s) now (state_of w b))"
    using check_state [OF Suc.prems(1-3), of "\<lambda>b. c n" dial get s now, OF cn] .
  have unroll: "warm_rounds dial get c bs s now (Suc n) w = warm_rounds dial get c bs s now n ?w"
    using cn by (simp add: Let_def)
  have "inj_on (\<lambda>b. b_state (w_backends ?w b)) (set bs)" "\<forall>k < n. \<not> c k"
    using Suc.prems(3,4) unfolding bk by simp_all
  from Suc.IH [OF Suc.prems(1,2) this] show ?case
    unfolding unroll bk funpow_Suc_right o_apply st .
qed

lemma failed_probes_unhealthy:
  "\<not> s_healthy s \<Longrightarrow> \<not> s_healthy (((\<lambda>s. snd (recordHealthResultLocked b False st ft now s)) ^^ n) s)"
  by (induction n) (auto simp: recordHealthResultLocked_def setAliveLocked_def Let_def split: if_splits)

lemma probes_keep_admin:
  "s_enabled (((\<lambda>s. snd (recordHealthResultLocked b ok st ft now s)) ^^ n) s) = s_enabled s"
  "s_draining (((\<lambda>s. snd (recordHealthResultLocked b ok st ft now s)) ^^ n) s) = s_draining s"
  by (induction n) (auto simp: recordHealthResultLocked_def setAliveLocked_def Let_def)

text \<open>The state a candidate has when it was just prepared, and what the warm-up makes of it.\<close>

definition fresh_state :: "backendState \<Rightarrow> bool" where
  "fresh_state s \<longleftrightarrow> \<not> s_healthy s \<and> s_consecutiveSuccess s = 0 \<and> s_ejectedUntil s = 0
     \<and> s_healthOwner s = None \<and> \<not> s_draining s"

lemma fresh_probes_alive:
  assumes "fresh_state s" and "1 \<le> st" and "0 \<le> now"
  shows "IsAlive (((\<lambda>s. snd (recordHealthResultLocked b ok st ft now s)) ^^ nat st) s) now
    = (ok \<and> s_enabled s)"
proof (cases ok)
  case True
  let ?t = "((\<lambda>s. snd (recordHealthResultLocked b ok st ft now s)) ^^ nat st) s"
  have "s_healthy ?t" "s_ejectedUntil ?t \<le> now"
    using passed_probes [of s b st now "nat st" ft] assms True by (auto simp: fresh_state_def Let_def)
  with True assms show ?thesis by (simp add: IsAlive_def IsEjected_def probes_keep_admin fresh_state_def)
next
  case False
  with failed_probes_unhealthy [of s] assms show ?thesis by (simp add: IsAlive_def fresh_state_def)
qed

lemma WarmReplacement_fresh:
  assumes "validateHealthSettings (normalizeHealthSettings s) = None" and "br_owner r = hc_pool hc"
    and "distinct (br_backends r)"
    and "inj_on (\<lambda>b. b_state (w_backends w b)) (set (br_backends r))"
    and "\<And>b. b \<in> set (br_backends r) \<Longrightarrow> fresh_state (state_of w b)"
    and "\<And>k. \<not> ctxErr k" and "0 \<le> now"
  shows "fst (WarmReplacement dial get ctxErr hc (Some r) s now w) = None
    \<longleftrightarrow> \<not> needsWarmup w (Some r) now
      \<or> (\<exists>b \<in> set (br_backends r). s_enabled (state_of w b)
            \<and> checkBackend dial get (b_URL (w_backends w b)) (normalizeHealthSettings s))"
proof -
  let ?s = "normalizeHealthSettings s"
  let ?out = "warm_rounds dial get ctxErr (br_backends r) ?s now (nat (hs_SuccessThreshold ?s)) w"
  have st: "1 \<le> hs_SuccessThreshold ?s" using validateHealthSettings_policy [OF assms(1)] by simp
  have calm: "\<forall>k < nat (hs_SuccessThreshold ?s). \<not> ctxErr k" using assms(6) by simp
  have alive: "IsAlive (state_of (snd ?out) b) now =
      (checkBackend dial get (b_URL (w_backends w b)) ?s \<and> s_enabled (state_of w b))"
    if "b \<in> set (br_backends r)" for b
    unfolding warm_rounds_state [OF that assms(3,4) calm, of dial get ?s now, THEN conjunct2, THEN conjunct2]
    by (rule fresh_probes_alive [OF assms(5) [OF that] st assms(7)])
  have finished: "br_backends r = [] \<or> fst ?out"
    using warm_rounds_state [OF _ assms(3,4) calm, of "hd (br_backends r)" dial get ?s now] hd_in_set
    by auto
  have "\<not> needsWarmup w (Some r) now" if "br_backends r = []" using that by (simp add: needsWarmup_def)
  with finished alive assms(1,2) show ?thesis
    by (cases ?out) (auto simp: WarmReplacement_def Let_def ready_def)
qed

lemma PrepareReplacement_fresh:
  assumes "PrepareReplacement parse p specs w0 = Inr (r, w)"
  shows "br_owner r = p \<and> distinct (br_backends r)
    \<and> inj_on (\<lambda>b. b_state (w_backends w b)) (set (br_backends r))
    \<and> (\<forall>b \<in> set (br_backends r). fresh_state (state_of w b))
    \<and> (\<lambda>b. (s_enabled (state_of w b), b_URL (w_backends w b))) ` set (br_backends r) =
       (\<lambda>spec. (\<not> spec_Disabled spec, the (parse (spec_URL spec)))) ` set specs"
proof -
  from assms obtain bs where r: "r = \<lparr>br_owner = p, br_backends = bs\<rparr>"
    and build: "buildBackends parse (p_policy (w_pools w0 p)) [] [] specs w0 = Inr (bs, w)"
    by (auto simp: PrepareReplacement_def split: sum.splits)
  note ok = buildBackends_ok [OF build]
  let ?n = "w_next w0"
  have set: "set bs = (\<lambda>i. ?n + i) ` {0 ..< length specs}" using ok by (simp add: add.commute)
  have index: "\<exists>i < length specs. b = ?n + i" if "b \<in> set bs" for b
    using that ok by (intro exI [of _ "b - ?n"]) auto
  have st: "w_states w (?n + i) = new_state (p_policy (w_pools w0 p)) (specs ! i)"
    "w_backends w (?n + i) = built_backend parse (specs ! i) (?n + i)" if "i < length specs" for i
    using ok that by (auto simp: built_backend_def)
  have specs: "set specs = (\<lambda>i. specs ! i) ` {0 ..< length specs}"
    by (simp add: set_conv_nth image_def Bex_def) blast
  have "(\<lambda>b. (s_enabled (state_of w b), b_URL (w_backends w b))) ` set bs =
       (\<lambda>spec. (\<not> spec_Disabled spec, the (parse (spec_URL spec)))) ` set specs"
    unfolding set specs image_image by (intro image_cong refl) (simp add: st new_state_def built_backend_def)
  moreover have "fresh_state (state_of w b)" if "b \<in> set bs" for b
  proof -
    from that obtain i where "b = ?n + i" "i < length specs" by (auto dest: index)
    then show ?thesis by (simp add: st fresh_state_def new_state_def built_backend_def)
  qed
  moreover have "inj_on (\<lambda>b. b_state (w_backends w b)) (set bs)"
  proof (rule inj_on_inverseI [where g = id])
    fix b
    assume "b \<in> set bs"
    then obtain i where "b = ?n + i" "i < length specs" by (auto dest: index)
    then show "id (b_state (w_backends w b)) = b" by (simp add: st built_backend_def)
  qed
  ultimately show ?thesis using ok by (simp add: r)
qed

text \<open>Warm-up before a configuration is swapped in. With valid settings, a replacement just prepared
  for the checker's own pool and no cancellation, \<open>WarmReplacement\<close> succeeds exactly when no warm-up
  is needed (an enabled candidate already serves) or some enabled specification passes its probe: a
  reload is never committed towards backends of which none answered, nor refused when one did.\<close>

theorem warm_replacement_verdict:
  assumes "validateHealthSettings (normalizeHealthSettings s) = None"
    and "PrepareReplacement parse (hc_pool hc) specs w0 = Inr (r, w)"
    and "\<And>k. \<not> ctxErr k" and "0 \<le> now"
  shows "fst (WarmReplacement dial get ctxErr hc (Some r) s now w) = None
    \<longleftrightarrow> \<not> needsWarmup w (Some r) now
      \<or> (\<exists>spec \<in> set specs. \<not> spec_Disabled spec
            \<and> checkBackend dial get (the (parse (spec_URL spec))) (normalizeHealthSettings s))"
proof -
  note fresh = PrepareReplacement_fresh [OF assms(2)]
  have "(\<exists>b \<in> set (br_backends r). s_enabled (state_of w b)
      \<and> checkBackend dial get (b_URL (w_backends w b)) (normalizeHealthSettings s))
    \<longleftrightarrow> (\<exists>x \<in> (\<lambda>b. (s_enabled (state_of w b), b_URL (w_backends w b))) ` set (br_backends r).
      fst x \<and> checkBackend dial get (snd x) (normalizeHealthSettings s))" by simp
  also have "\<dots> \<longleftrightarrow> (\<exists>spec \<in> set specs. \<not> spec_Disabled spec
      \<and> checkBackend dial get (the (parse (spec_URL spec))) (normalizeHealthSettings s))"
    using fresh by simp
  finally show ?thesis
    using WarmReplacement_fresh [OF assms(1) _ _ _ _ assms(3,4), of r hc w dial get] fresh by simp
qed

definition demo_health :: HealthSettings where
  "demo_health = \<lparr>hs_Mode = ''tcp'', hs_Path = [], hs_Interval = second, hs_Timeout = second,
     hs_FailureThreshold = 2, hs_SuccessThreshold = 2, hs_MaxConcurrency = 4, hs_Jitter = 0,
     hs_Cooldown = 0, hs_ExpectedStatuses = [], hs_SlowStart = 0, hs_SlowStartMinimum = 0,
     hs_MaxConcurrentRequests = 0\<rparr>"

definition demo_checker :: HealthChecker where
  "demo_checker = \<lparr>hc_pool = 0, hc_settings = demo_health, hc_updated = False\<rparr>"

text \<open>Only the second of two new backends answers.\<close>

theorem warm_replacement_verdict_witness:
  "case PrepareReplacement simple_parse 0 demo_specs empty_world of
     Inr (r, w) \<Rightarrow> fst (WarmReplacement (\<lambda>h. h = ''b'') (\<lambda>u. None) (\<lambda>k. False) demo_checker (Some r)
       demo_health 7 w) = None
   | Inl e \<Rightarrow> False"
proof -
  have valid: "validateHealthSettings (normalizeHealthSettings demo_health) = None"
    by (simp add: demo_health_def validateHealthSettings_def normalizeHealthSettings_def second_def)
  obtain r w where rw: "PrepareReplacement simple_parse 0 demo_specs empty_world = Inr (r, w)"
    by (cases "PrepareReplacement simple_parse 0 demo_specs empty_world")
      (auto simp: PrepareReplacement_def demo_specs_def Let_def spec_error_def
        simple_parse_def simple_url_def HasPrefix_def)
  have "\<exists>spec \<in> set demo_specs. \<not> spec_Disabled spec
      \<and> checkBackend (\<lambda>h. h = ''b'') (\<lambda>u. None) (the (simple_parse (spec_URL spec)))
          (normalizeHealthSettings demo_health)"
    by (simp add: demo_specs_def checkBackend_def demo_health_def normalizeHealthSettings_def
        simple_parse_def simple_url_def HasPrefix_def)
  with warm_replacement_verdict [OF valid, of simple_parse demo_checker demo_specs empty_world r w
      "\<lambda>k. False" 7 "\<lambda>h. h = ''b''" "\<lambda>u. None"] rw
  show ?thesis by (simp add: demo_checker_def)
qed

end
