(* ===== verification/Gateway_Normalize.thy ===== *)
theory Gateway_Normalize
  imports Routing Health
begin

text \<open>
  Normalisation of a gateway configuration (\<open>internal/gateway/config.go\<close>): the merge of a
  configuration with the process's defaults, before it is validated and built. \<open>cloneConfig\<close> goes
  through JSON, whose fields are omitted when empty: an empty slice comes back as \<open>nil\<close>, and
  nothing else changes.
\<close>

record Defaults =
  d_Upstream :: UpstreamConfig
  d_Retry :: RetryPolicy
  d_Health :: HealthSettings
  d_HistoryLimit :: int
  d_WarmupTimeout :: duration

definition clone_retry :: "GatewayRetryConfig \<Rightarrow> GatewayRetryConfig" where
  "clone_retry r = r\<lparr>grc_Methods := copy_slice (elems (grc_Methods r)),
     grc_Statuses := copy_slice (elems (grc_Statuses r))\<rparr>"

definition cloneConfig :: "GatewayConfig \<Rightarrow> GatewayConfig" where
  "cloneConfig g =
     g\<lparr>gg_Routes := map (\<lambda>r. r\<lparr>gr_Retry := map_option clone_retry (gr_Retry r)\<rparr>) (gg_Routes g),
       gg_Clusters := map (\<lambda>c. c\<lparr>gc_Retry := map_option clone_retry (gc_Retry c)\<rparr>) (gg_Clusters g)\<rparr>"

definition mergeRetry :: "RetryPolicy \<Rightarrow> GatewayRetryConfig \<Rightarrow> RetryPolicy" where
  "mergeRetry base override = gateway_normalizeRetry
     (base\<lparr>rp_MaxAttempts := (if grc_MaxAttempts override > 0 then grc_MaxAttempts override else rp_MaxAttempts base),
        rp_PerTryTimeout := (if grc_PerTryTimeout override > 0 then grc_PerTryTimeout override
                             else rp_PerTryTimeout base),
        rp_BodyLimit := (if grc_BodyLimit override > 0 then grc_BodyLimit override else rp_BodyLimit base),
        rp_Methods := (case grc_Methods override of None \<Rightarrow> rp_Methods base | Some ms \<Rightarrow> ms),
        rp_Statuses := (case grc_Statuses override of None \<Rightarrow> rp_Statuses base | Some ss \<Rightarrow> ss),
        rp_BudgetCapacity := (if grc_BudgetCapacity override > 0 then grc_BudgetCapacity override
                              else rp_BudgetCapacity base),
        rp_BudgetRefillPerSecond := (if grc_BudgetRefillPerSecond override > 0
                                     then grc_BudgetRefillPerSecond override
                                     else rp_BudgetRefillPerSecond base)\<rparr>)"

definition retryConfig :: "RetryPolicy \<Rightarrow> GatewayRetryConfig" where
  "retryConfig p = \<lparr>grc_MaxAttempts = rp_MaxAttempts p, grc_PerTryTimeout = rp_PerTryTimeout p,
     grc_BodyLimit = rp_BodyLimit p, grc_Methods = copy_slice (rp_Methods p),
     grc_Statuses = copy_slice (rp_Statuses p), grc_BudgetCapacity = rp_BudgetCapacity p,
     grc_BudgetRefillPerSecond = rp_BudgetRefillPerSecond p\<rparr>"

definition normalizeHealth :: "HealthSettings \<Rightarrow> HealthSettings" where
  "normalizeHealth s =
     s\<lparr>hs_Mode := (if hs_Mode s = [] then ''http'' else hs_Mode s),
       hs_Path := (if hs_Path s = [] then ''/health'' else hs_Path s),
       hs_Interval := (if hs_Interval s \<le> 0 then 5 * second else hs_Interval s),
       hs_Timeout := (if hs_Timeout s \<le> 0 then 2 * second else hs_Timeout s),
       hs_FailureThreshold := (if hs_FailureThreshold s < 1 then 2 else hs_FailureThreshold s),
       hs_SuccessThreshold := (if hs_SuccessThreshold s < 1 then 1 else hs_SuccessThreshold s),
       hs_MaxConcurrency := (if hs_MaxConcurrency s < 1 then 16 else hs_MaxConcurrency s),
       hs_Cooldown := (if hs_Cooldown s \<le> 0 then 10 * second else hs_Cooldown s),
       hs_ExpectedStatuses := (if hs_ExpectedStatuses s = [] then [200, 204] else hs_ExpectedStatuses s),
       hs_SlowStartMinimum := (if hs_SlowStartMinimum s < 1 then 10 else hs_SlowStartMinimum s),
       hs_MaxConcurrentRequests := (if hs_MaxConcurrentRequests s < 1 then 512 else hs_MaxConcurrentRequests s)\<rparr>"

definition mergeHealth :: "GatewayHealthCheckConfig \<Rightarrow> HealthSettings \<Rightarrow> GatewayHealthCheckConfig" where
  "mergeHealth t base =
     t\<lparr>ghc_Mode := or_nil (ghc_Mode t) (hs_Mode base),
       ghc_Path := or_nil (ghc_Path t) (hs_Path base),
       ghc_Interval := or_else (ghc_Interval t) (hs_Interval base),
       ghc_Timeout := or_else (ghc_Timeout t) (hs_Timeout base),
       ghc_FailureThreshold := or_else (ghc_FailureThreshold t) (hs_FailureThreshold base),
       ghc_SuccessThreshold := or_else (ghc_SuccessThreshold t) (hs_SuccessThreshold base),
       ghc_MaxConcurrency := or_else (ghc_MaxConcurrency t) (hs_MaxConcurrency base),
       ghc_Jitter := or_else (ghc_Jitter t) (hs_Jitter base),
       ghc_Cooldown := or_else (ghc_Cooldown t) (hs_Cooldown base),
       ghc_ExpectedStatuses := or_nil (ghc_ExpectedStatuses t) (hs_ExpectedStatuses base),
       ghc_SlowStart := or_else (ghc_SlowStart t) (hs_SlowStart base),
       ghc_SlowStartMinimum := or_else (ghc_SlowStartMinimum t) (hs_SlowStartMinimum base)\<rparr>"

definition healthSettings :: "GatewayHealthCheckConfig \<Rightarrow> int \<Rightarrow> HealthSettings" where
  "healthSettings v maxConcurrent =
     \<lparr>hs_Mode = ghc_Mode v, hs_Path = ghc_Path v, hs_Interval = ghc_Interval v, hs_Timeout = ghc_Timeout v,
      hs_FailureThreshold = ghc_FailureThreshold v, hs_SuccessThreshold = ghc_SuccessThreshold v,
      hs_MaxConcurrency = ghc_MaxConcurrency v, hs_Jitter = ghc_Jitter v, hs_Cooldown = ghc_Cooldown v,
      hs_ExpectedStatuses = ghc_ExpectedStatuses v, hs_SlowStart = ghc_SlowStart v,
      hs_SlowStartMinimum = ghc_SlowStartMinimum v, hs_MaxConcurrentRequests = maxConcurrent\<rparr>"

definition normalizeUpstream :: "UpstreamConfig \<Rightarrow> UpstreamConfig" where
  "normalizeUpstream u =
     u\<lparr>up_DialTimeout := (if up_DialTimeout u \<le> 0 then 2 * second else up_DialTimeout u),
       up_TLSHandshakeTimeout := (if up_TLSHandshakeTimeout u \<le> 0 then 3 * second else up_TLSHandshakeTimeout u),
       up_ResponseHeaderTimeout := (if up_ResponseHeaderTimeout u \<le> 0 then 10 * second
                                    else up_ResponseHeaderTimeout u),
       up_ExpectContinueTimeout := (if up_ExpectContinueTimeout u \<le> 0 then second else up_ExpectContinueTimeout u),
       up_IdleConnTimeout := (if up_IdleConnTimeout u \<le> 0 then 90 * second else up_IdleConnTimeout u),
       up_MaxIdleConns := (if up_MaxIdleConns u < 1 then 256 else up_MaxIdleConns u),
       up_MaxIdleConnsPerHost := (if up_MaxIdleConnsPerHost u < 1 then 64 else up_MaxIdleConnsPerHost u),
       up_MaxConcurrentRequests := (if up_MaxConcurrentRequests u < 1 then 512 else up_MaxConcurrentRequests u)\<rparr>"

definition mergeTransport :: "GatewayTransportConfig \<Rightarrow> UpstreamConfig \<Rightarrow> GatewayTransportConfig" where
  "mergeTransport t base =
     t\<lparr>gtc_Protocol := or_nil (gtc_Protocol t) ''auto'',
       gtc_DialTimeout := or_else (gtc_DialTimeout t) (up_DialTimeout base),
       gtc_TLSHandshakeTimeout := or_else (gtc_TLSHandshakeTimeout t) (up_TLSHandshakeTimeout base),
       gtc_ResponseHeaderTimeout := or_else (gtc_ResponseHeaderTimeout t) (up_ResponseHeaderTimeout base),
       gtc_ExpectContinueTimeout := or_else (gtc_ExpectContinueTimeout t) (up_ExpectContinueTimeout base),
       gtc_IdleConnTimeout := or_else (gtc_IdleConnTimeout t) (up_IdleConnTimeout base),
       gtc_MaxIdleConns := or_else (gtc_MaxIdleConns t) (up_MaxIdleConns base),
       gtc_MaxIdleConnsPerHost := or_else (gtc_MaxIdleConnsPerHost t) (up_MaxIdleConnsPerHost base),
       gtc_MaxConnsPerHost := or_else (gtc_MaxConnsPerHost t) (up_MaxConnsPerHost base),
       gtc_MaxConcurrentRequests := or_else (gtc_MaxConcurrentRequests t) (up_MaxConcurrentRequests base),
       gtc_MaxResponseHeaderBytes := or_else (gtc_MaxResponseHeaderBytes t) 1048576\<rparr>"

definition normalize_cluster :: "Defaults \<Rightarrow> GatewayClusterConfig \<Rightarrow> GatewayClusterConfig" where
  "normalize_cluster d c =
     (let baseRetry = gateway_normalizeRetry (d_Retry d)
      in c\<lparr>gc_Transport := mergeTransport (gc_Transport c) (normalizeUpstream (d_Upstream d)),
           gc_Retry := Some (retryConfig (case gc_Retry c of None \<Rightarrow> baseRetry | Some r \<Rightarrow> mergeRetry baseRetry r)),
           gc_Health := mergeHealth (gc_Health c) (normalizeHealth (d_Health d)),
           gc_Discovery := (let s = gc_Discovery c
             in if gdc_Type s = ''static'' then s
                else s\<lparr>gdc_RefreshInterval := or_else (gdc_RefreshInterval s) (30 * second),
                       gdc_StaleAfter := or_else (gdc_StaleAfter s) (120 * second)\<rparr>)\<rparr>)"

definition normalize_route :: "Defaults \<Rightarrow> GatewayRouteConfig \<Rightarrow> GatewayRouteConfig" where
  "normalize_route d r =
     r\<lparr>gr_Action := default_redirect (gr_Action r),
       gr_Retry := map_option (\<lambda>retry.
         (let merged = mergeRetry (gateway_normalizeRetry (d_Retry d)) retry
          in retryConfig (if gt_PerTry (gr_Timeouts r) > 0
               then merged\<lparr>rp_PerTryTimeout := gt_PerTry (gr_Timeouts r)\<rparr> else merged))) (gr_Retry r)\<rparr>"

definition normalizeConfig ::
    "url_parser \<Rightarrow> Defaults \<Rightarrow> GatewayConfig option \<Rightarrow> go_string + GatewayConfig" where
  "normalizeConfig parse d source =
     (case source of
        None \<Rightarrow> Inl ''gateway configuration is required''
      | Some g \<Rightarrow>
          (let g = ApplyDefaults (cloneConfig g);
               g = (if gg_HistoryLimit g = 0 then g\<lparr>gg_HistoryLimit := d_HistoryLimit d\<rparr> else g);
               g = (if gg_HistoryLimit g = 0 then g\<lparr>gg_HistoryLimit := 10\<rparr> else g);
               g = g\<lparr>gg_Listeners := single_default (gg_Listeners g)\<rparr>;
               g = g\<lparr>gg_Clusters := map (normalize_cluster d) (gg_Clusters g),
                     gg_Routes := map (normalize_route d) (gg_Routes g)\<rparr>
           in case Validate parse g of (Some err, g) \<Rightarrow> Inl err | (None, g) \<Rightarrow> Inr g))"

section \<open>Merging is idempotent\<close>

lemma or_else_idem [simp]: "or_else (or_else x d) d = or_else x d"
  by (simp add: or_else_def)

lemma or_nil_idem [simp]: "or_nil (or_nil x d) d = or_nil x d"
  by (simp add: or_nil_def)

lemma mergeTransport_idem [simp]: "mergeTransport (mergeTransport t u) u = mergeTransport t u"
  by (simp add: mergeTransport_def)

lemma mergeHealth_idem [simp]: "mergeHealth (mergeHealth t u) u = mergeHealth t u"
  by (simp add: mergeHealth_def)

text \<open>A retry policy all of whose values \<open>normalizeRetry\<close> accepts.\<close>

definition retry_normal :: "RetryPolicy \<Rightarrow> bool" where
  "retry_normal p \<longleftrightarrow> 1 \<le> rp_MaxAttempts p \<and> 0 < rp_PerTryTimeout p \<and> 0 \<le> rp_BodyLimit p
     \<and> rp_Methods p \<noteq> [] \<and> 1 \<le> rp_BudgetCapacity p \<and> 0 < rp_BudgetRefillPerSecond p"

lemma normalizeRetry_normal: "retry_normal (gateway_normalizeRetry p)"
  by (simp add: retry_normal_def gateway_normalizeRetry_def second_def)

lemma normalizeRetry_id: "retry_normal p \<Longrightarrow> gateway_normalizeRetry p = p"
  by (auto simp: retry_normal_def gateway_normalizeRetry_def)

lemma mergeRetry_normal: "retry_normal (mergeRetry base r)"
  by (simp add: mergeRetry_def normalizeRetry_normal)

text \<open>Merging a policy that is normal and agrees with the base where it is empty gives it back.\<close>

lemma mergeRetry_retryConfig:
  assumes "retry_normal base" and "retry_normal p" and "rp_BodyLimit p = 0 \<Longrightarrow> rp_BodyLimit base = 0"
    and "rp_Statuses p = [] \<Longrightarrow> rp_Statuses base = []"
  shows "mergeRetry base (retryConfig p) = p"
proof -
  have "mergeRetry base (retryConfig p) = gateway_normalizeRetry p"
    unfolding mergeRetry_def using assms
    by (intro arg_cong [where f = gateway_normalizeRetry])
      (auto simp: retryConfig_def copy_slice_def retry_normal_def)
  then show ?thesis by (simp add: normalizeRetry_id assms(2))
qed

lemma mergeRetry_empties:
  assumes "retry_normal base" and "grc_Statuses r \<noteq> Some []"
  shows "rp_BodyLimit (mergeRetry base r) = 0 \<Longrightarrow> rp_BodyLimit base = 0"
    and "rp_Statuses (mergeRetry base r) = [] \<Longrightarrow> rp_Statuses base = []"
  using assms by (auto simp: mergeRetry_def gateway_normalizeRetry_def retry_normal_def split: if_splits option.splits)

lemma mergeRetry_idem:
  assumes "retry_normal base" and "grc_Statuses r \<noteq> Some []"
  shows "mergeRetry base (retryConfig (mergeRetry base r)) = mergeRetry base r"
  using mergeRetry_retryConfig [OF assms(1) mergeRetry_normal] mergeRetry_empties [OF assms] by blast

lemma mergeRetry_base: "retry_normal base \<Longrightarrow> mergeRetry base (retryConfig base) = base"
  by (rule mergeRetry_retryConfig) simp_all

lemma clone_retry_simps [simp]:
  "grc_Statuses (clone_retry r) \<noteq> Some []" "clone_retry (retryConfig p) = retryConfig p"
  by (simp_all add: clone_retry_def retryConfig_def copy_slice_def)

section \<open>Normalisation is idempotent\<close>

definition cloned_cluster :: "GatewayClusterConfig \<Rightarrow> GatewayClusterConfig" where
  "cloned_cluster c = c\<lparr>gc_Retry := map_option clone_retry (gc_Retry c)\<rparr>"

definition cloned_route :: "GatewayRouteConfig \<Rightarrow> GatewayRouteConfig" where
  "cloned_route r = r\<lparr>gr_Retry := map_option clone_retry (gr_Retry r)\<rparr>"

lemma cloneConfig_alt:
  "cloneConfig g = g\<lparr>gg_Routes := map cloned_route (gg_Routes g), gg_Clusters := map cloned_cluster (gg_Clusters g)\<rparr>"
  by (simp add: cloneConfig_def cloned_route_def cloned_cluster_def comp_def)

lemma default_cluster_parts:
  "default_tls (gc_TLS (default_cluster c)) = gc_TLS (default_cluster c)"
  "gc_Strategy (default_cluster c) \<noteq> []"
  "map default_endpoint (gc_Endpoints (default_cluster c)) = gc_Endpoints (default_cluster c)"
  "gdc_Type (gc_Discovery (default_cluster c)) \<noteq> []"
  "gtc_Protocol (mergeTransport t u) \<noteq> []"
  by (simp_all add: default_cluster_def comp_def default_discovery_def Let_def mergeTransport_def or_nil_def)

lemma default_discovery_fixed:
  "gdc_Type s \<noteq> [] \<Longrightarrow> default_discovery
     (if gdc_Type s = ''static'' then s
      else s\<lparr>gdc_RefreshInterval := or_else (gdc_RefreshInterval s) (30 * second),
             gdc_StaleAfter := or_else (gdc_StaleAfter s) (120 * second)\<rparr>) =
     (if gdc_Type s = ''static'' then s
      else s\<lparr>gdc_RefreshInterval := or_else (gdc_RefreshInterval s) (30 * second),
             gdc_StaleAfter := or_else (gdc_StaleAfter s) (120 * second)\<rparr>)"
  by (simp add: default_discovery_def or_else_def second_def)

lemma default_cluster_id:
  assumes "default_tls (gc_TLS c) = gc_TLS c" and "gc_Strategy c \<noteq> []"
    and "default_discovery (gc_Discovery c) = gc_Discovery c" and "gtc_Protocol (gc_Transport c) \<noteq> []"
    and "map default_endpoint (gc_Endpoints c) = gc_Endpoints c"
  shows "default_cluster c = c"
  using assms by (simp add: default_cluster_def)

lemma normalize_cluster_fixed:
  assumes "c' = normalize_cluster d (default_cluster (cloned_cluster c))"
  shows "cloned_cluster c' = c'" and "default_cluster c' = c'" and "normalize_cluster d c' = c'"
proof -
  show "cloned_cluster c' = c'" by (simp add: assms cloned_cluster_def normalize_cluster_def Let_def)
  show "default_cluster c' = c'"
    by (rule default_cluster_id)
      (simp_all add: assms normalize_cluster_def Let_def default_cluster_parts default_discovery_fixed)
  let ?b = "gateway_normalizeRetry (d_Retry d)"
  have "mergeRetry ?b (retryConfig (case gc_Retry (cloned_cluster c) of None \<Rightarrow> ?b | Some r \<Rightarrow> mergeRetry ?b r)) =
    (case gc_Retry (cloned_cluster c) of None \<Rightarrow> ?b | Some r \<Rightarrow> mergeRetry ?b r)"
    by (cases "gc_Retry c")
      (simp_all add: cloned_cluster_def mergeRetry_base mergeRetry_idem normalizeRetry_normal)
  then show "normalize_cluster d c' = c'"
    by (simp add: assms normalize_cluster_def Let_def default_cluster_def)
qed

lemma normalize_route_fixed:
  assumes "r' = normalize_route d (default_route (cloned_route r))"
  shows "cloned_route r' = r'" and "default_route r' = r'" and "normalize_route d r' = r'"
    and "with_redirect_status r' = r'"
proof -
  show "cloned_route r' = r'"
    by (simp add: assms cloned_route_def normalize_route_def Let_def option.map_comp comp_def)
  show "default_route r' = r'" by (simp add: assms default_route_def normalize_route_def comp_def)
  show "with_redirect_status r' = r'" by (simp add: assms with_redirect_status_def normalize_route_def)
  let ?b = "gateway_normalizeRetry (d_Retry d)"
  have "mergeRetry ?b (retryConfig (mergeRetry ?b (clone_retry retry)\<lparr>rp_PerTryTimeout := t\<rparr>)) =
      mergeRetry ?b (clone_retry retry)\<lparr>rp_PerTryTimeout := t\<rparr>" if "0 < t" for retry t
    using mergeRetry_normal [of ?b "clone_retry retry"] that
      mergeRetry_empties [OF normalizeRetry_normal, of "clone_retry retry" "d_Retry d"]
    by (intro mergeRetry_retryConfig normalizeRetry_normal) (simp_all add: retry_normal_def)
  moreover have "mergeRetry ?b (retryConfig (mergeRetry ?b (clone_retry retry))) = mergeRetry ?b (clone_retry retry)"
    for retry
    by (simp add: mergeRetry_idem normalizeRetry_normal)
  ultimately show "normalize_route d r' = r'"
    by (cases "gr_Retry r")
      (simp_all add: assms normalize_route_def Let_def default_route_def cloned_route_def)
qed

lemma normalizeConfig_result:
  assumes "normalizeConfig parse d (Some g) = Inr n"
  shows "gg_APIVersion n = (if gg_APIVersion g = [] then GatewayAPIVersion else gg_APIVersion g)
    \<and> gg_HistoryLimit n = (if gg_HistoryLimit g = 0 then 10 else gg_HistoryLimit g)
    \<and> gg_Listeners n = single_default (map default_listener (gg_Listeners g))
    \<and> gg_Clusters n = map (\<lambda>c. normalize_cluster d (default_cluster (cloned_cluster c))) (gg_Clusters g)
    \<and> gg_Routes n = map (\<lambda>r. normalize_route d (default_route (cloned_route r))) (gg_Routes g)
    \<and> Validate parse n = (None, n) \<and> gateway_valid parse n"
proof -
  let ?g = "\<lparr>gg_APIVersion = (if gg_APIVersion g = [] then GatewayAPIVersion else gg_APIVersion g),
      gg_HistoryLimit = (if gg_HistoryLimit g = 0 then 10 else gg_HistoryLimit g),
      gg_Listeners = single_default (map default_listener (gg_Listeners g)),
      gg_Routes = map (\<lambda>r. normalize_route d (default_route (cloned_route r))) (gg_Routes g),
      gg_Clusters = map (\<lambda>c. normalize_cluster d (default_cluster (cloned_cluster c))) (gg_Clusters g)\<rparr>"
  have "single_default (single_default ls) = single_default ls" for ls
    by (auto simp: single_default_def split: list.splits)
  then have v: "Validate parse ?g = (None, n)"
    using assms
    by (cases g) (auto simp: normalizeConfig_def Let_def ApplyDefaults_def cloneConfig_alt comp_def
        split: prod.splits option.splits)
  note ok = Validate_ok [OF v]
  have "map with_redirect_status (gg_Routes ?g) = gg_Routes ?g"
    by (simp add: normalize_route_fixed(4) [OF refl] comp_def)
  with ok have "n = ?g" by simp
  with ok v show ?thesis by simp
qed

lemma normalizeConfig_fixed:
  assumes "normalizeConfig parse d (Some g) = Inr n"
  shows "normalizeConfig parse d (Some n) = Inr n \<and> cloneConfig n = n \<and> gateway_valid parse n"
proof -
  note r = normalizeConfig_result [OF assms]
  have cl: "map cloned_cluster (gg_Clusters n) = gg_Clusters n" "map default_cluster (gg_Clusters n) = gg_Clusters n"
      "map (normalize_cluster d) (gg_Clusters n) = gg_Clusters n"
    and ro: "map cloned_route (gg_Routes n) = gg_Routes n" "map default_route (gg_Routes n) = gg_Routes n"
      "map (normalize_route d) (gg_Routes n) = gg_Routes n"
    using r by (simp_all add: normalize_cluster_fixed [OF refl] normalize_route_fixed [OF refl] comp_def)
  have ls: "single_default (map default_listener (gg_Listeners n)) = gg_Listeners n"
    "single_default (gg_Listeners n) = gg_Listeners n"
    using r by (simp_all add: single_default_idem) (auto simp: single_default_def split: list.splits)
  have top: "gg_APIVersion n \<noteq> []" "gg_HistoryLimit n \<noteq> 0"
    using r by (auto simp: gateway_valid_def GatewayAPIVersion_def)
  have "cloneConfig n = n" by (simp add: cloneConfig_alt cl ro)
  moreover have "ApplyDefaults n = n" by (simp add: ApplyDefaults_def cl ro ls top)
  ultimately have "normalizeConfig parse d (Some n) = (case Validate parse n of (Some err, g) \<Rightarrow> Inl err | (None, g) \<Rightarrow> Inr g)"
    by (simp add: normalizeConfig_def cl ro ls top)
  with r \<open>cloneConfig n = n\<close> show ?thesis by simp
qed

text \<open>C40. Normalising is idempotent: the configuration an engine runs, exports and keeps in its history is
  accepted again and comes back unchanged, whatever the defaults; so applying an exported configuration
  or rolling back to a remembered one rebuilds exactly that configuration.\<close>

theorem normalize_idempotent:
  assumes "normalizeConfig parse d (Some g) = Inr n"
  shows "normalizeConfig parse d (Some n) = Inr n \<and> cloneConfig n = n \<and> gateway_valid parse n"
  using normalizeConfig_fixed [OF assms] .

definition demo_defaults :: Defaults where
  "demo_defaults = \<lparr>d_Upstream = \<lparr>up_DialTimeout = 0, up_TLSHandshakeTimeout = 0, up_ResponseHeaderTimeout = 0,
       up_ExpectContinueTimeout = 0, up_IdleConnTimeout = 0, up_MaxIdleConns = 0, up_MaxIdleConnsPerHost = 0,
       up_MaxConnsPerHost = 0, up_MaxConcurrentRequests = 0\<rparr>,
     d_Retry = zero_RetryPolicy, d_Health = demo_health, d_HistoryLimit = 0, d_WarmupTimeout = 0\<rparr>"

text \<open>The normalised example configuration.\<close>

definition demo_normal :: GatewayConfig where
  "demo_normal = (case normalizeConfig simple_parse demo_defaults (Some demo_gateway) of
     Inr n \<Rightarrow> n | Inl e \<Rightarrow> demo_gateway)"

lemma demo_normalized: "normalizeConfig simple_parse demo_defaults (Some demo_gateway) = Inr demo_normal"
proof -
  have "case normalizeConfig simple_parse demo_defaults (Some demo_gateway) of Inr n \<Rightarrow> True | Inl e \<Rightarrow> False"
    by code_simp
  then show ?thesis by (auto simp: demo_normal_def split: sum.splits)
qed

theorem normalize_idempotent_witness:
  "normalizeConfig simple_parse demo_defaults (Some demo_normal) = Inr demo_normal
   \<and> gateway_valid simple_parse demo_normal"
  using normalize_idempotent [OF demo_normalized] by blast

section \<open>Health settings of a validated cluster\<close>

lemma cluster_health_checks:
  "passes (validateGatewayCluster parse c) \<Longrightarrow> passes (health_checks (gc_Health c))"
  by (simp add: validateGatewayCluster_def)

text \<open>What validation leaves open about health checks. For a cluster of a normalised, validated
  configuration whose health checks are enabled, the health checker can be started exactly when four
  values that \<open>Validate\<close> never looks at are in range: the jitter, the cooldown and the slow-start time
  are not negative and the slow-start minimum is at most 100 percent. Outside that range the
  configuration is reported as valid and then cannot be applied.\<close>

theorem validated_health_startable:
  assumes "normalizeConfig parse d (Some g) = Inr n" and "c \<in> set (gg_Clusters n)" and "ghc_Enabled (gc_Health c)"
    and "1 \<le> maxConcurrent"
  shows "validateHealthSettings (normalizeHealthSettings (healthSettings (gc_Health c) maxConcurrent)) = None
    \<longleftrightarrow> 0 \<le> ghc_Jitter (gc_Health c) \<and> 0 \<le> ghc_Cooldown (gc_Health c) \<and> 0 \<le> ghc_SlowStart (gc_Health c)
        \<and> 1 \<le> ghc_SlowStartMinimum (gc_Health c) \<and> ghc_SlowStartMinimum (gc_Health c) \<le> 100"
proof -
  note r = normalizeConfig_result [OF assms(1)]
  from r assms(2) have "passes (health_checks (gc_Health c))"
    by (auto simp: gateway_valid_def intro: cluster_health_checks)
  moreover have "ghc_SlowStartMinimum (gc_Health c) \<noteq> 0"
  proof -
    from r assms(2) obtain c0 where "c = normalize_cluster d c0" by auto
    then have "gc_Health c = mergeHealth (gc_Health c0) (normalizeHealth (d_Health d))"
      by (simp add: normalize_cluster_def Let_def)
    then show ?thesis by (simp add: mergeHealth_def or_else_def normalizeHealth_def)
  qed
  ultimately have "ghc_Mode (gc_Health c) \<in> {''tcp'', ''http'', ''https''}"
    "0 < ghc_Interval (gc_Health c)" "0 < ghc_Timeout (gc_Health c)" "1 \<le> ghc_FailureThreshold (gc_Health c)"
    "1 \<le> ghc_SuccessThreshold (gc_Health c)" "1 \<le> ghc_MaxConcurrency (gc_Health c)"
    and path: "ghc_Mode (gc_Health c) = ''tcp'' \<or> ghc_Path (gc_Health c) \<noteq> [] \<and> hd (ghc_Path (gc_Health c)) = CHR ''/''"
    and s: "normalizeHealthSettings (healthSettings (gc_Health c) maxConcurrent) = healthSettings (gc_Health c) maxConcurrent"
    using assms(3,4)
    by (simp_all add: health_checks_def normalizeHealthSettings_def healthSettings_def HasPrefix_slash not_le not_less)
  with assms(4) show ?thesis
    unfolding s validateHealthSettings_def healthSettings_def HealthSettings.simps
    by (simp only: insert_iff empty_iff) (simp add: not_less linorder_not_le, blast)
qed

text \<open>The example with health checks whose slow-start minimum is 500 percent: accepted, not startable.\<close>

definition steep_cluster :: GatewayClusterConfig where
  "steep_cluster = demo_cluster\<lparr>gc_Health := (gc_Health demo_cluster)\<lparr>ghc_Enabled := True, ghc_SlowStartMinimum := 500\<rparr>\<rparr>"

definition steep_gateway :: GatewayConfig where
  "steep_gateway = demo_gateway\<lparr>gg_Clusters := [steep_cluster]\<rparr>"

theorem validated_health_startable_witness:
  "case normalizeConfig simple_parse demo_defaults (Some steep_gateway) of
     Inl e \<Rightarrow> False
   | Inr n \<Rightarrow> \<exists>c \<in> set (gg_Clusters n).
       validateHealthSettings (normalizeHealthSettings (healthSettings (gc_Health c) 512)) \<noteq> None"
proof -
  have ok: "case normalizeConfig simple_parse demo_defaults (Some steep_gateway) of
      Inr n \<Rightarrow> (case gg_Clusters n of [c] \<Rightarrow> ghc_Enabled (gc_Health c) \<and> ghc_SlowStartMinimum (gc_Health c) = 500
        | _ \<Rightarrow> False) | Inl e \<Rightarrow> False"
    by code_simp
  then obtain n c where n: "normalizeConfig simple_parse demo_defaults (Some steep_gateway) = Inr n"
    and c: "gg_Clusters n = [c]" "ghc_Enabled (gc_Health c)" "ghc_SlowStartMinimum (gc_Health c) = 500"
    by (auto split: sum.splits list.splits)
  from validated_health_startable [OF n, of c 512] c show ?thesis by (simp add: n)
qed

end
