(* ===== verification/Backend_Registry.thy ===== *)
theory Backend_Registry
  imports Backend_Facts "HOL-Library.Multiset"
begin

text \<open>
  The registry that lets successive snapshots share the state of a backend
  (\<open>internal/balancer/backend_state.go\<close>): \<open>Reserve\<close>, \<open>Reused\<close>, \<open>Activate\<close> and \<open>Close\<close>. The
  shared records live at addresses, as the code's pointers do; the leases taken so far are a
  list, a lease being named by its position. The registry's mutex makes each operation atomic.
\<close>

datatype backendIdentity = BackendIdentity go_string go_string go_string

record registeredBackendState =
  reg_state :: addr
  reg_refs :: int

record backendStateReservation =
  res_key :: backendIdentity
  res_backend :: addr
  res_shared :: addr
  res_reused :: bool

record BackendStateLease =
  lease_pool :: addr
  lease_entries :: "backendStateReservation list"
  lease_active :: bool
  lease_closed :: bool

record registry =
  rg_states :: "backendIdentity \<rightharpoonup> addr"
  rg_shared :: "addr \<Rightarrow> registeredBackendState"
  rg_next :: addr
  rg_leases :: "BackendStateLease list"
  rg_world :: world

definition NewBackendStateRegistry :: "world \<Rightarrow> registry" where
  "NewBackendStateRegistry w =
     \<lparr>rg_states = Map.empty, rg_shared = (\<lambda>h. \<lparr>reg_state = 0, reg_refs = 0\<rparr>), rg_next = 0,
      rg_leases = [], rg_world = w\<rparr>"

definition reserve_entry ::
    "go_string \<Rightarrow> addr \<Rightarrow> registry \<Rightarrow> backendStateReservation \<times> registry" where
  "reserve_entry scope b r =
     (let be = w_backends (rg_world r) b;
          key = BackendIdentity scope (b_id be) (u_text (b_URL be));
          reused = (rg_states r key \<noteq> None);
          (h, r) = (case rg_states r key of
              Some h \<Rightarrow> (h, r)
            | None \<Rightarrow>
                (rg_next r,
                 r\<lparr>rg_shared := (rg_shared r)(rg_next r := \<lparr>reg_state = b_state be, reg_refs = 0\<rparr>),
                   rg_states := (rg_states r)(key \<mapsto> rg_next r), rg_next := rg_next r + 1\<rparr>));
          sh = rg_shared r h
      in (\<lparr>res_key = key, res_backend = b, res_shared = h, res_reused = reused\<rparr>,
          r\<lparr>rg_shared := (rg_shared r)(h := sh\<lparr>reg_refs := reg_refs sh + 1\<rparr>)\<rparr>))"

fun reserve_entries ::
    "go_string \<Rightarrow> addr list \<Rightarrow> registry \<Rightarrow> backendStateReservation list \<times> registry" where
  "reserve_entries scope [] r = ([], r)"
| "reserve_entries scope (b # bs) r =
     (let (e, r) = reserve_entry scope b r; (es, r) = reserve_entries scope bs r in (e # es, r))"

definition Reserve :: "go_string \<Rightarrow> addr \<Rightarrow> registry \<Rightarrow> registry" where
  "Reserve scope p r =
     (let (es, r) = reserve_entries scope (p_all (w_pools (rg_world r) p)) r
      in r\<lparr>rg_leases := rg_leases r @ [\<lparr>lease_pool = p, lease_entries = es, lease_active = False,
                                        lease_closed = False\<rparr>]\<rparr>)"

definition Reused :: "BackendStateLease \<Rightarrow> addr \<Rightarrow> bool" where
  "Reused lease b =
     (case first_match (\<lambda>e. res_backend e = b) (lease_entries lease) of
        Some e \<Rightarrow> res_reused e | None \<Rightarrow> False)"

text \<open>One turn of the loop of \<open>Activate\<close>: the state after the locked section, and the world.\<close>

definition activated_state ::
    "bool \<Rightarrow> bool \<Rightarrow> bool \<Rightarrow> bool \<Rightarrow> int \<Rightarrow> addr \<Rightarrow> instant \<Rightarrow> backendState \<Rightarrow> backendState" where
  "activated_state refreshHealth reused disabled warmedHealthy maxConcurrent p now s =
     (let s = s\<lparr>s_pools := List.insert p (s_pools s), s_healthOwner := Some p\<rparr>;
          s = (if refreshHealth \<and> reused \<and> \<not> IsEjected s now
               then snd (setAliveLocked warmedHealthy now s) else s);
          s = (if s_configuredDisabled s \<noteq> disabled
               then s\<lparr>s_configuredDisabled := disabled, s_enabled := (\<not> disabled), s_draining := False\<rparr>
               else s)
      in s\<lparr>s_maxConcurrent := maxConcurrent\<rparr>)"

definition activate_entry ::
    "addr \<Rightarrow> bool \<Rightarrow> instant \<Rightarrow> (addr \<Rightarrow> registeredBackendState) \<Rightarrow> backendStateReservation \<Rightarrow> world \<Rightarrow> world" where
  "activate_entry p refreshHealth now shared e w =
     (let b = res_backend e; own = state_of w b; a = reg_state (shared (res_shared e));
          w = w\<lparr>w_backends := (w_backends w)(b := (w_backends w b)\<lparr>b_state := a\<rparr>)\<rparr>;
          s = activated_state refreshHealth (res_reused e) (s_configuredDisabled own) (s_healthy own)
                (pp_MaxConcurrentRequests (p_policy (w_pools w p))) p now (w_states w a)
      in invalidateLocked a (set_state w a s))"

definition Activate :: "nat \<Rightarrow> bool \<Rightarrow> instant \<Rightarrow> registry \<Rightarrow> registry" where
  "Activate i refreshHealth now r =
     (let lease = rg_leases r ! i in
      if lease_closed lease \<or> lease_active lease then r
      else r\<lparr>rg_leases := (rg_leases r)[i := lease\<lparr>lease_active := True\<rparr>],
             rg_world := fold (activate_entry (lease_pool lease) refreshHealth now (rg_shared r))
                           (lease_entries lease) (rg_world r)\<rparr>)"

definition close_entry :: "addr \<Rightarrow> bool \<Rightarrow> backendStateReservation \<Rightarrow> registry \<Rightarrow> registry" where
  "close_entry p active e r =
     (let h = res_shared e; sh = rg_shared r h; a = reg_state sh;
          r = (if active
               then r\<lparr>rg_world := set_state (rg_world r) a ((w_states (rg_world r) a)\<lparr>s_pools :=
                        removeAll p (s_pools (w_states (rg_world r) a))\<rparr>)\<rparr>
               else r);
          sh = sh\<lparr>reg_refs := reg_refs sh - 1\<rparr>;
          r = r\<lparr>rg_shared := (rg_shared r)(h := sh)\<rparr>
      in if reg_refs sh = 0 then r\<lparr>rg_states := (rg_states r)(res_key e := None)\<rparr> else r)"

definition Close :: "nat \<Rightarrow> registry \<Rightarrow> registry" where
  "Close i r =
     (let lease = rg_leases r ! i in
      if lease_closed lease then r
      else fold (close_entry (lease_pool lease) (lease_active lease)) (lease_entries lease)
             (r\<lparr>rg_leases := (rg_leases r)[i := lease\<lparr>lease_closed := True\<rparr>]\<rparr>))"

section \<open>The reference counts\<close>

text \<open>The pairs of key and shared record that the open leases hold.\<close>

definition held_pairs :: "backendStateReservation list \<Rightarrow> (backendIdentity \<times> addr) multiset" where
  "held_pairs es = mset (map (\<lambda>e. (res_key e, res_shared e)) es)"

definition lease_pairs :: "BackendStateLease \<Rightarrow> (backendIdentity \<times> addr) multiset" where
  "lease_pairs l = (if lease_closed l then {#} else held_pairs (lease_entries l))"

definition open_pairs :: "BackendStateLease list \<Rightarrow> (backendIdentity \<times> addr) multiset" where
  "open_pairs leases = sum_list (map lease_pairs leases)"

text \<open>The invariant for a multiset of held pairs: the registered keys are the held ones, a
  shared record belongs to one key, and its count is the number of times it is held.\<close>

definition refs_inv :: "(backendIdentity \<times> addr) multiset \<Rightarrow> registry \<Rightarrow> bool" where
  "refs_inv M r \<longleftrightarrow>
     (\<forall>k h. rg_states r k = Some h \<longleftrightarrow> (k, h) \<in># M)
     \<and> (\<forall>k h. rg_states r k = Some h \<longrightarrow> h < rg_next r \<and> reg_refs (rg_shared r h) = int (count M (k, h)))
     \<and> (\<forall>k k' h. rg_states r k = Some h \<longrightarrow> rg_states r k' = Some h \<longrightarrow> k = k')"

definition registry_inv :: "registry \<Rightarrow> bool" where
  "registry_inv r \<longleftrightarrow> refs_inv (open_pairs (rg_leases r)) r"

lemma open_pairs_update:
  "i < length ls \<Longrightarrow> open_pairs (ls[i := l]) + lease_pairs (ls ! i) = open_pairs ls + lease_pairs l"
proof (induction ls arbitrary: i)
  case Nil
  then show ?case by simp
next
  case (Cons x ls)
  then show ?case by (cases i) (auto simp: open_pairs_def ac_simps)
qed

lemma reserve_entry_refs:
  assumes "refs_inv M r" and "reserve_entry scope b r = (e, r')"
  shows "refs_inv (add_mset (res_key e, res_shared e) M) r' \<and> rg_leases r' = rg_leases r
    \<and> rg_world r' = rg_world r \<and> res_reused e = (rg_states r (res_key e) \<noteq> None)"
proof -
  let ?be = "w_backends (rg_world r) b"
  let ?key = "BackendIdentity scope (b_id ?be) (u_text (b_URL ?be))"
  show ?thesis
  proof (cases "rg_states r ?key")
    case None
    then have none: "(?key, h) \<notin># M" for h using assms(1) unfolding refs_inv_def by (metis option.distinct(1))
    have fresh: "(k, rg_next r) \<notin># M" for k using assms(1) unfolding refs_inv_def by (metis less_irrefl)
    have cnt: "count M (?key, rg_next r) = 0" using none by (simp add: not_in_iff)
    have lt: "(k, h) \<in># M \<Longrightarrow> h < Suc (rg_next r)" for k h
      using assms(1) unfolding refs_inv_def by (metis less_SucI)
    show ?thesis
      using assms None none fresh cnt lt
      by (auto simp: reserve_entry_def Let_def refs_inv_def split: if_splits)
  next
    case (Some h)
    then show ?thesis
      using assms by (auto simp: reserve_entry_def Let_def refs_inv_def split: if_splits)
  qed
qed

lemma reserve_entries_refs:
  assumes "refs_inv M r" and "reserve_entries scope bs r = (es, r')"
  shows "refs_inv (held_pairs es + M) r' \<and> rg_leases r' = rg_leases r \<and> rg_world r' = rg_world r"
  using assms
proof (induction bs arbitrary: M r es)
  case Nil
  then show ?case by (simp add: held_pairs_def)
next
  case (Cons b bs)
  obtain e r1 where e: "reserve_entry scope b r = (e, r1)" by fastforce
  obtain es1 r2 where es: "reserve_entries scope bs r1 = (es1, r2)" by fastforce
  from Cons.prems(2) e es have eq: "es = e # es1" "r' = r2" by auto
  note h = reserve_entry_refs [OF Cons.prems(1) e]
  with Cons.IH [of "add_mset (res_key e, res_shared e) M" r1 es1] es eq
  show ?case by (simp add: held_pairs_def)
qed

lemma Reserve_inv [inv_intros]: "registry_inv r \<Longrightarrow> registry_inv (Reserve scope p r)"
proof -
  assume inv: "registry_inv r"
  obtain es r1 where es: "reserve_entries scope (p_all (w_pools (rg_world r) p)) r = (es, r1)" by fastforce
  from reserve_entries_refs [OF inv [unfolded registry_inv_def] es] es show ?thesis
    by (simp add: Reserve_def registry_inv_def open_pairs_def lease_pairs_def refs_inv_def add.commute)
qed

lemma Activate_inv [inv_intros]:
  assumes "registry_inv r" and "i < length (rg_leases r)"
  shows "registry_inv (Activate i refresh now r)"
proof -
  let ?l = "rg_leases r ! i"
  have "open_pairs ((rg_leases r)[i := ?l\<lparr>lease_active := True\<rparr>]) = open_pairs (rg_leases r)"
    using open_pairs_update [OF assms(2), of "?l\<lparr>lease_active := True\<rparr>"]
    by (cases "lease_closed ?l") (simp_all add: lease_pairs_def)
  with assms(1) show ?thesis
    by (simp add: Activate_def registry_inv_def Let_def refs_inv_def)
qed

lemma close_entry_fields [simp]:
  "rg_states (close_entry p active e r) =
     (if reg_refs (rg_shared r (res_shared e)) = 1 then (rg_states r)(res_key e := None) else rg_states r)"
  "rg_next (close_entry p active e r) = rg_next r"
  "rg_leases (close_entry p active e r) = rg_leases r"
  "reg_refs (rg_shared (close_entry p active e r) h) =
     (if h = res_shared e then reg_refs (rg_shared r h) - 1 else reg_refs (rg_shared r h))"
  by (simp_all add: close_entry_def Let_def)

lemma close_entry_refs:
  assumes inv: "refs_inv (add_mset (res_key e, res_shared e) M) r"
  shows "refs_inv M (close_entry p active e r) \<and> rg_leases (close_entry p active e r) = rg_leases r"
proof -
  let ?k = "res_key e" and ?h = "res_shared e" and ?r = "close_entry p active e r"
  have st: "rg_states r k = Some h \<longleftrightarrow> k = ?k \<and> h = ?h \<or> (k, h) \<in># M" for k h
    using inv by (simp add: refs_inv_def)
  have cnt: "rg_states r k = Some h \<Longrightarrow> h < rg_next r
      \<and> reg_refs (rg_shared r h) = int (count M (k, h)) + (if k = ?k \<and> h = ?h then 1 else 0)" for k h
    using inv unfolding refs_inv_def by (auto simp del: fun_upd_apply)
  have uniq: "rg_states r k = Some h \<Longrightarrow> rg_states r k' = Some h \<Longrightarrow> k = k'" for k k' h
    using inv unfolding refs_inv_def by blast
  have last: "reg_refs (rg_shared r ?h) = 1 \<longleftrightarrow> (?k, ?h) \<notin># M"
    using cnt [of ?k ?h] st [of ?k ?h] by (simp add: not_in_iff)
  have st': "rg_states ?r k = Some h \<longleftrightarrow> (k, h) \<in># M" for k h
    using st [of k h] st [of ?k h] st [of ?k ?h] last by auto
  have sub: "rg_states ?r k = Some h \<Longrightarrow> rg_states r k = Some h" for k h
    by (simp split: if_splits)
  have cnt': "h < rg_next ?r \<and> reg_refs (rg_shared ?r h) = int (count M (k, h))"
    if "rg_states ?r k = Some h" for k h
    using cnt [OF sub [OF that]] uniq [OF sub [OF that]] st [of ?k ?h] by auto
  have "\<forall>k k' h. rg_states ?r k = Some h \<longrightarrow> rg_states ?r k' = Some h \<longrightarrow> k = k'"
    using uniq sub by blast
  with st' cnt' show ?thesis unfolding refs_inv_def by (simp del: close_entry_fields(1,4))
qed

lemma close_entries_refs:
  "refs_inv (held_pairs es + M) r \<Longrightarrow>
   refs_inv M (fold (close_entry p active) es r) \<and> rg_leases (fold (close_entry p active) es r) = rg_leases r"
proof (induction es arbitrary: r)
  case Nil
  then show ?case by (simp add: held_pairs_def)
next
  case (Cons e es)
  from Cons.prems have "refs_inv (add_mset (res_key e, res_shared e) (held_pairs es + M)) r"
    by (simp add: held_pairs_def)
  from close_entry_refs [OF this, of p active] Cons.IH show ?case by simp
qed

lemma Close_inv [inv_intros]:
  assumes inv: "registry_inv r" and i: "i < length (rg_leases r)"
  shows "registry_inv (Close i r)"
proof (cases "lease_closed (rg_leases r ! i)")
  case True
  with inv show ?thesis by (simp add: Close_def)
next
  case False
  let ?l = "rg_leases r ! i"
  let ?ls = "(rg_leases r)[i := ?l\<lparr>lease_closed := True\<rparr>]"
  have "open_pairs (rg_leases r) = held_pairs (lease_entries ?l) + open_pairs ?ls"
    using open_pairs_update [OF i, of "?l\<lparr>lease_closed := True\<rparr>"] False
    by (simp add: lease_pairs_def add.commute)
  with inv have "refs_inv (held_pairs (lease_entries ?l) + open_pairs ?ls) (r\<lparr>rg_leases := ?ls\<rparr>)"
    by (simp add: registry_inv_def refs_inv_def)
  from close_entries_refs [OF this, of "lease_pool ?l" "lease_active ?l"] False show ?thesis
    by (simp add: Close_def Let_def registry_inv_def)
qed

text \<open>Every registry the program can reach.\<close>

inductive registry_reachable :: "registry \<Rightarrow> bool" where
  init: "registry_reachable (NewBackendStateRegistry w)"
| reserve: "registry_reachable r \<Longrightarrow> registry_reachable (Reserve scope p r)"
| activate: "registry_reachable r \<Longrightarrow> i < length (rg_leases r) \<Longrightarrow> registry_reachable (Activate i refresh now r)"
| close: "registry_reachable r \<Longrightarrow> i < length (rg_leases r) \<Longrightarrow> registry_reachable (Close i r)"
| other: "registry_reachable r \<Longrightarrow> registry_reachable (r\<lparr>rg_world := w\<rparr>)"

lemma registry_reachable_inv: "registry_reachable r \<Longrightarrow> registry_inv r"
proof (induction rule: registry_reachable.induct)
  case (init w)
  then show ?case
    by (simp add: NewBackendStateRegistry_def registry_inv_def refs_inv_def open_pairs_def)
next
  case (other r w)
  then show ?case by (simp add: registry_inv_def refs_inv_def)
qed (auto intro: inv_intros)

section \<open>Properties\<close>

lemma registry_empty:
  assumes "registry_reachable r" and "\<forall>l \<in> set (rg_leases r). lease_closed l"
  shows "rg_states r = Map.empty"
proof -
  from registry_reachable_inv [OF assms(1)]
  have "rg_states r k = Some h \<longleftrightarrow> (k, h) \<in># open_pairs (rg_leases r)" for k h
    by (auto simp: registry_inv_def refs_inv_def)
  moreover have "open_pairs ls = {#}" if "\<forall>l \<in> set ls. lease_closed l" for ls
    using that by (induction ls) (simp_all add: open_pairs_def lease_pairs_def)
  ultimately show ?thesis using assms(2) by (auto simp: fun_eq_iff) (metis not_None_eq)
qed

text \<open>C33. A shared backend state stays registered exactly as long as an open lease holds it: in
  every reachable registry a key maps to a record if and only if some lease that is not closed
  reserved it, the record's count is the number of those reservations, and with every lease
  closed the registry is empty.\<close>

theorem registry_refcounts:
  assumes "registry_reachable r"
  shows "(rg_states r k = Some h \<longleftrightarrow>
      (\<exists>l \<in> set (rg_leases r). \<not> lease_closed l
         \<and> (\<exists>e \<in> set (lease_entries l). res_key e = k \<and> res_shared e = h)))
    \<and> (rg_states r k = Some h \<longrightarrow>
        reg_refs (rg_shared r h) = int (count (open_pairs (rg_leases r)) (k, h)))
    \<and> ((\<forall>l \<in> set (rg_leases r). lease_closed l) \<longrightarrow> rg_states r = Map.empty)"
proof -
  from registry_reachable_inv [OF assms]
  have i: "rg_states r k = Some h \<longleftrightarrow> (k, h) \<in># open_pairs (rg_leases r)"
    "rg_states r k = Some h \<Longrightarrow> reg_refs (rg_shared r h) = int (count (open_pairs (rg_leases r)) (k, h))" for k h
    by (auto simp: registry_inv_def refs_inv_def)
  have m: "(k, h) \<in># open_pairs ls \<longleftrightarrow> (\<exists>l \<in> set ls. \<not> lease_closed l
      \<and> (\<exists>e \<in> set (lease_entries l). res_key e = k \<and> res_shared e = h))" for k h ls
    by (induction ls) (auto simp: open_pairs_def lease_pairs_def held_pairs_def)
  show ?thesis
    using i m [of k h "rg_leases r"] m [of _ _ "rg_leases r"] by (auto simp: fun_eq_iff) (metis option.exhaust)
qed

theorem registry_refcounts_witness:
  "rg_states (Close 0 (Reserve ''s'' 0 (NewBackendStateRegistry demo_world))) = Map.empty"
proof -
  let ?r = "Reserve ''s'' 0 (NewBackendStateRegistry demo_world)"
  have l: "length (rg_leases ?r) = 1 \<and> \<not> lease_closed (rg_leases ?r ! 0)"
    by (simp add: Reserve_def NewBackendStateRegistry_def demo_pools reserve_entry_def split_def Let_def
        split: option.splits)
  have closed: "rg_leases (fold (close_entry p a) es r) = rg_leases r" for p a es r
    by (induction es arbitrary: r) simp_all
  from l obtain x where x: "rg_leases ?r = [x]" by (metis One_nat_def length_0_conv length_Suc_conv)
  have "registry_reachable (Close 0 ?r)"
    using l by (intro registry_reachable.intros) auto
  moreover have "rg_leases (Close 0 ?r) = [x\<lparr>lease_closed := True\<rparr>]"
    using l unfolding Close_def Let_def x by (simp add: closed x)
  then have "\<forall>l \<in> set (rg_leases (Close 0 ?r)). lease_closed l" by (simp only: list.set) simp
  ultimately show ?thesis using registry_refcounts by blast
qed

end
