(* ===== verification/Runtime.thy ===== *)
theory Runtime
  imports Gateway_Normalize Backend_Registry
begin

text \<open>
  Snapshots of the gateway (\<open>internal/gateway/runtime.go\<close>): a configuration built into pools, load
  balancers, health checkers and leases on shared backend states. What the outside world answers
  while a snapshot is built is an \<open>env\<close>: URL parsing, probes, loading of TLS files, whether the
  warm-up of a cluster or the whole operation was cancelled, cookies, and the digest of a
  configuration.
\<close>

record env =
  ev_parse :: url_parser
  ev_EscapedPath :: "url \<Rightarrow> go_string"
  ev_PathUnescape :: "go_string \<Rightarrow> go_string option"
  ev_Cookie :: "request \<Rightarrow> go_string \<Rightarrow> go_string option"
  ev_dial :: "go_string \<Rightarrow> bool"
  ev_get :: "url \<Rightarrow> int option"
  ev_tls :: "ClientTLSConfig \<Rightarrow> go_string option"
  ev_warmDone :: "go_string \<Rightarrow> bool"
  ev_opDone :: bool
  ev_hash :: "GatewayConfig \<Rightarrow> go_string"

record DiscoveryStatus =
  ds_Type :: go_string
  ds_LastUpdate :: "instant option"
  ds_Stale :: bool
  ds_Error :: go_string

record runtimeCluster =
  rk_config :: GatewayClusterConfig
  rk_pool :: addr
  rk_lb :: retryTransport
  rk_health :: "HealthChecker option"
  rk_lease :: nat
  rk_refreshHealth :: bool
  rk_discovery :: DiscoveryStatus

record runtimeSnapshot =
  ss_config :: GatewayConfig
  ss_revision :: uint64
  ss_previousRevision :: uint64
  ss_hash :: go_string
  ss_appliedAt :: instant
  ss_listeners :: "(go_string \<times> GatewayListenerConfig) list"
  ss_defaultListener :: go_string
  ss_routes :: "compiledRoute list"
  ss_clusters :: "(go_string \<times> runtimeCluster) list"
  ss_refs :: int
  ss_retired :: bool
  ss_closed :: bool

section \<open>Building a cluster\<close>

definition rendezvousKey :: "env \<Rightarrow> go_string \<Rightarrow> request \<Rightarrow> go_string" where
  "rendezvousKey ev expression request =
     (let parts = SplitN2 expression (CHR '':''); fallback = Header_Get (rq_Header request) ''X-Request-ID''
      in if hd parts = ''client_ip'' then rq_clientIP request
         else if hd parts = ''header'' \<and> length parts = 2 then Header_Get (rq_Header request) (parts ! 1)
         else if hd parts = ''cookie'' \<and> length parts = 2
         then (case ev_Cookie ev request (parts ! 1) of Some v \<Rightarrow> v | None \<Rightarrow> fallback)
         else if hd parts = ''host'' then rq_Host request
         else if hd parts = ''path'' then ev_EscapedPath ev (rq_URL request)
         else fallback)"

definition clusterStrategy :: "env \<Rightarrow> GatewayClusterConfig \<Rightarrow> go_string + request Strategy" where
  "clusterStrategy ev value =
     (if gc_Strategy value = ''round_robin'' then Inr NewRoundRobinStrategy
      else if gc_Strategy value = ''weighted_round_robin'' then Inr NewWeightedRoundRobinStrategy
      else if gc_Strategy value = ''least_request'' then Inr NewLeastRequestStrategy
      else if gc_Strategy value = ''rendezvous''
      then Inr (NewRendezvousStrategy (Some (rendezvousKey ev (gc_HashKey value))))
      else Inl ''unsupported strategy'')"

text \<open>\<open>clusterTransport\<close>: only whether the transport can be made; the transport is the library's.\<close>

definition clusterTransport :: "env \<Rightarrow> GatewayClusterConfig \<Rightarrow> go_string option" where
  "clusterTransport ev value =
     (case ev_tls ev (gc_TLS value) of
        Some err \<Rightarrow> Some err
      | None \<Rightarrow>
          if gtc_Protocol (gc_Transport value) \<in> {''auto'', ''http1'', ''http2'', ''h2c''} then None
          else Some ''unsupported transport protocol'')"

definition endpoint_spec :: "GatewayEndpointConfig \<Rightarrow> BackendSpec" where
  "endpoint_spec e = \<lparr>spec_ID = ge_ID e, spec_URL = ge_URL e, spec_Weight = ge_Weight e, spec_Disabled = ge_Disabled e\<rparr>"

definition cluster_maxConcurrent :: "GatewayClusterConfig \<Rightarrow> int" where
  "cluster_maxConcurrent value =
     (let n = gtc_MaxConcurrentRequests (gc_Transport value) in if n < 1 then 512 else n)"

definition cluster_policy :: "GatewayClusterConfig \<Rightarrow> PassivePolicy" where
  "cluster_policy value =
     (let h = healthSettings (gc_Health value) (cluster_maxConcurrent value)
      in \<lparr>pp_FailureThreshold = max 1 (hs_FailureThreshold h), pp_Cooldown = hs_Cooldown h,
          pp_MaxConcurrentRequests = cluster_maxConcurrent value, pp_SlowStart = hs_SlowStart h,
          pp_SlowStartMinimum = hs_SlowStartMinimum h\<rparr>)"

definition refresh_health :: "runtimeCluster option \<Rightarrow> GatewayClusterConfig \<Rightarrow> bool" where
  "refresh_health previous value =
     (case previous of
        None \<Rightarrow> True
      | Some k \<Rightarrow> gc_Health (rk_config k) \<noteq> gc_Health value \<or> gc_TLS (rk_config k) \<noteq> gc_TLS value
          \<or> gtc_Protocol (gc_Transport (rk_config k)) \<noteq> gtc_Protocol (gc_Transport value))"

text \<open>The warm-up of a new cluster: an error, or the world with the probes recorded.\<close>

definition warm_cluster ::
    "env \<Rightarrow> go_string \<Rightarrow> HealthChecker \<Rightarrow> HealthSettings \<Rightarrow> addr list \<Rightarrow> bool \<Rightarrow> addr \<Rightarrow> instant \<Rightarrow> world
     \<Rightarrow> go_string option \<times> world" where
  "warm_cluster ev cid checker health probes reusesEnabled p now w =
     (let rounds = CheckBackends (ev_dial ev) (ev_get ev) (\<lambda>b. ev_warmDone ev cid) checker probes now;
          w = (rounds ^^ nat (hs_SuccessThreshold health)) w
      in if ev_warmDone ev cid then (Some ''health warmup'', w)
         else if list_ex (\<lambda>b. s_enabled (state_of w b)) (p_all (w_pools w p)) \<and> \<not> reusesEnabled
         then (case Pool_Ready p now w of
                 (True, w) \<Rightarrow> (None, w)
               | (False, w) \<Rightarrow> (Some ''no enabled endpoint passed warmup'', w))
         else (None, w))"

text \<open>What \<open>buildCluster\<close> does once the pool exists and its states are reserved.\<close>

definition build_reserved ::
    "env \<Rightarrow> GatewayClusterConfig \<Rightarrow> runtimeCluster option \<Rightarrow> addr \<Rightarrow> nat \<Rightarrow> instant \<Rightarrow> registry
     \<Rightarrow> (go_string + runtimeCluster) \<times> world" where
  "build_reserved ev value previous p i now r =
     (let w = rg_world r; health = healthSettings (gc_Health value) (cluster_maxConcurrent value) in
      case clusterTransport ev value of
        Some err \<Rightarrow> (Inl err, w)
      | None \<Rightarrow>
          (case clusterStrategy ev value of
             Inl err \<Rightarrow> (Inl err, w)
           | Inr strategy \<Rightarrow>
               (let refresh = refresh_health previous value;
                    cluster = \<lparr>rk_config = value, rk_pool = p,
                      rk_lb = NewLoadBalancer p strategy (Some (retryPolicy (gc_Retry value))) now,
                      rk_health = None, rk_lease = i, rk_refreshHealth = refresh,
                      rk_discovery = \<lparr>ds_Type = gdc_Type (gc_Discovery value), ds_LastUpdate = None,
                        ds_Stale = False, ds_Error = []\<rparr>\<rparr>;
                    backends = p_all (w_pools w p); lease = rg_leases r ! i
                in if \<not> ghc_Enabled (gc_Health value)
                   then (Inr cluster, fold (\<lambda>b. SetAlive b True now) backends w)
                   else
                     (case NewHealthChecker p health w of
                        Inl err \<Rightarrow> (Inl err, w)
                      | Inr (checker, w) \<Rightarrow>
                          (let cluster = cluster\<lparr>rk_health := Some checker\<rparr>;
                               probes = filter (\<lambda>b. \<not> Reused lease b \<or> refresh) backends;
                               reusesEnabled = list_ex (\<lambda>b. Reused lease b \<and> \<not> refresh \<and> s_enabled (state_of w b)) backends
                           in if probes = [] then (Inr cluster, w)
                              else
                                (case warm_cluster ev (gc_ID value) checker health probes reusesEnabled p now w of
                                   (Some err, w) \<Rightarrow> (Inl err, w)
                                 | (None, w) \<Rightarrow> (Inr cluster, w)))))))"

definition buildCluster ::
    "env \<Rightarrow> GatewayClusterConfig \<Rightarrow> runtimeCluster option \<Rightarrow> instant \<Rightarrow> registry
     \<Rightarrow> (go_string + runtimeCluster) \<times> registry" where
  "buildCluster ev value previous now r =
     (case NewBackendPool (ev_parse ev) (map endpoint_spec (gc_Endpoints value)) (Some (cluster_policy value)) now
             (rg_world r) of
        Inl err \<Rightarrow> (Inl err, r)
      | Inr (p, w) \<Rightarrow>
          (let r = Reserve (gc_ID value) p (r\<lparr>rg_world := w\<rparr>); i = length (rg_leases r) - 1
           in case build_reserved ev value previous p i now r of
                (Inl err, w) \<Rightarrow> (Inl err, Close i (r\<lparr>rg_world := w\<rparr>))
              | (Inr cluster, w) \<Rightarrow> (Inr cluster, r\<lparr>rg_world := w\<rparr>)))"

section \<open>Building a snapshot\<close>

definition close_clusters :: "(go_string \<times> runtimeCluster) list \<Rightarrow> registry \<Rightarrow> registry" where
  "close_clusters clusters r = fold (\<lambda>(cid, k). Close (rk_lease k)) clusters r"

definition inherit_status :: "runtimeCluster option \<Rightarrow> runtimeCluster \<Rightarrow> runtimeCluster" where
  "inherit_status previous k =
     (case previous of
        Some q \<Rightarrow> if gc_Discovery (rk_config q) = gc_Discovery (rk_config k)
                   then k\<lparr>rk_discovery := rk_discovery q\<rparr> else k
      | None \<Rightarrow> k)"

fun build_clusters ::
    "env \<Rightarrow> (go_string \<times> runtimeCluster) list \<Rightarrow> instant \<Rightarrow> GatewayClusterConfig list
     \<Rightarrow> (go_string \<times> runtimeCluster) list \<Rightarrow> registry
     \<Rightarrow> (go_string + (go_string \<times> runtimeCluster) list) \<times> registry" where
  "build_clusters ev current now [] built r = (Inr built, r)"
| "build_clusters ev current now (c # cs) built r =
     (let previous = map_of current (gc_ID c) in
      case buildCluster ev c previous now r of
        (Inl err, r) \<Rightarrow> (Inl err, close_clusters built r)
      | (Inr k, r) \<Rightarrow> build_clusters ev current now cs (AList.update (gc_ID c) (inherit_status previous k) built) r)"

definition default_listener_id :: "GatewayListenerConfig list \<Rightarrow> go_string" where
  "default_listener_id ls =
     (case rev (filter gl_Default ls) of
        l # _ \<Rightarrow> gl_ID l
      | [] \<Rightarrow> (case ls of [] \<Rightarrow> [] | l # _ \<Rightarrow> gl_ID l))"

definition buildSnapshot ::
    "env \<Rightarrow> Defaults \<Rightarrow> GatewayConfig option \<Rightarrow> uint64 \<Rightarrow> uint64 \<Rightarrow> runtimeSnapshot option \<Rightarrow> instant \<Rightarrow> registry
     \<Rightarrow> (go_string + runtimeSnapshot) \<times> registry" where
  "buildSnapshot ev d config revision previous current now r =
     (case normalizeConfig (ev_parse ev) d config of
        Inl err \<Rightarrow> (Inl err, r)
      | Inr n \<Rightarrow>
          (case build_clusters ev (case current of None \<Rightarrow> [] | Some s \<Rightarrow> ss_clusters s) now (gg_Clusters n) [] r of
             (Inl err, r) \<Rightarrow> (Inl err, r)
           | (Inr clusters, r) \<Rightarrow>
               (Inr \<lparr>ss_config = n, ss_revision = revision, ss_previousRevision = previous, ss_hash = ev_hash ev n,
                  ss_appliedAt = now, ss_listeners = map (\<lambda>l. (gl_ID l, l)) (gg_Listeners n),
                  ss_defaultListener = default_listener_id (gg_Listeners n),
                  ss_routes = compileRoutes now (gg_Routes n), ss_clusters = clusters, ss_refs = 0,
                  ss_retired = False, ss_closed = False\<rparr>, r)))"

definition validateListener :: "runtimeSnapshot \<Rightarrow> go_string \<Rightarrow> GatewayListenerConfig option" where
  "validateListener s listenerID =
     map_of (ss_listeners s) (if listenerID = [] then ss_defaultListener s else listenerID)"

section \<open>The life of a snapshot\<close>

definition snapshot_activate :: "instant \<Rightarrow> runtimeSnapshot \<Rightarrow> registry \<Rightarrow> registry" where
  "snapshot_activate now s r = fold (\<lambda>(cid, k). Activate (rk_lease k) (rk_refreshHealth k) now) (ss_clusters s) r"

definition snapshot_close :: "runtimeSnapshot \<Rightarrow> registry \<Rightarrow> runtimeSnapshot \<times> registry" where
  "snapshot_close s r =
     (if ss_closed s then (s, r) else (s\<lparr>ss_closed := True\<rparr>, close_clusters (ss_clusters s) r))"

definition snapshot_release :: "runtimeSnapshot \<Rightarrow> registry \<Rightarrow> runtimeSnapshot \<times> registry" where
  "snapshot_release s r =
     (let s = s\<lparr>ss_refs := ss_refs s - 1\<rparr>
      in if ss_refs s = 0 \<and> ss_retired s then snapshot_close s r else (s, r))"

definition snapshot_acquire :: "runtimeSnapshot \<Rightarrow> registry \<Rightarrow> bool \<times> runtimeSnapshot \<times> registry" where
  "snapshot_acquire s r =
     (let s = s\<lparr>ss_refs := ss_refs s + 1\<rparr>
      in if ss_retired s then (False, snapshot_release s r) else (True, s, r))"

definition snapshot_retire :: "runtimeSnapshot \<Rightarrow> registry \<Rightarrow> runtimeSnapshot \<times> registry" where
  "snapshot_retire s r =
     (let s = s\<lparr>ss_retired := True\<rparr>
      in if ss_refs s = 0 then snapshot_close s r else (s, r))"

definition setDiscovery :: "DiscoveryStatus \<Rightarrow> runtimeCluster \<Rightarrow> runtimeCluster" where
  "setDiscovery status k = k\<lparr>rk_discovery := status\<rparr>"

end
