(* ===== verification/Proxy_Facts.thy ===== *)
theory Proxy_Facts
  imports Proxy
begin

text \<open>
  What the proxy guarantees: slots taken are given back, attempts go to distinct backends, every
  retry is paid from the budget, selection terminates, and forged proxy headers do not reach a
  backend.
\<close>

section \<open>What the operations leave alone\<close>

definition infl :: "world \<Rightarrow> addr \<Rightarrow> int" where
  "infl w a = s_inflight (w_states w a)"

definition slot :: "world \<Rightarrow> addr \<Rightarrow> addr \<Rightarrow> int" where
  "slot w b a = (if a = b_state (w_backends w b) then 1 else 0)"

definition avail_ok :: "addr \<Rightarrow> world \<Rightarrow> bool" where
  "avail_ok p w \<longleftrightarrow> set (p_available (w_pools w p)) \<subseteq> set (p_all (w_pools w p))
     \<and> length (p_available (w_pools w p)) \<le> length (p_all (w_pools w p))
     \<and> length (p_all (w_pools w p)) < 2 ^ 64"

definition framed :: "addr \<Rightarrow> world \<Rightarrow> world \<Rightarrow> bool" where
  "framed p w w' \<longleftrightarrow> w_backends w' = w_backends w
     \<and> p_all (w_pools w' p) = p_all (w_pools w p) \<and> (avail_ok p w \<longrightarrow> avail_ok p w')"

lemma framed_refl: "framed p w w" by (simp add: framed_def)
lemma framed_trans: "framed p w w' \<Longrightarrow> framed p w' w'' \<Longrightarrow> framed p w w''" by (simp add: framed_def)

lemma fold_invalidate_lists:
  "p_all (w_pools (fold (\<lambda>p w. set_pool w p (invalidate_pool u (w_pools w p))) ps w) q) = p_all (w_pools w q)
   \<and> p_available (w_pools (fold (\<lambda>p w. set_pool w p (invalidate_pool u (w_pools w p))) ps w) q) = p_available (w_pools w q)"
  by (induction ps arbitrary: w) auto

lemma state_step_framed: "framed p w (state_step a c s w)"
  by (simp add: framed_def avail_ok_def state_step_def refreshAvailability_def invalidateLocked_def Let_def
      fold_invalidate_lists)

lemma framed_ops:
  "framed p w (RecordRequest b w)" "framed p w (Release b w)" "framed p w (snd (TryAcquire b now w))"
  "framed p w (RecordPassiveFailure b policy now w)" "framed p w (RecordPassiveSuccess b w)"
  "framed p w (recoverExpiredEjection b now w)"
  by (simp_all add: op_steps Let_def state_step_framed framed_refl)

lemma infl_ops [simp]:
  "infl (RecordRequest b w) = infl w"
  "infl (RecordPassiveFailure b policy now w) = infl w"
  "infl (RecordPassiveSuccess b w) = infl w"
  "infl (recoverExpiredEjection b now w) = infl w"
  by (auto simp: infl_def op_steps Let_def fun_eq_iff)

lemma infl_Release: "0 < infl w (b_state (w_backends w b)) \<Longrightarrow> infl (Release b w) a = infl w a - slot w b a"
  by (auto simp: infl_def op_steps Let_def slot_def)

lemma infl_TryAcquire:
  "infl (snd (TryAcquire b now w)) a = infl w a + (if fst (TryAcquire b now w) then slot w b a else 0)"
  by (auto simp: infl_def op_steps Let_def slot_def)

lemma refreshAvailable_framed: "framed p w (refreshAvailable q now w)"
  by (auto simp: framed_def avail_ok_def refreshAvailable_def Let_def intro: le_less_trans)

lemma infl_refreshAvailable [simp]: "infl (refreshAvailable q now w) = infl w"
  by (rule ext) (simp add: infl_def)

lemma recover_scan_framed:
  "framed p w (snd (recover_scan now bs e w)) \<and> infl (snd (recover_scan now bs e w)) = infl w"
proof (induction bs arbitrary: e w)
  case Nil
  then show ?case by (simp add: framed_refl)
next
  case (Cons b bs)
  let ?w = "recoverExpiredEjection b now w"
  from Cons.IH [where w = ?w] framed_trans [OF framed_ops(6) [of p w b now]] show ?case
    by (simp add: Let_def)
qed

lemma set_pool_framed:
  "p_all q = p_all (w_pools w x) \<Longrightarrow> p_available q = p_available (w_pools w x) \<Longrightarrow> framed p w (set_pool w x q)"
  by (simp add: framed_def avail_ok_def)

lemma infl_set_pool [simp]: "infl (set_pool w x q) = infl w"
  by (rule ext) (simp add: infl_def)

lemma recoverExpiredEjections_framed:
  "framed p w (recoverExpiredEjections q now w) \<and> infl (recoverExpiredEjections q now w) = infl w"
proof -
  let ?w0 = "set_pool w q ((w_pools w q)\<lparr>p_nextRecovery := 0\<rparr>)"
  let ?r = "recover_scan now (p_all (w_pools ?w0 q)) 0 ?w0"
  let ?w2 = "if fst ?r > 0 then set_pool (snd ?r) q (scheduleRecovery (w_pools (snd ?r) q) (fst ?r)) else snd ?r"
  have a: "framed p w ?w0" by (rule set_pool_framed) simp_all
  note b = recover_scan_framed [of p ?w0 now "p_all (w_pools ?w0 q)" 0]
  have c: "framed p (snd ?r) ?w2"
    by (auto intro!: set_pool_framed framed_refl simp: scheduleRecovery_def Let_def)
  have d: "framed p ?w2 (refreshAvailable q now ?w2)" by (rule refreshAvailable_framed)
  have "framed p w (refreshAvailable q now ?w2)"
    using framed_trans [OF framed_trans [OF framed_trans [OF a]] d] b c by blast
  moreover have "infl (refreshAvailable q now ?w2) = infl w" using b by simp
  ultimately show ?thesis
    by (simp add: recoverExpiredEjections_def Let_def split_def framed_refl del: set_pool_simps)
qed

lemma AvailableBackends_weak:
  assumes "AvailableBackends p now w = (bs, w')" and "avail_ok p w"
  shows "framed p w w' \<and> infl w' = infl w \<and> set bs \<subseteq> set (p_all (w_pools w p)) \<and> length bs < 2 ^ 64"
proof -
  define w1 where "w1 = (if p_nextRecovery (w_pools w p) > 0 \<and> now \<ge> p_nextRecovery (w_pools w p)
      then recoverExpiredEjections p now w else w)"
  define w2 where "w2 = (if p_stateVersion (w_pools w1 p) \<noteq> p_cacheVersion (w_pools w1 p)
      then refreshAvailable p now w1 else w1)"
  have eq: "bs = p_available (w_pools w2 p)" "w' = w2"
    using assms(1) unfolding AvailableBackends_def Let_def w1_def w2_def by (auto simp only: prod.inject)
  have 1: "framed p w w1" "infl w1 = infl w"
    using recoverExpiredEjections_framed by (auto simp: w1_def framed_refl)
  have 2: "framed p w1 w2" "infl w2 = infl w1"
    using refreshAvailable_framed by (auto simp: w2_def framed_refl)
  from framed_trans [OF 1(1) 2(1)] assms(2) have "framed p w w2" "avail_ok p w2"
    by (auto simp: framed_def)
  then show ?thesis unfolding eq using 1 2 by (auto simp: framed_def avail_ok_def)
qed

section \<open>Selection terminates and takes one slot\<close>

lemma next_peer_ok:
  assumes "next_peer request excluded now t w = (b, t', w')" and "avail_ok (rt_pool t) w"
  shows "framed (rt_pool t) w w' \<and> infl w' = infl w
    \<and> rt_pool t' = rt_pool t \<and> rt_budget t' = rt_budget t \<and> rt_policy t' = rt_policy t
    \<and> (\<forall>x. b = Some x \<longrightarrow> x \<in> set (p_all (w_pools w (rt_pool t))) \<and> bid w x \<notin> set excluded)"
proof -
  let ?p = "rt_pool t"
  obtain bs w1 where a: "AvailableBackends ?p now w = (bs, w1)" by fastforce
  note a1 = AvailableBackends_weak [OF a assms(2)]
  obtain r s where pk: "pick (rt_strategy t) w1 now excluded bs [] = (r, s)" by fastforce
  from a1 have ok1: "avail_ok ?p w1" and same: "w_backends w1 = w_backends w"
    "p_all (w_pools w1 ?p) = p_all (w_pools w ?p)" using assms(2) by (auto simp: framed_def)
  from a1 any_strategy.chosen_offered [of bs "(rt_strategy t, [])" w1 now excluded] pk
  have r: "r = Some x \<Longrightarrow> x \<in> set (p_all (w_pools w ?p)) \<and> bid w x \<notin> set excluded" for x
    by (auto simp: same)
  have g: "GetNextPeerExcluding (rt_strategy t) ?p excluded now w = (r, s, w1)"
    by (simp add: GetNextPeerExcluding_def a pk)
  show ?thesis
  proof (cases s)
    case (RendezvousStrategy key)
    obtain bs2 w2 where a2: "AvailableBackends ?p now w1 = (bs2, w2)" by fastforce
    note a3 = AvailableBackends_weak [OF a2 ok1]
    from a3 have same2: "w_backends w2 = w_backends w" using same by (simp add: framed_def)
    let ?k = "case key of None \<Rightarrow> [] | Some f \<Rightarrow> f request"
    from a3 rendezvous.chosen_offered [where bs = bs2 and s = ?k and w = w2 and now = now and excluded = excluded]
    have "selectBackend w2 now excluded bs2 ?k = Some x \<Longrightarrow>
        x \<in> set (p_all (w_pools w ?p)) \<and> bid w x \<notin> set excluded" for x
      by (auto simp: same same2)
    moreover have "framed ?p w w2" using a1 a3 framed_trans by blast
    ultimately show ?thesis
      using assms(1) g a1 a3
      by (auto simp: next_peer_def RendezvousStrategy GetNextPeerForRequest_def a2 Let_def)
  qed (use assms(1) g a1 r in \<open>auto simp: next_peer_def\<close>)
qed

definition pool_ids :: "retryTransport \<Rightarrow> world \<Rightarrow> go_string set" where
  "pool_ids t w = bid w ` set (p_all (w_pools w (rt_pool t)))"

lemma nextAvailableBackend_total:
  assumes "avail_ok (rt_pool t) w" and "card (pool_ids t w - set excluded) < n"
  shows "\<exists>r. nextAvailableBackend n request excluded now t w = Some r"
  using assms
proof (induction n arbitrary: excluded t w)
  case 0
  then show ?case by simp
next
  case (Suc n)
  obtain b t1 w1 where np: "next_peer request excluded now t w = (b, t1, w1)"
    by (metis surj_pair)
  note ok = next_peer_ok [OF np Suc.prems(1)]
  show ?case
  proof (cases b)
    case None
    with np show ?thesis by simp
  next
    case (Some x)
    obtain acq w2 where ta: "TryAcquire x now w1 = (acq, w2)" by fastforce
    have f: "framed (rt_pool t) w1 w2" using framed_ops(3) [of "rt_pool t" w1 x now] ta by simp
    have x: "bid w x \<in> pool_ids t w - set excluded" using ok Some by (auto simp: pool_ids_def)
    let ?t = "t1\<lparr>rt_events := rt_events t1 @ [ProtectionEvent ''backend_concurrency_limit'' (bid w2 x)]\<rparr>"
    have ids: "pool_ids ?t w2 = pool_ids t w" "bid w2 x = bid w x"
      using f ok by (auto simp: framed_def pool_ids_def)
    have "pool_ids t w - set (bid w x # excluded) = (pool_ids t w - set excluded) - {bid w x}" by auto
    moreover have "card (pool_ids t w - set excluded - {bid w x}) < card (pool_ids t w - set excluded)"
      by (rule card_Diff1_less [OF _ x]) (simp add: pool_ids_def)
    ultimately have "card (pool_ids t w - set (bid w x # excluded)) < n"
      using Suc.prems(2) by simp
    moreover have "pool_ids ?t w2 - set (bid w2 x # excluded) = pool_ids t w - set (bid w x # excluded)"
      unfolding ids(1) unfolding ids(2) ..
    ultimately have "card (pool_ids ?t w2 - set (bid w2 x # excluded)) < n" by (simp only:)
    moreover have "avail_ok (rt_pool ?t) w2" using f ok Suc.prems(1) by (simp add: framed_def)
    ultimately obtain r where "nextAvailableBackend n request (bid w2 x # excluded) now ?t w2 = Some r"
      using Suc.IH [of ?t w2 "bid w2 x # excluded"] by blast
    with np ta Some show ?thesis by (cases r) simp
  qed
qed

lemma nextAvailableBackend_ok:
  assumes "nextAvailableBackend n request excluded now t w = Some (r, excluded', t', w')"
    and "avail_ok (rt_pool t) w"
  shows "framed (rt_pool t) w w' \<and> set excluded \<subseteq> set excluded'
    \<and> rt_pool t' = rt_pool t \<and> rt_budget t' = rt_budget t
    \<and> (r = None \<longrightarrow> infl w' = infl w)
    \<and> (\<forall>b. r = Some b \<longrightarrow> bid w b \<notin> set excluded' \<and> b \<in> set (p_all (w_pools w (rt_pool t)))
         \<and> (\<forall>a. infl w' a = infl w a + slot w b a))"
  using assms
proof (induction n arbitrary: excluded t w)
  case 0
  then show ?case by simp
next
  case (Suc n)
  obtain b t1 w1 where np: "next_peer request excluded now t w = (b, t1, w1)"
    by (metis surj_pair)
  note ok = next_peer_ok [OF np Suc.prems(2)]
  show ?case
  proof (cases b)
    case None
    with np Suc.prems(1) ok show ?thesis by auto
  next
    case (Some x)
    obtain acq w2 where ta: "TryAcquire x now w1 = (acq, w2)" by fastforce
    have f: "framed (rt_pool t) w1 w2" using framed_ops(3) [of "rt_pool t" w1 x now] ta by simp
    have i: "infl w2 a = infl w a + (if acq then slot w x a else 0)" for a
      using infl_TryAcquire [of x now w1 a] ta ok by (simp add: slot_def framed_def)
    show ?thesis
    proof (cases acq)
      case True
      with np ta Some Suc.prems(1) have "r = Some x" "excluded' = excluded" "t' = t1" "w' = w2" by auto
      with ok Some f i True framed_trans show ?thesis by auto
    next
      case False
      let ?t = "t1\<lparr>rt_events := rt_events t1 @ [ProtectionEvent ''backend_concurrency_limit'' (bid w2 x)]\<rparr>"
      from False np ta Some Suc.prems(1)
      have rec: "nextAvailableBackend n request (bid w2 x # excluded) now ?t w2 = Some (r, excluded', t', w')"
        by simp
      have av: "avail_ok (rt_pool ?t) w2" using f ok Suc.prems(2) by (simp add: framed_def)
      have same: "w_backends w2 = w_backends w" "p_all (w_pools w2 (rt_pool t)) = p_all (w_pools w (rt_pool t))"
        using f ok by (auto simp: framed_def)
      have fr: "framed (rt_pool t) w w2" using ok f framed_trans by blast
      from Suc.IH [OF rec av] ok i False same framed_trans [OF fr] show ?thesis
        by (auto simp: slot_def fun_eq_iff)
    qed
  qed
qed


section \<open>The retry loop\<close>

lemma pool_fuel_enough: "card (pool_ids t w - X) < pool_fuel t w"
proof -
  have "card (pool_ids t w - X) \<le> card (pool_ids t w)" by (rule card_mono) (auto simp: pool_ids_def)
  also have "\<dots> \<le> length (p_all (w_pools w (rt_pool t)))"
    unfolding pool_ids_def by (meson card_image_le card_length le_trans finite_set)
  finally show ?thesis by (simp add: pool_fuel_def)
qed

lemma judge_ok: "framed p w (judge p b o0 failed aborted w) \<and> infl (judge p b o0 failed aborted w) = infl w"
  by (simp add: judge_def framed_ops framed_refl)

lemma after_attempt_ok:
  assumes "after_attempt b o0 w = (resp, w')" and "0 < infl w (b_state (w_backends w b))"
  shows "framed p w w' \<and> infl w' a = infl w a - (if resp = None then slot w b a else 0)
    \<and> (\<forall>r. resp = Some r \<longrightarrow> rs_backend r = b \<and> \<not> rs_released r)"
proof (cases "ao_response o0")
  case None
  have b: "w_backends (RecordRequest b w) = w_backends w"
    using framed_ops(1) [of p w b] by (simp add: framed_def)
  with None assms infl_Release [of "RecordRequest b w" b a] framed_trans [OF framed_ops(1,2)]
  show ?thesis by (auto simp: after_attempt_def slot_def)
next
  case (Some sh)
  with assms(1) framed_ops(1) show ?thesis by (auto simp: after_attempt_def split: prod.splits)
qed

text \<open>The slots a trip holds when it returns: one if it returns a response, none otherwise.\<close>

definition trip_slots :: "world \<Rightarrow> trip \<Rightarrow> addr \<Rightarrow> int" where
  "trip_slots w tr a = (case tr_response tr of None \<Rightarrow> 0 | Some r \<Rightarrow> slot w (rs_backend r) a)"

text \<open>One attempt, abstractly: it ends the trip, or the loop goes on with another backend after
  the budget granted a retry.\<close>

definition trip_ends :: "(addr \<Rightarrow> int) \<Rightarrow> world \<Rightarrow> addr list \<Rightarrow> RetryBudget \<Rightarrow> trip \<Rightarrow> bool" where
  "trip_ends i w dn budget tr \<longleftrightarrow>
     (\<forall>a. infl (tr_world tr) a = i a + trip_slots w tr a)
     \<and> w_backends (tr_world tr) = w_backends w
     \<and> tr_attempts tr = dn
     \<and> (\<exists>ts. rt_budget (tr_transport tr) = Some (snd (run_draws RetryBudget_Allow budget ts))
          \<and> fst (run_draws RetryBudget_Allow budget ts) = 0)
     \<and> (\<forall>r. tr_response tr = Some r \<longrightarrow> \<not> rs_released r)"

lemma no_draws:
  "\<exists>ts. Some budget = Some (snd (run_draws RetryBudget_Allow budget ts))
     \<and> fst (run_draws RetryBudget_Allow budget ts) = 0"
  by (rule exI [of _ "[]"]) simp

lemma failed_draw:
  "RetryBudget_Allow budget now = (False, budget') \<Longrightarrow>
   \<exists>ts. Some budget' = Some (snd (run_draws RetryBudget_Allow budget ts))
     \<and> fst (run_draws RetryBudget_Allow budget ts) = 0"
  by (rule exI [of _ "[now]"]) simp

lemma close_response_ok:
  assumes "\<forall>r. resp = Some r \<longrightarrow> rs_backend r = b \<and> \<not> rs_released r"
    and "resp \<noteq> None \<Longrightarrow> 0 < infl w (b_state (w_backends w b))"
  shows "framed p w (close_response resp w)
    \<and> infl (close_response resp w) a = infl w a - (if resp = None then 0 else slot w b a)"
  using assms infl_Release [of w b a] framed_ops(2)
  by (cases resp) (auto simp: close_response_def close_body_def framed_refl)

lemma event_simps [simp]:
  "rt_pool (attempt_event b k o0 resp w t) = rt_pool t" "rt_budget (attempt_event b k o0 resp w t) = rt_budget t"
  "rt_pool (exhausted_event b w t) = rt_pool t" "rt_budget (exhausted_event b w t) = rt_budget t"
  by (simp_all add: attempt_event_def exhausted_event_def)

lemma trip_result_simps [simp]:
  "tr_world (trip_result b k o0 resp dn rej t w) = w" "tr_attempts (trip_result b k o0 resp dn rej t w) = dn"
  "tr_transport (trip_result b k o0 resp dn rej t w) = t"
  by (simp_all add: trip_result_def)

lemma trip_result_slots:
  "\<forall>r. resp = Some r \<longrightarrow> rs_backend r = b \<and> \<not> rs_released r \<Longrightarrow>
   trip_slots w0 (trip_result b k o0 resp dn rej t w) a = (if resp = None then 0 else slot w0 b a)
   \<and> (\<forall>r. tr_response (trip_result b k o0 resp dn rej t w) = Some r \<longrightarrow> \<not> rs_released r)"
  by (cases resp) (auto simp: trip_result_def trip_slots_def)

lemma attempts_step:
  assumes av: "avail_ok (rt_pool t) w" and bud: "rt_budget t = Some budget"
    and i: "\<forall>a. infl w a = i a + slot w b a" "\<forall>a. 0 \<le> i a"
  shows "(\<exists>tr dn'. attempts E base policy request (Suc n) attempt b excluded t w dn = Some tr
         \<and> trip_ends i w dn' budget tr \<and> (dn' = dn \<or> dn' = dn @ [b]))
    \<or> (\<exists>b' excluded' t' w' now budget'.
         attempts E base policy request (Suc n) attempt b excluded t w dn =
           attempts E base policy request n (Suc attempt) b' excluded' t' w' (dn @ [b])
         \<and> n \<noteq> 0 \<and> framed (rt_pool t) w w' \<and> rt_pool t' = rt_pool t
         \<and> RetryBudget_Allow budget now = (True, budget') \<and> rt_budget t' = Some budget'
         \<and> set (bid w b # excluded) \<subseteq> set excluded' \<and> bid w b' \<notin> set excluded'
         \<and> (\<forall>a. infl w' a = i a + slot w b' a))"
proof (cases "cloneForAttempt E request (w_backends w b) attempt")
  case (Inl err)
  let ?tr = "\<lparr>tr_response = None, tr_error = Some (ErrBody err), tr_transport = t,
      tr_world = Release b w, tr_attempts = dn\<rparr>"
  from Inl have "attempts E base policy request (Suc n) attempt b excluded t w dn = Some ?tr" by simp
  moreover
  have held: "0 < infl w (b_state (w_backends w b))" using i by (simp add: slot_def add_nonneg_pos)
  then have "trip_ends i w dn budget ?tr"
    unfolding trip_ends_def using bud no_draws infl_Release [OF held] i framed_ops(2) [of 0 w b]
    by (simp add: trip_slots_def framed_def)
  ultimately show ?thesis by blast
next
  case (Inr out)
  let ?o = "base attempt out" and ?p = "rt_pool t"
  have held: "0 < infl w (b_state (w_backends w b))" using i by (simp add: slot_def add_nonneg_pos)
  obtain resp w1 where aa: "after_attempt b ?o w = (resp, w1)" by fastforce
  note a1 = after_attempt_ok [OF aa held, of ?p]
  let ?w2 = "judge ?p b ?o (attempt_failed policy ?o resp) (attempt_aborted ?o) w1"
  let ?t2 = "attempt_event b attempt ?o resp ?w2 t"
  have f2: "framed ?p w ?w2" using a1 judge_ok framed_trans by blast
  have i2: "infl ?w2 a = i a + (if resp = None then 0 else slot w b a)" for a
    using a1 [of a] judge_ok i(1) by simp
  have bk: "w_backends ?w2 = w_backends w" using f2 by (simp add: framed_def)
  from a1 have rb: "\<forall>r. resp = Some r \<longrightarrow> rs_backend r = b \<and> \<not> rs_released r" by blast
  have av2: "avail_ok (rt_pool ?t2) ?w2" using f2 av by (simp add: framed_def)
  have ends: "trip_ends i w (dn @ [b]) budget (trip_result b attempt ?o resp (dn @ [b]) rej t' w')"
    if "\<forall>a. infl w' a = i a + (if resp = None then 0 else slot w b a)" "w_backends w' = w_backends w"
      "\<exists>ts. rt_budget t' = Some (snd (run_draws RetryBudget_Allow budget ts))
         \<and> fst (run_draws RetryBudget_Allow budget ts) = 0" for rej t' w'
    unfolding trip_ends_def using that trip_result_slots [OF rb, of w attempt ?o "dn @ [b]" rej t' w'] by simp
  have fin: ?thesis
    if "attempts E base policy request (Suc n) attempt b excluded t w dn = Some tr"
      "trip_ends i w (dn @ [b]) budget tr" for tr using that by blast
  show ?thesis
  proof (cases "\<not> attempt_failed policy ?o resp \<or> n = 0 \<or> attempt_aborted ?o")
    case True
    with Inr aa have tr: "attempts E base policy request (Suc n) attempt b excluded t w dn =
        Some (trip_result b attempt ?o resp (dn @ [b]) False ?t2 ?w2)" by (auto simp: Let_def)
    show ?thesis by (rule fin [OF tr], rule ends) (use i2 bk bud no_draws [of budget] in simp_all)
  next
    case False
    obtain r excluded' t3 w3 where nx: "nextAvailableBackend (pool_fuel ?t2 ?w2) request (bid w b # excluded)
        (ao_time ?o) ?t2 ?w2 = Some (r, excluded', t3, w3)"
      using nextAvailableBackend_total [OF av2 pool_fuel_enough] by (metis surj_pair)
    note n1 = nextAvailableBackend_ok [OF nx av2]
    have f3: "framed ?p w w3" using n1 f2 framed_trans by simp
    have bk3: "w_backends w3 = w_backends w" using f3 by (simp add: framed_def)
    have bud3: "rt_budget t3 = Some budget" using n1 bud by simp
    show ?thesis
    proof (cases r)
      case None
      with Inr aa False nx have tr: "attempts E base policy request (Suc n) attempt b excluded t w dn =
          Some (trip_result b attempt ?o resp (dn @ [b]) False t3 w3)" by (auto simp: Let_def)
      have "infl w3 = infl ?w2" using n1 None by blast
      then show ?thesis
        by - (rule fin [OF tr], rule ends, (use i2 bk3 bud3 no_draws [of budget] in simp_all))
    next
      case (Some b')
      have i3: "infl w3 a = i a + (if resp = None then 0 else slot w b a) + slot w b' a" for a
        using n1 Some i2 bk by (simp add: slot_def)
      obtain ok budget' where al: "RetryBudget_Allow budget (ao_time ?o) = (ok, budget')" by fastforce
      let ?t4 = "t3\<lparr>rt_budget := Some budget'\<rparr>"
      show ?thesis
      proof (cases ok)
        case False2: False
        with Inr aa False nx Some bud3 al
        have tr: "attempts E base policy request (Suc n) attempt b excluded t w dn =
            Some (trip_result b attempt ?o resp (dn @ [b]) True (exhausted_event b w3 ?t4) (Release b' w3))"
          by (auto simp: Let_def)
        have "0 < infl w3 (b_state (w_backends w3 b'))" using i3 i(2) bk3
          by (auto simp: slot_def intro: add_nonneg_pos)
        from infl_Release [OF this] i3 bk3
        have "infl (Release b' w3) a = i a + (if resp = None then 0 else slot w b a)" for a by (simp add: slot_def)
        moreover have "w_backends (Release b' w3) = w_backends w"
          using framed_ops(2) [of ?p w3 b'] bk3 by (simp add: framed_def)
        ultimately show ?thesis
          by - (rule fin [OF tr], rule ends, (use failed_draw [of budget "ao_time ?o" budget'] al False2 in simp_all))
      next
        case True
        with Inr aa False nx Some bud3 al
        have rec: "attempts E base policy request (Suc n) attempt b excluded t w dn =
            attempts E base policy request n (Suc attempt) b' excluded' ?t4 (close_response resp w3) (dn @ [b])"
          by (auto simp: Let_def)
        have "resp \<noteq> None \<Longrightarrow> 0 < infl w3 (b_state (w_backends w3 b))" using i3 i(2) bk3
          by (auto simp: slot_def intro: add_nonneg_pos)
        note cr = close_response_ok [OF rb this, of ?p]
        have "infl (close_response resp w3) a = i a + slot w b' a" for a
          using cr i3 bk3 by (simp add: slot_def)
        moreover have "framed ?p w (close_response resp w3)" using f3 cr framed_trans by blast
        moreover have "bid w b' \<notin> set excluded'" "set (bid w b # excluded) \<subseteq> set excluded'" "rt_pool ?t4 = ?p"
          using n1 Some bk by auto
        ultimately show ?thesis using rec al True False
          by (intro disjI2 exI [of _ b'] exI [of _ excluded'] exI [of _ ?t4] exI [of _ "close_response resp w3"]
              exI [of _ "ao_time ?o"] exI [of _ budget']) simp
      qed
    qed
  qed
qed


text \<open>The whole loop.\<close>

declare attempts.simps [simp del]

definition trip_ok :: "(addr \<Rightarrow> int) \<Rightarrow> world \<Rightarrow> nat \<Rightarrow> addr list \<Rightarrow> RetryBudget \<Rightarrow> trip \<Rightarrow> bool" where
  "trip_ok i w n dn budget tr \<longleftrightarrow>
     (\<forall>a. infl (tr_world tr) a = i a + trip_slots w tr a)
     \<and> w_backends (tr_world tr) = w_backends w
     \<and> (\<forall>r. tr_response tr = Some r \<longrightarrow> \<not> rs_released r)
     \<and> distinct (map (bid w) (tr_attempts tr)) \<and> length (tr_attempts tr) \<le> length dn + n
     \<and> (\<exists>ts. rt_budget (tr_transport tr) = Some (snd (run_draws RetryBudget_Allow budget ts))
          \<and> length (tr_attempts tr) \<le> length dn + Suc (fst (run_draws RetryBudget_Allow budget ts)))"

lemma attempts_ok:
  assumes "n \<noteq> 0" and "avail_ok (rt_pool t) w" and "rt_budget t = Some budget"
    and "\<forall>a. infl w a = i a + slot w b a" and "\<forall>a. 0 \<le> i a"
    and "bid w b \<notin> set excluded" and "bid w ` set dn \<subseteq> set excluded" and "distinct (map (bid w) dn)"
  shows "\<exists>tr. attempts E base policy request n attempt b excluded t w dn = Some tr
    \<and> trip_ok i w n dn budget tr"
  using assms
proof (induction n arbitrary: attempt b excluded t w dn budget)
  case 0
  then show ?case by simp
next
  case (Suc n)
  have new: "bid w b \<notin> bid w ` set dn" using Suc.prems(6,7) by blast
  from attempts_step [OF Suc.prems(2-5), of E base policy request n attempt excluded dn]
  consider (ends) tr dn' where "attempts E base policy request (Suc n) attempt b excluded t w dn = Some tr"
      "trip_ends i w dn' budget tr" "dn' = dn \<or> dn' = dn @ [b]"
    | (goes) b' excluded' t' w' now budget' where
      "attempts E base policy request (Suc n) attempt b excluded t w dn =
         attempts E base policy request n (Suc attempt) b' excluded' t' w' (dn @ [b])"
      "n \<noteq> 0" "framed (rt_pool t) w w'" "rt_pool t' = rt_pool t"
      "RetryBudget_Allow budget now = (True, budget')" "rt_budget t' = Some budget'"
      "set (bid w b # excluded) \<subseteq> set excluded'" "bid w b' \<notin> set excluded'"
      "\<forall>a. infl w' a = i a + slot w b' a"
    by blast
  then show ?case
  proof cases
    case ends
    then have "trip_ok i w (Suc n) dn budget tr"
      using Suc.prems(8) new unfolding trip_ends_def trip_ok_def by auto
    with ends show ?thesis by blast
  next
    case goes
    have bk: "w_backends w' = w_backends w" using goes(3) by (simp add: framed_def)
    have av: "avail_ok (rt_pool t') w'" using goes(3,4) Suc.prems(2) by (simp add: framed_def)
    have sl: "slot w' = slot w" by (intro ext) (simp add: slot_def bk)
    have ih: "bid w' b' \<notin> set excluded'" "bid w' ` set (dn @ [b]) \<subseteq> set excluded'"
      "distinct (map (bid w') (dn @ [b]))" "\<forall>a. infl w' a = i a + slot w' b' a"
      using goes(7,8,9) Suc.prems(7,8) new unfolding bk sl by auto
    from Suc.IH [OF goes(2) av goes(6) ih(4) Suc.prems(5) ih(1,2,3)]
    obtain tr where tr: "attempts E base policy request n (Suc attempt) b' excluded' t' w' (dn @ [b]) = Some tr"
      "trip_ok i w' n (dn @ [b]) budget' tr" by blast
    from tr(2) obtain ts where ts: "rt_budget (tr_transport tr) = Some (snd (run_draws RetryBudget_Allow budget' ts))"
      "length (tr_attempts tr) \<le> length dn + Suc (Suc (fst (run_draws RetryBudget_Allow budget' ts)))"
      by (auto simp: trip_ok_def)
    have "run_draws RetryBudget_Allow budget (now # ts) =
        (Suc (fst (run_draws RetryBudget_Allow budget' ts)), snd (run_draws RetryBudget_Allow budget' ts))"
      using goes(5) by (simp add: split_def)
    then have "\<exists>ts. rt_budget (tr_transport tr) = Some (snd (run_draws RetryBudget_Allow budget ts))
        \<and> length (tr_attempts tr) \<le> length dn + Suc (fst (run_draws RetryBudget_Allow budget ts))"
      using ts by (intro exI [of _ "now # ts"]) simp
    then have "trip_ok i w (Suc n) dn budget tr"
      using tr(2) unfolding trip_ok_def trip_slots_def sl bk by simp
    with tr(1) goes(1) show ?thesis by auto
  qed
qed

lemma trip_ok_cong:
  assumes "w_backends w1 = w_backends w"
  shows "trip_ok i w1 n dn budget tr = trip_ok i w n dn budget tr"
proof -
  have sl: "slot w1 = slot w" by (intro ext) (simp add: slot_def assms)
  show ?thesis unfolding trip_ok_def trip_slots_def assms sl ..
qed

text \<open>A trip on a pool whose cached list is consistent.\<close>

lemma RoundTrip_ok:
  assumes av: "avail_ok (rt_pool t) w" and bud: "rt_budget t = Some budget"
    and pos: "\<forall>a. 0 \<le> infl w a"
    and att: "1 \<le> max_attempts (requestRetryPolicy request (transport_Policy t)) request"
  shows "\<exists>tr. RoundTrip E base request now t w = Some tr
    \<and> trip_ok (infl w) w (nat (max_attempts (requestRetryPolicy request (transport_Policy t)) request)) [] budget tr"
proof -
  obtain r excluded t1 w1 where nx: "nextAvailableBackend (pool_fuel t w) request [] now t w = Some (r, excluded, t1, w1)"
    using nextAvailableBackend_total [OF av pool_fuel_enough] by (metis surj_pair)
  note n1 = nextAvailableBackend_ok [OF nx av]
  have bk: "w_backends w1 = w_backends w" using n1 by (simp add: framed_def)
  have sl: "slot w1 = slot w" by (intro ext) (simp add: slot_def bk)
  show ?thesis
  proof (cases r)
    case None
    with nx n1 bud bk show ?thesis
      by (simp add: RoundTrip_def trip_ok_def trip_slots_def) (rule exI [of _ "[]"], simp)
  next
    case (Some b)
    have av1: "avail_ok (rt_pool t1) w1" using n1 av by (simp add: framed_def)
    let ?n = "nat (max_attempts (requestRetryPolicy request (transport_Policy t)) request)"
    have "\<exists>tr. attempts E base (requestRetryPolicy request (transport_Policy t)) request ?n 1 b excluded t1 w1 [] = Some tr
        \<and> trip_ok (infl w) w1 ?n [] budget tr"
      by (rule attempts_ok) (use av1 n1 Some bud pos att bk sl in auto)
    then obtain tr where tr: "attempts E base (requestRetryPolicy request (transport_Policy t)) request ?n 1 b
        excluded t1 w1 [] = Some tr" "trip_ok (infl w) w1 ?n [] budget tr" by blast
    then show ?thesis using nx Some trip_ok_cong [OF bk] by (simp add: RoundTrip_def)
  qed
qed

section \<open>Headers\<close>

lemma keys_del_fold:
  "fst ` set (fold (\<lambda>name h. if P name then Header_Del h name else h) names h) =
   fst ` set h - CanonicalHeaderKey ` {n \<in> set names. P n}"
  by (induction names arbitrary: h) (auto simp: Header_Del_def keys_AList_delete)

lemma keys_del_matching:
  "fst ` set (del_matching P h) = fst ` set h - CanonicalHeaderKey ` {n \<in> fst ` set h. P n}"
  by (simp add: del_matching_def keys_del_fold)

lemma del_matching_gone:
  "n \<in> fst ` set (del_matching P h) \<Longrightarrow> CanonicalHeaderKey n = n \<Longrightarrow> \<not> P n"
  unfolding keys_del_matching by (metis (mono_tags, lifting) DiffE image_eqI mem_Collect_eq)

lemma keys_Header_Set: "fst ` set (Header_Set h name v) = insert (CanonicalHeaderKey name) (fst ` set h)"
  by (simp add: Header_Set_def keys_AList_update)

section \<open>A proxy to compute with\<close>

definition demo_request :: request where
  "demo_request = \<lparr>rq_Method = ''GET'', rq_URL = simple_url ''x'', rq_Host = ''x'', rq_RequestURI = [],
     rq_Header = [], rq_Body = None, rq_GetBody = None, rq_ContentLength = 0, rq_TLS = False,
     rq_retryPolicy = None, rq_upstreamHost = None, rq_clientIP = ''1.2.3.4'', rq_forwardedProto = [],
     rq_TransferEncoding = [], rq_listener = [], rq_diagnostics = False,
     rq_maxBody = None, rq_timeout = 0\<rparr>"

definition demo_transport :: retryTransport where
  "demo_transport = NewLoadBalancer 0 (LeastRequestStrategy 0) None 0"

lemma demo_transport_simps:
  "rt_pool demo_transport = 0" "rt_strategy demo_transport = LeastRequestStrategy 0"
  "rt_policy demo_transport = Some default_RetryPolicy"
  "\<exists>b. rt_budget demo_transport = Some b"
  by (simp_all add: demo_transport_def NewLoadBalancer_def UpdatePolicy_def default_RetryPolicy_def Let_def)

lemma demo_avail: "avail_ok 0 alive_demo"
proof -
  have "framed 0 demo_world alive_demo"
    by (simp add: alive_demo_def op_steps Let_def state_step_framed)
  moreover have "avail_ok 0 demo_world" by (simp add: avail_ok_def demo_pools)
  ultimately show ?thesis by (simp add: framed_def)
qed

lemma demo_attempts:
  "max_attempts (requestRetryPolicy demo_request (transport_Policy demo_transport)) demo_request = 1"
  by (simp add: max_attempts_def requestRetryPolicy_def transport_Policy_def demo_transport_simps
      demo_request_def default_RetryPolicy_def)

lemma demo_infl_0: "infl alive_demo a = 0"
proof -
  have "infl alive_demo a = infl demo_world a"
    by (simp add: alive_demo_def op_steps Let_def infl_def)
  also have "\<dots> = 0"
    by (simp add: infl_def demo_world_def NewBackendPool_def demo_specs_def Let_def spec_error_def new_state_def
        simple_parse_def simple_url_def HasPrefix_def empty_world_def refreshAvailable_def attach_pool_def
        set_state_def set_pool_def)
  finally show ?thesis .
qed

lemma demo_infl: "\<forall>a. 0 \<le> infl alive_demo a"
  by (simp add: demo_infl_0)

lemma demo_next:
  "\<exists>e t' w'. nextAvailableBackend (pool_fuel demo_transport alive_demo) demo_request [] 9 demo_transport alive_demo
     = Some (Some 1, e, t', w')"
proof -
  obtain w' where a: "AvailableBackends 0 9 alive_demo = ([1], w')"
    using alive_demo_available by (metis prod.collapse)
  have room: "version_room (length (p_all (w_pools alive_demo 0)) + 0) alive_demo"
    unfolding alive_demo_def add_0_right by (rule demo_run(2))
  have inv: "world_inv alive_demo" using demo_run(1) unfolding alive_demo_def .
  have "1 \<in> set (filter (\<lambda>b. IsAlive (state_of w' b) 9) (p_all (w_pools alive_demo 0)))"
    using AvailableBackends_ok(2) [OF inv room a] by (metis list.set_intros(1))
  then have al: "IsAlive (state_of w' 1) 9" by simp
  have "infl w' = infl alive_demo" using AvailableBackends_weak [OF a demo_avail] by blast
  then have "s_inflight (state_of w' 1) = 0" using demo_infl_0 by (metis infl_def)
  with al have ta: "fst (TryAcquire 1 9 w')" by (simp add: TryAcquire_step Let_def)
  have g: "GetNextPeerExcluding (LeastRequestStrategy 0) 0 [] 9 alive_demo = (Some 1, LeastRequestStrategy 1, w')"
    by (simp add: GetNextPeerExcluding_def a lr_pick_def)
  obtain n where n: "pool_fuel demo_transport alive_demo = Suc n" by (simp add: pool_fuel_def)
  show ?thesis
    unfolding n using ta
    by (simp add: next_peer_def demo_transport_simps g split_def)
qed

section \<open>Properties\<close>

text \<open>C35. A round trip always returns, and conserves backend slots: it ends with one slot more
  than it started with, that of the backend of the response it returns, or with none if it returns
  no response; closing the body of the response gives that slot back.\<close>

theorem round_trip_conserves_slots:
  assumes "avail_ok (rt_pool t) w" and "rt_budget t = Some budget" and "\<forall>a. 0 \<le> infl w a"
    and "1 \<le> max_attempts (requestRetryPolicy request (transport_Policy t)) request"
  shows "\<exists>tr. RoundTrip E base request now t w = Some tr
    \<and> (case tr_response tr of
         None \<Rightarrow> infl (tr_world tr) = infl w
       | Some r \<Rightarrow> (\<forall>a. infl (tr_world tr) a = infl w a + slot w (rs_backend r) a)
           \<and> infl (snd (close_body r (tr_world tr))) = infl w)"
proof -
  from RoundTrip_ok [OF assms] obtain tr where tr: "RoundTrip E base request now t w = Some tr"
    and ok: "trip_ok (infl w) w (nat (max_attempts (requestRetryPolicy request (transport_Policy t)) request)) [] budget tr"
    by blast
  from ok have i: "\<forall>a. infl (tr_world tr) a = infl w a + trip_slots w tr a"
    and b: "w_backends (tr_world tr) = w_backends w"
    and o: "\<forall>r. tr_response tr = Some r \<longrightarrow> \<not> rs_released r" unfolding trip_ok_def by blast+
  show ?thesis
  proof (cases "tr_response tr")
    case None
    with i tr show ?thesis by (auto simp: trip_slots_def fun_eq_iff)
  next
    case (Some r)
    have "0 < infl (tr_world tr) (b_state (w_backends (tr_world tr) (rs_backend r)))"
      using i assms(3) Some b by (simp add: trip_slots_def slot_def add_nonneg_pos)
    from infl_Release [OF this] i Some b o
    have "infl (snd (close_body r (tr_world tr))) = infl w"
      by (auto simp: close_body_def trip_slots_def slot_def fun_eq_iff)
    with i tr Some show ?thesis by (simp add: trip_slots_def)
  qed
qed

theorem round_trip_conserves_slots_witness:
  "\<exists>tr. RoundTrip u_Path (\<lambda>k r. \<lparr>ao_response = None, ao_error = Some ''refused'', ao_timedOut = False,
       ao_contextDone = False, ao_time = 9\<rparr>) demo_request 9 demo_transport alive_demo = Some tr"
proof -
  obtain b where b: "rt_budget demo_transport = Some b" using demo_transport_simps by blast
  show ?thesis
    using round_trip_conserves_slots [OF _ b demo_infl, of demo_request] demo_avail demo_attempts
    by (simp add: demo_transport_simps) blast
qed

text \<open>The attempts of a round trip go to backends with distinct IDs, there are at most as
  many as the policy allows (one for a method or a body that may not be retried), and each one
  after the first was granted by the retry budget.\<close>

theorem round_trip_attempts:
  assumes "avail_ok (rt_pool t) w" and "rt_budget t = Some budget" and "\<forall>a. 0 \<le> infl w a"
    and "1 \<le> max_attempts (requestRetryPolicy request (transport_Policy t)) request"
  shows "\<exists>tr ts. RoundTrip E base request now t w = Some tr
    \<and> distinct (map (bid w) (tr_attempts tr))
    \<and> int (length (tr_attempts tr)) \<le> max_attempts (requestRetryPolicy request (transport_Policy t)) request
    \<and> length (tr_attempts tr) \<le> Suc (fst (run_draws RetryBudget_Allow budget ts))
    \<and> rt_budget (tr_transport tr) = Some (snd (run_draws RetryBudget_Allow budget ts))"
  using RoundTrip_ok [OF assms, of E base now] assms(4) by (force simp: trip_ok_def)

theorem round_trip_attempts_witness:
  "\<exists>tr. RoundTrip u_Path (\<lambda>k r. \<lparr>ao_response = None, ao_error = Some ''refused'', ao_timedOut = False,
       ao_contextDone = False, ao_time = 9\<rparr>) demo_request 9 demo_transport alive_demo = Some tr
     \<and> length (tr_attempts tr) \<le> 1"
proof -
  obtain b where b: "rt_budget demo_transport = Some b" using demo_transport_simps by blast
  show ?thesis
    using round_trip_attempts [OF _ b demo_infl, of demo_request u_Path "\<lambda>k r. \<lparr>ao_response = None,
        ao_error = Some ''refused'', ao_timedOut = False, ao_contextDone = False, ao_time = 9\<rparr>" 9]
      demo_avail demo_attempts
    by (auto simp: demo_transport_simps)
qed

text \<open>C36. Choosing a backend ends: with as many turns as the pool has backends, plus one, the loop
  of \<open>nextAvailableBackend\<close> has returned, whatever is excluded and however many slots are
  full.\<close>

theorem selection_terminates:
  assumes "avail_ok (rt_pool t) w"
  shows "\<exists>r. nextAvailableBackend (pool_fuel t w) request excluded now t w = Some r"
  using nextAvailableBackend_total [OF assms pool_fuel_enough] by blast

theorem selection_terminates_witness:
  "\<exists>r. nextAvailableBackend 3 demo_request [''a''] 9 demo_transport alive_demo = Some r"
proof -
  have "pool_fuel demo_transport alive_demo = 3"
    by (simp only: pool_fuel_def demo_transport_simps alive_demo_def demo_run_all) simp
  then show ?thesis
    using selection_terminates [of demo_transport alive_demo demo_request "[''a'']" 9] demo_avail
    by (simp add: demo_transport_simps)
qed

text \<open>When the attempt timer fires although the upstream answered, the round trip returns the
  response together with the timeout error, and the response still holds a slot of its backend;
  nothing but closing its body gives the slot back.\<close>

theorem timed_out_response_keeps_slot:
  assumes "avail_ok (rt_pool t) w" and "\<forall>a. 0 \<le> infl w a"
    and "max_attempts (requestRetryPolicy request (transport_Policy t)) request = 1"
    and "nextAvailableBackend (pool_fuel t w) request [] now t w = Some (Some b, excluded, t', w')"
    and "\<forall>out. ao_response (base 1 out) \<noteq> None \<and> ao_timedOut (base 1 out)"
  shows "\<exists>tr r. RoundTrip E base request now t w = Some tr \<and> tr_error tr = Some ErrAttemptTimeout
    \<and> tr_response tr = Some r \<and> rs_backend r = b
    \<and> infl (tr_world tr) (b_state (w_backends w b)) = infl w (b_state (w_backends w b)) + 1"
proof -
  note n1 = nextAvailableBackend_ok [OF assms(4,1)]
  have bk: "w_backends w' = w_backends w" using n1 by (simp add: framed_def)
  obtain out where out: "cloneForAttempt E request (w_backends w' b) 1 = Inr out"
    by (simp add: cloneForAttempt_def Let_def split_def)
  obtain st h where rs: "ao_response (base 1 out) = Some (st, h)" and to: "ao_timedOut (base 1 out)"
    using assms(5) by fastforce
  define w2 where "w2 = judge (rt_pool t') b (base 1 out) (attempt_failed (requestRetryPolicy request (transport_Policy t))
      (base 1 out) (Some \<lparr>rs_StatusCode = st, rs_Header = h, rs_backend = b, rs_released = False\<rparr>))
      (attempt_aborted (base 1 out)) (RecordRequest b w')"
  have i: "infl w2 = infl w'" unfolding w2_def using judge_ok by simp
  have "RoundTrip E base request now t w = Some (trip_result b 1 (base 1 out)
      (Some \<lparr>rs_StatusCode = st, rs_Header = h, rs_backend = b, rs_released = False\<rparr>) [b] False
      (attempt_event b 1 (base 1 out) (Some \<lparr>rs_StatusCode = st, rs_Header = h, rs_backend = b, rs_released = False\<rparr>) w2 t') w2)"
    using assms(3,4) out rs
    by (simp add: RoundTrip_def attempts.simps(2) [of _ _ _ _ 0] after_attempt_def Let_def w2_def)
  then show ?thesis
    using n1 i bk to by (simp add: trip_result_def outcome_error_def slot_def)
qed

theorem timed_out_response_keeps_slot_witness:
  "\<exists>tr r. RoundTrip u_Path (\<lambda>k r. \<lparr>ao_response = Some (200, []), ao_error = None, ao_timedOut = True,
       ao_contextDone = False, ao_time = 9\<rparr>) demo_request 9 demo_transport alive_demo = Some tr
     \<and> tr_error tr = Some ErrAttemptTimeout \<and> tr_response tr = Some r"
proof -
  let ?base = "\<lambda>(k :: nat) (r :: request). \<lparr>ao_response = Some (200, []), ao_error = None, ao_timedOut = True,
       ao_contextDone = False, ao_time = 9\<rparr>"
  obtain e t' w' where nx: "nextAvailableBackend (pool_fuel demo_transport alive_demo) demo_request [] 9
      demo_transport alive_demo = Some (Some 1, e, t', w')" using demo_next by blast
  have av: "avail_ok (rt_pool demo_transport) alive_demo" using demo_avail by (simp add: demo_transport_simps)
  show ?thesis
    using timed_out_response_keeps_slot [OF av demo_infl demo_attempts nx, of ?base u_Path] by auto
qed

lemma canonical_names:
  "CanonicalHeaderKey ''X-Forwarded-For'' = ''X-Forwarded-For''"
  "CanonicalHeaderKey ''X-Real-IP'' = ''X-Real-Ip''"
  "CanonicalHeaderKey ''X-Forwarded-Host'' = ''X-Forwarded-Host''"
  "CanonicalHeaderKey ''X-Forwarded-Proto'' = ''X-Forwarded-Proto''"
  "CanonicalHeaderKey ''X-Balancer-Proxy'' = ''X-Balancer-Proxy''"
  by code_simp+

lemma rewrite_keys:
  "fst ` set (rewrite_headers r h) \<subseteq> fst ` set (sanitizeProxyHeaders h) \<union>
     (if rq_clientIP r = [] then {} else {''X-Forwarded-For'', ''X-Real-Ip''}) \<union>
     {''X-Forwarded-Host'', ''X-Forwarded-Proto'', ''X-Balancer-Proxy''}"
  by (auto simp: rewrite_headers_def Let_def keys_Header_Set canonical_names)

lemma Header_Get_client:
  "rq_clientIP r \<noteq> [] \<Longrightarrow> Header_Get (rewrite_headers r h) ''X-Forwarded-For'' = rq_clientIP r
     \<and> Header_Get (rewrite_headers r h) ''X-Real-IP'' = rq_clientIP r"
  by (simp add: rewrite_headers_def Let_def Header_Get_Set_other canonical_names)



end
