(* ===== verification/Routing_Facts.thy ===== *)
theory Routing_Facts
  imports Gateway_Normalize Proxy_Facts "HOL-Library.Multiset"
begin

text \<open>
  Facts about routes: the order of the table and what its first match is, that a validated route
  names an existing cluster, where a rewritten path lies, what header policies cannot touch, and
  when they are applied to a response.
\<close>

section \<open>Stable sorting\<close>

text \<open>What \<open>sort.SliceStable\<close> asks of its comparison, and what it promises then.\<close>

locale strict_weak_order =
  fixes lt :: "'a \<Rightarrow> 'a \<Rightarrow> bool"
  assumes lt_asym: "lt x y \<Longrightarrow> \<not> lt y x"
    and lt_trans: "lt x y \<Longrightarrow> lt y z \<Longrightarrow> lt x z"
    and not_lt_trans: "\<not> lt x y \<Longrightarrow> \<not> lt y z \<Longrightarrow> \<not> lt x z"
begin

lemma mset_insert_stable: "mset (insert_stable lt x ys) = add_mset x (mset ys)"
  by (induction ys) auto

lemma set_insert_stable: "set (insert_stable lt x ys) = insert x (set ys)"
  by (induction ys) auto

lemma sorted_insert_stable:
  "sorted_wrt (\<lambda>x y. \<not> lt y x) ys \<Longrightarrow> sorted_wrt (\<lambda>x y. \<not> lt y x) (insert_stable lt x ys)"
  by (induction ys) (auto simp: set_insert_stable dest: lt_asym not_lt_trans)

lemma mset_SliceStable: "mset (SliceStable lt xs) = mset xs"
  unfolding SliceStable_def by (induction xs) (simp_all add: mset_insert_stable)

lemma sorted_SliceStable: "sorted_wrt (\<lambda>x y. \<not> lt y x) (SliceStable lt xs)"
  unfolding SliceStable_def by (induction xs) (simp_all add: sorted_insert_stable)

lemma set_SliceStable [simp]: "set (SliceStable lt xs) = set xs"
  by (metis mset_SliceStable set_mset_mset)

text \<open>The first element of a sorted list with a property has no better one.\<close>

lemma first_match_sorted:
  "sorted_wrt (\<lambda>x y. \<not> lt y x) ys \<Longrightarrow> first_match P ys = Some x \<Longrightarrow> y \<in> set ys \<Longrightarrow> P y \<Longrightarrow> \<not> lt y x"
  by (induction ys) (auto split: if_splits dest: lt_asym)

lemma first_match_SliceStable:
  assumes "first_match P (SliceStable lt xs) = Some x" and "y \<in> set xs" and "P y"
  shows "\<not> lt y x"
  using first_match_sorted [OF sorted_SliceStable assms(1) _ assms(3)] assms(2) by simp

text \<open>Stability: elements that are equivalent to each other keep their order.\<close>

lemma filter_insert_stable:
  "filter (\<lambda>y. \<not> lt x y \<and> \<not> lt y x) (insert_stable lt z ys) =
     (if \<not> lt x z \<and> \<not> lt z x then z # filter (\<lambda>y. \<not> lt x y \<and> \<not> lt y x) ys
      else filter (\<lambda>y. \<not> lt x y \<and> \<not> lt y x) ys)"
  by (induction ys) (auto dest: not_lt_trans)

lemma stable_SliceStable:
  "filter (\<lambda>y. \<not> lt x y \<and> \<not> lt y x) (SliceStable lt xs) = filter (\<lambda>y. \<not> lt x y \<and> \<not> lt y x) xs"
  unfolding SliceStable_def by (induction xs) (simp_all add: filter_insert_stable)

end

interpretation route_order: strict_weak_order route_before
  by unfold_locales (auto simp: route_before_def Let_def split: if_splits)

lemma route_before_total:
  "cr_order a \<noteq> cr_order b \<Longrightarrow> route_before a b \<or> route_before b a"
  by (auto simp: route_before_def Let_def)

lemma set_compileRoutes:
  "set (compileRoutes now vs) = {compile_route now i (vs ! i) | i. i < length vs}"
  unfolding compileRoutes_def route_order.set_SliceStable
  by (force simp: enumerate_eq_zip set_zip)

lemma compileRoutes_order_inj:
  assumes "a \<in> set (compileRoutes now vs)" and "b \<in> set (compileRoutes now vs)" and "cr_order a = cr_order b"
  shows "a = b"
  using assms unfolding set_compileRoutes by (auto simp: compile_route_def)



section \<open>Clusters of validated routes\<close>

lemma weighted_scan_in:
  "0 \<le> position \<Longrightarrow> position < (\<Sum>t \<leftarrow> ts. gw_Weight t) \<Longrightarrow> weighted_scan position ts \<in> gw_Cluster ` set ts"
  by (induction ts arbitrary: position) auto

lemma clusterID_in:
  assumes "route_resolves listeners clusters (cr_config r)" and "ga_Redirect (gr_Action (cr_config r)) = None"
    and "(\<Sum>t \<leftarrow> ga_WeightedClusters (gr_Action (cr_config r)). gw_Weight t) < 2 ^ 64"
  shows "fst (clusterID r) \<in> set clusters"
proof (cases "ga_Cluster (gr_Action (cr_config r)) = []")
  case False
  with assms(1) show ?thesis by (auto simp: clusterID_def route_resolves_def Let_def)
next
  case True
  let ?ts = "ga_WeightedClusters (gr_Action (cr_config r))"
  let ?sum = "\<Sum>t \<leftarrow> ?ts. gw_Weight t"
  from assms(1,2) True have ne: "?ts \<noteq> []" and ts: "\<forall>t \<in> set ?ts. gw_Cluster t \<in> set clusters \<and> 1 \<le> gw_Weight t"
    by (auto simp: route_resolves_def action_count_def of_bool_def split: if_splits)
  have "int (length ts) \<le> (\<Sum>t \<leftarrow> ts. gw_Weight t)" if "\<forall>t \<in> set ts. 1 \<le> gw_Weight t" for ts
    using that by (induction ts) auto
  with ts ne have pos: "0 < ?sum" by (metis (no_types, lifting) length_greater_0_conv of_nat_0_less_iff order_less_le_trans)
  have "weighted_scan (uint (cr_counter r mod word_of_int ?sum)) ?ts \<in> gw_Cluster ` set ?ts"
    by (rule weighted_scan_in) (simp_all only: wrr_position [OF pos assms(3)], simp_all add: pos)
  with ts True pos show ?thesis by (auto simp: clusterID_def Let_def)
qed

text \<open>A validated route always resolves. For every route of a normalised configuration that is not a
  redirect, whatever the value of its counter, the cluster it picks is one of the configuration's:
  the lookup of the cluster never fails.\<close>

theorem validated_routes_resolve:
  assumes "normalizeConfig parse d (Some g) = Inr n" and "r \<in> set (compileRoutes now (gg_Routes n))"
    and "ga_Redirect (gr_Action (cr_config r)) = None"
    and "(\<Sum>t \<leftarrow> ga_WeightedClusters (gr_Action (cr_config r)). gw_Weight t) < 2 ^ 64"
  shows "fst (clusterID (r\<lparr>cr_counter := k\<rparr>)) \<in> gc_ID ` set (gg_Clusters n)"
proof -
  from normalizeConfig_result [OF assms(1)] have "gateway_valid parse n" by blast
  then have "list_all (route_valid parse (map gl_ID (gg_Listeners n)) (map gc_ID (gg_Clusters n))) (gg_Routes n)"
    unfolding gateway_valid_def by blast
  with assms(2) have "route_resolves (map gl_ID (gg_Listeners n)) (map gc_ID (gg_Clusters n)) (cr_config r)"
    unfolding set_compileRoutes by (auto simp: compile_route_def route_valid_def list_all_iff)
  then have "fst (clusterID (r\<lparr>cr_counter := k\<rparr>)) \<in> set (map gc_ID (gg_Clusters n))"
    using assms(3,4) by (intro clusterID_in) simp_all
  then show ?thesis by simp
qed

theorem validated_routes_resolve_witness:
  "\<forall>k. fst (clusterID ((compile_route 0 0 (hd (gg_Routes demo_normal)))\<lparr>cr_counter := k\<rparr>)) \<in> {''c''}"
proof -
  have shape: "length (gg_Routes demo_normal) = 1" "map gc_ID (gg_Clusters demo_normal) = [''c'']"
    "ga_Redirect (gr_Action (hd (gg_Routes demo_normal))) = None"
    "ga_WeightedClusters (gr_Action (hd (gg_Routes demo_normal))) = []"
    by code_simp+
  then obtain r where r: "gg_Routes demo_normal = [r]" by (auto simp: length_Suc_conv)
  have "compile_route 0 0 r \<in> set (compileRoutes 0 (gg_Routes demo_normal))"
    unfolding set_compileRoutes r by auto
  from validated_routes_resolve [OF demo_normalized this] shape r
  have "fst (clusterID ((compile_route 0 0 r)\<lparr>cr_counter := k\<rparr>)) \<in> gc_ID ` set (gg_Clusters demo_normal)" for k
    by (simp add: compile_route_def)
  with shape(2) r show ?thesis by (metis (no_types, lifting) list.sel(1) list.set(1,2) list.set_map)
qed

section \<open>Rewritten paths\<close>

lemma pathPrefixMatch_append:
  assumes "x = [] \<or> HasSuffix r ''/'' \<or> HasPrefix x ''/''"
  shows "pathPrefixMatch (r @ x) r"
proof (cases "r = ''/''")
  case True
  then show ?thesis by (simp add: pathPrefixMatch_def HasPrefix_slash)
next
  case False
  then show ?thesis using assms
    by (simp add: pathPrefixMatch_def) (auto simp: nth_append HasPrefix_slash hd_conv_nth)
qed

lemma joinRoutePath_form:
  assumes "HasPrefix r ''/''"
  shows "\<exists>x. joinRoutePath r s = r @ x \<and> (x = [] \<or> HasSuffix r ''/'' \<or> HasPrefix x ''/'')"
  using assms by (auto simp: joinRoutePath_def Let_def HasPrefix_slash)

lemma joinRoutePath_under:
  assumes "HasPrefix r ''/''"
  shows "pathPrefixMatch (joinRoutePath r s) r"
  using joinRoutePath_form [OF assms] pathPrefixMatch_append by metis

lemma joinRoutePath_plain:
  assumes "HasPrefix r ''/''" and "\<not> HasSuffix r ''/''" and "s = [] \<or> HasPrefix s ''/''"
  shows "joinRoutePath r s = r @ s"
  using assms by (auto simp: joinRoutePath_def Let_def HasPrefix_slash)

lemma pathPrefixMatch_split:
  assumes "pathPrefixMatch path p" and "HasPrefix p ''/''" and "\<not> HasSuffix p ''/''"
  shows "\<exists>s. path = p @ s \<and> (s = [] \<or> HasPrefix s ''/'')"
proof -
  have "p \<noteq> ''/''" using assms(3) by (auto simp: HasSuffix_single)
  with assms(1,3) have pre: "HasPrefix path p" and nxt: "length path = length p \<or> path ! length p = CHR ''/''"
    by (auto simp: pathPrefixMatch_def split: if_splits)
  from pre obtain s where s: "path = p @ s" by (auto simp: HasPrefix_iff)
  with nxt show ?thesis by (cases s) (auto simp: HasPrefix_slash nth_append)
qed

lemma rewrite_path [simp]:
  "u_Path (rewriteRoutePrefix E U t p r) = joinRoutePath r (TrimPrefix (u_Path t) p)"
  by (simp add: rewriteRoutePrefix_def Let_def)

lemma rewrite_raw:
  "u_RawPath (rewriteRoutePrefix E U t p r) = []
   \<or> U (u_RawPath (rewriteRoutePrefix E U t p r)) = Some (u_Path (rewriteRoutePrefix E U t p r))"
  by (simp add: rewriteRoutePrefix_def Let_def)

text \<open>Rewriting a path prefix. Whatever the request, the rewritten path lies under the replacement
  prefix, as the route matcher understands it, and an escaped form is kept only when it decodes to that
  path. When neither prefix ends with a slash, rewriting the prefix back gives the original path.\<close>

theorem rewrite_prefix_roundtrip:
  assumes "HasPrefix r ''/''"
  shows "pathPrefixMatch (u_Path (rewriteRoutePrefix E U t p r)) r
    \<and> (u_RawPath (rewriteRoutePrefix E U t p r) = []
       \<or> U (u_RawPath (rewriteRoutePrefix E U t p r)) = Some (u_Path (rewriteRoutePrefix E U t p r)))
    \<and> (pathPrefixMatch (u_Path t) p \<and> HasPrefix p ''/'' \<and> \<not> HasSuffix p ''/'' \<and> \<not> HasSuffix r ''/''
       \<longrightarrow> u_Path (rewriteRoutePrefix E U (rewriteRoutePrefix E U t p r) r p) = u_Path t)"
proof -
  have "u_Path (rewriteRoutePrefix E U (rewriteRoutePrefix E U t p r) r p) = u_Path t"
    if m: "pathPrefixMatch (u_Path t) p" and p: "HasPrefix p ''/''" "\<not> HasSuffix p ''/''" and r: "\<not> HasSuffix r ''/''"
  proof -
    from pathPrefixMatch_split [OF m p] obtain s where s: "u_Path t = p @ s" "s = [] \<or> HasPrefix s ''/''" by blast
    then show ?thesis by (simp add: joinRoutePath_plain [OF assms r] joinRoutePath_plain [OF p])
  qed
  then show ?thesis using rewrite_raw joinRoutePath_under [OF assms] by simp
qed

theorem rewrite_prefix_roundtrip_witness:
  "let t = path_url ''/api/users''; u = rewriteRoutePrefix u_Path Some t ''/api'' ''/v2''
   in u_Path u = ''/v2/users'' \<and> pathPrefixMatch (u_Path u) ''/v2''
      \<and> u_Path (rewriteRoutePrefix u_Path Some u ''/v2'' ''/api'') = ''/api/users''"
proof -
  have facts: "HasPrefix ''/v2'' ''/''" "pathPrefixMatch ''/api/users'' ''/api''" "HasPrefix ''/api'' ''/''"
    "\<not> HasSuffix ''/api'' ''/''" "\<not> HasSuffix ''/v2'' ''/''" "joinRoutePath ''/v2'' (TrimPrefix ''/api/users'' ''/api'') = ''/v2/users''"
    by code_simp+
  have path: "u_Path (path_url p) = p" for p by (simp add: path_url_def)
  show ?thesis
    using rewrite_prefix_roundtrip [OF facts(1), of u_Path Some "path_url ''/api/users''" "''/api''"] facts(2-)
    by (simp add: path Let_def)
qed

section \<open>Header policies\<close>

lemma forbidden_cong: "ToLower a = ToLower b \<Longrightarrow> forbiddenGatewayHeader a = forbiddenGatewayHeader b"
  by (simp add: forbiddenGatewayHeader_def)

lemma forbidden_canonical:
  "CanonicalHeaderKey a = CanonicalHeaderKey b \<Longrightarrow> forbiddenGatewayHeader a = forbiddenGatewayHeader b"
  by (metis ToLower_CanonicalHeaderKey forbidden_cong)

text \<open>Operations on one name leave the other names alone.\<close>

lemma Header_Values_other:
  assumes "CanonicalHeaderKey n \<noteq> CanonicalHeaderKey m"
  shows "Header_Values (Header_Del h n) m = Header_Values h m"
    and "Header_Values (Header_Set h n v) m = Header_Values h m"
    and "Header_Values (Header_Add h n v) m = Header_Values h m"
  using assms by (simp_all add: Header_Values_def Header_Del_def Header_Set_def Header_Add_def
      delete_conv update_conv)

lemma fold_Del_other:
  "\<forall>n \<in> set ns. CanonicalHeaderKey n \<noteq> CanonicalHeaderKey m \<Longrightarrow>
   Header_Values (fold (\<lambda>n h. Header_Del h n) ns h) m = Header_Values h m"
  by (induction ns arbitrary: h) (simp_all add: Header_Values_other)

lemma fold_Set_other:
  "\<forall>(n, v) \<in> set ps. CanonicalHeaderKey n \<noteq> CanonicalHeaderKey m \<Longrightarrow>
   Header_Values (fold (\<lambda>(n, v) h. Header_Set h n v) ps h) m = Header_Values h m"
  by (induction ps arbitrary: h) (auto simp: Header_Values_other)

lemma fold_Add1_other:
  "CanonicalHeaderKey n \<noteq> CanonicalHeaderKey m \<Longrightarrow>
   Header_Values (fold (\<lambda>v h. Header_Add h n v) vs h) m = Header_Values h m"
  by (induction vs arbitrary: h) (simp_all add: Header_Values_other)

lemma fold_Add_other:
  "\<forall>(n, vs) \<in> set ps. CanonicalHeaderKey n \<noteq> CanonicalHeaderKey m \<Longrightarrow>
   Header_Values (fold (\<lambda>(n, vs) h. fold (\<lambda>v h. Header_Add h n v) vs h) ps h) m = Header_Values h m"
  by (induction ps arbitrary: h) (auto simp: fold_Add1_other)

lemma policy_names_allowed:
  assumes "passes (header_policy_checks policy)"
  shows "\<forall>n \<in> set (ghp_Remove policy). \<not> forbiddenGatewayHeader n"
    and "\<forall>(n, v) \<in> set (ghp_Set policy). \<not> forbiddenGatewayHeader n"
    and "\<forall>(n, vs) \<in> set (ghp_Add policy). \<not> forbiddenGatewayHeader n"
  using assms by (auto simp: header_policy_checks_def header_name_checks_def)

lemma policy_keeps_forbidden:
  assumes "passes (header_policy_checks policy)" and "forbiddenGatewayHeader name"
  shows "Header_Values (applyHeaderPolicy h policy) name = Header_Values h name"
proof -
  have other: "CanonicalHeaderKey n \<noteq> CanonicalHeaderKey name" if "\<not> forbiddenGatewayHeader n" for n
    using that forbidden_canonical assms(2) by blast
  note allowed = policy_names_allowed [OF assms(1)]
  show ?thesis
    unfolding applyHeaderPolicy_def Let_def
    by (subst fold_Add_other, use allowed(3) other in blast, subst fold_Set_other, use allowed(2) other in blast,
        rule fold_Del_other) (use allowed(1) other in blast)
qed

text \<open>C39. Header policies cannot reach protected headers. A policy that passed validation leaves every
  protected header as it was: the hop-by-hop and framing headers, \<open>Host\<close>, and everything under
  \<open>X-Forwarded-\<close> and \<open>X-Balancer-\<close>, in any spelling of the name.\<close>

theorem header_policy_protects:
  assumes "normalizeConfig parse d (Some g) = Inr n" and "r \<in> set (gg_Routes n)"
    and "policy \<in> {gr_RequestHeaders r, gr_ResponseHeaders r}" and "forbiddenGatewayHeader name"
  shows "Header_Values (applyHeaderPolicy h policy) name = Header_Values h name"
proof -
  from normalizeConfig_result [OF assms(1)] have "gateway_valid parse n" by blast
  then have "list_all (route_valid parse (map gl_ID (gg_Listeners n)) (map gc_ID (gg_Clusters n))) (gg_Routes n)"
    unfolding gateway_valid_def by blast
  with assms(2) have "passes (policy_checks parse r)" by (auto simp: list_all_iff route_valid_def)
  with assms(3) have "passes (header_policy_checks policy)"
    by (auto simp: policy_checks_def validateHeaderPolicies_def)
  from policy_keeps_forbidden [OF this assms(4)] show ?thesis .
qed

theorem header_policy_protects_witness:
  "Header_Values (applyHeaderPolicy [(''X-Forwarded-For'', [''1.2.3.4''])] (gr_RequestHeaders (hd (gg_Routes demo_normal))))
     ''x-forwarded-FOR'' = [''1.2.3.4'']"
proof -
  have shape: "gg_Routes demo_normal \<noteq> []" "forbiddenGatewayHeader ''x-forwarded-FOR''"
    "Header_Values [(''X-Forwarded-For'', [''1.2.3.4''])] ''x-forwarded-FOR'' = [''1.2.3.4'']"
    by code_simp+
  from header_policy_protects [OF demo_normalized hd_in_set [OF shape(1)] _ shape(2)] shape(3) show ?thesis by simp
qed

section \<open>The response writer\<close>

lemma balancer_header_forbidden: "balancer_header n \<Longrightarrow> forbiddenGatewayHeader n"
  by (simp add: balancer_header_def forbiddenGatewayHeader_def Let_def)

lemma del_matching_values:
  assumes "\<forall>n \<in> fst ` set h. CanonicalHeaderKey n = n" and "P (CanonicalHeaderKey name)"
  shows "Header_Values (del_matching P h) name = []"
proof -
  have "CanonicalHeaderKey name \<notin> fst ` set (del_matching P h)"
  proof
    assume gone: "CanonicalHeaderKey name \<in> fst ` set (del_matching P h)"
    then have "CanonicalHeaderKey name \<in> fst ` set h" unfolding keys_del_matching by blast
    with del_matching_gone [OF gone] assms show False by blast
  qed
  then have "map_of (del_matching P h) (CanonicalHeaderKey name) = None" by (simp add: map_of_eq_None_iff)
  then show ?thesis by (simp add: Header_Values_def)
qed

text \<open>The header policy of a response. When the first head written is a final one, the head sent is the
  backend's with the route's policy applied, and no \<open>X-Balancer-\<close> header leaves the gateway unless
  diagnostics are on. But an informational head before it (a \<open>103 Early Hints\<close> passed on from a
  backend) uses the policy up: the final head is then sent exactly as the backend wrote it, without
  the policy and with any \<open>X-Balancer-\<close> header.\<close>

theorem response_header_policy:
  assumes "\<not> hw_applied w" and "\<not> hw_diagnostics w" and "passes (header_policy_checks (hw_policy w))"
    and "\<forall>n \<in> fst ` set (hw_header w). CanonicalHeaderKey n = n" and "balancer_header name"
  shows "hw_sent (hw_WriteHeader w status) =
      (status, applyHeaderPolicy (del_matching balancer_header (hw_header w)) (hw_policy w)) # hw_sent w
    \<and> Header_Values (snd (hd (hw_sent (hw_WriteHeader w status)))) name = []
    \<and> hd (hw_sent (hw_WriteHeader ((hw_WriteHeader w 103)\<lparr>hw_header := h\<rparr>) status)) = (status, h)"
proof -
  have "Header_Values (applyHeaderPolicy (del_matching balancer_header (hw_header w)) (hw_policy w)) name = []"
    using policy_keeps_forbidden [OF assms(3) balancer_header_forbidden [OF assms(5)]]
      del_matching_values [OF assms(4), of balancer_header name] assms(5)
    by (simp add: balancer_header_def)
  with assms(1,2) show ?thesis by (simp add: hw_WriteHeader_def hw_apply_def Let_def)
qed

definition demo_writer :: headerPolicyWriter where
  "demo_writer = \<lparr>hw_header = [(''X-Balancer-Backend'', [''a'']), (''Server'', [''x''])],
     hw_policy = no_headers\<lparr>ghp_Remove := [''server'']\<rparr>, hw_applied = False, hw_diagnostics = False,
     hw_status = 0, hw_sent = []\<rparr>"

theorem response_header_policy_witness:
  "hw_sent (hw_WriteHeader demo_writer 200) = [(200, [])]
   \<and> hd (hw_sent (hw_WriteHeader ((hw_WriteHeader demo_writer 103)\<lparr>hw_header := [(''Server'', [''x''])]\<rparr>) 200)) =
       (200, [(''Server'', [''x''])])"
proof -
  have facts: "\<not> hw_applied demo_writer" "\<not> hw_diagnostics demo_writer"
    "passes (header_policy_checks (hw_policy demo_writer))"
    "\<forall>n \<in> fst ` set (hw_header demo_writer). CanonicalHeaderKey n = n" "balancer_header ''X-Balancer-Backend''"
    "applyHeaderPolicy (del_matching balancer_header (hw_header demo_writer)) (hw_policy demo_writer) = []"
    "hw_sent demo_writer = []"
    by code_simp+
  from response_header_policy [OF facts(1-5), of 200 "[(''Server'', [''x''])]"] facts(6,7) show ?thesis by simp
qed

end
