(* ===== verification/Engine.thy ===== *)
theory Engine
  imports Runtime Routing_Facts
begin

text \<open>
  The engine (\<open>internal/gateway/engine.go\<close>): the current snapshot, revisions and their history,
  configuration changes, endpoint administration, discovery updates and requests. The engine's mutex
  makes a configuration operation one step. Snapshots are objects named by their position in the list
  of all snapshots built so far, since requests may still hold a retired one; taking and giving back a
  reference are one step each here, and the finer interleavings are those of the theory
  \<open>Snapshot_Refs\<close>.
\<close>

datatype engine_error =
    ErrClosed
  | ErrRevisionConflict uint64 uint64
  | ErrDiscoverySourceChanged go_string
  | ErrStaleDiscoveryUpdate go_string
  | EngineError go_string

record engineStats =
  es_requests :: uint64
  es_routeNotFound :: uint64
  es_redirects :: uint64
  es_rateLimited :: uint64
  es_bodyRejected :: uint64
  es_applySuccess :: uint64
  es_applyFailures :: uint64

record Engine =
  en_defaults :: Defaults
  en_states :: registry
  en_snapshots :: "runtimeSnapshot list"
  en_current :: "nat option"
  en_closed :: bool
  en_nextRevision :: uint64
  en_history :: "uint64 \<rightharpoonup> GatewayConfig"
  en_order :: "uint64 list"
  en_lastError :: go_string
  en_stats :: engineStats

definition current_snapshot :: "Engine \<Rightarrow> runtimeSnapshot option" where
  "current_snapshot e = map_option (\<lambda>i. en_snapshots e ! i) (en_current e)"

section \<open>Configuration changes\<close>

text \<open>The loop that drops the oldest revisions beyond the limit.\<close>

fun drop_oldest :: "int \<Rightarrow> uint64 list \<Rightarrow> (uint64 \<rightharpoonup> GatewayConfig) \<Rightarrow> uint64 list \<times> (uint64 \<rightharpoonup> GatewayConfig)" where
  "drop_oldest limit [] h = ([], h)"
| "drop_oldest limit (oldest # order) h =
     (if int (length (oldest # order)) > limit then drop_oldest limit order (h(oldest := None))
      else (oldest # order, h))"

definition remember :: "runtimeSnapshot \<Rightarrow> Engine \<Rightarrow> Engine" where
  "remember s e =
     (let limit = gg_HistoryLimit (ss_config s);
          limit = (if d_HistoryLimit (en_defaults e) > 0 then min limit (d_HistoryLimit (en_defaults e)) else limit);
          (order, history) = drop_oldest limit (en_order e @ [ss_revision s])
            ((en_history e)(ss_revision s \<mapsto> cloneConfig (ss_config s)))
      in e\<lparr>en_order := order, en_history := history\<rparr>)"

definition zero_stats :: engineStats where
  "zero_stats = \<lparr>es_requests = 0, es_routeNotFound = 0, es_redirects = 0, es_rateLimited = 0, es_bodyRejected = 0,
     es_applySuccess = 0, es_applyFailures = 0\<rparr>"

definition count_success :: "Engine \<Rightarrow> Engine" where
  "count_success e = e\<lparr>en_stats := (en_stats e)\<lparr>es_applySuccess := es_applySuccess (en_stats e) + 1\<rparr>\<rparr>"

definition apply_failed :: "go_string \<Rightarrow> Engine \<Rightarrow> Engine" where
  "apply_failed err e =
     e\<lparr>en_lastError := err, en_stats := (en_stats e)\<lparr>es_applyFailures := es_applyFailures (en_stats e) + 1\<rparr>\<rparr>"

text \<open>Retiring the snapshot at a position.\<close>

definition retire_at :: "nat \<Rightarrow> Engine \<Rightarrow> Engine" where
  "retire_at i e =
     (let (s, r) = snapshot_retire (en_snapshots e ! i) (en_states e)
      in e\<lparr>en_snapshots := (en_snapshots e)[i := s], en_states := r\<rparr>)"

text \<open>A snapshot that was built takes over.\<close>

definition install :: "runtimeSnapshot \<Rightarrow> instant \<Rightarrow> Engine \<Rightarrow> Engine" where
  "install s now e =
     (let e = e\<lparr>en_states := snapshot_activate now s (en_states e), en_nextRevision := ss_revision s,
                en_lastError := [], en_snapshots := en_snapshots e @ [s],
                en_current := Some (length (en_snapshots e))\<rparr>
      in count_success (remember s e))"

definition applyLocked :: "env \<Rightarrow> GatewayConfig option \<Rightarrow> instant \<Rightarrow> Engine \<Rightarrow> engine_error option \<times> Engine" where
  "applyLocked ev config now e =
     (if en_closed e then (Some ErrClosed, e)
      else
        (let previous = (case current_snapshot e of None \<Rightarrow> 0 | Some s \<Rightarrow> ss_revision s)
         in case buildSnapshot ev (en_defaults e) config (en_nextRevision e + 1) previous (current_snapshot e) now
                   (en_states e) of
              (Inl err, r) \<Rightarrow> (Some (EngineError err), apply_failed err (e\<lparr>en_states := r\<rparr>))
            | (Inr s, r) \<Rightarrow>
                if ev_opDone ev
                then (Some (EngineError ''context canceled''),
                      apply_failed ''context canceled'' (e\<lparr>en_states := snd (snapshot_close s r)\<rparr>))
                else (None, (case en_current e of None \<Rightarrow> id | Some i \<Rightarrow> retire_at i)
                              (install s now (e\<lparr>en_states := r\<rparr>)))))"

definition New :: "env \<Rightarrow> GatewayConfig option \<Rightarrow> Defaults \<Rightarrow> instant \<Rightarrow> world \<Rightarrow> go_string + Engine" where
  "New ev config d now w =
     (let e = \<lparr>en_defaults = d, en_states = NewBackendStateRegistry w, en_snapshots = [], en_current = None,
             en_closed = False, en_nextRevision = 1, en_history = Map.empty, en_order = [], en_lastError = [],
             en_stats = zero_stats\<rparr>
      in case buildSnapshot ev d config 1 0 None now (en_states e) of
           (Inl err, r) \<Rightarrow> Inl err
         | (Inr s, r) \<Rightarrow> if ev_opDone ev then Inl ''context canceled'' else Inr (install s now (e\<lparr>en_states := r\<rparr>)))"

definition revision_conflict :: "uint64 \<Rightarrow> Engine \<Rightarrow> engine_error option" where
  "revision_conflict expected e =
     (case current_snapshot e of
        None \<Rightarrow> Some (ErrRevisionConflict expected 0)
      | Some s \<Rightarrow> if expected = 0 \<or> ss_revision s \<noteq> expected then Some (ErrRevisionConflict expected (ss_revision s))
                 else None)"

definition Apply :: "env \<Rightarrow> GatewayConfig option \<Rightarrow> instant \<Rightarrow> Engine \<Rightarrow> engine_error option \<times> Engine" where
  "Apply ev config now e = applyLocked ev config now e"

definition ApplyIfRevision ::
    "env \<Rightarrow> GatewayConfig option \<Rightarrow> uint64 \<Rightarrow> instant \<Rightarrow> Engine \<Rightarrow> engine_error option \<times> Engine" where
  "ApplyIfRevision ev config expected now e =
     (if en_closed e then (Some ErrClosed, e)
      else case revision_conflict expected e of
             Some err \<Rightarrow> (Some err, e)
           | None \<Rightarrow> applyLocked ev config now e)"

definition rollbackLocked :: "env \<Rightarrow> uint64 \<Rightarrow> instant \<Rightarrow> Engine \<Rightarrow> engine_error option \<times> Engine" where
  "rollbackLocked ev revision now e =
     (case en_history e revision of
        None \<Rightarrow> (Some (EngineError ''gateway revision is not available''), e)
      | Some config \<Rightarrow> applyLocked ev (Some (cloneConfig config)) now e)"

definition Rollback :: "env \<Rightarrow> uint64 \<Rightarrow> instant \<Rightarrow> Engine \<Rightarrow> engine_error option \<times> Engine" where
  "Rollback ev revision now e = (if en_closed e then (Some ErrClosed, e) else rollbackLocked ev revision now e)"

definition RollbackIfRevision ::
    "env \<Rightarrow> uint64 \<Rightarrow> uint64 \<Rightarrow> instant \<Rightarrow> Engine \<Rightarrow> engine_error option \<times> Engine" where
  "RollbackIfRevision ev revision expected now e =
     (if en_closed e then (Some ErrClosed, e)
      else case revision_conflict expected e of
             Some err \<Rightarrow> (Some err, e)
           | None \<Rightarrow> rollbackLocked ev revision now e)"

definition Engine_Validate :: "env \<Rightarrow> GatewayConfig option \<Rightarrow> Engine \<Rightarrow> go_string option" where
  "Engine_Validate ev config e =
     (case normalizeConfig (ev_parse ev) (en_defaults e) config of Inl err \<Rightarrow> Some err | Inr n \<Rightarrow> None)"

definition Engine_Config :: "Engine \<Rightarrow> GatewayConfig option" where
  "Engine_Config e = map_option (\<lambda>s. cloneConfig (ss_config s)) (current_snapshot e)"

definition Engine_Close :: "Engine \<Rightarrow> Engine" where
  "Engine_Close e =
     (if en_closed e then e
      else (case en_current e of None \<Rightarrow> id | Some i \<Rightarrow> retire_at i) (e\<lparr>en_closed := True, en_current := None\<rparr>))"

section \<open>Endpoints and discovery\<close>

definition normalizeEndpoints :: "GatewayEndpointConfig list \<Rightarrow> GatewayEndpointConfig list" where
  "normalizeEndpoints es = map default_endpoint es"

text \<open>A missing key of the Go map reads as the zero endpoint.\<close>

definition zero_endpoint :: GatewayEndpointConfig where
  "zero_endpoint = \<lparr>ge_ID = [], ge_URL = [], ge_Weight = 0, ge_Disabled = False\<rparr>"

definition endpointSetsEqual :: "GatewayEndpointConfig list \<Rightarrow> GatewayEndpointConfig list \<Rightarrow> bool" where
  "endpointSetsEqual left right =
     (if length left \<noteq> length right then False
      else
        (let values = fold (\<lambda>e m. AList.update (ge_ID e) e m) (normalizeEndpoints left) []
         in list_all (\<lambda>e. (case map_of values (ge_ID e) of None \<Rightarrow> zero_endpoint | Some v \<Rightarrow> v) = e)
              (normalizeEndpoints right)))"

definition on_cluster ::
    "go_string \<Rightarrow> (runtimeCluster \<Rightarrow> runtimeCluster) \<Rightarrow> Engine \<Rightarrow> Engine" where
  "on_cluster cid f e =
     (case en_current e of
        None \<Rightarrow> e
      | Some i \<Rightarrow>
          (let s = en_snapshots e ! i
           in case map_of (ss_clusters s) cid of
                None \<Rightarrow> e
              | Some k \<Rightarrow> e\<lparr>en_snapshots := (en_snapshots e)[i := s\<lparr>ss_clusters :=
                   AList.update cid (f k) (ss_clusters s)\<rparr>]\<rparr>))"

definition endpoint_op ::
    "go_string \<Rightarrow> (addr \<Rightarrow> world \<Rightarrow> bool \<times> world) \<Rightarrow> Engine \<Rightarrow> engine_error option \<times> Engine" where
  "endpoint_op cid op e =
     (case current_snapshot e of
        None \<Rightarrow> (Some ErrClosed, e)
      | Some s \<Rightarrow>
          (case map_of (ss_clusters s) cid of
             None \<Rightarrow> (Some (EngineError ''unknown gateway cluster''), e)
           | Some k \<Rightarrow>
               (case op (rk_pool k) (rg_world (en_states e)) of
                  (False, w) \<Rightarrow> (Some (EngineError ''unknown endpoint''), e\<lparr>en_states := (en_states e)\<lparr>rg_world := w\<rparr>\<rparr>)
                | (True, w) \<Rightarrow> (None, e\<lparr>en_states := (en_states e)\<lparr>rg_world := w\<rparr>\<rparr>))))"

definition SetEndpoint :: "go_string \<Rightarrow> go_string \<Rightarrow> bool \<Rightarrow> Engine \<Rightarrow> engine_error option \<times> Engine" where
  "SetEndpoint cid endpointID enabled e = endpoint_op cid (\<lambda>p. SetBackendEnabled p endpointID enabled) e"

definition DrainEndpoint :: "go_string \<Rightarrow> go_string \<Rightarrow> Engine \<Rightarrow> engine_error option \<times> Engine" where
  "DrainEndpoint cid endpointID e = endpoint_op cid (\<lambda>p. DrainBackend p endpointID) e"

text \<open>The checks of \<open>updateEndpointsLocked\<close> on the cluster, once it is found.\<close>

definition discovery_check ::
    "runtimeSnapshot \<Rightarrow> GatewayClusterConfig \<Rightarrow> DiscoveryStatus \<Rightarrow> GatewayDiscoveryConfig option \<Rightarrow> engine_error option" where
  "discovery_check s c discovery expected =
     (if (case expected of None \<Rightarrow> False | Some x \<Rightarrow> gc_Discovery c \<noteq> x) then Some (ErrDiscoverySourceChanged (gc_ID c))
      else if ds_Type discovery \<noteq> gdc_Type (gc_Discovery c) then Some (ErrDiscoverySourceChanged (gc_ID c))
      else (case map_of (ss_clusters s) (gc_ID c) of
              None \<Rightarrow> None
            | Some k \<Rightarrow>
                (case (ds_LastUpdate discovery, ds_LastUpdate (rk_discovery k)) of
                   (Some new, Some old) \<Rightarrow> if new < old then Some (ErrStaleDiscoveryUpdate (gc_ID c)) else None
                 | _ \<Rightarrow> None)))"

text \<open>Replacing the endpoints of the first cluster with an ID.\<close>

fun set_endpoints :: "go_string \<Rightarrow> GatewayEndpointConfig list \<Rightarrow> GatewayClusterConfig list \<Rightarrow> GatewayClusterConfig list" where
  "set_endpoints cid es [] = []"
| "set_endpoints cid es (c # cs) =
     (if gc_ID c = cid then c\<lparr>gc_Endpoints := es\<rparr> # cs else c # set_endpoints cid es cs)"

definition updateEndpointsLocked ::
    "env \<Rightarrow> go_string \<Rightarrow> GatewayEndpointConfig list \<Rightarrow> DiscoveryStatus \<Rightarrow> GatewayDiscoveryConfig option \<Rightarrow> instant \<Rightarrow> Engine
     \<Rightarrow> engine_error option \<times> Engine" where
  "updateEndpointsLocked ev cid endpoints discovery expected now e =
     (if en_closed e then (Some ErrClosed, e)
      else case current_snapshot e of
        None \<Rightarrow> (Some ErrClosed, e)
      | Some s \<Rightarrow>
          (let copy = cloneConfig (ss_config s) in
           case first_match (\<lambda>c. gc_ID c = cid) (gg_Clusters copy) of
             None \<Rightarrow> (Some (EngineError ''unknown gateway cluster''), e)
           | Some c \<Rightarrow>
               (let discovery = (if ds_Type discovery = [] then discovery\<lparr>ds_Type := gdc_Type (gc_Discovery c)\<rparr>
                                 else discovery);
                    normalized = normalizeEndpoints endpoints;
                    unchanged = endpointSetsEqual (gc_Endpoints c) normalized;
                    copy = copy\<lparr>gg_Clusters := set_endpoints cid normalized (gg_Clusters copy)\<rparr>
                in case discovery_check s c discovery expected of
                     Some err \<Rightarrow> (Some err, e)
                   | None \<Rightarrow>
                       (case Validate (ev_parse ev) copy of
                          (Some err, copy) \<Rightarrow> (Some (EngineError err), e)
                        | (None, copy) \<Rightarrow>
                            if unchanged then (None, on_cluster cid (setDiscovery discovery) e)
                            else
                              (case applyLocked ev (Some copy) now e of
                                 (Some err, e) \<Rightarrow> (Some err, e)
                               | (None, e) \<Rightarrow> (None, on_cluster cid (setDiscovery discovery) e))))))"

definition UpdateEndpoints ::
    "env \<Rightarrow> go_string \<Rightarrow> GatewayEndpointConfig list \<Rightarrow> DiscoveryStatus \<Rightarrow> instant \<Rightarrow> Engine
     \<Rightarrow> engine_error option \<times> Engine" where
  "UpdateEndpoints ev cid endpoints discovery now e = updateEndpointsLocked ev cid endpoints discovery None now e"

definition UpdateEndpointsForSource ::
    "env \<Rightarrow> go_string \<Rightarrow> GatewayEndpointConfig list \<Rightarrow> DiscoveryStatus \<Rightarrow> GatewayDiscoveryConfig \<Rightarrow> instant \<Rightarrow> Engine
     \<Rightarrow> engine_error option \<times> Engine" where
  "UpdateEndpointsForSource ev cid endpoints discovery expected now e =
     updateEndpointsLocked ev cid endpoints discovery (Some expected) now e"

definition UpdateDiscoveryStatus :: "go_string \<Rightarrow> DiscoveryStatus \<Rightarrow> Engine \<Rightarrow> engine_error option \<times> Engine" where
  "UpdateDiscoveryStatus cid status e =
     (case current_snapshot e of
        None \<Rightarrow> (Some ErrClosed, e)
      | Some s \<Rightarrow>
          if map_of (ss_clusters s) cid = None then (Some (EngineError ''unknown gateway cluster''), e)
          else (None, on_cluster cid (setDiscovery status) e))"

text \<open>\<open>None\<close> as the discovery error is the code's \<open>nil\<close>.\<close>

definition markDiscoveryErrorLocked ::
    "go_string \<Rightarrow> go_string option \<Rightarrow> bool \<Rightarrow> GatewayDiscoveryConfig option \<Rightarrow> Engine \<Rightarrow> engine_error option \<times> Engine" where
  "markDiscoveryErrorLocked cid discoveryError stale expected e =
     (case current_snapshot e of
        None \<Rightarrow> (Some ErrClosed, e)
      | Some s \<Rightarrow>
          (case map_of (ss_clusters s) cid of
             None \<Rightarrow> (Some (EngineError ''unknown gateway cluster''), e)
           | Some k \<Rightarrow>
               if (case expected of None \<Rightarrow> False | Some x \<Rightarrow> gc_Discovery (rk_config k) \<noteq> x)
               then (Some (ErrDiscoverySourceChanged cid), e)
               else (None, on_cluster cid (\<lambda>k. setDiscovery ((rk_discovery k)\<lparr>ds_Stale := stale,
                       ds_Error := (case discoveryError of None \<Rightarrow> [] | Some err \<Rightarrow> err)\<rparr>) k) e)))"

definition MarkDiscoveryError :: "go_string \<Rightarrow> go_string option \<Rightarrow> bool \<Rightarrow> Engine \<Rightarrow> engine_error option \<times> Engine" where
  "MarkDiscoveryError cid discoveryError stale e = markDiscoveryErrorLocked cid discoveryError stale None e"

definition MarkDiscoveryErrorForSource ::
    "go_string \<Rightarrow> go_string option \<Rightarrow> bool \<Rightarrow> GatewayDiscoveryConfig \<Rightarrow> Engine \<Rightarrow> engine_error option \<times> Engine" where
  "MarkDiscoveryErrorForSource cid discoveryError stale expected e =
     markDiscoveryErrorLocked cid discoveryError stale (Some expected) e"

section \<open>Readiness\<close>

definition required_clusters :: "GatewayConfig \<Rightarrow> go_string list" where
  "required_clusters g = concat (map (\<lambda>r.
     (let a = gr_Action r
      in if ga_Redirect a \<noteq> None then []
         else (if ga_Cluster a \<noteq> [] then [ga_Cluster a] else []) @ map gw_Cluster (ga_WeightedClusters a)))
     (gg_Routes g))"

fun clusters_ready ::
    "(go_string \<times> runtimeCluster) list \<Rightarrow> instant \<Rightarrow> go_string list \<Rightarrow> world \<Rightarrow> bool \<times> world" where
  "clusters_ready clusters now [] w = (True, w)"
| "clusters_ready clusters now (cid # cids) w =
     (case map_of clusters cid of
        None \<Rightarrow> (False, w)
      | Some k \<Rightarrow>
          (case Pool_Ready (rk_pool k) now w of
             (False, w) \<Rightarrow> (False, w)
           | (True, w) \<Rightarrow> clusters_ready clusters now cids w))"

definition Engine_Ready :: "instant \<Rightarrow> Engine \<Rightarrow> bool \<times> Engine" where
  "Engine_Ready now e =
     (case current_snapshot e of
        None \<Rightarrow> (False, e)
      | Some s \<Rightarrow>
          (let (ok, w) = clusters_ready (ss_clusters s) now (remdups (required_clusters (ss_config s)))
                           (rg_world (en_states e))
           in (ok, e\<lparr>en_states := (en_states e)\<lparr>rg_world := w\<rparr>\<rparr>)))"

definition clusterUsesTLS :: "GatewayClusterConfig \<Rightarrow> bool" where
  "clusterUsesTLS c \<longleftrightarrow> ct_Enabled (gc_TLS c) \<or> list_ex (\<lambda>e. take 8 (ge_URL e) = ''https://'') (gc_Endpoints c)"

section \<open>Requests\<close>

text \<open>What a client gets: a status of the gateway itself, a redirect, or a backend's response.\<close>

datatype reply =
    ReplyStatus int
  | ReplyRedirect url int
  | ReplyProxied response

text \<open>\<open>LoadBalancer.ServeHTTP\<close>: the body is made replayable, the forwarding headers are rewritten, the request
  makes its trip, and the reverse proxy closes the body of the response it has copied. \<open>readFails\<close> says
  whether reading the client's body fails. \<open>None\<close> is the panic of a missing retry budget.\<close>

definition lb_ServeHTTP ::
    "env \<Rightarrow> (nat \<Rightarrow> request \<Rightarrow> outcome) \<Rightarrow> bool \<Rightarrow> request \<Rightarrow> instant \<Rightarrow> retryTransport \<Rightarrow> world
     \<Rightarrow> (reply \<times> retryTransport \<times> world) option" where
  "lb_ServeHTTP ev base readFails request now t w =
     (case prepareReplayableBody t request readFails of
        Inl status \<Rightarrow> Some (ReplyStatus status, t, w)
      | Inr request \<Rightarrow>
          (case RoundTrip (ev_EscapedPath ev) base
                  (request\<lparr>rq_Header := rewrite_headers request (rq_Header request)\<rparr>) now t w of
             None \<Rightarrow> None
           | Some tr \<Rightarrow>
               (case tr_error tr of
                  Some err \<Rightarrow> Some (ReplyStatus (error_status (ProxyError err)), tr_transport tr, tr_world tr)
                | None \<Rightarrow>
                    (case tr_response tr of
                       None \<Rightarrow> None
                     | Some resp \<Rightarrow> Some (ReplyProxied resp, tr_transport tr, close_response (Some resp) (tr_world tr))))))"

definition add_stat :: "(engineStats \<Rightarrow> engineStats) \<Rightarrow> Engine \<Rightarrow> Engine" where
  "add_stat f e = e\<lparr>en_stats := f (en_stats e)\<rparr>"

text \<open>The first route of the snapshot that matches, with its position.\<close>

definition select_route :: "runtimeSnapshot \<Rightarrow> go_string \<Rightarrow> GatewayListenerConfig \<Rightarrow> request \<Rightarrow> (nat \<times> compiledRoute) option" where
  "select_route s listenerID listener request =
     first_match (\<lambda>(i, r). matches r listenerID listener request) (enumerate 0 (ss_routes s))"

text \<open>The part of \<open>ServeHTTP\<close> behind a selected route that is no redirect. The reference on the snapshot that
  \<open>ServeHTTP\<close> takes at its start is given back when it returns, so it is not seen in the result.\<close>

definition serve_route ::
    "env \<Rightarrow> (nat \<Rightarrow> request \<Rightarrow> outcome) \<Rightarrow> bool \<Rightarrow> request \<Rightarrow> instant \<Rightarrow> nat \<Rightarrow> nat \<Rightarrow> compiledRoute \<Rightarrow> Engine
     \<Rightarrow> (reply \<times> Engine) option" where
  "serve_route ev base readFails request now i j route e =
     (let s = en_snapshots e ! i; (cid, route) = clusterID route;
          put = (\<lambda>route e. e\<lparr>en_snapshots := (en_snapshots e)[i := s\<lparr>ss_routes := (ss_routes s)[j := route]\<rparr>]\<rparr>)
      in case map_of (ss_clusters s) cid of
           None \<Rightarrow> Some (ReplyStatus 503, put route e)
         | Some k \<Rightarrow>
             (case prepareRequest (ev_EscapedPath ev) (ev_PathUnescape ev) route request (transport_Policy (rk_lb k)) now of
                (Rejected reason status, route) \<Rightarrow>
                  Some (ReplyStatus status,
                    (if reason = ''rate_limit'' then add_stat (\<lambda>t. t\<lparr>es_rateLimited := es_rateLimited t + 1\<rparr>)
                     else add_stat (\<lambda>t. t\<lparr>es_bodyRejected := es_bodyRejected t + 1\<rparr>)) (put route e))
              | (Prepared prepared, route) \<Rightarrow>
                  (case lb_ServeHTTP ev base readFails prepared now (rk_lb k) (rg_world (en_states e)) of
                     None \<Rightarrow> None
                   | Some (reply, t, w) \<Rightarrow>
                       (let e = e\<lparr>en_snapshots := (en_snapshots e)[i := s\<lparr>ss_routes := (ss_routes s)[j := route],
                                    ss_clusters := AList.update cid (k\<lparr>rk_lb := t\<rparr>) (ss_clusters s)\<rparr>],
                                  en_states := (en_states e)\<lparr>rg_world := w\<rparr>\<rparr>
                        in Some (reply,
                             if (case reply of ReplyStatus st \<Rightarrow> st = 413 | ReplyProxied r \<Rightarrow> rs_StatusCode r = 413 | _ \<Rightarrow> False)
                             then add_stat (\<lambda>t. t\<lparr>es_bodyRejected := es_bodyRejected t + 1\<rparr>) e else e)))))"

definition ServeHTTP ::
    "env \<Rightarrow> (nat \<Rightarrow> request \<Rightarrow> outcome) \<Rightarrow> bool \<Rightarrow> request \<Rightarrow> instant \<Rightarrow> Engine \<Rightarrow> (reply \<times> Engine) option" where
  "ServeHTTP ev base readFails request now e =
     (if validateIncomingRequest (ev_parse ev) request \<noteq> None then Some (ReplyStatus 400, e)
      else case en_current e of
        None \<Rightarrow> Some (ReplyStatus 503, e)
      | Some i \<Rightarrow>
          (let s = en_snapshots e ! i; e = add_stat (\<lambda>t. t\<lparr>es_requests := es_requests t + 1\<rparr>) e;
               not_found = (ReplyStatus 404, add_stat (\<lambda>t. t\<lparr>es_routeNotFound := es_routeNotFound t + 1\<rparr>) e)
           in case validateListener s (rq_listener request) of
                None \<Rightarrow> Some not_found
              | Some listener \<Rightarrow>
                  (let listenerID = (if rq_listener request = [] then gl_ID listener else rq_listener request)
                   in case select_route s listenerID listener request of
                        None \<Rightarrow> Some not_found
                      | Some (j, route) \<Rightarrow>
                          (case redirect route request of
                             Some (target, status) \<Rightarrow>
                               Some (ReplyRedirect target status,
                                     add_stat (\<lambda>t. t\<lparr>es_redirects := es_redirects t + 1\<rparr>) e)
                           | None \<Rightarrow> serve_route ev base readFails request now i j route e))))"

end
