(* ===== verification/Gateway_Status.thy ===== *)
theory Gateway_Status
  imports Engine
begin

text \<open>
  The status the engine reports (\<open>Status\<close> and \<open>statsSnapshot\<close> of \<open>internal/gateway/engine.go\<close>, the types
  of \<open>internal/gateway/types.go\<close>). Durations are reported as numbers; their textual form is the
  library's.
\<close>

record TLSStatus =
  ts_Enabled :: bool
  ts_ServerName :: go_string

record RetryStatus =
  ys_MaxAttempts :: int
  ys_PerTryTimeout :: duration
  ys_Methods :: "go_string list"
  ys_Statuses :: "int list"
  ys_Budget :: RetryBudgetSnapshot

record ListenerStatus =
  ls_ID :: go_string
  ls_Address :: go_string
  ls_Protocol :: go_string
  ls_TLS :: bool

record RouteStatus =
  os_ID :: go_string
  os_Listener :: go_string
  os_Priority :: int

record ClusterStatus =
  cs_ID :: go_string
  cs_Strategy :: go_string
  cs_Endpoints :: "BackendSnapshot option list"
  cs_Discovery :: DiscoveryStatus
  cs_TLS :: TLSStatus
  cs_Retry :: RetryStatus

record Status =
  us_Revision :: uint64
  us_Hash :: go_string
  us_PreviousRevision :: uint64
  us_AppliedAt :: instant
  us_LastError :: go_string
  us_Listeners :: "ListenerStatus list"
  us_Routes :: "RouteStatus list"
  us_Clusters :: "ClusterStatus list"
  us_Stats :: engineStats

text \<open>The discovery status as reported: the configured type where none is recorded, and stale once the last
  update is too old, whatever is recorded.\<close>

definition reported_discovery :: "GatewayDiscoveryConfig \<Rightarrow> instant \<Rightarrow> DiscoveryStatus \<Rightarrow> DiscoveryStatus" where
  "reported_discovery config now discovery =
     (let d = (if ds_Type discovery = [] then discovery\<lparr>ds_Type := gdc_Type config\<rparr> else discovery)
      in case ds_LastUpdate d of
           None \<Rightarrow> d
         | Some t \<Rightarrow> if gdc_StaleAfter config > 0 \<and> now - t > gdc_StaleAfter config then d\<lparr>ds_Stale := True\<rparr> else d)"

text \<open>\<open>LoadBalancer.RetryBudget\<close>: reading the budget refills it.\<close>

definition lb_RetryBudget :: "retryTransport \<Rightarrow> instant \<Rightarrow> (RetryBudgetSnapshot \<times> retryTransport) option" where
  "lb_RetryBudget t now =
     (case rt_budget t of
        None \<Rightarrow> None
      | Some budget \<Rightarrow> (let (snap, budget) = RetryBudget_Snapshot budget now in Some (snap, t\<lparr>rt_budget := Some budget\<rparr>)))"

definition cluster_status ::
    "GatewayClusterConfig \<Rightarrow> instant \<Rightarrow> world \<Rightarrow> runtimeCluster \<Rightarrow> (ClusterStatus \<times> runtimeCluster) option" where
  "cluster_status configured now w k =
     (let policy = transport_Policy (rk_lb k) in
      case lb_RetryBudget (rk_lb k) now of
        None \<Rightarrow> None
      | Some (budget, t) \<Rightarrow>
          Some (\<lparr>cs_ID = gc_ID configured, cs_Strategy = gc_Strategy configured,
                 cs_Endpoints = Pool_Snapshot w (rk_pool k) now,
                 cs_Discovery = reported_discovery (gc_Discovery configured) now (rk_discovery k),
                 cs_TLS = \<lparr>ts_Enabled = clusterUsesTLS configured, ts_ServerName = ct_ServerName (gc_TLS configured)\<rparr>,
                 cs_Retry = \<lparr>ys_MaxAttempts = rp_MaxAttempts policy, ys_PerTryTimeout = rp_PerTryTimeout policy,
                   ys_Methods = rp_Methods policy, ys_Statuses = rp_Statuses policy, ys_Budget = budget\<rparr>\<rparr>,
                k\<lparr>rk_lb := t\<rparr>))"

fun clusters_status ::
    "GatewayClusterConfig list \<Rightarrow> instant \<Rightarrow> world \<Rightarrow> (go_string \<times> runtimeCluster) list
     \<Rightarrow> (ClusterStatus list \<times> (go_string \<times> runtimeCluster) list) option" where
  "clusters_status [] now w clusters = Some ([], clusters)"
| "clusters_status (c # cs) now w clusters =
     (case map_of clusters (gc_ID c) of
        None \<Rightarrow> clusters_status cs now w clusters
      | Some k \<Rightarrow>
          (case cluster_status c now w k of
             None \<Rightarrow> None
           | Some (status, k) \<Rightarrow>
               map_option (\<lambda>(rest, clusters). (status # rest, clusters))
                 (clusters_status cs now w (AList.update (gc_ID c) k clusters))))"

text \<open>\<open>None\<close> is the panic of a missing retry budget.\<close>

definition Engine_Status :: "instant \<Rightarrow> Engine \<Rightarrow> (Status \<times> Engine) option" where
  "Engine_Status now e =
     (let status = \<lparr>us_Revision = 0, us_Hash = [], us_PreviousRevision = 0, us_AppliedAt = 0,
            us_LastError = en_lastError e, us_Listeners = [], us_Routes = [], us_Clusters = [], us_Stats = en_stats e\<rparr>
      in case en_current e of
           None \<Rightarrow> Some (status, e)
         | Some i \<Rightarrow>
             (let s = en_snapshots e ! i; g = ss_config s in
              case clusters_status (gg_Clusters g) now (rg_world (en_states e)) (ss_clusters s) of
                None \<Rightarrow> None
              | Some (cs, clusters) \<Rightarrow>
                  Some (status\<lparr>us_Revision := ss_revision s, us_PreviousRevision := ss_previousRevision s,
                          us_Hash := ss_hash s, us_AppliedAt := ss_appliedAt s,
                          us_Listeners := map (\<lambda>l. \<lparr>ls_ID = gl_ID l, ls_Address = gl_Address l, ls_Protocol = gl_Protocol l,
                            ls_TLS = (st_CertFile (gl_TLS l) \<noteq> [])\<rparr>) (gg_Listeners g),
                          us_Routes := map (\<lambda>r. \<lparr>os_ID = gr_ID r, os_Listener = gr_Listener r, os_Priority = gr_Priority r\<rparr>)
                            (gg_Routes g),
                          us_Clusters := cs\<rparr>,
                        e\<lparr>en_snapshots := (en_snapshots e)[i := s\<lparr>ss_clusters := clusters\<rparr>]\<rparr>)))"

end
