(* ===== verification/Runtime_Facts.thy ===== *)
theory Runtime_Facts
  imports Runtime
begin

text \<open>
  Facts about building snapshots: which leases are open afterwards, and that building never touches
  the backends, states and pools that existed before.
\<close>

section \<open>Open leases\<close>

definition open_leases :: "registry \<Rightarrow> nat set" where
  "open_leases r = {i. i < length (rg_leases r) \<and> \<not> lease_closed (rg_leases r ! i)}"

lemma open_leases_world [simp]: "open_leases (r\<lparr>rg_world := w\<rparr>) = open_leases r"
  by (simp add: open_leases_def)

lemma open_leases_bound: "open_leases r \<subseteq> {..< length (rg_leases r)}"
  by (auto simp: open_leases_def)

lemma reserve_entry_frame:
  "rg_leases (snd (reserve_entry scope b r)) = rg_leases r" "rg_world (snd (reserve_entry scope b r)) = rg_world r"
  by (simp_all add: reserve_entry_def Let_def split_def split: option.split)

lemma reserve_entries_frame:
  "rg_leases (snd (reserve_entries scope bs r)) = rg_leases r
   \<and> rg_world (snd (reserve_entries scope bs r)) = rg_world r"
  by (induction bs arbitrary: r) (simp_all add: split_def Let_def reserve_entry_frame)

lemma Reserve_leases:
  "\<exists>l. rg_leases (Reserve scope p r) = rg_leases r @ [l] \<and> \<not> lease_closed l \<and> \<not> lease_active l \<and> lease_pool l = p"
  "rg_world (Reserve scope p r) = rg_world r"
  by (simp_all add: Reserve_def split_def Let_def reserve_entries_frame)

lemma open_leases_Reserve:
  "open_leases (Reserve scope p r) = insert (length (rg_leases r)) (open_leases r)"
  "length (rg_leases (Reserve scope p r)) = Suc (length (rg_leases r))"
proof -
  obtain l where l: "rg_leases (Reserve scope p r) = rg_leases r @ [l]" "\<not> lease_closed l"
    using Reserve_leases(1) by blast
  then show "open_leases (Reserve scope p r) = insert (length (rg_leases r)) (open_leases r)"
    by (auto simp: open_leases_def nth_append less_Suc_eq)
  from l show "length (rg_leases (Reserve scope p r)) = Suc (length (rg_leases r))" by simp
qed

lemma close_fold_leases [simp]: "rg_leases (fold (close_entry p a) es r) = rg_leases r"
  by (induction es arbitrary: r) simp_all

lemma open_leases_Close:
  assumes "i < length (rg_leases r)"
  shows "open_leases (Close i r) = open_leases r - {i}" and "length (rg_leases (Close i r)) = length (rg_leases r)"
  using assms by (auto simp: Close_def Let_def open_leases_def nth_list_update)

lemma open_leases_Activate:
  assumes "i < length (rg_leases r)"
  shows "open_leases (Activate i refresh now r) = open_leases r"
    and "length (rg_leases (Activate i refresh now r)) = length (rg_leases r)"
  using assms by (auto simp: Activate_def Let_def open_leases_def nth_list_update)

text \<open>Closing or activating the leases of a list of clusters.\<close>

definition lease_set :: "(go_string \<times> runtimeCluster) list \<Rightarrow> nat set" where
  "lease_set clusters = (\<lambda>(cid, k). rk_lease k) ` set clusters"

lemma close_clusters_ok:
  assumes "registry_reachable r" and "lease_set clusters \<subseteq> {..< length (rg_leases r)}"
  shows "registry_reachable (close_clusters clusters r)
    \<and> open_leases (close_clusters clusters r) = open_leases r - lease_set clusters
    \<and> length (rg_leases (close_clusters clusters r)) = length (rg_leases r)"
  using assms
proof (induction clusters arbitrary: r)
  case Nil
  then show ?case by (simp add: close_clusters_def lease_set_def)
next
  case (Cons c cs)
  obtain cid k where c: "c = (cid, k)" by (cases c)
  have i: "rk_lease k < length (rg_leases r)" using Cons.prems(2) by (simp add: lease_set_def c)
  have "lease_set cs \<subseteq> {..< length (rg_leases (Close (rk_lease k) r))}"
    using Cons.prems(2) open_leases_Close(2) [OF i] by (auto simp: lease_set_def)
  from Cons.IH [OF registry_reachable.close [OF Cons.prems(1) i] this] open_leases_Close [OF i]
  show ?case by (auto simp: close_clusters_def lease_set_def c)
qed

lemma snapshot_activate_ok:
  assumes "registry_reachable r" and "lease_set (ss_clusters s) \<subseteq> {..< length (rg_leases r)}"
  shows "registry_reachable (snapshot_activate now s r)
    \<and> open_leases (snapshot_activate now s r) = open_leases r
    \<and> length (rg_leases (snapshot_activate now s r)) = length (rg_leases r)"
proof -
  have "registry_reachable (fold (\<lambda>(cid, k). Activate (rk_lease k) (rk_refreshHealth k) now) cs r)
    \<and> open_leases (fold (\<lambda>(cid, k). Activate (rk_lease k) (rk_refreshHealth k) now) cs r) = open_leases r
    \<and> length (rg_leases (fold (\<lambda>(cid, k). Activate (rk_lease k) (rk_refreshHealth k) now) cs r)) = length (rg_leases r)"
    if "registry_reachable r" "lease_set cs \<subseteq> {..< length (rg_leases r)}" for cs r
    using that
  proof (induction cs arbitrary: r)
    case Nil
    then show ?case by simp
  next
    case (Cons c cs)
    obtain cid k where c: "c = (cid, k)" by (cases c)
    have i: "rk_lease k < length (rg_leases r)" using Cons.prems(2) by (simp add: lease_set_def c)
    note a = open_leases_Activate [OF i, of "rk_refreshHealth k" now]
    have "lease_set cs \<subseteq> {..< length (rg_leases (Activate (rk_lease k) (rk_refreshHealth k) now r))}"
      using Cons.prems(2) a(2) by (auto simp: lease_set_def)
    from Cons.IH [OF registry_reachable.activate [OF Cons.prems(1) i] this] a show ?case by (simp add: c)
  qed
  with assms show ?thesis unfolding snapshot_activate_def by blast
qed

section \<open>What a build opens\<close>

lemma build_reserved_lease:
  "build_reserved ev value previous p i now r = (Inr k, w) \<Longrightarrow> rk_lease k = i \<and> rk_pool k = p \<and> rk_config k = value"
  by (auto simp: build_reserved_def Let_def split: option.splits sum.splits if_splits prod.splits)

lemma buildCluster_ok:
  assumes "registry_reachable r" and "buildCluster ev value previous now r = (res, r')"
  shows "registry_reachable r' \<and> length (rg_leases r) \<le> length (rg_leases r')
    \<and> (case res of
         Inl err \<Rightarrow> open_leases r' = open_leases r
       | Inr k \<Rightarrow> rk_lease k = length (rg_leases r) \<and> rk_config k = value
           \<and> open_leases r' = insert (rk_lease k) (open_leases r) \<and> rk_lease k < length (rg_leases r'))"
proof (cases "NewBackendPool (ev_parse ev) (map endpoint_spec (gc_Endpoints value)) (Some (cluster_policy value)) now
    (rg_world r)")
  case (Inl err)
  with assms show ?thesis by (auto simp: buildCluster_def)
next
  case pool: (Inr pw)
  obtain p w where pw: "pw = (p, w)" by (cases pw)
  let ?r = "Reserve (gc_ID value) p (r\<lparr>rg_world := w\<rparr>)"
  let ?i = "length (rg_leases r)"
  have reach: "registry_reachable (?r\<lparr>rg_world := w'\<rparr>)" for w'
    using assms(1) by (intro registry_reachable.other registry_reachable.reserve)
  have open_r: "open_leases (?r\<lparr>rg_world := w'\<rparr>) = insert ?i (open_leases r)"
    "length (rg_leases (?r\<lparr>rg_world := w'\<rparr>)) = Suc ?i" for w'
    using open_leases_Reserve [of "gc_ID value" p "r\<lparr>rg_world := w\<rparr>"] by simp_all
  obtain out w' where out: "build_reserved ev value previous p ?i now ?r = (out, w')" by fastforce
  have i: "length (rg_leases ?r) - 1 = ?i" using open_r(2) by simp
  show ?thesis
  proof (cases out)
    case (Inl err)
    with assms(2) out i have eq: "res = Inl err" "r' = Close ?i (?r\<lparr>rg_world := w'\<rparr>)"
      by (auto simp: buildCluster_def pool pw Let_def)
    have lt: "?i < length (rg_leases (?r\<lparr>rg_world := w'\<rparr>))" unfolding open_r(2) by simp
    have "?i \<notin> open_leases r" by (simp add: open_leases_def)
    with open_leases_Close [OF lt] registry_reachable.close [OF reach lt] open_r [of w'] show ?thesis
      by (simp add: eq)
  next
    case (Inr k)
    with assms(2) out i have eq: "res = Inr k" "r' = ?r\<lparr>rg_world := w'\<rparr>"
      by (auto simp: buildCluster_def pool pw Let_def)
    from build_reserved_lease [of ev "value" previous p ?i now ?r k w'] out Inr reach [of w'] open_r [of w'] show ?thesis
      unfolding eq by simp
  qed
qed

lemma lease_set_update:
  "cid \<notin> fst ` set built \<Longrightarrow> lease_set (AList.update cid k built) = insert (rk_lease k) (lease_set built)"
  "cid \<notin> fst ` set built \<Longrightarrow> map fst (AList.update cid k built) = map fst built @ [cid]"
  by (induction built) (auto simp: lease_set_def)

lemma inherit_status_simps [simp]:
  "rk_lease (inherit_status previous k) = rk_lease k" "rk_config (inherit_status previous k) = rk_config k"
  "rk_pool (inherit_status previous k) = rk_pool k" "rk_lb (inherit_status previous k) = rk_lb k"
  by (simp_all add: inherit_status_def split: option.split)

lemma build_clusters_ok:
  assumes "registry_reachable r" and "build_clusters ev current now cs built r = (res, r')"
    and "distinct (map gc_ID cs)" and "fst ` set built \<inter> gc_ID ` set cs = {}"
    and "lease_set built \<subseteq> open_leases r"
  shows "registry_reachable r' \<and> length (rg_leases r) \<le> length (rg_leases r')
    \<and> (case res of
         Inl err \<Rightarrow> open_leases r' = open_leases r - lease_set built
       | Inr built' \<Rightarrow> open_leases r' = open_leases r \<union> lease_set built'
           \<and> map fst built' = map fst built @ map gc_ID cs \<and> lease_set built \<subseteq> lease_set built'
           \<and> lease_set built' \<subseteq> lease_set built \<union> {length (rg_leases r) ..})"
  using assms
proof (induction cs arbitrary: built r)
  case Nil
  then show ?case by auto
next
  case (Cons c cs)
  obtain res1 r1 where b: "buildCluster ev c (map_of current (gc_ID c)) now r = (res1, r1)" by fastforce
  note ok = buildCluster_ok [OF Cons.prems(1) b]
  show ?case
  proof (cases res1)
    case (Inl err)
    with Cons.prems(2) b have eq: "res = Inl err" "r' = close_clusters built r1" by auto
    have "lease_set built \<subseteq> {..< length (rg_leases r1)}"
      using Cons.prems(5) ok open_leases_bound [of r] by force
    from close_clusters_ok [OF _ this] ok Inl show ?thesis by (simp add: eq)
  next
    case (Inr k)
    let ?k = "inherit_status (map_of current (gc_ID c)) k"
    let ?built = "AList.update (gc_ID c) ?k built"
    from Inr Cons.prems(2) b have step: "build_clusters ev current now cs ?built r1 = (res, r')" by (simp add: Let_def)
    have new: "gc_ID c \<notin> fst ` set built" using Cons.prems(4) by auto
    note upd = lease_set_update [OF new, of ?k]
    have keys: "fst ` set ?built = insert (gc_ID c) (fst ` set built)"
      using upd(2) by (metis Un_insert_right list.set_map list.simps(15) set_append sup_bot_right set_empty list.set(1))
    have dis: "distinct (map gc_ID cs)" "fst ` set ?built \<inter> gc_ID ` set cs = {}"
      using Cons.prems(3,4) unfolding keys by auto
    have sub: "lease_set ?built \<subseteq> open_leases r1"
      using Cons.prems(5) ok Inr by (auto simp: upd)
    have "length (rg_leases r) \<notin> open_leases r" by (simp add: open_leases_def)
    with Cons.IH [OF _ step dis sub] ok Inr upd Cons.prems(5) show ?thesis
      by (cases res) auto
  qed
qed

end
