(* ===== verification/Engine_Inv.thy ===== *)
theory Engine_Inv
  imports Gateway_Status Runtime_Facts
begin

text \<open>
  The states an engine can reach by configuration changes, administration calls, discovery updates
  and requests; the invariant that holds in them; the operations that leave the configuration alone;
  and what building a snapshot gives.
\<close>

section \<open>Sequences of operations\<close>

text \<open>The states of an engine whose configurations are parsed by one URL parser. Requests are whole
  (\<open>serve\<close>) or seen as the reference they hold on a snapshot (\<open>acquire\<close>, \<open>release\<close>) with their effect on
  backends (\<open>other\<close>, which also stands for health checks).\<close>

inductive engine_reachable :: "url_parser \<Rightarrow> Engine \<Rightarrow> bool" for parse where
  new: "New ev config d now w = Inr e \<Longrightarrow> ev_parse ev = parse \<Longrightarrow> engine_reachable parse e"
| applied: "engine_reachable parse e \<Longrightarrow> ev_parse ev = parse \<Longrightarrow> engine_reachable parse (snd (Apply ev config now e))"
| applied_if: "engine_reachable parse e \<Longrightarrow> ev_parse ev = parse
    \<Longrightarrow> engine_reachable parse (snd (ApplyIfRevision ev config expected now e))"
| rollback: "engine_reachable parse e \<Longrightarrow> ev_parse ev = parse \<Longrightarrow> engine_reachable parse (snd (Rollback ev revision now e))"
| rollback_if: "engine_reachable parse e \<Longrightarrow> ev_parse ev = parse
    \<Longrightarrow> engine_reachable parse (snd (RollbackIfRevision ev revision expected now e))"
| set_endpoint: "engine_reachable parse e \<Longrightarrow> engine_reachable parse (snd (SetEndpoint cid endpointID enabled e))"
| drain_endpoint: "engine_reachable parse e \<Longrightarrow> engine_reachable parse (snd (DrainEndpoint cid endpointID e))"
| update: "engine_reachable parse e \<Longrightarrow> ev_parse ev = parse
    \<Longrightarrow> engine_reachable parse (snd (UpdateEndpoints ev cid endpoints discovery now e))"
| update_source: "engine_reachable parse e \<Longrightarrow> ev_parse ev = parse
    \<Longrightarrow> engine_reachable parse (snd (UpdateEndpointsForSource ev cid endpoints discovery source now e))"
| status: "engine_reachable parse e \<Longrightarrow> engine_reachable parse (snd (UpdateDiscoveryStatus cid status e))"
| mark: "engine_reachable parse e \<Longrightarrow> engine_reachable parse (snd (MarkDiscoveryError cid err stale e))"
| mark_source: "engine_reachable parse e
    \<Longrightarrow> engine_reachable parse (snd (MarkDiscoveryErrorForSource cid err stale source e))"
| ready: "engine_reachable parse e \<Longrightarrow> engine_reachable parse (snd (Engine_Ready now e))"
| reported: "engine_reachable parse e \<Longrightarrow> Engine_Status now e = Some (report, e') \<Longrightarrow> engine_reachable parse e'"
| serve: "engine_reachable parse e \<Longrightarrow> ServeHTTP ev base readFails request now e = Some (reply, e')
    \<Longrightarrow> engine_reachable parse e'"
| acquire: "engine_reachable parse e \<Longrightarrow> en_current e = Some i
    \<Longrightarrow> snapshot_acquire (en_snapshots e ! i) (en_states e) = (ok, s, r)
    \<Longrightarrow> engine_reachable parse (e\<lparr>en_snapshots := (en_snapshots e)[i := s], en_states := r\<rparr>)"
| release: "engine_reachable parse e \<Longrightarrow> i < length (en_snapshots e) \<Longrightarrow> 0 < ss_refs (en_snapshots e ! i)
    \<Longrightarrow> snapshot_release (en_snapshots e ! i) (en_states e) = (s, r)
    \<Longrightarrow> engine_reachable parse (e\<lparr>en_snapshots := (en_snapshots e)[i := s], en_states := r\<rparr>)"
| other: "engine_reachable parse e \<Longrightarrow> engine_reachable parse (e\<lparr>en_states := (en_states e)\<lparr>rg_world := w\<rparr>\<rparr>)"
| close: "engine_reachable parse e \<Longrightarrow> engine_reachable parse (Engine_Close e)"

section \<open>The invariant\<close>

text \<open>A configuration that normalising leaves as it is.\<close>

definition normal :: "url_parser \<Rightarrow> Defaults \<Rightarrow> GatewayConfig \<Rightarrow> bool" where
  "normal parse d g \<longleftrightarrow> normalizeConfig parse d (Some g) = Inr g \<and> cloneConfig g = g \<and> gateway_valid parse g"

definition snapshot_ok :: "url_parser \<Rightarrow> Defaults \<Rightarrow> runtimeSnapshot \<Rightarrow> bool" where
  "snapshot_ok parse d s \<longleftrightarrow>
     normal parse d (ss_config s)
     \<and> map fst (ss_clusters s) = map gc_ID (gg_Clusters (ss_config s))
     \<and> cr_config ` set (ss_routes s) = set (gg_Routes (ss_config s))
     \<and> ss_listeners s = map (\<lambda>l. (gl_ID l, l)) (gg_Listeners (ss_config s))
     \<and> ss_defaultListener s \<in> gl_ID ` set (gg_Listeners (ss_config s))"

text \<open>Leases: the open ones are those of the snapshots that are not closed, and no two share one.\<close>

definition snapshot_leases :: "Engine \<Rightarrow> nat \<Rightarrow> nat set" where
  "snapshot_leases e i = lease_set (ss_clusters (en_snapshots e ! i))"

definition unclosed :: "Engine \<Rightarrow> nat set" where
  "unclosed e = {i. i < length (en_snapshots e) \<and> \<not> ss_closed (en_snapshots e ! i)}"

definition leases_ok :: "Engine \<Rightarrow> bool" where
  "leases_ok e \<longleftrightarrow>
     registry_reachable (en_states e)
     \<and> (\<forall>i < length (en_snapshots e). snapshot_leases e i \<subseteq> {..< length (rg_leases (en_states e))})
     \<and> (\<forall>j < length (en_snapshots e). \<forall>i < j. snapshot_leases e i \<inter> snapshot_leases e j = {})
     \<and> open_leases (en_states e) = \<Union> (snapshot_leases e ` unclosed e)"

definition life_ok :: "Engine \<Rightarrow> bool" where
  "life_ok e \<longleftrightarrow>
     (\<forall>i < length (en_snapshots e).
        (let s = en_snapshots e ! i
         in 0 \<le> ss_refs s \<and> (ss_retired s \<longleftrightarrow> en_current e \<noteq> Some i) \<and> (ss_closed s \<longleftrightarrow> ss_retired s \<and> ss_refs s = 0)))
     \<and> (case en_current e of None \<Rightarrow> en_closed e | Some i \<Rightarrow> i < length (en_snapshots e) \<and> \<not> en_closed e)"

text \<open>History: the last revisions, consecutive as 64-bit numbers.\<close>

definition last_revisions :: "uint64 \<Rightarrow> nat \<Rightarrow> uint64 list" where
  "last_revisions revision n = rev (map (\<lambda>k. revision - of_nat k) [0 ..< n])"

definition history_ok :: "url_parser \<Rightarrow> Engine \<Rightarrow> bool" where
  "history_ok parse e \<longleftrightarrow>
     (\<exists>n. 0 < n \<and> n \<le> 100 \<and> en_order e = last_revisions (en_nextRevision e) n)
     \<and> dom (en_history e) = set (en_order e)
     \<and> (\<forall>revision g. en_history e revision = Some g \<longrightarrow> normal parse (en_defaults e) g)
     \<and> (\<forall>s. current_snapshot e = Some s \<longrightarrow>
          ss_revision s = en_nextRevision e \<and> en_history e (ss_revision s) = Some (ss_config s)
          \<and> int (length (en_order e)) \<le> gg_HistoryLimit (ss_config s))"

definition engine_ok :: "url_parser \<Rightarrow> Engine \<Rightarrow> bool" where
  "engine_ok parse e \<longleftrightarrow>
     (\<forall>s \<in> set (en_snapshots e). snapshot_ok parse (en_defaults e) s) \<and> leases_ok e \<and> life_ok e \<and> history_ok parse e"

section \<open>Operations that leave the configuration alone\<close>

definition snapshot_same :: "runtimeSnapshot \<Rightarrow> runtimeSnapshot \<Rightarrow> bool" where
  "snapshot_same s s' \<longleftrightarrow>
     ss_config s' = ss_config s \<and> ss_revision s' = ss_revision s \<and> ss_previousRevision s' = ss_previousRevision s
     \<and> ss_listeners s' = ss_listeners s \<and> ss_defaultListener s' = ss_defaultListener s
     \<and> map cr_config (ss_routes s') = map cr_config (ss_routes s)
     \<and> map (\<lambda>(cid, k). (cid, rk_lease k, rk_config k)) (ss_clusters s') =
       map (\<lambda>(cid, k). (cid, rk_lease k, rk_config k)) (ss_clusters s)
     \<and> ss_refs s' = ss_refs s \<and> ss_retired s' = ss_retired s \<and> ss_closed s' = ss_closed s"

definition engine_same :: "Engine \<Rightarrow> Engine \<Rightarrow> bool" where
  "engine_same e e' \<longleftrightarrow>
     en_defaults e' = en_defaults e \<and> en_current e' = en_current e \<and> en_closed e' = en_closed e
     \<and> en_nextRevision e' = en_nextRevision e \<and> en_history e' = en_history e \<and> en_order e' = en_order e
     \<and> (\<exists>w. en_states e' = (en_states e)\<lparr>rg_world := w\<rparr>)
     \<and> list_all2 snapshot_same (en_snapshots e) (en_snapshots e')"

lemma snapshot_same_refl [simp]: "snapshot_same s s"
  by (simp add: snapshot_same_def)

lemma engine_same_refl [simp]: "engine_same e e"
  unfolding engine_same_def by (simp add: list_all2_same) (metis registry.surjective registry.update_convs(5))

lemma snapshot_same_leases: "snapshot_same s s' \<Longrightarrow> lease_set (ss_clusters s') = lease_set (ss_clusters s)"
proof -
  assume "snapshot_same s s'"
  then have "map (\<lambda>(cid, k). (cid, rk_lease k, rk_config k)) (ss_clusters s') =
    map (\<lambda>(cid, k). (cid, rk_lease k, rk_config k)) (ss_clusters s)" by (simp add: snapshot_same_def)
  then have "(fst \<circ> snd) ` set (map (\<lambda>(cid, k). (cid, rk_lease k, rk_config k)) (ss_clusters s')) =
    (fst \<circ> snd) ` set (map (\<lambda>(cid, k). (cid, rk_lease k, rk_config k)) (ss_clusters s))" by simp
  then show ?thesis by (simp add: lease_set_def image_image split_def)
qed

lemma snapshot_same_ok:
  assumes "snapshot_same s s'" and "snapshot_ok parse d s"
  shows "snapshot_ok parse d s'"
proof -
  from assms(1) have "map fst (ss_clusters s') = map fst (ss_clusters s)"
    unfolding snapshot_same_def
    by (metis (mono_tags, lifting) case_prod_beta fst_conv list.map_comp map_eq_conv comp_apply)
  moreover from assms(1) have "cr_config ` set (ss_routes s') = cr_config ` set (ss_routes s)"
    unfolding snapshot_same_def by (metis list.set_map)
  ultimately show ?thesis using assms by (simp add: snapshot_ok_def snapshot_same_def)
qed

lemma engine_same_snapshot:
  assumes "engine_same e e'" and "i < length (en_snapshots e)"
  shows "snapshot_same (en_snapshots e ! i) (en_snapshots e' ! i)"
  using assms by (auto simp: engine_same_def list_all2_conv_all_nth)

lemma engine_same_length: "engine_same e e' \<Longrightarrow> length (en_snapshots e') = length (en_snapshots e)"
  by (auto simp: engine_same_def dest: list_all2_lengthD)

lemma same_leases_ok:
  assumes same: "engine_same e e'" and ok: "leases_ok e"
  shows "leases_ok e'"
proof -
  note len = engine_same_length [OF same]
  have ls: "snapshot_leases e' i = snapshot_leases e i" "ss_closed (en_snapshots e' ! i) = ss_closed (en_snapshots e ! i)"
    if "i < length (en_snapshots e)" for i
    using snapshot_same_leases [OF engine_same_snapshot [OF same that]] engine_same_snapshot [OF same that]
    by (simp_all add: snapshot_leases_def snapshot_same_def del: map_eq_conv)
  obtain w where w: "en_states e' = (en_states e)\<lparr>rg_world := w\<rparr>" using same by (auto simp: engine_same_def)
  have "unclosed e' = unclosed e" unfolding unclosed_def len by (rule Collect_cong) (simp add: ls cong: conj_cong)
  moreover have "snapshot_leases e' ` unclosed e = snapshot_leases e ` unclosed e"
    by (rule image_cong) (simp_all add: ls unclosed_def)
  ultimately show ?thesis
    using ok ls len unfolding leases_ok_def w by (simp add: registry_reachable.other)
qed

lemma same_engine_ok:
  assumes same: "engine_same e e'" and ok: "engine_ok parse e"
  shows "engine_ok parse e'"
proof -
  note len = engine_same_length [OF same]
  have fields: "en_defaults e' = en_defaults e" "en_current e' = en_current e" "en_closed e' = en_closed e"
    "en_nextRevision e' = en_nextRevision e" "en_history e' = en_history e" "en_order e' = en_order e"
    using same by (simp_all add: engine_same_def)
  have "\<forall>s \<in> set (en_snapshots e'). snapshot_ok parse (en_defaults e') s"
    using ok engine_same_snapshot [OF same] snapshot_same_ok len
    by (fastforce simp: engine_ok_def set_conv_nth fields)
  moreover have "leases_ok e'" using same_leases_ok [OF same] ok by (simp add: engine_ok_def)
  moreover have life: "life_ok e" using ok by (simp add: engine_ok_def)
  then have "life_ok e'"
    using engine_same_snapshot [OF same] len
    by (auto simp: life_ok_def fields Let_def snapshot_same_def split: option.splits)
  moreover have "history_ok parse e'"
  proof -
    have cur: "\<exists>t. current_snapshot e = Some t \<and> snapshot_same t s" if "current_snapshot e' = Some s" for s
      using that life engine_same_snapshot [OF same]
      by (auto simp: current_snapshot_def fields life_ok_def)
    have "ss_revision s = en_nextRevision e \<and> en_history e (ss_revision s) = Some (ss_config s)
          \<and> int (length (en_order e)) \<le> gg_HistoryLimit (ss_config s)" if s: "current_snapshot e' = Some s" for s
    proof -
      obtain t where "current_snapshot e = Some t" "snapshot_same t s" using cur [OF s] by blast
      with ok show ?thesis by (auto simp: engine_ok_def history_ok_def snapshot_same_def)
    qed
    with ok show ?thesis unfolding engine_ok_def history_ok_def fields by blast
  qed
  ultimately show ?thesis by (simp add: engine_ok_def)
qed

text \<open>Which operations these are.\<close>

lemma engine_same_update:
  assumes "snapshot_same (en_snapshots e ! i) s"
  shows "engine_same e (e\<lparr>en_snapshots := (en_snapshots e)[i := s]\<rparr>)"
proof -
  have "\<exists>w. en_states e = (en_states e)\<lparr>rg_world := w\<rparr>" by (metis registry.surjective registry.update_convs(5))
  moreover have "snapshot_same (en_snapshots e ! j) ((en_snapshots e)[i := s] ! j)" if "j < length (en_snapshots e)" for j
    using assms that by (cases "j = i") simp_all
  ultimately show ?thesis by (simp add: engine_same_def list_all2_conv_all_nth)
qed

lemma engine_same_simps [simp]:
  "engine_same e (add_stat f e') \<longleftrightarrow> engine_same e e'"
  "engine_same e (e'\<lparr>en_states := (en_states e')\<lparr>rg_world := w\<rparr>\<rparr>) \<longleftrightarrow> engine_same e e'"
  "engine_same e (apply_failed err e') \<longleftrightarrow> engine_same e e'"
  "engine_same (add_stat f e) e' \<longleftrightarrow> engine_same e e'"
proof -
  have "(\<exists>w'. (en_states e')\<lparr>rg_world := w\<rparr> = (en_states e)\<lparr>rg_world := w'\<rparr>) \<longleftrightarrow>
        (\<exists>w'. en_states e' = (en_states e)\<lparr>rg_world := w'\<rparr>)"
    by (metis registry.surjective registry.update_convs(5))
  then show "engine_same e (e'\<lparr>en_states := (en_states e')\<lparr>rg_world := w\<rparr>\<rparr>) \<longleftrightarrow> engine_same e e'"
    by (simp add: engine_same_def)
qed (simp_all add: engine_same_def add_stat_def apply_failed_def)

lemma map_update_same:
  assumes "map_of xs cid = Some k" and "g (cid, k') = g (cid, k)"
  shows "map g (AList.update cid k' xs) = map g xs"
  using assms by (induction xs) auto

lemma on_cluster_same:
  assumes "\<And>k. rk_lease (f k) = rk_lease k \<and> rk_config (f k) = rk_config k"
  shows "engine_same e (on_cluster cid f e)"
proof (cases "en_current e")
  case None
  then show ?thesis by (simp add: on_cluster_def)
next
  case (Some i)
  show ?thesis
  proof (cases "map_of (ss_clusters (en_snapshots e ! i)) cid")
    case None
    with Some show ?thesis by (simp add: on_cluster_def)
  next
    case (Some k)
    with assms [of k] have "snapshot_same (en_snapshots e ! i)
      ((en_snapshots e ! i)\<lparr>ss_clusters := AList.update cid (f k) (ss_clusters (en_snapshots e ! i))\<rparr>)"
      by (simp add: snapshot_same_def map_update_same [where k = k])
    from engine_same_update [OF this] Some \<open>en_current e = Some i\<close> show ?thesis
      by (simp add: on_cluster_def Let_def)
  qed
qed

lemma endpoint_op_same: "engine_same e (snd (endpoint_op cid op e))"
  by (simp add: endpoint_op_def split: option.split prod.split bool.split)

lemma UpdateDiscoveryStatus_same: "engine_same e (snd (UpdateDiscoveryStatus cid status e))"
  by (simp add: UpdateDiscoveryStatus_def on_cluster_same setDiscovery_def split: option.split)

lemma markDiscoveryErrorLocked_same: "engine_same e (snd (markDiscoveryErrorLocked cid err stale expected e))"
  by (simp add: markDiscoveryErrorLocked_def on_cluster_same setDiscovery_def split: option.split)

lemma Engine_Ready_same: "engine_same e (snd (Engine_Ready now e))"
  by (simp add: Engine_Ready_def split_def Let_def split: option.split)

lemma clusterID_config [simp]: "cr_config (snd (clusterID r)) = cr_config r"
  by (simp add: clusterID_def Let_def)

lemma prepareRequest_config:
  "prepareRequest esc unesc route request policy now = (res, route') \<Longrightarrow> cr_config route' = cr_config route"
  by (auto simp: prepareRequest_def Let_def split_def split: if_splits)

lemma first_match_enumerate:
  "first_match (\<lambda>(i, r). P r) (enumerate n rs) = Some (j, r) \<Longrightarrow> n \<le> j \<and> j < n + length rs \<and> rs ! (j - n) = r \<and> P r"
proof (induction rs arbitrary: n)
  case (Cons x rs)
  show ?case
  proof (cases "P x")
    case False
    with Cons.prems have "first_match (\<lambda>(i, r). P r) (enumerate (Suc n) rs) = Some (j, r)" by simp
    from Cons.IH [OF this] show ?thesis by (auto simp: nth_Cons')
  qed (use Cons.prems in auto)
qed simp

lemma map_list_update_same: "j < length xs \<Longrightarrow> f y = f (xs ! j) \<Longrightarrow> map f (xs[j := y]) = map f xs"
  by (metis list_update_id map_update)

lemma serve_route_same:
  assumes "serve_route ev base readFails request now i j route e = Some (reply, e')"
    and "j < length (ss_routes (en_snapshots e ! i))" and "ss_routes (en_snapshots e ! i) ! j = route"
  shows "engine_same e e'"
proof -
  let ?s = "en_snapshots e ! i"
  obtain cid route1 where c: "clusterID route = (cid, route1)" by fastforce
  then have config1: "cr_config route1 = cr_config route" using clusterID_config [of route] by simp
  have put: "engine_same e (e\<lparr>en_snapshots := (en_snapshots e)[i := ?s\<lparr>ss_routes := (ss_routes ?s)[j := r],
      ss_clusters := cs\<rparr>]\<rparr>)"
    if "cr_config r = cr_config route" "map (\<lambda>(cid, k). (cid, rk_lease k, rk_config k)) cs =
      map (\<lambda>(cid, k). (cid, rk_lease k, rk_config k)) (ss_clusters ?s)" for r cs
    using that assms(2,3)
    by (intro engine_same_update) (simp add: snapshot_same_def map_list_update_same del: map_eq_conv)
  have put0: "engine_same e (e\<lparr>en_snapshots := (en_snapshots e)[i := ?s\<lparr>ss_routes := (ss_routes ?s)[j := r]\<rparr>]\<rparr>)"
    if "cr_config r = cr_config route" for r
    using put [OF that refl] by simp
  show ?thesis
  proof (cases "map_of (ss_clusters ?s) cid")
    case None
    with assms(1) put0 [OF config1] show ?thesis by (auto simp: serve_route_def c Let_def)
  next
    case (Some k)
    obtain res route2 where p: "prepareRequest (ev_EscapedPath ev) (ev_PathUnescape ev) route1 request
        (transport_Policy (rk_lb k)) now = (res, route2)" by fastforce
    note config2 = prepareRequest_config [OF p, unfolded config1]
    have upd: "map (\<lambda>(cid, k). (cid, rk_lease k, rk_config k)) (AList.update cid (k\<lparr>rk_lb := t\<rparr>) (ss_clusters ?s)) =
      map (\<lambda>(cid, k). (cid, rk_lease k, rk_config k)) (ss_clusters ?s)" for t
      using map_update_same [OF Some, of "\<lambda>(cid, k). (cid, rk_lease k, rk_config k)"] by simp
    have put2: "engine_same e (e\<lparr>en_snapshots := (en_snapshots e)[i := ?s\<lparr>ss_routes := (ss_routes ?s)[j := route2],
        ss_clusters := AList.update cid (k\<lparr>rk_lb := t\<rparr>) (ss_clusters ?s)\<rparr>],
        en_states := (en_states e)\<lparr>rg_world := w\<rparr>\<rparr>)" for t w
      using put [OF config2 upd] engine_same_simps(2) [of e w "e\<lparr>en_snapshots := (en_snapshots e)[i := ?s\<lparr>ss_routes := (ss_routes ?s)[j := route2],
        ss_clusters := AList.update cid (k\<lparr>rk_lb := t\<rparr>) (ss_clusters ?s)\<rparr>]\<rparr>"]
      by simp
    from assms(1) put0 [OF config2] put2 show ?thesis
      by (auto simp: serve_route_def c p Some Let_def split: prepared.splits option.splits)
  qed
qed

lemma ServeHTTP_same:
  assumes "ServeHTTP ev base readFails request now e = Some (reply, e')"
  shows "engine_same e e'"
proof (cases "validateIncomingRequest (ev_parse ev) request \<noteq> None \<or> en_current e = None")
  case True
  with assms show ?thesis by (auto simp: ServeHTTP_def split: if_splits)
next
  case False
  then obtain i where i: "en_current e = Some i" and v: "validateIncomingRequest (ev_parse ev) request = None" by auto
  let ?s = "en_snapshots e ! i" and ?e = "add_stat (\<lambda>t. t\<lparr>es_requests := es_requests t + 1\<rparr>) e"
  have s: "en_snapshots ?e = en_snapshots e" by (simp add: add_stat_def)
  show ?thesis
  proof (cases "validateListener ?s (rq_listener request)")
    case None
    with assms i v show ?thesis by (auto simp: ServeHTTP_def Let_def)
  next
    case (Some l)
    let ?id = "if rq_listener request = [] then gl_ID l else rq_listener request"
    show ?thesis
    proof (cases "select_route ?s ?id l request")
      case None
      with assms i v Some show ?thesis by (auto simp: ServeHTTP_def Let_def)
    next
      case (Some jr)
      obtain j route where jr: "jr = (j, route)" by (cases jr)
      from Some jr have j: "j < length (ss_routes ?s)" "ss_routes ?s ! j = route"
        using first_match_enumerate [of "\<lambda>r. matches r ?id l request" 0 "ss_routes ?s" j route]
        by (simp_all add: select_route_def)
      show ?thesis
      proof (cases "redirect route request")
        case None
        with assms i v \<open>validateListener ?s (rq_listener request) = Some l\<close> Some jr
        have "serve_route ev base readFails request now i j route ?e = Some (reply, e')"
          by (simp add: ServeHTTP_def Let_def)
        from serve_route_same [OF this] j s show ?thesis by simp
      qed (use assms i v \<open>validateListener ?s (rq_listener request) = Some l\<close> Some jr in \<open>auto simp: ServeHTTP_def Let_def\<close>)
    qed
  qed
qed

lemma clusters_status_same:
  assumes "clusters_status cs now w clusters = Some (status, clusters')"
  shows "map (\<lambda>(cid, k). (cid, rk_lease k, rk_config k)) clusters' = map (\<lambda>(cid, k). (cid, rk_lease k, rk_config k)) clusters"
  using assms
proof (induction cs arbitrary: clusters status)
  case Nil
  then show ?case by simp
next
  case (Cons c cs)
  show ?case
  proof (cases "map_of clusters (gc_ID c)")
    case None
    with Cons show ?thesis by simp
  next
    case (Some k)
    with Cons.prems obtain s k' rest where k': "cluster_status c now w k = Some (s, k')"
      and rest: "clusters_status cs now w (AList.update (gc_ID c) k' clusters) = Some (rest, clusters')"
      by (auto split: option.splits)
    have "rk_lease k' = rk_lease k" "rk_config k' = rk_config k"
      using k' by (auto simp: cluster_status_def Let_def split: option.splits)
    then show ?thesis
      using Cons.IH [OF rest] map_update_same [OF Some, of "\<lambda>(cid, k). (cid, rk_lease k, rk_config k)" k'] by simp
  qed
qed

lemma Engine_Status_same:
  assumes "Engine_Status now e = Some (status, e')"
  shows "engine_same e e'"
proof (cases "en_current e")
  case None
  with assms show ?thesis by (simp add: Engine_Status_def Let_def)
next
  case (Some i)
  let ?s = "en_snapshots e ! i"
  from assms Some obtain cs clusters where
    cs: "clusters_status (gg_Clusters (ss_config ?s)) now (rg_world (en_states e)) (ss_clusters ?s) = Some (cs, clusters)"
    and e': "e' = e\<lparr>en_snapshots := (en_snapshots e)[i := ?s\<lparr>ss_clusters := clusters\<rparr>]\<rparr>"
    by (auto simp: Engine_Status_def Let_def split: option.splits)
  have "snapshot_same ?s (?s\<lparr>ss_clusters := clusters\<rparr>)"
    using clusters_status_same [OF cs] by (simp add: snapshot_same_def del: map_eq_conv)
  from engine_same_update [OF this] show ?thesis by (simp add: e')
qed

section \<open>Building and installing\<close>

lemma default_listener_in:
  assumes "ls \<noteq> []"
  shows "default_listener_id ls \<in> gl_ID ` set ls"
proof (cases "rev (filter gl_Default ls)")
  case Nil
  with assms show ?thesis by (auto simp: default_listener_id_def split: list.split)
next
  case (Cons l rest)
  have "l \<in> set (rev (filter gl_Default ls))" unfolding Cons by simp
  then have "l \<in> set ls" by simp
  then show ?thesis by (simp add: default_listener_id_def Cons)
qed

lemma compileRoutes_configs: "cr_config ` set (compileRoutes now vs) = set vs"
  unfolding set_compileRoutes by (force simp: compile_route_def set_conv_nth)

lemma normalizeConfig_normal:
  assumes "normalizeConfig parse d config = Inr n"
  shows "normal parse d n"
proof -
  from assms obtain g where "config = Some g" by (cases config) (simp_all add: normalizeConfig_def)
  with normalizeConfig_fixed assms show ?thesis unfolding normal_def by blast
qed

lemma buildSnapshot_ok:
  assumes "registry_reachable r" and build: "buildSnapshot ev d config revision previous current now r = (res, r')"
  shows "registry_reachable r' \<and> length (rg_leases r) \<le> length (rg_leases r')
    \<and> (case res of
         Inl err \<Rightarrow> open_leases r' = open_leases r
       | Inr s \<Rightarrow> snapshot_ok (ev_parse ev) d s \<and> normalizeConfig (ev_parse ev) d config = Inr (ss_config s)
           \<and> open_leases r' = open_leases r \<union> lease_set (ss_clusters s)
           \<and> lease_set (ss_clusters s) \<subseteq> {length (rg_leases r) ..< length (rg_leases r')}
           \<and> ss_revision s = revision \<and> ss_previousRevision s = previous
           \<and> ss_refs s = 0 \<and> \<not> ss_retired s \<and> \<not> ss_closed s)"
proof (cases "normalizeConfig (ev_parse ev) d config")
  case (Inl err)
  with assms show ?thesis by (auto simp: buildSnapshot_def)
next
  case (Inr n)
  note normal = normalizeConfig_normal [OF Inr]
  then have dis: "distinct (map gc_ID (gg_Clusters n))" and ne: "gg_Listeners n \<noteq> []"
    by (simp_all add: normal_def gateway_valid_def)
  obtain res1 r1 where b: "build_clusters ev (case current of None \<Rightarrow> [] | Some s \<Rightarrow> ss_clusters s) now (gg_Clusters n) [] r
      = (res1, r1)" by fastforce
  have ok: "registry_reachable r1 \<and> length (rg_leases r) \<le> length (rg_leases r1)
    \<and> (case res1 of
         Inl err \<Rightarrow> open_leases r1 = open_leases r
       | Inr built' \<Rightarrow> open_leases r1 = open_leases r \<union> lease_set built'
           \<and> map fst built' = map gc_ID (gg_Clusters n) \<and> lease_set built' \<subseteq> {length (rg_leases r) ..})"
    using build_clusters_ok [OF assms(1) b dis] by (simp add: lease_set_def split: sum.splits)
  show ?thesis
  proof (cases res1)
    case (Inl err)
    with build b ok \<open>normalizeConfig (ev_parse ev) d config = Inr n\<close> show ?thesis by (auto simp: buildSnapshot_def)
  next
    case (Inr built)
    from build b Inr \<open>normalizeConfig (ev_parse ev) d config = Inr n\<close>
    have eq: "r' = r1" "res = Inr \<lparr>ss_config = n, ss_revision = revision, ss_previousRevision = previous,
        ss_hash = ev_hash ev n, ss_appliedAt = now, ss_listeners = map (\<lambda>l. (gl_ID l, l)) (gg_Listeners n),
        ss_defaultListener = default_listener_id (gg_Listeners n), ss_routes = compileRoutes now (gg_Routes n),
        ss_clusters = built, ss_refs = 0, ss_retired = False, ss_closed = False\<rparr>"
      by (auto simp: buildSnapshot_def)
    have "lease_set built \<subseteq> {..< length (rg_leases r1)}" using ok Inr open_leases_bound [of r1] by auto
    with ok Inr normal ne \<open>normalizeConfig (ev_parse ev) d config = Inr n\<close> show ?thesis unfolding eq
      by (auto simp: snapshot_ok_def default_listener_in compileRoutes_configs)
  qed
qed

lemma snapshot_close_ok:
  assumes "registry_reachable r" and "lease_set (ss_clusters s) \<subseteq> {..< length (rg_leases r)}" and "\<not> ss_closed s"
    and "snapshot_close s r = (s', r')"
  shows "s' = s\<lparr>ss_closed := True\<rparr> \<and> registry_reachable r' \<and> open_leases r' = open_leases r - lease_set (ss_clusters s)
    \<and> length (rg_leases r') = length (rg_leases r)"
  using assms close_clusters_ok [OF assms(1,2)] by (auto simp: snapshot_close_def)

text \<open>The loop that drops old revisions.\<close>

lemma drop_oldest_spec:
  "0 \<le> limit \<Longrightarrow> drop_oldest limit order h =
     (drop (length order - nat limit) order, h |` (- set (take (length order - nat limit) order)))"
proof (induction order arbitrary: h)
  case Nil
  then show ?case by (simp add: restrict_map_def)
next
  case (Cons x order)
  show ?case
  proof (cases "int (length (x # order)) > limit")
    case True
    then have "length (x # order) - nat limit = Suc (length order - nat limit)" using Cons.prems by auto
    with True Cons show ?thesis by (auto simp: restrict_map_def fun_eq_iff)
  qed (use Cons.prems in \<open>auto simp: restrict_map_def\<close>)
qed

lemma last_revisions_Suc: "last_revisions (revision + 1) (Suc n) = last_revisions revision n @ [revision + 1]"
proof -
  have "[0 ..< Suc n] = 0 # map Suc [0 ..< n]" using upt_conv_Cons [of 0 "Suc n"] by (simp add: map_Suc_upt del: upt_Suc)
  then show ?thesis by (simp add: last_revisions_def comp_def algebra_simps del: upt_Suc)
qed

lemma last_revisions_drop: "drop m (last_revisions revision n) = last_revisions revision (n - m)"
  by (simp add: last_revisions_def drop_rev take_map)

lemma length_last_revisions [simp]: "length (last_revisions revision n) = n"
  by (simp add: last_revisions_def)

lemma last_revisions_distinct:
  assumes "n \<le> 2 ^ 64"
  shows "distinct (last_revisions revision n)"
proof -
  have "inj_on (\<lambda>k. revision - (of_nat k :: uint64)) {0 ..< n}"
  proof (rule inj_onI)
    fix i j assume "i \<in> {0 ..< n}" "j \<in> {0 ..< n}" "revision - (of_nat i :: uint64) = revision - of_nat j"
    then have "(of_nat i :: uint64) = of_nat j" and "i < 2 ^ 64" and "j < 2 ^ 64" using assms by auto
    then have "unat (of_nat i :: uint64) = unat (of_nat j :: uint64)" by simp
    with \<open>i < 2 ^ 64\<close> \<open>j < 2 ^ 64\<close> show "i = j" by (simp only: unat_of_nat len_num1 len_bit0 mod_less) simp
  qed
  then show ?thesis by (simp add: last_revisions_def distinct_map)
qed

lemma last_revisions_last: "0 < n \<Longrightarrow> revision \<in> set (last_revisions revision n)"
  by (force simp: last_revisions_def)

end
