(* ===== verification/Engine_Facts.thy ===== *)
theory Engine_Facts
  imports Engine_Inv
begin

text \<open>
  Facts about configuration changes of the engine: installing a snapshot and retiring the one before
  keep the invariant; failures are atomic; concurrent writers are told apart by revisions; a rollback
  restores a remembered configuration; and the composition of routing, proxy and leases.
\<close>

section \<open>Installing and retiring\<close>

lemma set_drop_distinct: "distinct xs \<Longrightarrow> set (drop m xs) = set xs - set (take m xs)"
  using set_take_disj_set_drop_if_distinct [of xs m m] set_append [of "take m xs" "drop m xs"] by auto

lemma remember_alt:
  assumes "limit = (if d_HistoryLimit (en_defaults e) > 0
      then min (gg_HistoryLimit (ss_config s)) (d_HistoryLimit (en_defaults e)) else gg_HistoryLimit (ss_config s))"
    and "0 \<le> limit" and "cloneConfig (ss_config s) = ss_config s"
    and "xs = en_order e @ [ss_revision s]" and "h = (en_history e)(ss_revision s \<mapsto> ss_config s)"
  shows "remember s e = e\<lparr>en_order := drop (length xs - nat limit) xs,
    en_history := h |` (- set (take (length xs - nat limit) xs))\<rparr>"
  unfolding remember_def Let_def assms(3) assms(1) [symmetric] assms(4,5) [symmetric] drop_oldest_spec [OF assms(2)]
  by simp

lemma count_success_simps:
  "en_order (count_success e) = en_order e" "en_history (count_success e) = en_history e"
  "en_nextRevision (count_success e) = en_nextRevision e" "en_defaults (count_success e) = en_defaults e"
  "en_snapshots (count_success e) = en_snapshots e" "en_current (count_success e) = en_current e"
  by (simp_all add: count_success_def)

text \<open>What \<open>remember\<close> makes of the history when the new revision follows the last one.\<close>

lemma install_history:
  assumes order: "en_order e = last_revisions (ss_revision s - 1) n" and n: "n \<le> 100"
    and dom: "dom (en_history e) = set (en_order e)"
    and old: "\<And>revision g. en_history e revision = Some g \<Longrightarrow> normal parse (en_defaults e) g"
    and new: "normal parse (en_defaults e) (ss_config s)"
  shows "history_ok parse (install s now (e\<lparr>en_states := r\<rparr>))"
proof -
  let ?g = "ss_config s" and ?e = "install s now (e\<lparr>en_states := r\<rparr>)"
  let ?limit = "if d_HistoryLimit (en_defaults e) > 0 then min (gg_HistoryLimit ?g) (d_HistoryLimit (en_defaults e))
    else gg_HistoryLimit ?g"
  let ?xs = "en_order e @ [ss_revision s]" and ?h = "(en_history e)(ss_revision s \<mapsto> ?g)"
  let ?m = "length ?xs - nat ?limit"
  have lim: "1 \<le> ?limit" "?limit \<le> 100" "?limit \<le> gg_HistoryLimit ?g"
    using new by (auto simp: normal_def gateway_valid_def)
  have xs: "?xs = last_revisions (ss_revision s) (Suc n)"
    using last_revisions_Suc [of "ss_revision s - 1" n] order by simp
  have dis: "distinct ?xs" unfolding xs by (rule last_revisions_distinct) (use n in simp)
  have m: "?m = Suc n - nat ?limit" unfolding xs by simp
  have fields: "en_order ?e = drop ?m ?xs" "en_history ?e = ?h |` (- set (take ?m ?xs))"
    "en_nextRevision ?e = ss_revision s" "en_defaults ?e = en_defaults e" "current_snapshot ?e = Some s"
  proof -
    let ?e1 = "e\<lparr>en_states := snapshot_activate now s r, en_nextRevision := ss_revision s, en_lastError := [],
      en_snapshots := en_snapshots e @ [s], en_current := Some (length (en_snapshots e))\<rparr>"
    have "remember s ?e1 = ?e1\<lparr>en_order := drop ?m ?xs, en_history := ?h |` (- set (take ?m ?xs))\<rparr>"
      by (rule remember_alt) (use lim(1) new in \<open>simp_all add: normal_def\<close>)
    then have e: "?e = count_success (?e1\<lparr>en_order := drop ?m ?xs, en_history := ?h |` (- set (take ?m ?xs))\<rparr>)"
      by (simp add: install_def)
    show "en_order ?e = drop ?m ?xs" "en_history ?e = ?h |` (- set (take ?m ?xs))"
      "en_nextRevision ?e = ss_revision s" "en_defaults ?e = en_defaults e" "current_snapshot ?e = Some s"
      unfolding e current_snapshot_def count_success_simps by simp_all
  qed
  have ord: "en_order ?e = last_revisions (ss_revision s) (Suc n - ?m)"
    unfolding fields xs last_revisions_drop by simp
  have pos: "0 < Suc n - ?m" "Suc n - ?m \<le> 100" "int (Suc n - ?m) \<le> gg_HistoryLimit ?g"
    unfolding m using lim n by auto
  have "dom ?h = set ?xs" using dom by auto
  then have dom': "dom (en_history ?e) = set (en_order ?e)"
    unfolding fields set_drop_distinct [OF dis] dom_restrict by auto
  moreover have "normal parse (en_defaults ?e) g" if "en_history ?e revision = Some g" for revision g
    using that old new by (auto simp: fields restrict_map_def split: if_splits)
  moreover have "en_history ?e (ss_revision s) = Some ?g"
  proof -
    have "ss_revision s \<in> set (en_order ?e)" unfolding ord by (rule last_revisions_last) (rule pos(1))
    then have "ss_revision s \<notin> set (take ?m ?xs)" unfolding fields(1) set_drop_distinct [OF dis] by blast
    then show ?thesis by (simp add: fields restrict_map_def)
  qed
  moreover have "int (length (en_order ?e)) \<le> gg_HistoryLimit ?g" unfolding ord using pos(3) by simp
  moreover have "\<exists>n. 0 < n \<and> n \<le> 100 \<and> en_order ?e = last_revisions (en_nextRevision ?e) n"
    unfolding fields(3) using ord pos(1,2) by blast
  ultimately show ?thesis unfolding history_ok_def fields(3,5) option.inject by blast
qed

lemma install_fields [simp]:
  "en_snapshots (install s now e) = en_snapshots e @ [s]" "en_current (install s now e) = Some (length (en_snapshots e))"
  "en_states (install s now e) = snapshot_activate now s (en_states e)" "en_closed (install s now e) = en_closed e"
  "en_defaults (install s now e) = en_defaults e"
  by (simp_all add: install_def remember_def count_success_def Let_def split_def)

lemma install_leases:
  assumes ok: "leases_ok e" and reach: "registry_reachable r"
    and len: "length (rg_leases (en_states e)) \<le> length (rg_leases r)"
    and open_r: "open_leases r = open_leases (en_states e) \<union> lease_set (ss_clusters s)"
    and ls: "lease_set (ss_clusters s) \<subseteq> {length (rg_leases (en_states e)) ..< length (rg_leases r)}"
    and "\<not> ss_closed s"
  shows "leases_ok (install s now (e\<lparr>en_states := r\<rparr>))"
proof -
  let ?e = "install s now (e\<lparr>en_states := r\<rparr>)" and ?n = "length (en_snapshots e)"
  have sub: "lease_set (ss_clusters s) \<subseteq> {..< length (rg_leases r)}" using ls by auto
  note act = snapshot_activate_ok [OF reach sub, of now]
  have old: "snapshot_leases ?e i = snapshot_leases e i" if "i < ?n" for i
    using that by (simp add: snapshot_leases_def nth_append)
  have new: "snapshot_leases ?e ?n = lease_set (ss_clusters s)" by (simp add: snapshot_leases_def)
  have un: "unclosed ?e = insert ?n (unclosed e)"
    using \<open>\<not> ss_closed s\<close> by (auto simp: unclosed_def nth_append less_Suc_eq)
  have "snapshot_leases ?e ` unclosed e = snapshot_leases e ` unclosed e"
    by (rule image_cong) (simp_all add: old unclosed_def)
  then have "open_leases (en_states ?e) = \<Union> (snapshot_leases ?e ` unclosed ?e)"
    using act open_r ok unfolding un by (auto simp: new leases_ok_def)
  moreover have "snapshot_leases ?e i \<subseteq> {..< length (rg_leases (en_states ?e))}" if "i < Suc ?n" for i
  proof (cases "i = ?n")
    case True
    with sub act show ?thesis by (simp add: new)
  next
    case False
    with that have i: "i < ?n" by simp
    with ok have "snapshot_leases e i \<subseteq> {..< length (rg_leases (en_states e))}" by (simp add: leases_ok_def)
    then have "snapshot_leases e i \<subseteq> {..< length (rg_leases r)}" using len by (meson lessThan_subset_iff order_trans)
    with act show ?thesis by (simp add: old [OF i])
  qed
  moreover have "snapshot_leases ?e i \<inter> snapshot_leases ?e j = {}" if "j < Suc ?n" "i < j" for i j
  proof (cases "j = ?n")
    case True
    with that ok have "snapshot_leases e i \<subseteq> {..< length (rg_leases (en_states e))}" by (simp add: leases_ok_def)
    with ls True that show ?thesis by (fastforce simp: old new)
  next
    case False
    with that ok show ?thesis by (simp add: old leases_ok_def)
  qed
  ultimately show ?thesis using act by (simp add: leases_ok_def)
qed

text \<open>Changing the counters of an open snapshot, and closing it if a condition holds.\<close>

lemma update_leases:
  assumes ok: "leases_ok e" and i: "i < length (en_snapshots e)" and "\<not> ss_closed (en_snapshots e ! i)"
    and t: "ss_clusters t = ss_clusters (en_snapshots e ! i)" "\<not> ss_closed t"
    and upd: "(if c then snapshot_close t (en_states e) else (t, en_states e)) = (s, r)"
  shows "leases_ok (e\<lparr>en_snapshots := (en_snapshots e)[i := s], en_states := r\<rparr>)" and "s = t\<lparr>ss_closed := c\<rparr>"
proof -
  let ?e = "e\<lparr>en_snapshots := (en_snapshots e)[i := s], en_states := r\<rparr>" and ?L = "snapshot_leases e"
  have sub: "lease_set (ss_clusters t) \<subseteq> {..< length (rg_leases (en_states e))}"
    using ok i by (simp add: leases_ok_def t snapshot_leases_def)
  have res: "s = t\<lparr>ss_closed := c\<rparr> \<and> registry_reachable r \<and> length (rg_leases r) = length (rg_leases (en_states e))
    \<and> open_leases r = (if c then open_leases (en_states e) - ?L i else open_leases (en_states e))"
  proof (cases c)
    case True
    with upd snapshot_close_ok [OF _ sub t(2), of s r] ok show ?thesis
      by (simp add: leases_ok_def snapshot_leases_def t)
  next
    case False
    with upd ok t(2) show ?thesis by (auto simp: leases_ok_def)
  qed
  then show "s = t\<lparr>ss_closed := c\<rparr>" by blast
  have L: "snapshot_leases ?e j = ?L j" if "j < length (en_snapshots e)" for j
    using res that t(1) by (cases "j = i") (simp_all add: snapshot_leases_def)
  have un: "unclosed ?e = (if c then unclosed e - {i} else unclosed e)"
  proof -
    have "ss_closed ((en_snapshots e)[i := s] ! j) = (if j = i then c else ss_closed (en_snapshots e ! j))"
      if "j < length (en_snapshots e)" for j using that res by (cases "j = i") simp_all
    then have "unclosed ?e = {j. j < length (en_snapshots e) \<and> \<not> (if j = i then c else ss_closed (en_snapshots e ! j))}"
      by (simp add: unclosed_def cong: conj_cong del: nth_list_update_eq)
    then show ?thesis using assms(3) i by (cases c) (auto simp: unclosed_def split: if_splits)
  qed
  have dis: "?L i \<inter> ?L j = {}" if "j < length (en_snapshots e)" "j \<noteq> i" for j
    using ok i that unfolding leases_ok_def by (metis inf_commute linorder_neqE_nat)
  have sub_un: "unclosed ?e \<subseteq> {..< length (en_snapshots e)}" unfolding un by (auto simp: unclosed_def)
  then have "snapshot_leases ?e ` unclosed ?e = ?L ` unclosed ?e" by (intro image_cong) (auto simp: L)
  moreover have "\<Union> (?L ` (unclosed e - {i})) = \<Union> (?L ` unclosed e) - ?L i"
    using dis by (fastforce simp: unclosed_def)
  ultimately have "open_leases r = \<Union> (snapshot_leases ?e ` unclosed ?e)"
    using res ok unfolding un by (simp add: leases_ok_def)
  with res ok L show "leases_ok ?e" by (simp add: leases_ok_def)
qed

lemma history_ok_cong:
  assumes "history_ok parse e" and "en_order e' = en_order e" "en_nextRevision e' = en_nextRevision e"
    "en_history e' = en_history e" "en_defaults e' = en_defaults e"
    and "\<And>u. current_snapshot e' = Some u \<Longrightarrow>
      \<exists>t. current_snapshot e = Some t \<and> ss_config u = ss_config t \<and> ss_revision u = ss_revision t"
  shows "history_ok parse e'"
  using assms(1,6) unfolding history_ok_def assms(2-5) by metis

text \<open>The counters and flags of one snapshot change; everything else stays.\<close>

lemma update_engine_ok:
  assumes ok: "engine_ok parse e" and i: "i < length (en_snapshots e)" and leases: "leases_ok e'"
    and e': "e' = e\<lparr>en_snapshots := (en_snapshots e)[i := s], en_states := r\<rparr>"
    and same: "ss_config s = ss_config (en_snapshots e ! i)" "ss_clusters s = ss_clusters (en_snapshots e ! i)"
      "ss_routes s = ss_routes (en_snapshots e ! i)" "ss_listeners s = ss_listeners (en_snapshots e ! i)"
      "ss_defaultListener s = ss_defaultListener (en_snapshots e ! i)" "ss_revision s = ss_revision (en_snapshots e ! i)"
    and life: "0 \<le> ss_refs s" "ss_retired s \<longleftrightarrow> en_current e \<noteq> Some i" "ss_closed s \<longleftrightarrow> ss_retired s \<and> ss_refs s = 0"
  shows "engine_ok parse e'"
proof -
  have "snapshot_ok parse (en_defaults e) (en_snapshots e ! i)" using ok i by (simp add: engine_ok_def)
  then have "snapshot_ok parse (en_defaults e) s" unfolding snapshot_ok_def same .
  then have "\<forall>s \<in> set (en_snapshots e'). snapshot_ok parse (en_defaults e') s"
    using ok set_update_subset_insert [of "en_snapshots e" i s] by (auto simp: e' engine_ok_def)
  moreover have "life_ok e'"
    using ok life i by (auto simp: e' engine_ok_def life_ok_def Let_def nth_list_update split: option.splits)
  moreover have "history_ok parse e'"
  proof -
    have "\<exists>t. current_snapshot e = Some t \<and> ss_config u = ss_config t \<and> ss_revision u = ss_revision t"
      if "current_snapshot e' = Some u" for u
    proof (cases "en_current e = Some i")
      case True
      with that i have "u = s" by (simp add: e' current_snapshot_def)
      with True same(1,6) show ?thesis by (simp add: current_snapshot_def)
    next
      case False
      with that have "current_snapshot e = Some u" by (auto simp: e' current_snapshot_def)
      then show ?thesis by blast
    qed
    then show ?thesis using ok by (intro history_ok_cong [where e = e and e' = e']) (simp_all add: e' engine_ok_def)
  qed
  ultimately show ?thesis using leases by (simp add: engine_ok_def)
qed

lemma acquire_ok:
  assumes ok: "engine_ok parse e" and cur: "en_current e = Some i"
    and acq: "snapshot_acquire (en_snapshots e ! i) (en_states e) = (res, s, r)"
  shows "engine_ok parse (e\<lparr>en_snapshots := (en_snapshots e)[i := s], en_states := r\<rparr>)" and "res"
proof -
  let ?s = "en_snapshots e ! i"
  have i: "i < length (en_snapshots e)" and alive: "\<not> ss_retired ?s" "\<not> ss_closed ?s" "0 \<le> ss_refs ?s"
    using ok cur by (auto simp: engine_ok_def life_ok_def Let_def)
  with acq have eq: "res" "s = ?s\<lparr>ss_refs := ss_refs ?s + 1\<rparr>" "r = en_states e"
    by (auto simp: snapshot_acquire_def)
  show res by (rule eq(1))
  have "leases_ok (e\<lparr>en_snapshots := (en_snapshots e)[i := s], en_states := r\<rparr>)"
    using ok i alive by (intro update_leases(1) [where c = False and t = s]) (simp_all add: engine_ok_def eq)
  from update_engine_ok [OF ok i this refl] alive cur
  show "engine_ok parse (e\<lparr>en_snapshots := (en_snapshots e)[i := s], en_states := r\<rparr>)" by (simp add: eq)
qed

lemma release_ok:
  assumes ok: "engine_ok parse e" and i: "i < length (en_snapshots e)" and held: "0 < ss_refs (en_snapshots e ! i)"
    and rel: "snapshot_release (en_snapshots e ! i) (en_states e) = (s, r)"
  shows "engine_ok parse (e\<lparr>en_snapshots := (en_snapshots e)[i := s], en_states := r\<rparr>)"
proof -
  let ?s = "en_snapshots e ! i"
  let ?t = "?s\<lparr>ss_refs := ss_refs ?s - 1\<rparr>" and ?c = "ss_refs ?s - 1 = 0 \<and> ss_retired ?s"
  have alive: "\<not> ss_closed ?s" and ret: "ss_retired ?s \<longleftrightarrow> en_current e \<noteq> Some i"
    using ok i held by (auto simp: engine_ok_def life_ok_def Let_def)
  from rel have "(if ?c then snapshot_close ?t (en_states e) else (?t, en_states e)) = (s, r)"
    by (simp add: snapshot_release_def Let_def split: if_splits)
  note upd = update_leases [OF _ i alive _ _ this]
  have leases: "leases_ok e" using ok by (simp add: engine_ok_def)
  have s: "s = ?t\<lparr>ss_closed := ?c\<rparr>" by (rule upd(2) [OF leases]) (simp_all add: alive)
  have "leases_ok (e\<lparr>en_snapshots := (en_snapshots e)[i := s], en_states := r\<rparr>)"
    by (rule upd(1) [OF leases]) (simp_all add: alive)
  from update_engine_ok [OF ok i this refl] held ret show ?thesis by (auto simp: s)
qed

text \<open>Retiring the snapshot that was current until now; \<open>e\<close> has already moved on.\<close>

lemma retire_at_result:
  assumes leases: "leases_ok e" and i: "i < length (en_snapshots e)" and alive: "\<not> ss_closed (en_snapshots e ! i)"
  shows "\<exists>r. retire_at i e = e\<lparr>en_snapshots := (en_snapshots e)[i := (en_snapshots e ! i)\<lparr>ss_retired := True,
      ss_closed := (ss_refs (en_snapshots e ! i) = 0)\<rparr>], en_states := r\<rparr>"
    and "leases_ok (retire_at i e)"
proof -
  let ?s = "en_snapshots e ! i" and ?t = "(en_snapshots e ! i)\<lparr>ss_retired := True\<rparr>"
  obtain s r where sr: "snapshot_retire ?s (en_states e) = (s, r)" by fastforce
  then have "(if ss_refs ?s = 0 then snapshot_close ?t (en_states e) else (?t, en_states e)) = (s, r)"
    by (simp add: snapshot_retire_def Let_def split: if_splits)
  note upd = update_leases [OF leases i alive _ _ this]
  have s: "s = ?t\<lparr>ss_closed := (ss_refs ?s = 0)\<rparr>" by (rule upd(2)) (simp_all add: alive)
  have ret: "retire_at i e = e\<lparr>en_snapshots := (en_snapshots e)[i := s], en_states := r\<rparr>"
    by (simp add: retire_at_def sr)
  show "\<exists>r. retire_at i e = e\<lparr>en_snapshots := (en_snapshots e)[i := ?s\<lparr>ss_retired := True,
      ss_closed := (ss_refs ?s = 0)\<rparr>], en_states := r\<rparr>"
    unfolding ret s by auto
  show "leases_ok (retire_at i e)" unfolding ret by (rule upd(1)) (simp_all add: alive)
qed

section \<open>Configuration changes keep the invariant\<close>

lemma leases_ok_reach: "leases_ok e \<Longrightarrow> registry_reachable (en_states e)"
  by (simp add: leases_ok_def)

lemma retire_at_fields:
  assumes "leases_ok e" and "i < length (en_snapshots e)" and "\<not> ss_closed (en_snapshots e ! i)"
  shows "en_current (retire_at i e) = en_current e" "en_closed (retire_at i e) = en_closed e"
    "en_nextRevision (retire_at i e) = en_nextRevision e" "en_history (retire_at i e) = en_history e"
    "en_order (retire_at i e) = en_order e" "en_defaults (retire_at i e) = en_defaults e"
    "en_snapshots (retire_at i e) = (en_snapshots e)[i := (en_snapshots e ! i)\<lparr>ss_retired := True,
      ss_closed := (ss_refs (en_snapshots e ! i) = 0)\<rparr>]"
  using retire_at_result(1) [OF assms] by auto

text \<open>A new snapshot takes over from the current one.\<close>

lemma takeover_ok:
  assumes ok: "engine_ok parse e" and cur: "en_current e = Some i"
    and build: "buildSnapshot ev (en_defaults e) config (en_nextRevision e + 1) previous current now (en_states e) = (Inr s, r)"
    and "ev_parse ev = parse"
  shows "engine_ok parse (retire_at i (install s now (e\<lparr>en_states := r\<rparr>)))"
proof -
  let ?e1 = "install s now (e\<lparr>en_states := r\<rparr>)" and ?n = "length (en_snapshots e)"
  have leases: "leases_ok e" and life: "life_ok e" and hist: "history_ok parse e"
    and snaps: "\<forall>s \<in> set (en_snapshots e). snapshot_ok parse (en_defaults e) s"
    using ok by (simp_all add: engine_ok_def)
  note b = buildSnapshot_ok [OF leases_ok_reach [OF leases] build]
  have s: "snapshot_ok parse (en_defaults e) s" "ss_revision s = en_nextRevision e + 1" "ss_refs s = 0" "\<not> ss_retired s"
    "\<not> ss_closed s" using b assms(4) by simp_all
  have i: "i < ?n" "\<not> en_closed e" using life cur by (simp_all add: life_ok_def)
  then have at: "en_snapshots ?e1 ! i = en_snapshots e ! i" "i < length (en_snapshots ?e1)" by (simp_all add: nth_append)
  have alive: "\<not> ss_closed (en_snapshots ?e1 ! i)" "0 \<le> ss_refs (en_snapshots e ! i)"
    using life cur i at by (auto simp: life_ok_def Let_def)
  have leases1: "leases_ok ?e1" using b s(5) by (intro install_leases [OF leases]) simp_all
  note ret = retire_at_result [OF leases1 at(2) alive(1)] and f = retire_at_fields [OF leases1 at(2) alive(1)]
  obtain n where n: "n \<le> 100" "en_order e = last_revisions (en_nextRevision e) n" using hist by (auto simp: history_ok_def)
  have norm: "normal parse (en_defaults e) (ss_config s)" using s(1) by (simp add: snapshot_ok_def)
  have hist1: "history_ok parse ?e1"
  proof (rule install_history)
    show "en_order e = last_revisions (ss_revision s - 1) n" using n s(2) by simp
  qed (use hist n norm in \<open>auto simp: history_ok_def\<close>)
  have cur1: "current_snapshot (retire_at i ?e1) = current_snapshot ?e1"
    using i by (simp add: current_snapshot_def f)
  have "history_ok parse (retire_at i ?e1)" using hist1 unfolding history_ok_def cur1 f(3,4,5,6) .
  moreover have "life_ok (retire_at i ?e1)"
    using life s i cur by (auto simp: life_ok_def Let_def f nth_append nth_list_update less_Suc_eq)
  moreover have "snapshot_ok parse (en_defaults e) t" if "t \<in> set (en_snapshots (retire_at i ?e1))" for t
  proof -
    have "t = (en_snapshots e ! i)\<lparr>ss_retired := True, ss_closed := (ss_refs (en_snapshots e ! i) = 0)\<rparr>
        \<or> t \<in> set (en_snapshots e) \<or> t = s"
      using that set_update_subset_insert [of "en_snapshots ?e1" i] unfolding f at(1) by (auto dest: subsetD)
    moreover have "snapshot_ok parse (en_defaults e) (en_snapshots e ! i)" using snaps i by simp
    ultimately show ?thesis using snaps s(1) by (elim disjE) (simp_all add: snapshot_ok_def)
  qed
  ultimately show ?thesis using ret(2) by (simp add: engine_ok_def f)
qed

lemma apply_failed_ok:
  assumes ok: "engine_ok parse e" and r: "registry_reachable r" "open_leases r = open_leases (en_states e)"
    "length (rg_leases (en_states e)) \<le> length (rg_leases r)"
  shows "engine_ok parse (apply_failed err (e\<lparr>en_states := r\<rparr>))"
proof -
  let ?e = "apply_failed err (e\<lparr>en_states := r\<rparr>)"
  have f: "en_snapshots ?e = en_snapshots e" "en_current ?e = en_current e" "en_states ?e = r"
    "en_closed ?e = en_closed e" "en_nextRevision ?e = en_nextRevision e" "en_history ?e = en_history e"
    "en_order ?e = en_order e" "en_defaults ?e = en_defaults e" by (simp_all add: apply_failed_def)
  have "snapshot_leases ?e = snapshot_leases e" "unclosed ?e = unclosed e" "current_snapshot ?e = current_snapshot e"
    by (simp_all add: fun_eq_iff snapshot_leases_def unclosed_def current_snapshot_def f)
  note g = this
  have "snapshot_leases e i \<subseteq> {..< length (rg_leases r)}" if "i < length (en_snapshots e)" for i
    using ok r(3) that unfolding engine_ok_def leases_ok_def by (meson lessThan_subset_iff order_trans)
  with ok r(1,2) have "leases_ok ?e" unfolding engine_ok_def leases_ok_def f g by simp
  with ok show ?thesis unfolding engine_ok_def life_ok_def history_ok_def f g by blast
qed

lemma closed_build:
  assumes "leases_ok e"
    and "buildSnapshot ev d config revision previous current now (en_states e) = (Inr s, r)"
  shows "registry_reachable (snd (snapshot_close s r))" "open_leases (snd (snapshot_close s r)) = open_leases (en_states e)"
    "length (rg_leases (en_states e)) \<le> length (rg_leases (snd (snapshot_close s r)))"
proof -
  note b = buildSnapshot_ok [OF leases_ok_reach [OF assms(1)] assms(2)]
  have "lease_set (ss_clusters s) \<subseteq> {..< length (rg_leases r)}" using b by auto
  from snapshot_close_ok [OF _ this, of "fst (snapshot_close s r)" "snd (snapshot_close s r)"] b
  have c: "registry_reachable (snd (snapshot_close s r))"
      "open_leases (snd (snapshot_close s r)) = open_leases r - lease_set (ss_clusters s)"
      "length (rg_leases (snd (snapshot_close s r))) = length (rg_leases r)" by simp_all
  from c(1) show "registry_reachable (snd (snapshot_close s r))" .
  have "lease_set (ss_clusters s) \<inter> open_leases (en_states e) = {}"
    using b open_leases_bound [of "en_states e"] by fastforce
  with c b show "open_leases (snd (snapshot_close s r)) = open_leases (en_states e)"
    "length (rg_leases (en_states e)) \<le> length (rg_leases (snd (snapshot_close s r)))" by auto
qed

lemma applyLocked_ok:
  assumes ok: "engine_ok parse e" and "ev_parse ev = parse" and ap: "applyLocked ev config now e = (res, e')"
  shows "engine_ok parse e'"
proof (cases "en_closed e")
  case True
  with ap ok show ?thesis by (simp add: applyLocked_def)
next
  case False
  then obtain i where cur: "en_current e = Some i" using ok by (cases "en_current e") (simp_all add: engine_ok_def life_ok_def)
  have leases: "leases_ok e" using ok by (simp add: engine_ok_def)
  let ?prev = "case current_snapshot e of None \<Rightarrow> 0 | Some s \<Rightarrow> ss_revision s"
  obtain out r where b: "buildSnapshot ev (en_defaults e) config (en_nextRevision e + 1) ?prev (current_snapshot e) now
      (en_states e) = (out, r)" by fastforce
  show ?thesis
  proof (cases out)
    case (Inl err)
    with ap b False have "e' = apply_failed err (e\<lparr>en_states := r\<rparr>)" by (simp add: applyLocked_def Let_def)
    with apply_failed_ok [OF ok] buildSnapshot_ok [OF leases_ok_reach [OF leases] b] Inl show ?thesis by simp
  next
    case (Inr s)
    note b' = b [unfolded Inr]
    show ?thesis
    proof (cases "ev_opDone ev")
      case True
      with ap b Inr False have "e' = apply_failed ''context canceled'' (e\<lparr>en_states := snd (snapshot_close s r)\<rparr>)"
        by (simp add: applyLocked_def Let_def)
      with apply_failed_ok [OF ok] closed_build [OF leases b'] show ?thesis by simp
    next
      case nd: False
      with ap b Inr False cur have "e' = retire_at i (install s now (e\<lparr>en_states := r\<rparr>))"
        by (simp add: applyLocked_def Let_def)
      with takeover_ok [OF ok cur b' assms(2)] show ?thesis by simp
    qed
  qed
qed

lemma New_ok:
  assumes new: "New ev config d now w = Inr e" and "ev_parse ev = parse"
  shows "engine_ok parse e"
proof -
  let ?e0 = "\<lparr>en_defaults = d, en_states = NewBackendStateRegistry w, en_snapshots = [], en_current = None,
      en_closed = False, en_nextRevision = 1, en_history = Map.empty, en_order = [], en_lastError = [],
      en_stats = zero_stats\<rparr>"
  from new obtain s r where build: "buildSnapshot ev d config 1 0 None now (NewBackendStateRegistry w) = (Inr s, r)"
    and e: "e = install s now (?e0\<lparr>en_states := r\<rparr>)"
    by (auto simp: New_def Let_def split: prod.splits sum.splits if_splits)
  have leases0: "leases_ok ?e0"
    using registry_reachable.init [of w]
    by (simp add: leases_ok_def open_leases_def unclosed_def NewBackendStateRegistry_def)
  note b = buildSnapshot_ok [OF registry_reachable.init build]
  have s: "snapshot_ok parse d s" "ss_revision s = 1" "ss_refs s = 0" "\<not> ss_retired s" "\<not> ss_closed s"
    using b assms(2) by simp_all
  have "leases_ok e" unfolding e using b s(5) by (intro install_leases [OF leases0]) simp_all
  moreover have "history_ok parse e" unfolding e
    by (rule install_history [where n = 0]) (use s in \<open>auto simp: snapshot_ok_def last_revisions_def\<close>)
  moreover have "life_ok e" using s by (simp add: e life_ok_def Let_def)
  ultimately show ?thesis using s(1) by (simp add: engine_ok_def e)
qed

lemma Engine_Close_ok:
  assumes ok: "engine_ok parse e"
  shows "engine_ok parse (Engine_Close e)"
proof (cases "en_closed e")
  case True
  with ok show ?thesis by (simp add: Engine_Close_def)
next
  case False
  let ?e = "e\<lparr>en_closed := True, en_current := None\<rparr>"
  obtain i where cur: "en_current e = Some i" "i < length (en_snapshots e)"
    using ok False by (cases "en_current e") (simp_all add: engine_ok_def life_ok_def)
  have life: "life_ok e" using ok by (simp add: engine_ok_def)
  have alive: "\<not> ss_closed (en_snapshots ?e ! i)" "0 \<le> ss_refs (en_snapshots e ! i)"
    using life cur by (auto simp: life_ok_def Let_def)
  have "snapshot_leases ?e = snapshot_leases e" "unclosed ?e = unclosed e"
    by (simp_all add: fun_eq_iff snapshot_leases_def unclosed_def)
  then have leases: "leases_ok ?e" using ok by (simp add: engine_ok_def leases_ok_def)
  have i: "i < length (en_snapshots ?e)" using cur by simp
  note ret = retire_at_result [OF leases i alive(1)] and f = retire_at_fields [OF leases i alive(1)]
  have "life_ok (retire_at i ?e)"
    using life cur alive by (auto simp: life_ok_def Let_def f nth_list_update)
  moreover have "history_ok parse (retire_at i ?e)"
    using ok by (intro history_ok_cong [where e = e and e' = "retire_at i ?e"]) (simp_all add: f engine_ok_def current_snapshot_def)
  moreover have "snapshot_ok parse (en_defaults e) t" if "t \<in> set (en_snapshots (retire_at i ?e))" for t
  proof -
    have "t = (en_snapshots e ! i)\<lparr>ss_retired := True, ss_closed := (ss_refs (en_snapshots e ! i) = 0)\<rparr>
        \<or> t \<in> set (en_snapshots e)"
      using that set_update_subset_insert [of "en_snapshots e" i] unfolding f by (auto dest: subsetD)
    moreover have "snapshot_ok parse (en_defaults e) (en_snapshots e ! i)" using ok cur by (simp add: engine_ok_def)
    ultimately show ?thesis using ok by (elim disjE) (simp_all add: snapshot_ok_def engine_ok_def)
  qed
  ultimately show ?thesis using ret(2) False cur by (simp add: engine_ok_def f Engine_Close_def)
qed

lemma updateEndpointsLocked_ok:
  assumes ok: "engine_ok parse e" and "ev_parse ev = parse"
  shows "engine_ok parse (snd (updateEndpointsLocked ev cid endpoints discovery expected now e))"
proof -
  have same: "engine_ok parse (on_cluster cid (setDiscovery ds) e')" if "engine_ok parse e'" for e' ds
    by (rule same_engine_ok [OF on_cluster_same that]) (simp add: setDiscovery_def)
  show ?thesis
    using ok applyLocked_ok [OF ok assms(2)] same
    by (auto simp: updateEndpointsLocked_def Let_def split: option.splits prod.splits)
qed

lemma engine_reachable_ok: "engine_reachable parse e \<Longrightarrow> engine_ok parse e"
proof (induction rule: engine_reachable.induct)
  case (applied_if e ev config expected now)
  then show ?case
    using applyLocked_ok by (auto simp: ApplyIfRevision_def split: option.split) (metis prod.collapse)
next
  case (rollback e ev revision now)
  then show ?case
    using applyLocked_ok by (auto simp: Rollback_def rollbackLocked_def split: option.split) (metis prod.collapse)
next
  case (rollback_if e ev revision expected now)
  then show ?case
    using applyLocked_ok
    by (auto simp: RollbackIfRevision_def rollbackLocked_def split: option.split) (metis prod.collapse)
next
  case (applied e ev config now)
  then show ?case using applyLocked_ok by (metis Apply_def prod.collapse)
next
  case (other e w)
  then show ?case using same_engine_ok [of e "e\<lparr>en_states := (en_states e)\<lparr>rg_world := w\<rparr>\<rparr>"] by simp
qed (auto intro: New_ok updateEndpointsLocked_ok acquire_ok(1) release_ok Engine_Close_ok
    same_engine_ok [OF endpoint_op_same] same_engine_ok [OF UpdateDiscoveryStatus_same]
    same_engine_ok [OF markDiscoveryErrorLocked_same] same_engine_ok [OF Engine_Ready_same]
    same_engine_ok [OF ServeHTTP_same] same_engine_ok [OF Engine_Status_same] same_engine_ok
    simp: SetEndpoint_def DrainEndpoint_def UpdateEndpoints_def UpdateEndpointsForSource_def
      MarkDiscoveryError_def MarkDiscoveryErrorForSource_def)

end
