(* ===== verification/Build_Frame.thy ===== *)
theory Build_Frame
  imports Runtime_Facts
begin

text \<open>
  Building a snapshot works on new objects only: the backends, states and pools that exist already,
  those that serve traffic, are left as they are, whether the build succeeds or fails.
\<close>

text \<open>Nothing below an address changed, and a pool whose objects all lie above it.\<close>

definition below_same :: "addr \<Rightarrow> world \<Rightarrow> world \<Rightarrow> bool" where
  "below_same n w w' \<longleftrightarrow>
     (\<forall>x < n. w_states w' x = w_states w x \<and> w_backends w' x = w_backends w x \<and> w_pools w' x = w_pools w x)"

definition own :: "addr \<Rightarrow> addr \<Rightarrow> world \<Rightarrow> bool" where
  "own n p w \<longleftrightarrow> n \<le> p \<and> (\<forall>b \<in> set (p_all (w_pools w p)). n \<le> b \<and> n \<le> b_state (w_backends w b)
     \<and> (\<forall>q \<in> set (s_pools (state_of w b)). n \<le> q))"

definition keeps :: "addr \<Rightarrow> addr \<Rightarrow> world \<Rightarrow> world \<Rightarrow> bool" where
  "keeps n p w w' \<longleftrightarrow>
     (own n p w \<longrightarrow> below_same n w w' \<and> own n p w' \<and> p_all (w_pools w' p) = p_all (w_pools w p)
        \<and> w_next w \<le> w_next w')"

lemma below_same_refl [simp]: "below_same n w w" by (simp add: below_same_def)

lemma below_same_trans: "below_same n w w' \<Longrightarrow> below_same m w' w'' \<Longrightarrow> n \<le> m \<Longrightarrow> below_same n w w''"
  by (auto simp: below_same_def)

lemma keeps_refl [simp]: "keeps n p w w" by (simp add: keeps_def)

lemma keeps_trans: "keeps n p w w' \<Longrightarrow> keeps n p w' w'' \<Longrightarrow> keeps n p w w''"
  unfolding keeps_def using below_same_trans [of n w w' n w''] by auto

lemma keeps_fold:
  "own n p w \<Longrightarrow> set bs \<subseteq> set (p_all (w_pools w p))
   \<Longrightarrow> (\<And>b w. own n p w \<Longrightarrow> b \<in> set (p_all (w_pools w p)) \<Longrightarrow> keeps n p w (f b w)) \<Longrightarrow> keeps n p w (fold f bs w)"
proof (induction bs arbitrary: w)
  case (Cons b bs)
  then have k: "keeps n p w (f b w)" by simp
  with Cons.prems have "own n p (f b w)" "set bs \<subseteq> set (p_all (w_pools (f b w) p))" by (auto simp: keeps_def)
  from keeps_trans [OF k Cons.IH [OF this Cons.prems(3)]] show ?case by simp
qed simp

lemma fold_invalidate_below:
  "(\<forall>q \<in> set ps. n \<le> q) \<Longrightarrow> x < n
   \<Longrightarrow> w_pools (fold (\<lambda>p w. set_pool w p (invalidate_pool u (w_pools w p))) ps w) x = w_pools w x"
  by (induction ps arbitrary: w) auto

lemma state_step_keeps:
  assumes "own n p w" and b: "b \<in> set (p_all (w_pools w p))" and s: "s_pools s = s_pools (state_of w b)"
  shows "keeps n p w (state_step (b_state (w_backends w b)) c s w)"
proof -
  let ?a = "b_state (w_backends w b)" and ?w = "state_step (b_state (w_backends w b)) c s w"
  have pools: "\<forall>q \<in> set (s_pools s). n \<le> q" and a: "n \<le> ?a" using assms by (auto simp: own_def)
  have "w_pools ?w x = w_pools w x" if "x < n" for x
    using fold_invalidate_below [OF pools that]
    by (simp add: state_step_def refreshAvailability_def invalidateLocked_def Let_def)
  with a have below: "below_same n w ?w" by (auto simp: below_same_def)
  have all: "p_all (w_pools ?w q) = p_all (w_pools w q)" for q
  proof -
    have "p_all (w_pools (fold (\<lambda>p w. set_pool w p (invalidate_pool u (w_pools w p))) ps v) q) = p_all (w_pools v q)" for u ps v
      by (induction ps arbitrary: v) auto
    then show ?thesis by (simp add: state_step_def refreshAvailability_def invalidateLocked_def Let_def)
  qed
  have "own n p ?w" using assms(1) s by (auto simp: own_def all)
  with below all show ?thesis by (simp add: keeps_def)
qed

lemma recordHealth_pools [simp]: "s_pools (snd (recordHealthResultLocked b ok st ft now s)) = s_pools s"
  by (simp add: recordHealthResultLocked_def Let_def)

lemma backend_ops_keep:
  assumes "own n p w" and "b \<in> set (p_all (w_pools w p))"
  shows "keeps n p w (SetAlive b alive now w)" "keeps n p w (RecordHealthResult b ok st ft now w)"
    "keeps n p w (recoverExpiredEjection b now w)"
  using assms by (simp_all add: op_steps Let_def state_step_keeps)

lemma set_pool_keeps: "p_all q = p_all (w_pools w p) \<Longrightarrow> keeps n p w (set_pool w p q)"
  by (auto simp: keeps_def own_def below_same_def)

lemma refreshAvailable_keeps: "keeps n p w (refreshAvailable p now w)"
  by (simp add: refreshAvailable_def Let_def set_pool_keeps)

lemma recover_scan_keeps:
  "own n p w \<Longrightarrow> set bs \<subseteq> set (p_all (w_pools w p)) \<Longrightarrow> keeps n p w (snd (recover_scan now bs earliest w))"
proof (induction bs arbitrary: earliest w)
  case (Cons b bs)
  let ?w = "recoverExpiredEjection b now w"
  have k: "keeps n p w ?w" using Cons.prems by (intro backend_ops_keep) auto
  with Cons.prems have "own n p ?w" "set bs \<subseteq> set (p_all (w_pools ?w p))" by (auto simp: keeps_def)
  from keeps_trans [OF k Cons.IH [OF this]] show ?case by (simp add: Let_def)
qed simp

lemma keeps_own: "keeps n p w w' \<Longrightarrow> own n p w \<Longrightarrow> own n p w'" by (simp add: keeps_def)

lemma recoverExpiredEjections_keeps:
  assumes "own n p w"
  shows "keeps n p w (recoverExpiredEjections p now w)"
proof -
  let ?w0 = "set_pool w p ((w_pools w p)\<lparr>p_nextRecovery := 0\<rparr>)"
  let ?r = "recover_scan now (p_all (w_pools ?w0 p)) 0 ?w0"
  let ?w2 = "if fst ?r > 0 then set_pool (snd ?r) p (scheduleRecovery (w_pools (snd ?r) p) (fst ?r)) else snd ?r"
  have a: "keeps n p w ?w0" by (rule set_pool_keeps) simp
  have b: "keeps n p ?w0 (snd ?r)" by (rule recover_scan_keeps [OF keeps_own [OF a assms]]) simp
  have c: "keeps n p (snd ?r) ?w2" by (auto intro!: set_pool_keeps simp: scheduleRecovery_def Let_def)
  from keeps_trans [OF keeps_trans [OF keeps_trans [OF a b] c] refreshAvailable_keeps [of n p ?w2 now]]
  show ?thesis by (simp add: recoverExpiredEjections_def Let_def split_def del: set_pool_simps)
qed

lemma Pool_Ready_keeps:
  assumes "own n p w"
  shows "keeps n p w (snd (Pool_Ready p now w))"
proof -
  define w1 where "w1 = (if p_nextRecovery (w_pools w p) > 0 \<and> now \<ge> p_nextRecovery (w_pools w p)
      then recoverExpiredEjections p now w else w)"
  define w2 where "w2 = (if p_stateVersion (w_pools w1 p) \<noteq> p_cacheVersion (w_pools w1 p)
      then refreshAvailable p now w1 else w1)"
  have "keeps n p w w1" using recoverExpiredEjections_keeps [OF assms] by (simp add: w1_def)
  moreover have "keeps n p w1 w2" using refreshAvailable_keeps by (simp add: w2_def)
  ultimately have "keeps n p w w2" by (rule keeps_trans)
  moreover have "snd (Pool_Ready p now w) = w2" by (simp add: Pool_Ready_def AvailableBackends_def Let_def w1_def w2_def)
  ultimately show ?thesis by simp
qed

lemma check_keeps:
  assumes "own n p w" and "set bs \<subseteq> set (p_all (w_pools w p))"
  shows "keeps n p w (CheckBackends dial get c hc bs now w)"
  unfolding CheckBackends_def check_def
  by (rule keeps_fold [OF assms]) (simp add: backend_ops_keep)

lemma rounds_keep:
  assumes "own n p w" and "set bs \<subseteq> set (p_all (w_pools w p))"
  shows "keeps n p w ((CheckBackends dial get c hc bs now ^^ m) w)"
proof (induction m)
  case (Suc m)
  let ?w = "(CheckBackends dial get c hc bs now ^^ m) w"
  from Suc assms have "own n p ?w" "set bs \<subseteq> set (p_all (w_pools ?w p))" by (simp_all add: keeps_def)
  from keeps_trans [OF Suc check_keeps [OF this]] show ?case by simp
qed simp

lemma UpdatePassivePolicy_keeps:
  assumes "own n p w"
  shows "keeps n p w (UpdatePassivePolicy p policy w)"
proof -
  let ?w = "set_pool w p ((w_pools w p)\<lparr>p_policy := policy\<rparr>)"
  have a: "keeps n p w ?w" by (rule set_pool_keeps) simp
  have "keeps n p ?w (fold (\<lambda>b w. set_state w (b_state (w_backends w b))
      ((state_of w b)\<lparr>s_maxConcurrent := pp_MaxConcurrentRequests policy\<rparr>)) (p_all (w_pools w p)) ?w)"
  proof (rule keeps_fold [OF keeps_own [OF a assms]])
    fix b w' assume "own n p w'" "b \<in> set (p_all (w_pools w' p))"
    from state_step_keeps [OF this, of "(state_of w' b)\<lparr>s_maxConcurrent := pp_MaxConcurrentRequests policy\<rparr>" False]
    show "keeps n p w' (set_state w' (b_state (w_backends w' b))
      ((state_of w' b)\<lparr>s_maxConcurrent := pp_MaxConcurrentRequests policy\<rparr>))"
      by (simp add: state_step_def refreshAvailability_def)
  qed simp
  from keeps_trans [OF a this] show ?thesis by (simp add: UpdatePassivePolicy_def)
qed

section \<open>New pools\<close>

lemma NewBackendPool_own:
  assumes "NewBackendPool parse specs policy now w = Inr (p, w')"
  shows "below_same (w_next w) w w' \<and> own (w_next w) p w' \<and> w_next w \<le> w_next w'"
proof -
  let ?n = "w_next w"
  let ?pol = "case policy of None \<Rightarrow> default_policy | Some p \<Rightarrow> p"
  from assms obtain bs w1 where b: "buildBackends parse ?pol [] [] specs (w\<lparr>w_next := ?n + 1\<rparr>) = Inr (bs, w1)"
    and p: "p = ?n" and w': "w' = refreshAvailable p now (set_pool (fold (attach_pool p) bs w1) p
      \<lparr>p_all = bs, p_available = [], p_policy = ?pol, p_nextRecovery = 0, p_stateVersion = 0, p_cacheVersion = 0\<rparr>)"
    by (auto simp: NewBackendPool_def Let_def split: sum.splits)
  note bb = buildBackends_ok [OF b, simplified]
  define w2 where "w2 = fold (attach_pool p) bs w1"
  have bs: "bs = [Suc ?n ..< Suc ?n + length specs]" using bb by simp
  have own_state: "b_state (w_backends w1 x) = x \<and> ?n < x \<and> s_pools (w_states w1 x) = []" if x: "x \<in> set bs" for x
  proof -
    from x obtain i where "x = Suc (?n + i)" "i < length specs" by (auto simp: bs dest!: le_Suc_ex)
    with bb show ?thesis by (simp add: built_backend_def new_state_def)
  qed
  have inj: "distinct bs" "\<forall>x \<in> set bs. b_state (w_backends w1 x) = x" using own_state by (simp_all add: bs)
  note at = fold_attach_pool [OF inj, of p, folded w2_def]
  have fields: "w_states w' = w_states w2" "w_backends w' = w_backends w2" "w_next w' = w_next w2"
    "w_pools w' q = (if q = p then w_pools w' p else w_pools w2 q)" "p_all (w_pools w' p) = bs" for q
    by (simp_all add: w' w2_def [symmetric] refreshAvailable_def Let_def)
  have "x \<notin> set bs" if "x < ?n" for x using that by (simp add: bs)
  with bb have "below_same ?n w w'" unfolding below_same_def by (simp add: fields(1,2) at) (simp add: fields(4) at p)
  moreover have "own ?n p w'"
    using own_state unfolding own_def fields(5) by (auto simp: fields(1,2) at p intro: less_imp_le)
  moreover have "?n \<le> w_next w'" using bb by (simp add: fields(3) at)
  ultimately show ?thesis by blast
qed

section \<open>Building\<close>

text \<open>Closing a lease that was never activated touches no backend.\<close>

lemma close_fold_inactive:
  "rg_world (fold (close_entry p False) es r) = rg_world r"
  by (induction es arbitrary: r) (simp_all add: close_entry_def Let_def)

lemma Close_inactive:
  assumes "\<not> lease_active (rg_leases r ! i)"
  shows "rg_world (Close i r) = rg_world r"
  using assms by (simp add: Close_def Let_def close_fold_inactive)

lemma Close_keeps_inactive:
  "j < length (rg_leases r) \<Longrightarrow> \<not> lease_active (rg_leases r ! j) \<Longrightarrow> \<not> lease_active (rg_leases (Close i r) ! j)"
  by (cases "i = j") (simp_all add: Close_def Let_def)

lemma close_clusters_inactive:
  assumes "lease_set cs \<subseteq> {..< length (rg_leases r)}" and "\<forall>i \<in> lease_set cs. \<not> lease_active (rg_leases r ! i)"
  shows "rg_world (close_clusters cs r) = rg_world r"
  using assms
proof (induction cs arbitrary: r)
  case Nil
  then show ?case by (simp add: close_clusters_def)
next
  case (Cons c cs)
  obtain cid k where c: "c = (cid, k)" by (cases c)
  have k: "rk_lease k < length (rg_leases r)" "\<not> lease_active (rg_leases r ! rk_lease k)"
    using Cons.prems by (simp_all add: lease_set_def c)
  have cs: "lease_set cs \<subseteq> {..< length (rg_leases r)}" "\<forall>i \<in> lease_set cs. \<not> lease_active (rg_leases r ! i)"
    using Cons.prems by (simp_all add: lease_set_def c)
  then have "\<forall>i \<in> lease_set cs. \<not> lease_active (rg_leases (Close (rk_lease k) r) ! i)"
    using Close_keeps_inactive by blast
  with cs(1) have "rg_world (close_clusters cs (Close (rk_lease k) r)) = rg_world (Close (rk_lease k) r)"
    by (intro Cons.IH) (simp_all add: open_leases_Close(2) [OF k(1)])
  then show ?case using Close_inactive [OF k(2)] by (simp add: close_clusters_def c)
qed

lemma warm_case:
  "(case x of (None, w) \<Rightarrow> (Inr c, w) | (Some err, w) \<Rightarrow> (Inl err, w)) = (out, w') \<Longrightarrow> w' = snd x"
  by (auto split: prod.splits option.splits)

lemma build_reserved_keeps:
  assumes "own n p (rg_world r)" and "build_reserved ev config previous p i now r = (out, w')"
  shows "keeps n p (rg_world r) w'"
proof -
  let ?w = "rg_world r" and ?bs = "p_all (w_pools (rg_world r) p)"
  have alive: "keeps n p ?w (fold (\<lambda>b. SetAlive b True now) ?bs ?w)"
    by (rule keeps_fold [OF assms(1)]) (simp_all add: backend_ops_keep)
  have checker: "keeps n p ?w w1" if "NewHealthChecker p h ?w = Inr (hc, w1)" for h hc w1
    using that UpdatePassivePolicy_keeps [OF assms(1)] by (auto simp: NewHealthChecker_def Let_def split: option.splits)
  have warm: "keeps n p ?w (snd (warm_cluster ev cid hc h (filter P ?bs) re p now w1))"
    if "keeps n p ?w w1" for cid hc h P re w1
  proof -
    let ?w2 = "(CheckBackends (ev_dial ev) (ev_get ev) (\<lambda>b. ev_warmDone ev cid) hc (filter P ?bs) now
      ^^ nat (hs_SuccessThreshold h)) w1"
    have "own n p w1" "set (filter P ?bs) \<subseteq> set (p_all (w_pools w1 p))" using that assms(1) by (auto simp: keeps_def)
    from keeps_trans [OF that rounds_keep [OF this]] have k: "keeps n p ?w ?w2" .
    from keeps_trans [OF k Pool_Ready_keeps [OF keeps_own [OF k assms(1)], of now]] k show ?thesis
      by (auto simp: warm_cluster_def Let_def split: prod.split bool.split)
  qed
  show ?thesis
  proof (cases "clusterTransport ev config \<noteq> None \<or> (\<exists>err. clusterStrategy ev config = Inl err)")
    case True
    with assms(2) show ?thesis by (auto simp: build_reserved_def Let_def split: option.splits sum.splits)
  next
    case False
    then obtain st where st: "clusterTransport ev config = None" "clusterStrategy ev config = Inr st"
      by (cases "clusterStrategy ev config") auto
    let ?h = "healthSettings (gc_Health config) (cluster_maxConcurrent config)"
    show ?thesis
    proof (cases "\<not> ghc_Enabled (gc_Health config) \<or> (\<exists>err. NewHealthChecker p ?h ?w = Inl err)")
      case True
      with assms(2) st alive show ?thesis by (auto simp: build_reserved_def Let_def split: sum.splits if_splits)
    next
      case False
      then obtain hc w1 where hc: "ghc_Enabled (gc_Health config)" "NewHealthChecker p ?h ?w = Inr (hc, w1)"
        by (cases "NewHealthChecker p ?h ?w") auto
      let ?P = "\<lambda>b. \<not> Reused (rg_leases r ! i) b \<or> refresh_health previous config"
      have w': "w' = w1 \<or> (\<exists>re. w' = snd (warm_cluster ev (gc_ID config) hc ?h (filter ?P ?bs) re p now w1))"
        using assms(2) hc(1) unfolding build_reserved_def Let_def st hc(2) option.case sum.case prod.case
        by (simp split: if_splits) (blast dest: warm_case)
      with checker [OF hc(2)] warm [OF checker [OF hc(2)]] show ?thesis by (elim disjE exE) simp_all
    qed
  qed
qed

lemma buildCluster_frame:
  assumes "buildCluster ev c previous now r = (res, r')"
  shows "below_same (w_next (rg_world r)) (rg_world r) (rg_world r') \<and> w_next (rg_world r) \<le> w_next (rg_world r')
    \<and> (\<forall>j < length (rg_leases r). lease_active (rg_leases r' ! j) = lease_active (rg_leases r ! j))
    \<and> (\<forall>k. res = Inr k \<longrightarrow> \<not> lease_active (rg_leases r' ! rk_lease k))"
proof (cases "NewBackendPool (ev_parse ev) (map endpoint_spec (gc_Endpoints c)) (Some (cluster_policy c)) now (rg_world r)")
  case (Inl err)
  with assms show ?thesis by (auto simp: buildCluster_def)
next
  case (Inr pw)
  obtain p w where pw: "pw = (p, w)" by (cases pw)
  let ?n = "w_next (rg_world r)" and ?i = "length (rg_leases r)"
  note new = NewBackendPool_own [OF Inr [unfolded pw]]
  let ?r = "Reserve (gc_ID c) p (r\<lparr>rg_world := w\<rparr>)"
  obtain l where l: "rg_leases ?r = rg_leases r @ [l]" "\<not> lease_active l"
    using Reserve_leases(1) [of "gc_ID c" p "r\<lparr>rg_world := w\<rparr>"] by auto
  have world: "rg_world ?r = w" using Reserve_leases(2) [of "gc_ID c" p "r\<lparr>rg_world := w\<rparr>"] by simp
  obtain out w' where out: "build_reserved ev c previous p ?i now ?r = (out, w')" by fastforce
  have "keeps ?n p w w'" using build_reserved_keeps [OF _ out] new by (simp add: world)
  then have below: "below_same ?n (rg_world r) w'" "?n \<le> w_next w'"
    using new below_same_trans [of ?n "rg_world r" w ?n w'] by (auto simp: keeps_def)
  have i: "length (rg_leases ?r) - 1 = ?i" by (simp add: l)
  show ?thesis
  proof (cases out)
    case err: (Inl err)
    with assms out i Inr pw have eq: "res = Inl err" "r' = Close ?i (?r\<lparr>rg_world := w'\<rparr>)"
      by (auto simp: buildCluster_def Let_def)
    have "rg_world r' = w'" using Close_inactive [of "?r\<lparr>rg_world := w'\<rparr>" ?i] l by (simp add: eq)
    moreover have "lease_active (rg_leases r' ! j) = lease_active (rg_leases r ! j)" if "j < ?i" for j
      using that l by (simp add: eq Close_def Let_def nth_append)
    ultimately show ?thesis using below eq by simp
  next
    case ok: (Inr k)
    with assms out i Inr pw have eq: "res = Inr k" "r' = ?r\<lparr>rg_world := w'\<rparr>"
      by (auto simp: buildCluster_def Let_def)
    have "rk_lease k = ?i" using build_reserved_lease out ok by blast
    with below l show ?thesis by (simp add: eq nth_append)
  qed
qed

lemma build_clusters_frame:
  assumes "build_clusters ev current now cs built r = (res, r')"
    and "lease_set built \<subseteq> {..< length (rg_leases r)}" and "\<forall>i \<in> lease_set built. \<not> lease_active (rg_leases r ! i)"
    and "registry_reachable r" and "distinct (map gc_ID cs)" and "fst ` set built \<inter> gc_ID ` set cs = {}"
  shows "below_same (w_next (rg_world r)) (rg_world r) (rg_world r') \<and> w_next (rg_world r) \<le> w_next (rg_world r')
    \<and> (\<forall>built'. res = Inr built' \<longrightarrow> (\<forall>i \<in> lease_set built'. \<not> lease_active (rg_leases r' ! i)))"
  using assms
proof (induction cs arbitrary: built r)
  case Nil
  then show ?case by auto
next
  case (Cons c cs)
  obtain res1 r1 where b: "buildCluster ev c (map_of current (gc_ID c)) now r = (res1, r1)" by fastforce
  note f = buildCluster_frame [OF b] and ok = buildCluster_ok [OF Cons.prems(4) b]
  have len: "length (rg_leases r) \<le> length (rg_leases r1)" using ok by blast
  have built1: "lease_set built \<subseteq> {..< length (rg_leases r1)}" "\<forall>i \<in> lease_set built. \<not> lease_active (rg_leases r1 ! i)"
    using Cons.prems(2,3) len f by (auto dest!: subsetD)
  show ?case
  proof (cases res1)
    case (Inl err)
    with Cons.prems(1) b have "res = Inl err" "r' = close_clusters built r1" by auto
    with f close_clusters_inactive [OF built1] show ?thesis by simp
  next
    case (Inr k)
    let ?k = "inherit_status (map_of current (gc_ID c)) k"
    let ?built = "AList.update (gc_ID c) ?k built"
    from Inr Cons.prems(1) b have step: "build_clusters ev current now cs ?built r1 = (res, r')" by (simp add: Let_def)
    have new: "gc_ID c \<notin> fst ` set built" using Cons.prems(6) by auto
    note upd = lease_set_update [OF new, of ?k]
    have keys: "fst ` set ?built = insert (gc_ID c) (fst ` set built)"
      using upd(2) by (metis Un_insert_right list.set_map list.simps(15) set_append sup_bot_right set_empty list.set(1))
    have "below_same (w_next (rg_world r1)) (rg_world r1) (rg_world r') \<and> w_next (rg_world r1) \<le> w_next (rg_world r')
      \<and> (\<forall>built'. res = Inr built' \<longrightarrow> (\<forall>i \<in> lease_set built'. \<not> lease_active (rg_leases r' ! i)))"
    proof (rule Cons.IH [OF step])
      show "lease_set ?built \<subseteq> {..< length (rg_leases r1)}" using built1(1) ok Inr by (simp add: upd)
      show "\<forall>i \<in> lease_set ?built. \<not> lease_active (rg_leases r1 ! i)" using built1(2) f Inr by (simp add: upd)
      show "fst ` set ?built \<inter> gc_ID ` set cs = {}" using Cons.prems(5,6) unfolding keys by auto
    qed (use Cons.prems ok in auto)
    with f below_same_trans show ?thesis by (meson order_trans)
  qed
qed

lemma buildSnapshot_frame:
  assumes "buildSnapshot ev d config revision previous current now r = (res, r')" and "registry_reachable r"
  shows "below_same (w_next (rg_world r)) (rg_world r) (rg_world r') \<and> w_next (rg_world r) \<le> w_next (rg_world r')
    \<and> (\<forall>s. res = Inr s \<longrightarrow> (\<forall>i \<in> lease_set (ss_clusters s). \<not> lease_active (rg_leases r' ! i)))"
proof (cases "normalizeConfig (ev_parse ev) d config")
  case (Inl err)
  with assms show ?thesis by (auto simp: buildSnapshot_def)
next
  case (Inr n)
  then obtain g where "config = Some g" by (cases config) (simp_all add: normalizeConfig_def)
  with Inr normalizeConfig_result have "gateway_valid (ev_parse ev) n" by blast
  then have dis: "distinct (map gc_ID (gg_Clusters n))" by (simp add: gateway_valid_def)
  obtain res1 r1 where b: "build_clusters ev (case current of None \<Rightarrow> [] | Some s \<Rightarrow> ss_clusters s) now (gg_Clusters n) [] r
      = (res1, r1)" by fastforce
  have "below_same (w_next (rg_world r)) (rg_world r) (rg_world r1) \<and> w_next (rg_world r) \<le> w_next (rg_world r1)
    \<and> (\<forall>built'. res1 = Inr built' \<longrightarrow> (\<forall>i \<in> lease_set built'. \<not> lease_active (rg_leases r1 ! i)))"
    by (rule build_clusters_frame [OF b]) (use assms(2) dis in \<open>simp_all add: lease_set_def\<close>)
  with assms(1) b Inr show ?thesis by (cases res1) (auto simp: buildSnapshot_def)
qed

end
