(* ===== verification/Engine_Theorems.thy ===== *)
theory Engine_Theorems
  imports Engine_Facts Build_Frame
begin

text \<open>
  The properties of the engine.
\<close>

section \<open>An example engine\<close>

definition demo_env :: env where
  "demo_env = \<lparr>ev_parse = simple_parse, ev_EscapedPath = u_Path, ev_PathUnescape = Some, ev_Cookie = (\<lambda>r n. None),
     ev_dial = (\<lambda>a. True), ev_get = (\<lambda>u. Some 200), ev_tls = (\<lambda>t. None), ev_warmDone = (\<lambda>c. False),
     ev_opDone = False, ev_hash = (\<lambda>g. gg_APIVersion g)\<rparr>"

lemma demo_clusters:
  obtains c where "gg_Clusters demo_normal = [c]" "\<not> ghc_Enabled (gc_Health c)" "gc_Strategy c = ''round_robin''"
    "gtc_Protocol (gc_Transport c) = ''auto''"
    "map endpoint_spec (gc_Endpoints c) = [\<lparr>spec_ID = ''a'', spec_URL = ''http://a'', spec_Weight = 1, spec_Disabled = False\<rparr>]"
proof -
  have "case gg_Clusters demo_normal of [c] \<Rightarrow> \<not> ghc_Enabled (gc_Health c) \<and> gc_Strategy c = ''round_robin''
      \<and> gtc_Protocol (gc_Transport c) = ''auto'' \<and> map endpoint_spec (gc_Endpoints c) =
        [\<lparr>spec_ID = ''a'', spec_URL = ''http://a'', spec_Weight = 1, spec_Disabled = False\<rparr>] | _ \<Rightarrow> False"
    by code_simp
  then show ?thesis using that by (auto split: list.splits)
qed

text \<open>The example builds in every state, whatever snapshot is current.\<close>

lemma demo_builds:
  assumes "normalizeConfig simple_parse demo_defaults config = Inr demo_normal"
  shows "\<exists>s r'. buildSnapshot demo_env demo_defaults config revision previous current now r = (Inr s, r')"
proof -
  obtain c where c: "gg_Clusters demo_normal = [c]" "\<not> ghc_Enabled (gc_Health c)" "gc_Strategy c = ''round_robin''"
    "gtc_Protocol (gc_Transport c) = ''auto''"
    "map endpoint_spec (gc_Endpoints c) = [\<lparr>spec_ID = ''a'', spec_URL = ''http://a'', spec_Weight = 1, spec_Disabled = False\<rparr>]"
    by (rule demo_clusters)
  have "\<exists>k r'. buildCluster demo_env c prev now r = (Inr k, r')" for prev
    using c by (simp add: buildCluster_def build_reserved_def NewBackendPool_def spec_error_def simple_parse_def
        simple_url_def HasPrefix_def clusterTransport_def clusterStrategy_def demo_env_def Let_def)
  then obtain k r' where "buildCluster demo_env c (map_of (case current of None \<Rightarrow> [] | Some s \<Rightarrow> ss_clusters s) (gc_ID c))
      now r = (Inr k, r')" by blast
  with assms c show ?thesis by (simp add: buildSnapshot_def demo_env_def Let_def)
qed

definition demo_engine :: Engine where
  "demo_engine = (case New demo_env (Some demo_gateway) demo_defaults 0 empty_world of Inr e \<Rightarrow> e)"

lemma demo_engine_new: "New demo_env (Some demo_gateway) demo_defaults 0 empty_world = Inr demo_engine"
proof -
  have "\<exists>e. New demo_env (Some demo_gateway) demo_defaults 0 empty_world = Inr e"
    using demo_builds [OF demo_normalized, of 1 0 None 0 "NewBackendStateRegistry empty_world"]
    by (auto simp: New_def demo_env_def)
  then show ?thesis by (auto simp: demo_engine_def)
qed

lemma demo_reachable: "engine_reachable simple_parse demo_engine"
  using engine_reachable.new [OF demo_engine_new] by (simp add: demo_env_def)

lemma demo_fields:
  "en_closed demo_engine = False" "en_nextRevision demo_engine = 1" "en_current demo_engine = Some 0"
  "length (en_snapshots demo_engine) = 1" "ss_refs (en_snapshots demo_engine ! 0) = 0" "en_defaults demo_engine = demo_defaults"
  "ss_config (en_snapshots demo_engine ! 0) = demo_normal" "ss_revision (en_snapshots demo_engine ! 0) = 1"
proof -
  obtain s r where b: "buildSnapshot demo_env demo_defaults (Some demo_gateway) 1 0 None 0 (NewBackendStateRegistry empty_world)
      = (Inr s, r)"
    using demo_builds [OF demo_normalized, of 1 0 None 0 "NewBackendStateRegistry empty_world"] by blast
  note ok = buildSnapshot_ok [OF registry_reachable.init b]
  have parse: "ev_parse demo_env = simple_parse" by (simp add: demo_env_def)
  have s: "ss_refs s = 0" "ss_revision s = 1" "ss_config s = demo_normal" using ok demo_normalized by (simp_all add: parse)
  have e: "demo_engine = install s 0 \<lparr>en_defaults = demo_defaults, en_states = r, en_snapshots = [],
     en_current = None, en_closed = False, en_nextRevision = 1, en_history = Map.empty, en_order = [], en_lastError = [],
     en_stats = zero_stats\<rparr>"
    using demo_engine_new b by (simp add: New_def demo_env_def)
  have "en_nextRevision (install s 0 e0) = ss_revision s" for e0
    by (simp add: install_def remember_def count_success_def Let_def split_def)
  with s show "en_closed demo_engine = False" "en_nextRevision demo_engine = 1" "en_current demo_engine = Some 0"
    "length (en_snapshots demo_engine) = 1" "ss_refs (en_snapshots demo_engine ! 0) = 0" "en_defaults demo_engine = demo_defaults"
    "ss_config (en_snapshots demo_engine ! 0) = demo_normal" "ss_revision (en_snapshots demo_engine ! 0) = 1"
    by (simp_all add: e)
qed

section \<open>History and revisions\<close>

text \<open>The history of an engine in every reachable state: its order lists consecutive revisions without
  repetition, at most a hundred, ending in the latest one, even when the 64-bit revision wraps around;
  exactly these revisions can be rolled back to; and the current snapshot carries the latest revision,
  whose remembered configuration is the one it runs, within the configured limit. An engine has no
  current snapshot exactly when it is closed.\<close>

theorem engine_history_invariant:
  assumes "engine_reachable parse e"
  shows "distinct (en_order e) \<and> dom (en_history e) = set (en_order e)
    \<and> 1 \<le> length (en_order e) \<and> length (en_order e) \<le> 100
    \<and> en_order e = last_revisions (en_nextRevision e) (length (en_order e))
    \<and> (case current_snapshot e of
         None \<Rightarrow> en_closed e
       | Some s \<Rightarrow> \<not> en_closed e \<and> ss_revision s = en_nextRevision e
           \<and> en_history e (ss_revision s) = Some (ss_config s)
           \<and> int (length (en_order e)) \<le> gg_HistoryLimit (ss_config s))"
proof -
  from engine_reachable_ok [OF assms] have h: "history_ok parse e" and l: "life_ok e" by (simp_all add: engine_ok_def)
  from h obtain n where n: "0 < n" "n \<le> 100" "en_order e = last_revisions (en_nextRevision e) n"
    by (auto simp: history_ok_def)
  have "distinct (en_order e)" unfolding n(3) by (rule last_revisions_distinct) (use n in simp)
  moreover have "case current_snapshot e of
         None \<Rightarrow> en_closed e
       | Some s \<Rightarrow> \<not> en_closed e \<and> ss_revision s = en_nextRevision e
           \<and> en_history e (ss_revision s) = Some (ss_config s)
           \<and> int (length (en_order e)) \<le> gg_HistoryLimit (ss_config s)"
    using h l by (cases "en_current e") (auto simp: history_ok_def life_ok_def current_snapshot_def)
  ultimately show ?thesis using n h by (simp add: history_ok_def)
qed

theorem engine_history_invariant_witness:
  "en_history demo_engine 1 = Some demo_normal \<and> distinct (en_order demo_engine)"
  using engine_history_invariant [OF demo_reachable] by (simp add: current_snapshot_def demo_fields)

text \<open>The abstract view: a log of configurations, newest first, the \<open>k\<close>-th belonging to the revision \<open>k\<close>
  before the latest.\<close>

record version_store =
  vs_closed :: bool
  vs_revision :: uint64
  vs_log :: "GatewayConfig list"

definition vs_publish :: "int \<Rightarrow> GatewayConfig \<Rightarrow> version_store \<Rightarrow> version_store" where
  "vs_publish limit g v = v\<lparr>vs_revision := vs_revision v + 1, vs_log := take (nat limit) (g # vs_log v)\<rparr>"

definition vs_lookup :: "uint64 \<Rightarrow> version_store \<Rightarrow> GatewayConfig option" where
  "vs_lookup revision v =
     (let k = unat (vs_revision v - revision) in if k < length (vs_log v) then Some (vs_log v ! k) else None)"

definition engine_abs :: "Engine \<Rightarrow> version_store" where
  "engine_abs e = \<lparr>vs_closed = en_closed e, vs_revision = en_nextRevision e,
     vs_log = map (\<lambda>r. the (en_history e r)) (rev (en_order e))\<rparr>"

definition history_limit :: "Defaults \<Rightarrow> GatewayConfig \<Rightarrow> int" where
  "history_limit d g =
     (if d_HistoryLimit d > 0 then min (gg_HistoryLimit g) (d_HistoryLimit d) else gg_HistoryLimit g)"

lemma lookup_abs:
  assumes "history_ok parse e"
  shows "en_history e revision = vs_lookup revision (engine_abs e)"
proof -
  let ?k = "unat (en_nextRevision e - revision)"
  obtain n where n: "n \<le> 100" "en_order e = last_revisions (en_nextRevision e) n" "dom (en_history e) = set (en_order e)"
    using assms by (auto simp: history_ok_def)
  have log: "vs_log (engine_abs e) = map (\<lambda>k. the (en_history e (en_nextRevision e - of_nat k))) [0 ..< n]"
    by (simp add: engine_abs_def n(2) last_revisions_def comp_def)
  have rev: "en_nextRevision e - of_nat ?k = revision" by simp
  have "revision \<in> set (en_order e) \<longleftrightarrow> ?k < n"
  proof
    assume "revision \<in> set (en_order e)"
    then obtain k where k: "k < n" "revision = en_nextRevision e - of_nat k" by (auto simp: n(2) last_revisions_def)
    then have "?k = k" using n(1) by (simp add: unat_of_nat)
    with k show "?k < n" by simp
  next
    assume "?k < n"
    then show "revision \<in> set (en_order e)" unfolding n(2) last_revisions_def using rev by force
  qed
  then have dom: "revision \<in> dom (en_history e) \<longleftrightarrow> ?k < n" unfolding n(3) .
  have look: "vs_lookup revision (engine_abs e) = (if ?k < n then Some (the (en_history e revision)) else None)"
    unfolding vs_lookup_def Let_def log using rev by (simp add: engine_abs_def)
  show ?thesis unfolding look using dom by (auto simp: domIff)
qed

lemma take_diff: "take (length ys - (length ys - m)) ys = take m ys"
  by (cases "m \<le> length ys") simp_all

lemma install_abs:
  assumes hist: "history_ok parse e" and rev: "ss_revision s = en_nextRevision e + 1"
    and norm: "normal parse (en_defaults e) (ss_config s)"
  shows "engine_abs (install s now (e\<lparr>en_states := r\<rparr>)) =
    vs_publish (history_limit (en_defaults e) (ss_config s)) (ss_config s) (engine_abs e)"
proof -
  let ?g = "ss_config s" and ?limit = "history_limit (en_defaults e) (ss_config s)"
  let ?xs = "en_order e @ [ss_revision s]" and ?h = "(en_history e)(ss_revision s \<mapsto> ?g)"
  let ?m = "length ?xs - nat ?limit"
  let ?e1 = "e\<lparr>en_states := snapshot_activate now s r, en_nextRevision := ss_revision s, en_lastError := [],
    en_snapshots := en_snapshots e @ [s], en_current := Some (length (en_snapshots e))\<rparr>"
  have lim: "1 \<le> ?limit" using norm by (auto simp: normal_def gateway_valid_def history_limit_def)
  have rem: "remember s ?e1 = ?e1\<lparr>en_order := drop ?m ?xs, en_history := ?h |` (- set (take ?m ?xs))\<rparr>"
    by (rule remember_alt) (use lim norm in \<open>simp_all add: history_limit_def normal_def\<close>)
  obtain n where n: "n \<le> 100" "en_order e = last_revisions (en_nextRevision e) n" using hist by (auto simp: history_ok_def)
  have xs: "?xs = last_revisions (ss_revision s) (Suc n)"
    using last_revisions_Suc [of "en_nextRevision e" n] n rev by simp
  have dis: "distinct ?xs" unfolding xs by (rule last_revisions_distinct) (use n in simp)
  have kept: "rev (drop ?m ?xs) = take (nat ?limit) (ss_revision s # rev (en_order e))"
    using take_diff [of "ss_revision s # rev (en_order e)" "nat ?limit"]
    by (simp only: rev_drop rev_append rev.simps append_Nil append_Cons) simp
  have "map (\<lambda>r. the ((?h |` (- set (take ?m ?xs))) r)) (rev (drop ?m ?xs)) = map (\<lambda>r. the (?h r)) (rev (drop ?m ?xs))"
    using set_drop_distinct [OF dis, of ?m] by (intro map_cong) (auto simp: restrict_map_def)
  moreover have "map (\<lambda>r. the (?h r)) (ss_revision s # rev (en_order e)) = ?g # map (\<lambda>r. the (en_history e r)) (rev (en_order e))"
    using dis by auto
  ultimately have log: "map (\<lambda>r. the ((?h |` (- set (take ?m ?xs))) r)) (rev (drop ?m ?xs)) =
    take (nat ?limit) (?g # map (\<lambda>r. the (en_history e r)) (rev (en_order e)))" by (simp only: kept take_map [symmetric])
  from rem have "install s now (e\<lparr>en_states := r\<rparr>) =
      count_success (?e1\<lparr>en_order := drop ?m ?xs, en_history := ?h |` (- set (take ?m ?xs))\<rparr>)"
    by (simp add: install_def)
  then show ?thesis
    unfolding engine_abs_def vs_publish_def using log rev
    by (simp add: count_success_simps) (simp add: count_success_def)
qed

text \<open>The three outcomes of a configuration change.\<close>

definition refused :: "Engine \<Rightarrow> engine_error \<Rightarrow> Engine \<Rightarrow> bool" where
  "refused e err e' \<longleftrightarrow>
     (en_closed e \<and> err = ErrClosed \<and> e' = e)
     \<or> (\<exists>msg r. \<not> en_closed e \<and> err = EngineError msg \<and> e' = apply_failed msg (e\<lparr>en_states := r\<rparr>)
          \<and> open_leases r = open_leases (en_states e)
          \<and> below_same (w_next (rg_world (en_states e))) (rg_world (en_states e)) (rg_world r))"

definition installed :: "url_parser \<Rightarrow> GatewayConfig option \<Rightarrow> Engine \<Rightarrow> Engine \<Rightarrow> bool" where
  "installed parse config e e' \<longleftrightarrow>
     \<not> en_closed e \<and> en_closed e' = en_closed e \<and> en_nextRevision e' = en_nextRevision e + 1
     \<and> en_defaults e' = en_defaults e
     \<and> (\<exists>s. current_snapshot e' = Some s \<and> normalizeConfig parse (en_defaults e) config = Inr (ss_config s)
          \<and> ss_revision s = en_nextRevision e + 1
          \<and> engine_abs e' = vs_publish (history_limit (en_defaults e) (ss_config s)) (ss_config s) (engine_abs e))"

lemma applyLocked_outcome:
  assumes ok: "engine_ok parse e" and "ev_parse ev = parse" and ap: "applyLocked ev config now e = (res, e')"
  shows "case res of Some err \<Rightarrow> refused e err e' | None \<Rightarrow> installed parse config e e'"
proof (cases "en_closed e")
  case True
  with ap show ?thesis by (auto simp: applyLocked_def refused_def)
next
  case open_e: False
  have leases: "leases_ok e" and hist: "history_ok parse e" and life: "life_ok e" using ok by (simp_all add: engine_ok_def)
  obtain i where cur: "en_current e = Some i" "i < length (en_snapshots e)"
    using life open_e by (cases "en_current e") (simp_all add: life_ok_def)
  let ?prev = "case current_snapshot e of None \<Rightarrow> 0 | Some s \<Rightarrow> ss_revision s"
  obtain out r where b: "buildSnapshot ev (en_defaults e) config (en_nextRevision e + 1) ?prev (current_snapshot e) now
      (en_states e) = (out, r)" by fastforce
  note built = buildSnapshot_ok [OF leases_ok_reach [OF leases] b]
    and frame = buildSnapshot_frame [OF b leases_ok_reach [OF leases]]
  show ?thesis
  proof (cases out)
    case (Inl err)
    with ap b open_e have "res = Some (EngineError err)" "e' = apply_failed err (e\<lparr>en_states := r\<rparr>)"
      by (auto simp: applyLocked_def Let_def)
    with built frame Inl open_e show ?thesis by (auto simp: refused_def)
  next
    case (Inr s)
    show ?thesis
    proof (cases "ev_opDone ev")
      case True
      with ap b Inr open_e have "res = Some (EngineError ''context canceled'')"
        "e' = apply_failed ''context canceled'' (e\<lparr>en_states := snd (snapshot_close s r)\<rparr>)"
        by (auto simp: applyLocked_def Let_def)
      moreover have "rg_world (snd (snapshot_close s r)) = rg_world r"
      proof -
        have "lease_set (ss_clusters s) \<subseteq> {..< length (rg_leases r)}" using built Inr by auto
        from close_clusters_inactive [OF this] frame Inr show ?thesis by (simp add: snapshot_close_def)
      qed
      ultimately show ?thesis using closed_build [OF leases b [unfolded Inr]] frame open_e by (auto simp: refused_def)
    next
      case False
      let ?e1 = "install s now (e\<lparr>en_states := r\<rparr>)"
      have s: "snapshot_ok parse (en_defaults e) s" "ss_revision s = en_nextRevision e + 1" "\<not> ss_closed s"
        "normalizeConfig parse (en_defaults e) config = Inr (ss_config s)"
        using built Inr assms(2) by simp_all
      from False ap b Inr open_e cur have eq: "res = None" "e' = retire_at i ?e1"
        by (auto simp: applyLocked_def Let_def)
      have leases1: "leases_ok ?e1" using built Inr s(3) by (intro install_leases [OF leases]) simp_all
      have at: "i < length (en_snapshots ?e1)" "\<not> ss_closed (en_snapshots ?e1 ! i)"
        using cur life by (auto simp: nth_append life_ok_def Let_def)
      note f = retire_at_fields [OF leases1 at]
      have "engine_abs e' = engine_abs ?e1" by (simp add: eq engine_abs_def f)
      moreover have "current_snapshot e' = Some s" using cur by (simp add: eq current_snapshot_def f)
      moreover have "en_nextRevision ?e1 = ss_revision s"
        by (simp add: install_def remember_def count_success_def Let_def split_def)
      ultimately show ?thesis
        using install_abs [OF hist s(2), of now r] s open_e
        by (simp add: eq(1) installed_def f(2,3,6) eq(2) snapshot_ok_def)
    qed
  qed
qed

lemma refused_abs: "refused e err e' \<Longrightarrow> engine_abs e' = engine_abs e"
  by (auto simp: refused_def engine_abs_def apply_failed_def)

lemma same_abs: "engine_same e e' \<Longrightarrow> engine_abs e' = engine_abs e"
  by (simp add: engine_same_def engine_abs_def)

lemma Engine_Config_abs:
  assumes ok: "engine_ok parse e"
  shows "Engine_Config e = (if vs_closed (engine_abs e) then None else Some (hd (vs_log (engine_abs e))))"
proof (cases "current_snapshot e")
  case None
  then have "en_closed e" using ok by (auto simp: current_snapshot_def life_ok_def engine_ok_def)
  with None show ?thesis by (simp add: Engine_Config_def engine_abs_def)
next
  case (Some s)
  then have s: "s \<in> set (en_snapshots e)" "\<not> en_closed e"
    using ok by (auto simp: current_snapshot_def life_ok_def engine_ok_def)
  then have clone: "cloneConfig (ss_config s) = ss_config s" using ok by (simp add: engine_ok_def snapshot_ok_def normal_def)
  obtain n where n: "0 < n" "en_order e = last_revisions (en_nextRevision e) n" using ok by (auto simp: history_ok_def engine_ok_def)
  then have "rev (en_order e) = en_nextRevision e # tl (rev (en_order e))"
    by (simp add: last_revisions_def upt_conv_Cons)
  then have "hd (vs_log (engine_abs e)) = the (en_history e (en_nextRevision e))"
    by (metis engine_abs_def list.sel(1) list.simps(9) version_store.select_convs(3))
  with Some s clone ok show ?thesis by (auto simp: Engine_Config_def engine_abs_def history_ok_def engine_ok_def)
qed

lemma applyLocked_abs:
  assumes "engine_ok parse e" and "ev_parse ev = parse"
  shows "case applyLocked ev config now e of
      (Some err, e') \<Rightarrow> engine_abs e' = engine_abs e
    | (None, e') \<Rightarrow> \<exists>n. normalizeConfig parse (en_defaults e) config = Inr n
        \<and> engine_abs e' = vs_publish (history_limit (en_defaults e) n) n (engine_abs e)"
proof -
  obtain res e' where ap: "applyLocked ev config now e = (res, e')" by fastforce
  from applyLocked_outcome [OF assms ap] show ?thesis
    by (auto simp: ap installed_def split: option.splits dest: refused_abs)
qed

lemma Rollback_abs:
  assumes ok: "engine_ok parse e" and "ev_parse ev = parse"
  shows "case Rollback ev revision now e of
      (Some err, e') \<Rightarrow> engine_abs e' = engine_abs e
    | (None, e') \<Rightarrow> \<exists>g. vs_lookup revision (engine_abs e) = Some g
        \<and> engine_abs e' = vs_publish (history_limit (en_defaults e) g) g (engine_abs e)"
proof (cases "en_closed e \<or> en_history e revision = None")
  case True
  then show ?thesis by (auto simp: Rollback_def rollbackLocked_def split: option.splits)
next
  case False
  have hist: "history_ok parse e" using ok by (simp add: engine_ok_def)
  from False obtain g where g: "en_history e revision = Some g" by auto
  then have "normal parse (en_defaults e) g" using hist by (auto simp: history_ok_def)
  with applyLocked_abs [OF assms, of "Some (cloneConfig g)" now] g False lookup_abs [OF hist, of revision] show ?thesis
    by (auto simp: Rollback_def rollbackLocked_def normal_def split: prod.splits option.splits)
qed

lemma Engine_Close_abs: "engine_abs (Engine_Close e) = (engine_abs e)\<lparr>vs_closed := True\<rparr>"
  by (auto simp: Engine_Close_def engine_abs_def retire_at_def split_def Let_def split: option.split)

text \<open>C5. The engine refines a bounded, append-only log of configurations. In every reachable state the
  history is exactly the log seen through its revisions, and the configuration the engine reports is
  the newest entry; applying a configuration publishes its normal form and drops what exceeds the
  limit, or fails and publishes nothing; rolling back publishes the logged configuration again; and
  serving requests, administering endpoints and closing leave the log alone.\<close>

theorem engine_refines_version_log:
  assumes "engine_reachable parse e" and "ev_parse ev = parse"
  shows "en_history e revision = vs_lookup revision (engine_abs e)
    \<and> Engine_Config e = (if vs_closed (engine_abs e) then None else Some (hd (vs_log (engine_abs e))))
    \<and> (case Apply ev config now e of
         (Some err, e') \<Rightarrow> engine_abs e' = engine_abs e
       | (None, e') \<Rightarrow> \<exists>n. normalizeConfig parse (en_defaults e) config = Inr n
           \<and> engine_abs e' = vs_publish (history_limit (en_defaults e) n) n (engine_abs e))
    \<and> (case Rollback ev revision now e of
         (Some err, e') \<Rightarrow> engine_abs e' = engine_abs e
       | (None, e') \<Rightarrow> \<exists>g. vs_lookup revision (engine_abs e) = Some g
           \<and> engine_abs e' = vs_publish (history_limit (en_defaults e) g) g (engine_abs e))
    \<and> (\<forall>reply e'. ServeHTTP ev base readFails request now e = Some (reply, e') \<longrightarrow> engine_abs e' = engine_abs e)
    \<and> engine_abs (snd (SetEndpoint cid endpointID enabled e)) = engine_abs e
    \<and> engine_abs (snd (DrainEndpoint cid endpointID e)) = engine_abs e
    \<and> engine_abs (Engine_Close e) = (engine_abs e)\<lparr>vs_closed := True\<rparr>"
proof -
  note ok = engine_reachable_ok [OF assms(1)]
  then have hist: "history_ok parse e" by (simp add: engine_ok_def)
  show ?thesis
    using lookup_abs [OF hist] Engine_Config_abs [OF ok] applyLocked_abs [OF ok assms(2)] Rollback_abs [OF ok assms(2)]
      Engine_Close_abs same_abs [OF ServeHTTP_same] same_abs [OF endpoint_op_same]
    by (simp add: SetEndpoint_def DrainEndpoint_def Apply_def)
qed

lemma demo_apply:
  assumes "normalizeConfig simple_parse demo_defaults config = Inr demo_normal"
  shows "fst (applyLocked demo_env config now demo_engine) = None"
  using demo_builds [OF assms, of 2 1 "Some (en_snapshots demo_engine ! 0)" now "en_states demo_engine"]
  by (auto simp: applyLocked_def demo_fields current_snapshot_def demo_env_def Let_def)

theorem engine_refines_version_log_witness:
  "engine_abs (snd (Apply demo_env (Some demo_gateway) 5 demo_engine)) =
     vs_publish (history_limit demo_defaults demo_normal) demo_normal (engine_abs demo_engine)
   \<and> Engine_Config demo_engine = Some (hd (vs_log (engine_abs demo_engine)))"
proof -
  have parse: "ev_parse demo_env = simple_parse" by (simp add: demo_env_def)
  obtain e' where ap: "Apply demo_env (Some demo_gateway) 5 demo_engine = (None, e')"
    using demo_apply [OF demo_normalized, of 5] by (metis Apply_def prod.collapse)
  show ?thesis
    using engine_refines_version_log [OF demo_reachable parse, of 1 "Some demo_gateway" 5] demo_normalized ap
    by (simp add: demo_fields engine_abs_def)
qed

section \<open>Concurrent writers\<close>

text \<open>C8. Optimistic concurrency. A conditional change succeeds only against the current revision, and then the
  revision moves on; so of several writers that read the same revision only one can succeed: until
  the engine is closed, every later conditional change or rollback with the revision the winner used
  is refused as a conflict and changes nothing.\<close>

theorem conditional_apply_exclusive:
  assumes "engine_reachable parse e" and "ev_parse ev = parse"
    and "ApplyIfRevision ev config expected now e = (None, e') \<or> RollbackIfRevision ev target expected now e = (None, e')"
  shows "expected = en_nextRevision e \<and> expected \<noteq> 0 \<and> en_nextRevision e' = expected + 1
    \<and> ApplyIfRevision ev2 config2 expected now2 e' = (Some (ErrRevisionConflict expected (expected + 1)), e')
    \<and> RollbackIfRevision ev2 target2 expected now2 e' = (Some (ErrRevisionConflict expected (expected + 1)), e')"
proof -
  note ok = engine_reachable_ok [OF assms(1)]
  from assms(3) obtain c where conf: "revision_conflict expected e = None" and ap: "applyLocked ev c now e = (None, e')"
    by (auto simp: ApplyIfRevision_def RollbackIfRevision_def rollbackLocked_def split: if_splits option.splits)
  from conf obtain s where s: "current_snapshot e = Some s" "expected \<noteq> 0" "ss_revision s = expected"
    by (auto simp: revision_conflict_def split: option.splits if_splits)
  then have rev: "expected = en_nextRevision e" using ok by (auto simp: engine_ok_def history_ok_def)
  have "installed parse c e e'" using applyLocked_outcome [OF ok assms(2) ap] by simp
  then obtain s' where e': "\<not> en_closed e'" "en_nextRevision e' = expected + 1" "current_snapshot e' = Some s'"
    "ss_revision s' = expected + 1"
    by (auto simp: installed_def rev)
  then have "revision_conflict expected e' = Some (ErrRevisionConflict expected (expected + 1))"
    by (simp add: revision_conflict_def)
  with rev s(2) e' show ?thesis by (simp add: ApplyIfRevision_def RollbackIfRevision_def)
qed

theorem conditional_apply_exclusive_witness:
  "\<exists>e'. ApplyIfRevision demo_env (Some demo_gateway) 1 5 demo_engine = (None, e')
     \<and> ApplyIfRevision demo_env (Some demo_gateway) 1 6 e' = (Some (ErrRevisionConflict 1 2), e')"
proof -
  have parse: "ev_parse demo_env = simple_parse" by (simp add: demo_env_def)
  obtain e' where "applyLocked demo_env (Some demo_gateway) 5 demo_engine = (None, e')"
    using demo_apply [OF demo_normalized, of 5] by (metis prod.collapse)
  then have ap: "ApplyIfRevision demo_env (Some demo_gateway) 1 5 demo_engine = (None, e')"
    by (simp add: ApplyIfRevision_def revision_conflict_def current_snapshot_def demo_fields)
  with conditional_apply_exclusive [OF demo_reachable parse disjI1 [OF ap], of demo_env "Some demo_gateway" 6]
  show ?thesis by simp
qed

section \<open>Leases\<close>



section \<open>Failed changes\<close>

text \<open>C6. A configuration change that fails is atomic. Whatever the reason (an invalid configuration, an endpoint
  that cannot be parsed, TLS files that cannot be loaded, a warm-up without a healthy endpoint or a
  cancelled operation), the current snapshot and all others, the revision, the history and the open
  leases are what they were, and no backend, backend state or pool that existed is touched: the
  requests in flight and the health of running backends are not disturbed. Only the error and the
  failure counter record the attempt.\<close>

theorem apply_failure_atomic:
  assumes "engine_reachable parse e" and "ev_parse ev = parse" and "Apply ev config now e = (Some err, e')"
  shows "en_snapshots e' = en_snapshots e \<and> en_current e' = en_current e \<and> en_closed e' = en_closed e
    \<and> en_nextRevision e' = en_nextRevision e \<and> en_history e' = en_history e \<and> en_order e' = en_order e
    \<and> open_leases (en_states e') = open_leases (en_states e)
    \<and> below_same (w_next (rg_world (en_states e))) (rg_world (en_states e)) (rg_world (en_states e'))
    \<and> (if en_closed e then err = ErrClosed \<and> e' = e
       else err = EngineError (en_lastError e')
         \<and> en_stats e' = (en_stats e)\<lparr>es_applyFailures := es_applyFailures (en_stats e) + 1\<rparr>)"
proof -
  have "refused e err e'"
    using applyLocked_outcome [OF engine_reachable_ok [OF assms(1)] assms(2) assms(3) [unfolded Apply_def]] by simp
  then show ?thesis by (auto simp: refused_def apply_failed_def)
qed

theorem apply_failure_atomic_witness:
  "\<exists>err e'. Apply demo_env (Some (demo_gateway\<lparr>gg_Routes := []\<rparr>)) 5 demo_engine = (Some err, e')
     \<and> en_current e' = Some 0 \<and> en_nextRevision e' = 1 \<and> es_applyFailures (en_stats e') = es_applyFailures (en_stats demo_engine) + 1
     \<and> below_same (w_next (rg_world (en_states demo_engine))) (rg_world (en_states demo_engine)) (rg_world (en_states e'))"
proof -
  have parse: "ev_parse demo_env = simple_parse" by (simp add: demo_env_def)
  let ?g = "demo_gateway\<lparr>gg_Routes := []\<rparr>"
  have "case normalizeConfig simple_parse demo_defaults (Some ?g) of Inl err \<Rightarrow> True | Inr n \<Rightarrow> False" by code_simp
  then obtain msg where "normalizeConfig simple_parse demo_defaults (Some ?g) = Inl msg" by (auto split: sum.splits)
  then obtain e' where ap: "Apply demo_env (Some ?g) 5 demo_engine = (Some (EngineError msg), e')"
    by (simp add: Apply_def applyLocked_def buildSnapshot_def demo_fields parse)
  from apply_failure_atomic [OF demo_reachable parse ap] demo_fields ap show ?thesis by simp
qed

section \<open>Requests\<close>

text \<open>A request that a route takes always finds a cluster. In every reachable state of an engine that is not
  closed, a request without a listener of its own gets the default listener, and whatever route is
  selected, at whatever position of its weighted round, the cluster it names is one of the snapshot's,
  unless the route redirects: the branch of \<open>ServeHTTP\<close> for a missing cluster is never taken.\<close>

theorem selected_route_has_cluster:
  assumes "engine_reachable parse e" and "en_current e = Some i" and "s = en_snapshots e ! i"
  shows "validateListener s [] \<noteq> None
    \<and> (\<forall>listenerID listener request j route.
         select_route s listenerID listener request = Some (j, route) \<and> redirect route request = None
         \<and> (\<Sum>t \<leftarrow> ga_WeightedClusters (gr_Action (cr_config route)). gw_Weight t) < 2 ^ 64
         \<longrightarrow> (\<exists>k. map_of (ss_clusters s) (fst (clusterID route)) = Some k))"
proof -
  note ok = engine_reachable_ok [OF assms(1)]
  then have "snapshot_ok parse (en_defaults e) s" using assms(2,3) by (simp add: engine_ok_def life_ok_def)
  then have cl: "map fst (ss_clusters s) = map gc_ID (gg_Clusters (ss_config s))"
    and ro: "cr_config ` set (ss_routes s) = set (gg_Routes (ss_config s))"
    and ls: "ss_listeners s = map (\<lambda>l. (gl_ID l, l)) (gg_Listeners (ss_config s))"
      "ss_defaultListener s \<in> gl_ID ` set (gg_Listeners (ss_config s))"
    and valid: "gateway_valid parse (ss_config s)"
    by (simp_all add: snapshot_ok_def normal_def)
  from ls have "ss_defaultListener s \<in> fst ` set (ss_listeners s)" by (simp add: image_image)
  then have "map_of (ss_listeners s) (ss_defaultListener s) \<noteq> None" by (simp only: map_of_eq_None_iff) simp
  then have listener: "validateListener s [] \<noteq> None" by (simp add: validateListener_def)
  have "\<exists>k. map_of (ss_clusters s) (fst (clusterID route)) = Some k"
    if sel: "select_route s listenerID listener request = Some (j, route)" and "redirect route request = None"
      and sum: "(\<Sum>t \<leftarrow> ga_WeightedClusters (gr_Action (cr_config route)). gw_Weight t) < 2 ^ 64"
    for listenerID listener request j route
  proof -
    from sel have "j < length (ss_routes s)" "ss_routes s ! j = route"
      using first_match_enumerate [of "\<lambda>r. matches r listenerID listener request" 0 "ss_routes s" j route]
      by (simp_all add: select_route_def)
    then have "cr_config route \<in> set (gg_Routes (ss_config s))" using ro by (metis image_eqI nth_mem)
    with valid have "route_resolves (map gl_ID (gg_Listeners (ss_config s))) (map gc_ID (gg_Clusters (ss_config s)))
        (cr_config route)"
      by (auto simp: gateway_valid_def route_valid_def list_all_iff)
    moreover have "ga_Redirect (gr_Action (cr_config route)) = None"
      using that(2) by (auto simp: redirect_def Let_def split: option.splits)
    ultimately have "fst (clusterID route) \<in> set (map fst (ss_clusters s))" unfolding cl using sum by (intro clusterID_in)
    then show ?thesis by (metis list.set_map map_of_eq_None_iff not_None_eq)
  qed
  with listener show ?thesis by blast
qed

theorem selected_route_has_cluster_witness:
  "validateListener (en_snapshots demo_engine ! 0) [] \<noteq> None"
  using selected_route_has_cluster [OF demo_reachable demo_fields(3) refl] by blast

end
