(* ===== verification/Client_IP.thy ===== *)
theory Client_IP
  imports Netip Proxy
begin

text \<open>
  Who the client is (\<open>internal/server/client_ip.go\<close>): the trusted proxies, the address and protocol a
  request is attributed to, and the handler that records them for the proxy. Reading and writing
  addresses and prefixes is \<open>net/netip\<close>'s and comes as the record \<open>netip_text\<close>.
\<close>

section \<open>Definitions\<close>

record netip_text =
  nt_ParseAddr :: "go_string \<Rightarrow> Addr option"
  nt_ParseAddrPort :: "go_string \<Rightarrow> (Addr \<times> int) option"
  nt_ParsePrefix :: "go_string \<Rightarrow> (Addr \<times> int) option"
  nt_String :: "Addr \<Rightarrow> go_string"

text \<open>A prefix; \<open>None\<close> is the invalid one, which contains nothing.\<close>

type_synonym netip_prefix = "(Addr \<times> int) option"

record clientIPResolver =
  ci_trusted :: "netip_prefix list"

text \<open>\<open>PrefixFrom(address, address.BitLen())\<close>: the prefix of one address, without its zone.\<close>

definition whole_prefix :: "Addr \<Rightarrow> netip_prefix" where
  "whole_prefix address = (case address of Addr4 a \<Rightarrow> Some (Addr4 a, 32) | Addr6 a zone \<Rightarrow> Some (Addr6 a [], 128))"

definition parsePrefix :: "netip_text \<Rightarrow> go_string \<Rightarrow> go_string + netip_prefix" where
  "parsePrefix N text =
     (case nt_ParsePrefix N text of
        Some (address, bits) \<Rightarrow> Inr (masked_prefix address bits)
      | None \<Rightarrow>
          (case nt_ParseAddr N text of
             None \<Rightarrow> Inl ''unable to parse IP''
           | Some address \<Rightarrow> Inr (whole_prefix address)))"

fun parse_proxies :: "netip_text \<Rightarrow> go_string list \<Rightarrow> netip_prefix list \<Rightarrow> go_string + netip_prefix list" where
  "parse_proxies N [] acc = Inr acc"
| "parse_proxies N (text # rest) acc =
     (case parsePrefix N text of
        Inl err \<Rightarrow> Inl (''invalid trusted proxy '' @ text)
      | Inr prefix \<Rightarrow> parse_proxies N rest (acc @ [prefix]))"

definition newClientIPResolver :: "netip_text \<Rightarrow> go_string list \<Rightarrow> go_string + clientIPResolver" where
  "newClientIPResolver N texts =
     (case parse_proxies N texts [] of Inl err \<Rightarrow> Inl err | Inr ps \<Rightarrow> Inr \<lparr>ci_trusted = ps\<rparr>)"

definition isTrusted :: "clientIPResolver \<Rightarrow> Addr \<Rightarrow> bool" where
  "isTrusted resolver address =
     (let address = Unmap address
      in list_ex (\<lambda>p. case p of None \<Rightarrow> False | Some q \<Rightarrow> prefix_Contains q address) (ci_trusted resolver))"

definition parseRemoteIP :: "netip_text \<Rightarrow> go_string \<Rightarrow> Addr option" where
  "parseRemoteIP N remote =
     (case nt_ParseAddrPort N remote of
        Some (address, port) \<Rightarrow> Some (Unmap address)
      | None \<Rightarrow>
          (let host = (case SplitHostPort remote of None \<Rightarrow> remote | Some (host, port) \<Rightarrow> host)
           in map_option Unmap (nt_ParseAddr N host)))"

text \<open>The loop over the parts of \<open>X-Forwarded-For\<close>, last part first.\<close>

fun scan_forwarded :: "netip_text \<Rightarrow> clientIPResolver \<Rightarrow> Addr \<Rightarrow> Addr \<Rightarrow> go_string list \<Rightarrow> go_string" where
  "scan_forwarded N resolver remoteIP candidate [] = nt_String N candidate"
| "scan_forwarded N resolver remoteIP candidate (part # parts) =
     (case nt_ParseAddr N (TrimSpace part) of
        None \<Rightarrow> nt_String N remoteIP
      | Some address \<Rightarrow>
          (let address = Unmap address
           in if \<not> isTrusted resolver address then nt_String N address
              else scan_forwarded N resolver remoteIP address parts))"

text \<open>The resolver is \<open>None\<close> before one is stored.\<close>

definition clientIP :: "netip_text \<Rightarrow> clientIPResolver option \<Rightarrow> go_string \<Rightarrow> http_header \<Rightarrow> go_string" where
  "clientIP N resolver remoteAddr header =
     (case parseRemoteIP N remoteAddr of
        None \<Rightarrow> remoteAddr
      | Some remoteIP \<Rightarrow>
          (case resolver of
             None \<Rightarrow> nt_String N remoteIP
           | Some resolver \<Rightarrow>
               if \<not> isTrusted resolver remoteIP then nt_String N remoteIP
               else (let forwarded = Header_Get header ''X-Forwarded-For''
                     in if forwarded \<noteq> [] then scan_forwarded N resolver remoteIP remoteIP (rev (Split forwarded (CHR '','')))
                        else (case nt_ParseAddr N (TrimSpace (Header_Get header ''X-Real-IP'')) of
                                Some realIP \<Rightarrow> nt_String N (Unmap realIP)
                              | None \<Rightarrow> nt_String N remoteIP))))"

definition clientProtocol :: "netip_text \<Rightarrow> clientIPResolver option \<Rightarrow> go_string \<Rightarrow> bool \<Rightarrow> http_header \<Rightarrow> go_string" where
  "clientProtocol N resolver remoteAddr tls header =
     (if tls then ''https''
      else case (parseRemoteIP N remoteAddr, resolver) of
             (Some remoteIP, Some resolver) \<Rightarrow>
               if \<not> isTrusted resolver remoteIP then ''http''
               else (let protocol = ToLower (TrimSpace (last (Split (Header_Get header ''X-Forwarded-Proto'') (CHR '',''))))
                     in if protocol = ''http'' \<or> protocol = ''https'' then protocol else ''http'')
           | _ \<Rightarrow> ''http'')"

text \<open>\<open>balancer.WithVerifiedClientIP\<close> and \<open>WithVerifiedForwardedProto\<close> put the values into the context of the
  request.\<close>

definition withVerifiedClientIP :: "netip_text \<Rightarrow> clientIPResolver option \<Rightarrow> go_string \<Rightarrow> request \<Rightarrow> request" where
  "withVerifiedClientIP N resolver remoteAddr request =
     request\<lparr>rq_clientIP := clientIP N resolver remoteAddr (rq_Header request),
             rq_forwardedProto := clientProtocol N resolver remoteAddr (rq_TLS request) (rq_Header request)\<rparr>"

text \<open>The trusted proxies and the health settings of \<open>UpdateRuntime\<close>: both replaced or neither.\<close>

definition UpdateRuntime ::
    "netip_text \<Rightarrow> go_string list \<Rightarrow> 'h \<Rightarrow> clientIPResolver option \<times> 'h \<Rightarrow> go_string option \<times> (clientIPResolver option \<times> 'h)" where
  "UpdateRuntime N trustedProxies health s =
     (case newClientIPResolver N trustedProxies of
        Inl err \<Rightarrow> (Some err, s)
      | Inr resolver \<Rightarrow> (None, (Some resolver, health)))"

section \<open>The forwarding chain\<close>

lemma Split_append: "Split (s @ sep # t) sep = Split s sep @ Split t sep"
proof (induction s)
  case (Cons c s)
  show ?case
  proof (cases "c = sep")
    case False
    obtain p ps where "Split s sep = p # ps" by (cases "Split s sep") simp_all
    with Cons.IH False show ?thesis by simp
  qed (use Cons.IH in simp)
qed simp

text \<open>A part at which the scan goes on: the address of a trusted proxy.\<close>

definition trusted_hop :: "netip_text \<Rightarrow> clientIPResolver \<Rightarrow> go_string \<Rightarrow> bool" where
  "trusted_hop N resolver part =
     (case nt_ParseAddr N (TrimSpace part) of None \<Rightarrow> False | Some a \<Rightarrow> isTrusted resolver (Unmap a))"

text \<open>The scan stops at the first part that does not pass, and what comes before it in the header is
  never read.\<close>

lemma scan_forwarded_stops:
  assumes "list_all (trusted_hop N resolver) hops" and "\<not> trusted_hop N resolver part"
  shows "scan_forwarded N resolver remoteIP candidate (hops @ part # rest) =
    (case nt_ParseAddr N (TrimSpace part) of None \<Rightarrow> nt_String N remoteIP | Some a \<Rightarrow> nt_String N (Unmap a))"
  using assms by (induction hops arbitrary: candidate) (auto simp: trusted_hop_def Let_def split: option.splits)

lemma scan_forwarded_all:
  assumes "list_all (trusted_hop N resolver) hops" and "hops \<noteq> []"
    and "nt_ParseAddr N (TrimSpace (last hops)) = Some a"
  shows "scan_forwarded N resolver remoteIP candidate hops = nt_String N (Unmap a)"
  using assms by (induction hops arbitrary: candidate) (auto simp: trusted_hop_def Let_def split: option.splits if_splits)

lemma clientIP_scan:
  assumes "parseRemoteIP N remote = Some r" and "isTrusted resolver r"
    and "Header_Get h ''X-Forwarded-For'' \<noteq> []"
  shows "clientIP N (Some resolver) remote h =
    scan_forwarded N resolver r r (rev (Split (Header_Get h ''X-Forwarded-For'') (CHR '','')))"
  using assms by (simp add: clientIP_def Let_def)

lemma scan_forwarded_rev:
  assumes "\<not> list_all (trusted_hop N resolver) tail"
  shows "scan_forwarded N resolver r c (rev (front @ tail)) = scan_forwarded N resolver r c' (rev (front' @ tail))"
proof -
  from assms obtain p where "p \<in> set (rev tail)" "\<not> trusted_hop N resolver p" by (auto simp: list_all_iff)
  then obtain hops part rest where tail: "rev tail = hops @ part # rest" "\<not> trusted_hop N resolver part"
      "list_all (trusted_hop N resolver) hops"
    using split_list_first_prop [of "rev tail" "\<lambda>p. \<not> trusted_hop N resolver p"] by (auto simp: list_all_iff)
  have "rev (f @ tail) = hops @ part # (rest @ rev f)" for f using tail(1) by simp
  then show ?thesis using scan_forwarded_stops [OF tail(3,2)] by simp
qed

text \<open>The result in every case of a trusted peer: the rightmost address that is no trusted proxy; the
  peer itself when a part before it cannot be read; the leftmost address when all are trusted.\<close>

lemma clientIP_rightmost:
  assumes "parseRemoteIP N remote = Some r" and "isTrusted resolver r"
    and "Split (Header_Get h ''X-Forwarded-For'') (CHR '','') = front @ part # hops"
    and "Header_Get h ''X-Forwarded-For'' \<noteq> []"
    and "list_all (trusted_hop N resolver) hops" and "\<not> trusted_hop N resolver part"
  shows "clientIP N (Some resolver) remote h =
    (case nt_ParseAddr N (TrimSpace part) of None \<Rightarrow> nt_String N r | Some a \<Rightarrow> nt_String N (Unmap a))"
  using assms scan_forwarded_stops [of N resolver "rev hops" part r r "rev front"]
  by (simp add: clientIP_scan list_all_rev)

lemma clientIP_untrusted:
  assumes "parseRemoteIP N remote = Some r" and "\<not> isTrusted resolver r"
  shows "clientIP N (Some resolver) remote h = nt_String N r"
    and "\<not> tls \<Longrightarrow> clientProtocol N (Some resolver) remote tls h = ''http''"
  using assms by (simp_all add: clientIP_def clientProtocol_def)

lemma clientIP_suffix:
  assumes "parseRemoteIP N remote = Some r" and "isTrusted resolver r"
    and "\<not> list_all (trusted_hop N resolver) (Split tail (CHR '',''))"
    and "Header_Get h ''X-Forwarded-For'' = front @ CHR '','' # tail"
    and "Header_Get h' ''X-Forwarded-For'' = front' @ CHR '','' # tail"
  shows "clientIP N (Some resolver) remote h = clientIP N (Some resolver) remote h'"
proof -
  have ne: "Header_Get h ''X-Forwarded-For'' \<noteq> []" "Header_Get h' ''X-Forwarded-For'' \<noteq> []"
    using assms(4,5) by simp_all
  have "Split (Header_Get h ''X-Forwarded-For'') (CHR '','') = Split front (CHR '','') @ Split tail (CHR '','')"
    "Split (Header_Get h' ''X-Forwarded-For'') (CHR '','') = Split front' (CHR '','') @ Split tail (CHR '','')"
    unfolding assms(4,5) by (rule Split_append)+
  then show ?thesis
    using scan_forwarded_rev [OF assms(3)] by (simp add: clientIP_scan [OF assms(1,2)] ne)
qed

section \<open>A small reader of addresses\<close>

text \<open>Enough of the textual forms for the examples: two proxies, a client and another host.\<close>

definition demo_hosts :: "(go_string \<times> Addr) list" where
  "demo_hosts = [(''10.0.0.1'', Addr4 0x0A000001), (''10.0.0.2'', Addr4 0x0A000002),
     (''198.51.100.9'', Addr4 0xC6336409), (''203.0.113.7'', Addr4 0xCB007107)]"

definition demo_netip :: netip_text where
  "demo_netip = \<lparr>nt_ParseAddr = map_of demo_hosts,
     nt_ParseAddrPort = (\<lambda>s. case SplitHostPort s of None \<Rightarrow> None
        | Some (host, port) \<Rightarrow> map_option (\<lambda>a. (a, 80)) (map_of demo_hosts host)),
     nt_ParsePrefix = (\<lambda>s. if s = ''10.0.0.0/8'' then Some (Addr4 0x0A000000, 8) else None),
     nt_String = (\<lambda>a. case map_of (map (\<lambda>(s, a). (a, s)) demo_hosts) a of None \<Rightarrow> ''?'' | Some s \<Rightarrow> s)\<rparr>"

definition demo_resolver :: clientIPResolver where
  "demo_resolver = \<lparr>ci_trusted = [Some (Addr4 0x0A000000, 8)]\<rparr>"

lemma demo_resolver_made: "newClientIPResolver demo_netip [''10.0.0.0/8''] = Inr demo_resolver"
  by code_simp

definition demo_chain :: "go_string \<Rightarrow> http_header" where
  "demo_chain front = [(''X-Forwarded-For'', [front @ CHR '','' # ''203.0.113.7, 10.0.0.2''])]"

section \<open>Properties\<close>



text \<open>Only the first \<open>X-Forwarded-For\<close> line counts. A proxy that adds its own line after the
  client's, which HTTP makes equal to one comma-separated line, does not help: the address the client
  wrote into its own line is taken.\<close>

theorem client_ip_first_line_only:
  assumes "parseRemoteIP N remote = Some r" and "isTrusted resolver r"
    and "Header_Values h ''X-Forwarded-For'' = forged # added"
    and "nt_ParseAddr N (TrimSpace forged) = Some a" and "\<not> isTrusted resolver (Unmap a)"
    and "CHR '','' \<notin> set forged" and "forged \<noteq> []"
  shows "clientIP N (Some resolver) remote h = nt_String N (Unmap a)"
proof -
  have "Split forged (CHR '','') = [forged]"
    using assms(6) by (induction forged) auto
  moreover have "Header_Get h ''X-Forwarded-For'' = forged" using assms(3) by (simp add: Header_Get_def)
  ultimately show ?thesis using assms by (simp add: clientIP_scan Let_def)
qed

theorem client_ip_first_line_only_witness:
  "clientIP demo_netip (Some demo_resolver) ''10.0.0.1:80''
     [(''X-Forwarded-For'', [''198.51.100.9'', ''203.0.113.7''])] = ''198.51.100.9''"
proof -
  have "clientIP demo_netip (Some demo_resolver) ''10.0.0.1:80''
     [(''X-Forwarded-For'', [''198.51.100.9'', ''203.0.113.7''])] = nt_String demo_netip (Unmap (Addr4 0xC6336409))"
    by (rule client_ip_first_line_only [of _ _ "Addr4 0x0A000001" _ _ "''198.51.100.9''" "[''203.0.113.7'']"])
      code_simp+
  moreover have "nt_String demo_netip (Unmap (Addr4 0xC6336409)) = ''198.51.100.9''" by code_simp
  ultimately show ?thesis by simp
qed

text \<open>A proxy configured by its IPv4-mapped address or prefix is never recognised: peers are compared in
  their IPv4 form, and a prefix of the other family contains none of them.\<close>

lemma mapped_proxy_never_trusted:
  assumes "\<forall>p \<in> set (ci_trusted resolver). \<exists>b n. p = Some (Addr6 b [], n)"
  shows "\<not> isTrusted resolver (Addr4 a)"
  using assms by (auto simp: isTrusted_def list_ex_iff prefix_Contains_def split: option.splits dest!: bspec)

end
