(* ===== verification/Process_Config.thy ===== *)
theory Process_Config
  imports Gateway_Normalize Client_IP Limiter
begin

text \<open>
  The configuration of the process (\<open>internal/config/config.go\<close>, \<open>types.go\<close>, \<open>validate.go\<close>,
  \<open>security.go\<close>): its sections, the defaults, the checks, which changes a reload may make, and where a
  secret comes from. Decoding YAML and reading files and the environment are parameters.
\<close>

section \<open>Data\<close>

record OverloadConfig =
  oc_MaxConcurrentRequests :: int
  oc_QueueTimeout :: duration

record ServerConfig =
  sc_Port :: go_string
  sc_TrustedProxies :: "go_string list"
  sc_AccessLogSampleRate :: rat
  sc_AccessLogIncludePath :: bool
  sc_ReadHeaderTimeout :: duration
  sc_ReadTimeout :: duration
  sc_WriteTimeout :: duration
  sc_IdleTimeout :: duration
  sc_ShutdownTimeout :: duration
  sc_MaxHeaderBytes :: int
  sc_Upstream :: UpstreamConfig
  sc_Retry :: RetryConfig
  sc_Overload :: OverloadConfig

record CredentialConfig =
  cc_Name :: go_string
  cc_Role :: go_string
  cc_TokenEnv :: go_string
  cc_CertificateSubject :: go_string

record ManagementConfig =
  mc_Credentials :: "CredentialConfig list"
  mc_MetricsAddress :: go_string
  mc_MetricsAuthTokenEnv :: go_string
  mc_TLS :: ServerTLSConfig
  mc_Enabled :: bool
  mc_Address :: go_string
  mc_AuthTokenEnv :: go_string
  mc_AllowInsecure :: bool
  mc_EnablePprof :: bool
  mc_RuntimeMutations :: bool
  mc_WriteTimeout :: duration

record DatabaseConfig =
  db_RootCertFile :: go_string
  db_ClientCertFile :: go_string
  db_ClientKeyFile :: go_string
  db_Host :: go_string
  db_Port :: go_string
  db_User :: go_string
  db_PasswordEnv :: go_string
  db_Name :: go_string
  db_SSLMode :: go_string
  db_ConnectTimeout :: duration
  db_MaxOpenConns :: int

record RedisConfig =
  rd_Username :: go_string
  rd_TLS :: ClientTLSConfig
  rd_Address :: go_string
  rd_PasswordEnv :: go_string
  rd_Database :: int
  rd_PoolSize :: int
  rd_DialTimeout :: duration
  rd_ReadTimeout :: duration
  rd_WriteTimeout :: duration

record BackendConfig =
  bc_ID :: go_string
  bc_URL :: go_string
  bc_Disabled :: bool

record RateLimitConfig =
  rl_Enabled :: bool
  rl_Storage :: go_string
  rl_FailureMode :: go_string
  rl_Capacity :: int
  rl_RefillPerSecond :: rat
  rl_OperationTimeout :: duration
  rl_LocalShards :: int
  rl_LocalMaxBuckets :: int
  rl_IPv4PrefixBits :: int
  rl_IPv6PrefixBits :: int
  rl_CleanupInterval :: duration
  rl_Retention :: duration

record TelemetryConfig =
  tc_OTLPEndpoint :: go_string
  tc_ServiceName :: go_string
  tc_SampleRate :: rat
  tc_Insecure :: bool

record Config =
  cf_Server :: ServerConfig
  cf_Management :: ManagementConfig
  cf_Database :: DatabaseConfig
  cf_Redis :: RedisConfig
  cf_Backends :: "BackendConfig list"
  cf_RateLimit :: RateLimitConfig
  cf_HealthCheck :: HealthCheckConfig
  cf_Telemetry :: TelemetryConfig
  cf_Gateway :: "GatewayConfig option"

section \<open>Defaults\<close>

definition minute :: duration where "minute = 60 * second"
definition hour :: duration where "hour = 60 * minute"

definition default_upstream :: "UpstreamConfig \<Rightarrow> UpstreamConfig" where
  "default_upstream u =
     u\<lparr>up_DialTimeout := or_else (up_DialTimeout u) (2 * second),
       up_TLSHandshakeTimeout := or_else (up_TLSHandshakeTimeout u) (3 * second),
       up_ResponseHeaderTimeout := or_else (up_ResponseHeaderTimeout u) (10 * second),
       up_ExpectContinueTimeout := or_else (up_ExpectContinueTimeout u) second,
       up_IdleConnTimeout := or_else (up_IdleConnTimeout u) (90 * second),
       up_MaxIdleConns := or_else (up_MaxIdleConns u) 256,
       up_MaxIdleConnsPerHost := or_else (up_MaxIdleConnsPerHost u) 64,
       up_MaxConcurrentRequests := or_else (up_MaxConcurrentRequests u) 512\<rparr>"

definition default_retry :: "RetryConfig \<Rightarrow> RetryConfig" where
  "default_retry r =
     r\<lparr>rc_MaxAttempts := or_else (rc_MaxAttempts r) 2,
       rc_PerTryTimeout := or_else (rc_PerTryTimeout r) (5 * second),
       rc_BodyLimit := or_else (rc_BodyLimit r) 1048576,
       rc_Methods := or_nil (rc_Methods r) [''GET'', ''HEAD'', ''OPTIONS''],
       rc_Statuses := or_nil (rc_Statuses r) [502, 503, 504],
       rc_BudgetCapacity := or_else (rc_BudgetCapacity r) 100,
       rc_BudgetRefillPerSecond := or_else (rc_BudgetRefillPerSecond r) 10\<rparr>"

definition default_overload :: "OverloadConfig \<Rightarrow> OverloadConfig" where
  "default_overload c =
     c\<lparr>oc_MaxConcurrentRequests := or_else (oc_MaxConcurrentRequests c) 2048,
       oc_QueueTimeout := or_else (oc_QueueTimeout c) (50 * millisecond)\<rparr>"

definition default_server :: "ServerConfig \<Rightarrow> ServerConfig" where
  "default_server s =
     s\<lparr>sc_Port := or_nil (sc_Port s) ''8080'',
       sc_ReadHeaderTimeout := or_else (sc_ReadHeaderTimeout s) (5 * second),
       sc_ReadTimeout := or_else (sc_ReadTimeout s) (15 * second),
       sc_IdleTimeout := or_else (sc_IdleTimeout s) (60 * second),
       sc_ShutdownTimeout := or_else (sc_ShutdownTimeout s) (10 * second),
       sc_MaxHeaderBytes := or_else (sc_MaxHeaderBytes s) 1048576,
       sc_Upstream := default_upstream (sc_Upstream s),
       sc_Retry := default_retry (sc_Retry s),
       sc_Overload := default_overload (sc_Overload s)\<rparr>"

definition default_management :: "ManagementConfig \<Rightarrow> ManagementConfig" where
  "default_management m =
     (if mc_Enabled m
      then m\<lparr>mc_Address := or_nil (mc_Address m) '':9090'', mc_WriteTimeout := or_else (mc_WriteTimeout m) (30 * second)\<rparr>
      else m)"

definition default_database :: "DatabaseConfig \<Rightarrow> DatabaseConfig" where
  "default_database d =
     d\<lparr>db_ConnectTimeout := or_else (db_ConnectTimeout d) (5 * second), db_MaxOpenConns := or_else (db_MaxOpenConns d) 25\<rparr>"

definition default_redis :: "RedisConfig \<Rightarrow> RedisConfig" where
  "default_redis r =
     r\<lparr>rd_Address := or_nil (rd_Address r) ''redis:6379'',
       rd_PoolSize := or_else (rd_PoolSize r) 64,
       rd_DialTimeout := or_else (rd_DialTimeout r) (2 * second),
       rd_ReadTimeout := or_else (rd_ReadTimeout r) (50 * millisecond),
       rd_WriteTimeout := or_else (rd_WriteTimeout r) (50 * millisecond)\<rparr>"

definition default_rate_limit :: "RateLimitConfig \<Rightarrow> RateLimitConfig" where
  "default_rate_limit r =
     r\<lparr>rl_Storage := or_nil (rl_Storage r) ''local'',
       rl_FailureMode := or_nil (rl_FailureMode r) ''fail-open'',
       rl_Capacity := or_else (rl_Capacity r) 100,
       rl_RefillPerSecond := or_else (rl_RefillPerSecond r) 100,
       rl_OperationTimeout := or_else (rl_OperationTimeout r) (50 * millisecond),
       rl_LocalShards := or_else (rl_LocalShards r) 64,
       rl_LocalMaxBuckets := or_else (rl_LocalMaxBuckets r) 100000,
       rl_IPv4PrefixBits := or_else (rl_IPv4PrefixBits r) 32,
       rl_IPv6PrefixBits := or_else (rl_IPv6PrefixBits r) 64,
       rl_CleanupInterval := or_else (rl_CleanupInterval r) (6 * hour),
       rl_Retention := or_else (rl_Retention r) (24 * hour)\<rparr>"

definition default_health :: "HealthCheckConfig \<Rightarrow> HealthCheckConfig" where
  "default_health h =
     h\<lparr>hcc_Mode := or_nil (hcc_Mode h) ''http'',
       hcc_Path := or_nil (hcc_Path h) ''/health'',
       hcc_Interval := or_else (hcc_Interval h) (5 * second),
       hcc_Timeout := or_else (hcc_Timeout h) (2 * second),
       hcc_FailureThreshold := or_else (hcc_FailureThreshold h) 2,
       hcc_SuccessThreshold := or_else (hcc_SuccessThreshold h) 1,
       hcc_MaxConcurrency := or_else (hcc_MaxConcurrency h) 16,
       hcc_Jitter := or_else (hcc_Jitter h) (500 * millisecond),
       hcc_Cooldown := or_else (hcc_Cooldown h) (10 * second),
       hcc_ExpectedStatuses := or_nil (hcc_ExpectedStatuses h) [200, 204],
       hcc_SlowStart := or_else (hcc_SlowStart h) (30 * second),
       hcc_SlowStartMinimum := or_else (hcc_SlowStartMinimum h) 10\<rparr>"

definition applyDefaults :: "Config \<Rightarrow> Config" where
  "applyDefaults cfg =
     (let cfg = cfg\<lparr>cf_Gateway := map_option ApplyDefaults (cf_Gateway cfg)\<rparr>;
          cfg = cfg\<lparr>cf_Server := default_server (cf_Server cfg),
                    cf_Management := default_management (cf_Management cfg),
                    cf_Database := default_database (cf_Database cfg),
                    cf_Redis := default_redis (cf_Redis cfg),
                    cf_RateLimit := default_rate_limit (cf_RateLimit cfg),
                    cf_HealthCheck := default_health (cf_HealthCheck cfg)\<rparr>
      in cfg\<lparr>cf_Gateway := map_option (ApplyInheritedDefaults (sc_Upstream (cf_Server cfg)) (sc_Retry (cf_Server cfg))
               (cf_HealthCheck cfg)) (cf_Gateway cfg)\<rparr>)"

section \<open>Validation\<close>

text \<open>\<open>strconv.Atoi\<close>.\<close>

definition Atoi :: "go_string \<Rightarrow> int option" where
  "Atoi s =
     (let neg = (s \<noteq> [] \<and> hd s = CHR ''-''); ds = (if s \<noteq> [] \<and> (hd s = CHR ''-'' \<or> hd s = CHR ''+'') then tl s else s);
          v = foldl (\<lambda>n c. 10 * n + (int (byte c) - 48)) 0 ds; v = (if neg then - v else v)
      in if ds = [] \<or> \<not> list_all is_digit ds \<or> v < - (2 ^ 63) \<or> v \<ge> 2 ^ 63 then None else Some v)"

fun credential_checks :: "ManagementConfig \<Rightarrow> go_string list \<Rightarrow> CredentialConfig list \<Rightarrow> check list" where
  "credential_checks m names [] = []"
| "credential_checks m names (c # cs) =
     (cc_Name c = [] \<or> cc_Name c \<in> set names, ''management credential names must be unique and nonempty'')
     # (cc_Role c \<notin> {''viewer'', ''operator'', ''admin'', ''metrics'', ''discovery''}, ''invalid management role'')
     # (cc_TokenEnv c = [] \<and> cc_CertificateSubject c = [], ''management credential needs token_env or certificate_subject'')
     # (cc_CertificateSubject c \<noteq> [] \<and> \<not> st_RequireClientCert (mc_TLS m), ''certificate identity requires management mutual TLS'')
     # credential_checks m (cc_Name c # names) cs"

definition telemetry_invalid :: "url_parser \<Rightarrow> TelemetryConfig \<Rightarrow> bool" where
  "telemetry_invalid parse t =
     (tc_OTLPEndpoint t \<noteq> [] \<and>
      (case parse (tc_OTLPEndpoint t) of
         None \<Rightarrow> True
       | Some u \<Rightarrow> u_Host u = [] \<or> u_User u \<noteq> None
           \<or> (u_Scheme u \<noteq> ''https'' \<and> \<not> (u_Scheme u = ''http'' \<and> tc_Insecure t))))"

definition validateSecurity :: "url_parser \<Rightarrow> Config \<Rightarrow> check list" where
  "validateSecurity parse cfg =
     (let m = cf_Management cfg; t = cf_Telemetry cfg
      in credential_checks m [] (mc_Credentials m)
         @ [(mc_MetricsAddress m \<noteq> [] \<and> mc_MetricsAuthTokenEnv m = [],
             ''metrics_auth_token_env is required for the metrics listener'')]
         @ ServerTLS_Validate (mc_TLS m)
         @ [(tc_SampleRate t < 0 \<or> tc_SampleRate t > 1, ''telemetry.sample_rate must be between 0 and 1''),
            (telemetry_invalid parse t, ''telemetry.otlp_endpoint must be HTTPS (HTTP requires explicit insecure)'')])"

definition config_parsePrefix :: "netip_text \<Rightarrow> go_string \<Rightarrow> go_string + netip_prefix" where
  "config_parsePrefix N text =
     (case nt_ParsePrefix N text of
        Some (address, bits) \<Rightarrow> Inr (masked_prefix address bits)
      | None \<Rightarrow>
          (case nt_ParseAddr N text of
             None \<Rightarrow> Inl ''unable to parse IP''
           | Some address \<Rightarrow> Inr (whole_prefix address)))"

text \<open>The checks before the retry methods are rewritten, and the retry methods themselves: each is
  trimmed and put in upper case in place until an empty one stops the loop.\<close>

definition server_checks :: "ServerConfig \<Rightarrow> check list" where
  "server_checks s =
     (let u = sc_Upstream s; r = sc_Retry s
      in [(case Atoi (sc_Port s) of None \<Rightarrow> True | Some p \<Rightarrow> p < 1 \<or> p > 65535,
           ''server.port must be a number between 1 and 65535''),
          (sc_ReadHeaderTimeout s \<le> 0 \<or> sc_ReadTimeout s \<le> 0 \<or> sc_WriteTimeout s < 0 \<or> sc_IdleTimeout s \<le> 0
             \<or> sc_ShutdownTimeout s \<le> 0, ''server timeouts are invalid''),
          (sc_AccessLogSampleRate s < 0 \<or> sc_AccessLogSampleRate s > 1,
           ''server.access_log_sample_rate must be between 0 and 1''),
          (sc_MaxHeaderBytes s < 1024, ''server.max_header_bytes must be at least 1024''),
          (up_DialTimeout u \<le> 0 \<or> up_TLSHandshakeTimeout u \<le> 0 \<or> up_ResponseHeaderTimeout u \<le> 0 \<or> up_IdleConnTimeout u \<le> 0,
           ''server.upstream timeouts must be positive''),
          (up_MaxIdleConns u < 1 \<or> up_MaxIdleConnsPerHost u < 1 \<or> up_MaxConnsPerHost u < 0 \<or> up_MaxConcurrentRequests u < 1,
           ''server.upstream connection limits are invalid''),
          (rc_MaxAttempts r < 1 \<or> rc_MaxAttempts r > 5 \<or> rc_PerTryTimeout r \<le> 0 \<or> rc_BodyLimit r < 0,
           ''server.retry values are invalid'')])"

fun normalize_methods :: "go_string list \<Rightarrow> bool \<times> go_string list" where
  "normalize_methods [] = (True, [])"
| "normalize_methods (m # ms) =
     (let m' = ToUpper (TrimSpace m)
      in if m' = [] then (False, m # ms) else (let (ok, ms) = normalize_methods ms in (ok, m' # ms)))"

fun backend_checks :: "url_parser \<Rightarrow> go_string list \<Rightarrow> go_string list \<Rightarrow> BackendConfig list \<Rightarrow> check list" where
  "backend_checks parse ids urls [] = []"
| "backend_checks parse ids urls (b # bs) =
     (TrimSpace (bc_ID b) = [], ''backend.id is required'')
     # (case parse (bc_URL b) of
          None \<Rightarrow> [(True, ''invalid backend URL'')]
        | Some u \<Rightarrow>
            (u_Host u = [] \<or> (u_Scheme u \<noteq> ''http'' \<and> u_Scheme u \<noteq> ''https''), ''invalid backend URL'')
            # (bc_ID b \<in> set ids, ''duplicate backend ID'')
            # (u_text u \<in> set urls, ''duplicate backend URL'')
            # backend_checks parse (bc_ID b # ids) (u_text u # urls) bs)"

definition validateBackends :: "url_parser \<Rightarrow> BackendConfig list \<Rightarrow> check list" where
  "validateBackends parse bs = (bs = [], ''at least one backend is required'') # backend_checks parse [] [] bs"

definition rate_limit_checks :: "Config \<Rightarrow> check list" where
  "rate_limit_checks cfg =
     (let r = cf_RateLimit cfg; d = cf_Database cfg; x = cf_Redis cfg
      in [(rl_Storage r \<notin> {''local'', ''redis'', ''postgres''}, ''rate_limit.storage must be local, redis or postgres''),
          (rl_FailureMode r \<notin> {''fail-open'', ''fail-closed'', ''local-fallback''},
           ''rate_limit.failure_mode must be fail-open, fail-closed or local-fallback''),
          (rl_Capacity r < 1 \<or> rl_RefillPerSecond r \<le> 0 \<or> rl_OperationTimeout r \<le> 0 \<or> rl_LocalShards r < 1
             \<or> rl_LocalMaxBuckets r < 1 \<or> rl_IPv4PrefixBits r < 1 \<or> rl_IPv4PrefixBits r > 32 \<or> rl_IPv6PrefixBits r < 1
             \<or> rl_IPv6PrefixBits r > 128 \<or> rl_CleanupInterval r \<le> 0 \<or> rl_Retention r \<le> 0, ''rate_limit values must be positive''),
          (rl_Storage r = ''redis'' \<and> rd_Address x = [], ''redis.address is required for redis rate limit storage''),
          (rl_Storage r = ''postgres'' \<and> (db_Host d = [] \<or> db_Port d = [] \<or> db_User d = [] \<or> db_Name d = [] \<or> db_PasswordEnv d = []),
           ''database host, port, user, name and password_env are required for postgres storage''),
          (rd_PoolSize x < 1 \<or> rd_DialTimeout x \<le> 0 \<or> rd_ReadTimeout x \<le> 0 \<or> rd_WriteTimeout x \<le> 0,
           ''redis connection settings are invalid''),
          (db_MaxOpenConns d < 1 \<or> db_ConnectTimeout d \<le> 0, ''database connection settings are invalid'')])"

definition health_config_checks :: "HealthCheckConfig \<Rightarrow> check list" where
  "health_config_checks h =
     [(hcc_Mode h \<notin> {''tcp'', ''http'', ''https''}, ''health_check.mode must be tcp, http or https''),
      (\<not> HasPrefix (hcc_Path h) ''/'', ''health_check.path must start with /''),
      (hcc_Interval h \<le> 0 \<or> hcc_Timeout h \<le> 0 \<or> hcc_FailureThreshold h < 1 \<or> hcc_SuccessThreshold h < 1
         \<or> hcc_MaxConcurrency h < 1 \<or> hcc_Jitter h < 0 \<or> hcc_Cooldown h < 0 \<or> hcc_SlowStart h < 0
         \<or> hcc_SlowStartMinimum h < 1 \<or> hcc_SlowStartMinimum h > 100, ''health_check values are invalid'')]
     @ map (\<lambda>status. (status < 100 \<or> status > 599, ''health_check.expected_statuses contains invalid status''))
         (hcc_ExpectedStatuses h)"

definition management_checks :: "ManagementConfig \<Rightarrow> check list" where
  "management_checks m =
     (if mc_Enabled m
      then [(mc_Address m = [], ''management.address is required when management API is enabled''),
            (mc_AuthTokenEnv m = [] \<and> mc_Credentials m = [] \<and> \<not> mc_AllowInsecure m,
             ''management.auth_token_env is required unless allow_insecure is enabled''),
            (mc_WriteTimeout m \<le> 0, ''management.write_timeout must be positive'')]
      else [])"

text \<open>The checks behind the rewriting of the retry methods.\<close>

definition late_checks :: "url_parser \<Rightarrow> netip_text \<Rightarrow> Config \<Rightarrow> check list" where
  "late_checks parse N cfg =
     (let s = cf_Server cfg; r = sc_Retry s
      in map (\<lambda>status. (status < 400 \<or> status > 599, ''server.retry.statuses must contain HTTP error statuses'')) (rc_Statuses r)
         @ [(rc_BudgetCapacity r < 1 \<or> rc_BudgetRefillPerSecond r \<le> 0, ''server.retry budget values must be positive''),
            (oc_MaxConcurrentRequests (sc_Overload s) < 1 \<or> oc_QueueTimeout (sc_Overload s) < 0, ''server.overload values are invalid'')]
         @ map (\<lambda>proxy. (isl (config_parsePrefix N proxy), ''invalid trusted proxy '' @ proxy)) (sc_TrustedProxies s)
         @ management_checks (cf_Management cfg)
         @ [(cf_Gateway cfg \<noteq> None \<and> cf_Backends cfg \<noteq> [], ''gateway and legacy backends cannot be configured together'')]
         @ (if cf_Gateway cfg = None then validateBackends parse (cf_Backends cfg) else [])
         @ rate_limit_checks cfg
         @ health_config_checks (cf_HealthCheck cfg))"

definition Config_Validate :: "url_parser \<Rightarrow> netip_text \<Rightarrow> Config \<Rightarrow> go_string option \<times> Config" where
  "Config_Validate parse N cfg =
     (case first_error (validateSecurity parse cfg @ server_checks (cf_Server cfg)) of
        Some err \<Rightarrow> (Some err, cfg)
      | None \<Rightarrow>
          (let (ok, ms) = normalize_methods (rc_Methods (sc_Retry (cf_Server cfg)));
               cfg = cfg\<lparr>cf_Server := (cf_Server cfg)\<lparr>sc_Retry := (sc_Retry (cf_Server cfg))\<lparr>rc_Methods := ms\<rparr>\<rparr>\<rparr>
           in if \<not> ok then (Some ''server.retry.methods cannot contain an empty method'', cfg)
              else case first_error (late_checks parse N cfg) of
                Some err \<Rightarrow> (Some err, cfg)
              | None \<Rightarrow>
                  (case cf_Gateway cfg of
                     None \<Rightarrow> (None, cfg)
                   | Some g \<Rightarrow> (let (err, g) = Validate parse g in (err, cfg\<lparr>cf_Gateway := Some g\<rparr>)))))"

text \<open>\<open>Load\<close>: \<open>decoded\<close> is what reading and decoding the file gave.\<close>

definition Load :: "url_parser \<Rightarrow> netip_text \<Rightarrow> go_string + Config \<Rightarrow> go_string + Config" where
  "Load parse N decoded =
     (case decoded of
        Inl err \<Rightarrow> Inl err
      | Inr cfg \<Rightarrow>
          (case Config_Validate parse N (applyDefaults cfg) of
             (Some err, cfg) \<Rightarrow> Inl err
           | (None, cfg) \<Rightarrow> Inr cfg))"

section \<open>Reloads and secrets\<close>

definition ValidateReload :: "Config \<Rightarrow> Config \<Rightarrow> go_string option" where
  "ValidateReload current new =
     (let s = cf_Server current; t = cf_Server new; r = cf_RateLimit current; q = cf_RateLimit new
      in first_error
        [(cf_Telemetry current \<noteq> cf_Telemetry new, ''telemetry changes require a restart''),
         (sc_Port s \<noteq> sc_Port t \<or> sc_ReadHeaderTimeout s \<noteq> sc_ReadHeaderTimeout t \<or> sc_ReadTimeout s \<noteq> sc_ReadTimeout t
            \<or> sc_WriteTimeout s \<noteq> sc_WriteTimeout t \<or> sc_IdleTimeout s \<noteq> sc_IdleTimeout t
            \<or> sc_AccessLogSampleRate s \<noteq> sc_AccessLogSampleRate t \<or> sc_AccessLogIncludePath s \<noteq> sc_AccessLogIncludePath t
            \<or> sc_MaxHeaderBytes s \<noteq> sc_MaxHeaderBytes t \<or> sc_Upstream s \<noteq> sc_Upstream t \<or> sc_Overload s \<noteq> sc_Overload t
            \<or> cf_Management current \<noteq> cf_Management new,
          ''listener, management and upstream transport changes require a restart''),
         (rl_Storage r \<noteq> rl_Storage q \<or> rl_LocalShards r \<noteq> rl_LocalShards q \<or> rl_LocalMaxBuckets r \<noteq> rl_LocalMaxBuckets q
            \<or> rl_CleanupInterval r \<noteq> rl_CleanupInterval q \<or> rl_Retention r \<noteq> rl_Retention q
            \<or> cf_Database current \<noteq> cf_Database new \<or> cf_Redis current \<noteq> cf_Redis new,
          ''rate limit storage connection and lifecycle changes require a restart'')])"

text \<open>\<open>env\<close> is the environment, \<open>read\<close> the content of a file or the error of reading it.\<close>

definition secret_file ::
    "(go_string \<Rightarrow> go_string option) \<Rightarrow> (go_string \<Rightarrow> go_string + go_string) \<Rightarrow> go_string \<Rightarrow> go_string + go_string" where
  "secret_file env read name =
     (let fileName = (case env (name @ ''_FILE'') of None \<Rightarrow> [] | Some file \<Rightarrow> file)
      in if fileName = [] then Inl (''required environment variable '' @ name @ '' is not set'')
         else case read fileName of
                Inl err \<Rightarrow> Inl (''read secret '' @ name @ ''_FILE: '' @ err)
              | Inr data \<Rightarrow>
                  if TrimSpace data = [] then Inl (''secret file from '' @ name @ ''_FILE is empty'')
                  else Inr (TrimSpace data))"

definition SecretFromEnv ::
    "(go_string \<Rightarrow> go_string option) \<Rightarrow> (go_string \<Rightarrow> go_string + go_string) \<Rightarrow> go_string \<Rightarrow> go_string + go_string" where
  "SecretFromEnv env read name =
     (if name = [] then Inr []
      else case env name of
             Some secret \<Rightarrow> if secret \<noteq> [] then Inr secret else secret_file env read name
           | None \<Rightarrow> secret_file env read name)"

section \<open>Defaults are stable\<close>

lemma section_defaults_idem [simp]:
  "default_upstream (default_upstream u) = default_upstream u"
  "default_retry (default_retry r) = default_retry r"
  "default_overload (default_overload c) = default_overload c"
  "default_management (default_management m) = default_management m"
  "default_database (default_database d) = default_database d"
  "default_redis (default_redis x) = default_redis x"
  "default_rate_limit (default_rate_limit l) = default_rate_limit l"
  "default_health (default_health h) = default_health h"
  by (simp_all add: default_upstream_def default_retry_def default_overload_def default_management_def
      default_database_def default_redis_def default_rate_limit_def default_health_def)

lemma default_server_idem [simp]: "default_server (default_server s) = default_server s"
  by (simp add: default_server_def)

lemma merge_defaults_idem [simp]:
  "inherit_transport (inherit_transport t u) u = inherit_transport t u"
  "mergeGatewayRetryDefaults (mergeGatewayRetryDefaults g r) r = mergeGatewayRetryDefaults g r"
  "mergeGatewayHealthDefaults (mergeGatewayHealthDefaults k h) h = mergeGatewayHealthDefaults k h"
  by (simp_all add: inherit_transport_def mergeGatewayRetryDefaults_def mergeGatewayHealthDefaults_def)

lemma mergeGatewayHealthDefaults_Enabled [simp]: "ghc_Enabled (mergeGatewayHealthDefaults k h) = ghc_Enabled k"
  by (simp add: mergeGatewayHealthDefaults_def)

lemma inherit_cluster_idem [simp]: "inherit_cluster u r h (inherit_cluster u r h c) = inherit_cluster u r h c"
  by (simp add: inherit_cluster_def)

lemma default_inherit_cluster [simp]:
  "default_cluster (inherit_cluster u r h (default_cluster c)) = inherit_cluster u r h (default_cluster c)"
  by (rule default_cluster_id) (simp_all add: inherit_cluster_def inherit_transport_def default_cluster_def comp_def)

definition inherit_route :: "RetryConfig \<Rightarrow> GatewayRouteConfig \<Rightarrow> GatewayRouteConfig" where
  "inherit_route retry r = r\<lparr>gr_Retry := map_option (\<lambda>t. mergeGatewayRetryDefaults t retry) (gr_Retry r)\<rparr>"

lemma inherit_route_simps [simp]:
  "inherit_route x (inherit_route x r) = inherit_route x r"
  "default_route (inherit_route x (default_route r)) = inherit_route x (default_route r)"
  "with_redirect_status (inherit_route x (default_route r)) = inherit_route x (default_route r)"
  by (simp_all add: inherit_route_def default_route_def with_redirect_status_def option.map_comp comp_def)

lemma ApplyInheritedDefaults_alt:
  "ApplyInheritedDefaults u r h g =
     (ApplyDefaults g)\<lparr>gg_Clusters := map (inherit_cluster u r h \<circ> default_cluster) (gg_Clusters g),
       gg_Routes := map (inherit_route r \<circ> default_route) (gg_Routes g)\<rparr>"
  by (simp add: ApplyInheritedDefaults_def ApplyDefaults_def inherit_route_def comp_def Let_def)

lemma ApplyDefaults_Inherited [simp]:
  "ApplyDefaults (ApplyInheritedDefaults u r h g) = ApplyInheritedDefaults u r h g"
  unfolding ApplyInheritedDefaults_alt
  by (simp add: ApplyDefaults_def single_default_idem comp_def GatewayAPIVersion_def)

lemma ApplyInheritedDefaults_idem [simp]:
  "ApplyInheritedDefaults u r h (ApplyInheritedDefaults u r h g) = ApplyInheritedDefaults u r h g"
proof -
  have "gg_Clusters (ApplyInheritedDefaults u r h g) = map (inherit_cluster u r h \<circ> default_cluster) (gg_Clusters g)"
    "gg_Routes (ApplyInheritedDefaults u r h g) = map (inherit_route r \<circ> default_route) (gg_Routes g)"
    by (simp_all add: ApplyInheritedDefaults_alt)
  then show ?thesis
    unfolding ApplyInheritedDefaults_alt [of u r h "ApplyInheritedDefaults u r h g"] ApplyDefaults_Inherited
    by (simp add: comp_def)
qed

lemma ApplyInheritedDefaults_ApplyDefaults [simp]:
  "ApplyInheritedDefaults u r h (ApplyDefaults g) = ApplyInheritedDefaults u r h g"
  by (simp add: ApplyInheritedDefaults_def ApplyDefaults_idem)

lemma applyDefaults_idem: "applyDefaults (applyDefaults cfg) = applyDefaults cfg"
  by (simp add: applyDefaults_def Let_def option.map_comp comp_def)

section \<open>A validated configuration\<close>

lemma config_parsePrefix_same: "config_parsePrefix = parsePrefix"
  by (simp add: fun_eq_iff config_parsePrefix_def parsePrefix_def)

lemma ToUpper_Nil [simp]: "ToUpper s = [] \<longleftrightarrow> s = []"
  by (simp add: ToUpper_def)

lemma is_space_upper [simp]: "is_space (upper_char c) = is_space c"
proof -
  have "byte (upper_char c) = byte c \<or> (\<not> is_space c \<and> \<not> is_space (upper_char c))"
    by (auto simp: upper_char_def is_lower_def is_space_def byte_char_of)
  then show ?thesis by (auto simp: is_space_def)
qed

lemma dropWhile_map_upper: "dropWhile is_space (map upper_char s) = map upper_char (dropWhile is_space s)"
  by (induction s) auto

lemma TrimSpace_ToUpper: "TrimSpace (ToUpper s) = ToUpper (TrimSpace s)"
  by (simp add: TrimSpace_def ToUpper_def dropWhile_map_upper rev_map)

lemma TrimSpace_idem [simp]: "TrimSpace (TrimSpace s) = TrimSpace s"
proof -
  have idem: "dropWhile is_space (dropWhile is_space t) = dropWhile is_space t" for t
    by (induction t) auto
  have suffix: "dropWhile is_space (rev (dropWhile is_space (rev u))) = rev (dropWhile is_space (rev u))"
    if "dropWhile is_space u = u" for u
  proof (cases u)
    case (Cons c cs)
    with that have "\<not> is_space c" by (metis dropWhile.simps(2) dropWhile_eq_self_iff list.sel(1) list.simps(3))
    then have "rev (dropWhile is_space (rev u)) = c # rev (dropWhile is_space (rev cs))"
      by (simp add: Cons dropWhile_append)
    with \<open>\<not> is_space c\<close> show ?thesis by simp
  qed simp
  show ?thesis unfolding TrimSpace_def by (simp add: suffix [OF idem] idem)
qed

lemma normalize_methods_ok:
  "normalize_methods ms = (True, ms') \<Longrightarrow> ms' = map (\<lambda>m. ToUpper (TrimSpace m)) ms \<and> normalize_methods ms' = (True, ms')"
  by (induction ms arbitrary: ms') (auto simp: Let_def TrimSpace_ToUpper split: if_splits prod.splits)

lemma Config_Validate_ok:
  assumes "Config_Validate parse N cfg = (None, cfg')"
  obtains ms g where "passes (validateSecurity parse cfg)" "passes (server_checks (cf_Server cfg))"
    "normalize_methods (rc_Methods (sc_Retry (cf_Server cfg))) = (True, ms)"
    "cfg' = cfg\<lparr>cf_Server := (cf_Server cfg)\<lparr>sc_Retry := (sc_Retry (cf_Server cfg))\<lparr>rc_Methods := ms\<rparr>\<rparr>, cf_Gateway := g\<rparr>"
    "passes (late_checks parse N cfg)"
    "case cf_Gateway cfg of None \<Rightarrow> g = None | Some g0 \<Rightarrow> (\<exists>g1. g = Some g1 \<and> Validate parse g0 = (None, g1))"
proof -
  obtain ok ms where m: "normalize_methods (rc_Methods (sc_Retry (cf_Server cfg))) = (ok, ms)" by fastforce
  define c1 where "c1 = cfg\<lparr>cf_Server := (cf_Server cfg)\<lparr>sc_Retry := (sc_Retry (cf_Server cfg))\<lparr>rc_Methods := ms\<rparr>\<rparr>\<rparr>"
  have late: "late_checks parse N c1 = late_checks parse N cfg"
    by (simp add: late_checks_def rate_limit_checks_def c1_def Let_def)
  have c: "passes (validateSecurity parse cfg @ server_checks (cf_Server cfg))" "ok" "passes (late_checks parse N c1)"
    using assms by (auto simp: Config_Validate_def m c1_def Let_def split: option.splits if_splits)
  have g: "(case cf_Gateway cfg of None \<Rightarrow> (None, c1)
      | Some g \<Rightarrow> (let (err, g) = Validate parse g in (err, c1\<lparr>cf_Gateway := Some g\<rparr>))) = (None, cfg')"
    using assms c by (cases "cf_Gateway cfg") (simp_all add: Config_Validate_def m Let_def c1_def)
  show thesis
  proof (cases "cf_Gateway cfg")
    case None
    with g c late m show thesis by (intro that [of ms None]) (auto simp: c1_def)
  next
    case (Some g0)
    obtain err g1 where v: "Validate parse g0 = (err, g1)" by fastforce
    with g c late m Some show thesis by (intro that [of ms "Some g1"]) (auto simp: c1_def)
  qed
qed

lemma merge_retry_methods:
  assumes "rc_Methods r \<noteq> []"
  shows "mergeGatewayRetryDefaults (mergeGatewayRetryDefaults t r) (r\<lparr>rc_Methods := ms\<rparr>) = mergeGatewayRetryDefaults t r"
  using assms by (simp add: mergeGatewayRetryDefaults_def)

lemma ApplyInheritedDefaults_methods:
  assumes "rc_Methods r \<noteq> []"
  shows "ApplyInheritedDefaults u (r\<lparr>rc_Methods := ms\<rparr>) h (ApplyInheritedDefaults u r h g) = ApplyInheritedDefaults u r h g"
proof -
  let ?g = "ApplyInheritedDefaults u r h g"
  have parts: "gg_Clusters ?g = map (inherit_cluster u r h \<circ> default_cluster) (gg_Clusters g)"
    "gg_Routes ?g = map (inherit_route r \<circ> default_route) (gg_Routes g)"
    by (simp_all add: ApplyInheritedDefaults_alt)
  have c: "inherit_cluster u (r\<lparr>rc_Methods := ms\<rparr>) h (inherit_cluster u r h c) = inherit_cluster u r h c" for c
    by (simp add: inherit_cluster_def merge_retry_methods [OF assms])
  have "inherit_route (r\<lparr>rc_Methods := ms\<rparr>) (inherit_route r x) = inherit_route r x" for x
    by (simp add: inherit_route_def option.map_comp comp_def merge_retry_methods [OF assms])
  with c parts show ?thesis
    unfolding ApplyInheritedDefaults_alt [of u "r\<lparr>rc_Methods := ms\<rparr>" h ?g] ApplyDefaults_Inherited
    by (simp add: comp_def)
qed

text \<open>The routes of a gateway with defaults have their redirect statuses, so validation does not change
  them.\<close>

lemma Validate_inherited:
  assumes "Validate parse (ApplyInheritedDefaults u r h g) = (None, g')"
  shows "g' = ApplyInheritedDefaults u r h g"
  using Validate_ok [OF assms] by (simp add: ApplyInheritedDefaults_alt comp_def)

lemma loaded_config_fixed:
  assumes "Load parse N (Inr raw) = Inr cfg"
  shows "applyDefaults cfg = cfg \<and> Config_Validate parse N cfg = (None, cfg)"
proof -
  let ?d = "applyDefaults raw"
  from assms have "Config_Validate parse N ?d = (None, cfg)"
    by (auto simp: Load_def split: prod.splits option.splits)
  then obtain ms g where v: "passes (validateSecurity parse ?d)" "passes (server_checks (cf_Server ?d))"
    "normalize_methods (rc_Methods (sc_Retry (cf_Server ?d))) = (True, ms)"
    "cfg = ?d\<lparr>cf_Server := (cf_Server ?d)\<lparr>sc_Retry := (sc_Retry (cf_Server ?d))\<lparr>rc_Methods := ms\<rparr>\<rparr>, cf_Gateway := g\<rparr>"
    "passes (late_checks parse N ?d)"
    "case cf_Gateway ?d of None \<Rightarrow> g = None | Some g0 \<Rightarrow> (\<exists>g1. g = Some g1 \<and> Validate parse g0 = (None, g1))"
    by (rule Config_Validate_ok)
  let ?u = "default_upstream (sc_Upstream (cf_Server raw))" and ?r = "default_retry (sc_Retry (cf_Server raw))"
    and ?h = "default_health (cf_HealthCheck raw)"
  have gd: "cf_Gateway ?d = map_option (ApplyInheritedDefaults ?u ?r ?h) (cf_Gateway raw)"
    by (simp add: applyDefaults_def Let_def option.map_comp comp_def default_server_def)
  have g: "g = cf_Gateway ?d"
    using v(6) Validate_inherited by (cases "cf_Gateway raw") (auto simp: gd)
  have ne: "rc_Methods ?r \<noteq> []" by (simp add: default_retry_def or_nil_def)
  have sr: "sc_Retry (cf_Server ?d) = ?r" "sc_Upstream (cf_Server ?d) = ?u" "cf_HealthCheck ?d = ?h"
    by (simp_all add: applyDefaults_def Let_def default_server_def)
  note norm = normalize_methods_ok [OF v(3)]
  have ms: "ms \<noteq> []" using norm ne sr by auto
  have retry: "default_retry (?r\<lparr>rc_Methods := ms\<rparr>) = ?r\<lparr>rc_Methods := ms\<rparr>"
    using ms by (simp add: default_retry_def or_nil_def)
  have fixed: "applyDefaults cfg = cfg"
    using retry v(4) g
    by (simp add: applyDefaults_def Let_def default_server_def option.map_comp comp_def
        ApplyInheritedDefaults_methods [OF ne])
  have late: "late_checks parse N cfg = late_checks parse N ?d" "validateSecurity parse cfg = validateSecurity parse ?d"
    "server_checks (cf_Server cfg) = server_checks (cf_Server ?d)"
    using v(4) g by (simp_all add: late_checks_def rate_limit_checks_def validateSecurity_def server_checks_def Let_def)
  have same: "normalize_methods (rc_Methods (sc_Retry (cf_Server cfg))) = (True, ms)" "cf_Gateway cfg = cf_Gateway ?d"
    "cfg\<lparr>cf_Server := (cf_Server cfg)\<lparr>sc_Retry := (sc_Retry (cf_Server cfg))\<lparr>rc_Methods := ms\<rparr>\<rparr>\<rparr> = cfg"
    using v(4) g conjunct2 [OF norm] by simp_all
  have gw: "case cf_Gateway ?d of None \<Rightarrow> True | Some x \<Rightarrow> Validate parse x = (None, x)"
    using v(6) g by (auto split: option.splits)
  have "cfg\<lparr>cf_Gateway := cf_Gateway ?d\<rparr> = cfg" using v(4) g by simp
  moreover have early: "passes (validateSecurity parse ?d @ server_checks (cf_Server ?d))" using v(1,2) by simp
  ultimately have "Config_Validate parse N cfg = (None, cfg)"
    using gw by (cases "cf_Gateway ?d") (simp_all add: Config_Validate_def Let_def late same early v(5))
  with fixed show ?thesis by simp
qed

section \<open>Properties\<close>

text \<open>An almost empty configuration file: one backend, one trusted proxy, a retry method in lower case.\<close>

definition demo_raw :: Config where
  "demo_raw = \<lparr>
     cf_Server = \<lparr>sc_Port = [], sc_TrustedProxies = [''10.0.0.0/8''], sc_AccessLogSampleRate = 0, sc_AccessLogIncludePath = False,
       sc_ReadHeaderTimeout = 0, sc_ReadTimeout = 0, sc_WriteTimeout = 0, sc_IdleTimeout = 0, sc_ShutdownTimeout = 0,
       sc_MaxHeaderBytes = 0,
       sc_Upstream = \<lparr>up_DialTimeout = 0, up_TLSHandshakeTimeout = 0, up_ResponseHeaderTimeout = 0, up_ExpectContinueTimeout = 0,
         up_IdleConnTimeout = 0, up_MaxIdleConns = 0, up_MaxIdleConnsPerHost = 0, up_MaxConnsPerHost = 0, up_MaxConcurrentRequests = 0\<rparr>,
       sc_Retry = \<lparr>rc_MaxAttempts = 0, rc_PerTryTimeout = 0, rc_BodyLimit = 0, rc_Methods = [''get''], rc_Statuses = [],
         rc_BudgetCapacity = 0, rc_BudgetRefillPerSecond = 0\<rparr>,
       sc_Overload = \<lparr>oc_MaxConcurrentRequests = 0, oc_QueueTimeout = 0\<rparr>\<rparr>,
     cf_Management = \<lparr>mc_Credentials = [], mc_MetricsAddress = [], mc_MetricsAuthTokenEnv = [],
       mc_TLS = \<lparr>st_CertFile = [], st_KeyFile = [], st_CAFile = [], st_RequireClientCert = False\<rparr>, mc_Enabled = False,
       mc_Address = [], mc_AuthTokenEnv = [], mc_AllowInsecure = False, mc_EnablePprof = False, mc_RuntimeMutations = False,
       mc_WriteTimeout = 0\<rparr>,
     cf_Database = \<lparr>db_RootCertFile = [], db_ClientCertFile = [], db_ClientKeyFile = [], db_Host = [], db_Port = [], db_User = [],
       db_PasswordEnv = [], db_Name = [], db_SSLMode = [], db_ConnectTimeout = 0, db_MaxOpenConns = 0\<rparr>,
     cf_Redis = \<lparr>rd_Username = [], rd_TLS = \<lparr>ct_Enabled = False, ct_CAFile = [], ct_ServerName = [], ct_ClientCertFile = [],
       ct_ClientKeyFile = []\<rparr>, rd_Address = [], rd_PasswordEnv = [], rd_Database = 0, rd_PoolSize = 0, rd_DialTimeout = 0,
       rd_ReadTimeout = 0, rd_WriteTimeout = 0\<rparr>,
     cf_Backends = [\<lparr>bc_ID = ''a'', bc_URL = ''http://a'', bc_Disabled = False\<rparr>],
     cf_RateLimit = \<lparr>rl_Enabled = True, rl_Storage = [], rl_FailureMode = [], rl_Capacity = 0, rl_RefillPerSecond = 0,
       rl_OperationTimeout = 0, rl_LocalShards = 0, rl_LocalMaxBuckets = 0, rl_IPv4PrefixBits = 0, rl_IPv6PrefixBits = 0,
       rl_CleanupInterval = 0, rl_Retention = 0\<rparr>,
     cf_HealthCheck = \<lparr>hcc_Mode = [], hcc_Path = [], hcc_Interval = 0, hcc_Timeout = 0, hcc_FailureThreshold = 0,
       hcc_SuccessThreshold = 0, hcc_MaxConcurrency = 0, hcc_Jitter = 0, hcc_Cooldown = 0, hcc_ExpectedStatuses = [],
       hcc_SlowStart = 0, hcc_SlowStartMinimum = 0\<rparr>,
     cf_Telemetry = \<lparr>tc_OTLPEndpoint = [], tc_ServiceName = [], tc_SampleRate = 0, tc_Insecure = False\<rparr>,
     cf_Gateway = None\<rparr>"

definition demo_config :: Config where
  "demo_config = projr (Load simple_parse demo_netip (Inr demo_raw))"

lemma demo_loaded: "Load simple_parse demo_netip (Inr demo_raw) = Inr demo_config"
proof -
  have "\<not> isl (Load simple_parse demo_netip (Inr demo_raw))" by code_simp
  then show ?thesis by (simp add: demo_config_def)
qed

text \<open>C17. The configuration a process runs with is stable: loading what \<open>Load\<close> returned gives the same
  configuration. The defaults change nothing more, the retry methods are already in their normal form, the
  values the gateway inherits are the ones it has, and every check passes again. So the output of
  \<open>print-effective-config\<close> can be used as a configuration.\<close>

theorem effective_config_roundtrip:
  assumes "Load parse N (Inr raw) = Inr cfg"
  shows "Load parse N (Inr cfg) = Inr cfg \<and> applyDefaults cfg = cfg"
  using loaded_config_fixed [OF assms] by (simp add: Load_def)

theorem effective_config_roundtrip_witness:
  "Load simple_parse demo_netip (Inr demo_config) = Inr demo_config \<and> rc_Methods (sc_Retry (cf_Server demo_config)) = [''GET'']"
proof -
  have "rc_Methods (sc_Retry (cf_Server demo_config)) = [''GET'']" by code_simp
  with effective_config_roundtrip [OF demo_loaded] show ?thesis by simp
qed

end
