(* ===== verification/Management_Auth.thy ===== *)
theory Management_Auth
  imports Process_Config
begin

text \<open>
  Who may use the management API (\<open>internal/server/identity.go\<close> and \<open>middleware.go\<close>): credentials, roles,
  the audit log, the guard against cross-site requests and the recorder of statuses. What a handler writes is
  a sequence of calls on its \<open>ResponseWriter\<close>; \<open>'p\<close> is the type of JSON payloads and \<open>'s\<close> the state the handler
  behind the checks works on.
\<close>

section \<open>Writers\<close>

datatype 'p write_op = SetHeader go_string go_string | WriteHead int | WriteBody 'p

type_synonym ('p, 's) handler = "request \<Rightarrow> 's \<Rightarrow> 'p write_op list \<times> 's"

definition writeJSON :: "int \<Rightarrow> 'p \<Rightarrow> 'p write_op list" where
  "writeJSON status payload = [SetHeader ''Content-Type'' ''application/json'', SetHeader ''Cache-Control'' ''no-store'',
     WriteHead status, WriteBody payload]"

record 'p statusRecorder =
  sr_status :: int
  sr_wroteHeader :: bool
  sr_out :: "'p write_op list"

definition new_recorder :: "'p statusRecorder" where
  "new_recorder = \<lparr>sr_status = 200, sr_wroteHeader = False, sr_out = []\<rparr>"

definition sr_WriteHeader :: "int \<Rightarrow> 'p statusRecorder \<Rightarrow> 'p statusRecorder" where
  "sr_WriteHeader status r =
     (if 100 \<le> status \<and> status < 200 then r\<lparr>sr_out := sr_out r @ [WriteHead status]\<rparr>
      else if sr_wroteHeader r then r
      else r\<lparr>sr_wroteHeader := True, sr_status := status, sr_out := sr_out r @ [WriteHead status]\<rparr>)"

definition sr_Write :: "'p \<Rightarrow> 'p statusRecorder \<Rightarrow> 'p statusRecorder" where
  "sr_Write body r =
     (let r = (if \<not> sr_wroteHeader r then sr_WriteHeader 200 r else r) in r\<lparr>sr_out := sr_out r @ [WriteBody body]\<rparr>)"

fun sr_op :: "'p write_op \<Rightarrow> 'p statusRecorder \<Rightarrow> 'p statusRecorder" where
  "sr_op (SetHeader name v) r = r\<lparr>sr_out := sr_out r @ [SetHeader name v]\<rparr>"
| "sr_op (WriteHead status) r = sr_WriteHeader status r"
| "sr_op (WriteBody body) r = sr_Write body r"

section \<open>Identities\<close>

text \<open>A token provider is what a call of it gives; a credential without one has \<open>None\<close>.\<close>

record Credential =
  cr_Name :: go_string
  cr_Role :: go_string
  cr_Token :: "(go_string + go_string) option"
  cr_CertificateSubject :: go_string

record Principal =
  pl_Name :: go_string
  pl_Role :: go_string

record AuditEvent =
  ae_ID :: go_string
  ae_Time :: instant
  ae_Subject :: go_string
  ae_Role :: go_string
  ae_Method :: go_string
  ae_Resource :: go_string
  ae_Before :: go_string
  ae_After :: go_string
  ae_Status :: int

text \<open>A verified certificate: its subject and URIs as text. A verified chain is never empty, so it is its
  leaf with the rest.\<close>

record certificate =
  ce_Subject :: go_string
  ce_URIs :: "go_string list"

type_synonym verified_chains = "(certificate \<times> certificate list) list"

definition CredentialsFromConfig :: "(go_string \<Rightarrow> go_string + go_string) \<Rightarrow> CredentialConfig list \<Rightarrow> Credential list" where
  "CredentialsFromConfig secret cs =
     map (\<lambda>c. \<lparr>cr_Name = cc_Name c, cr_Role = cc_Role c,
        cr_Token = (if cc_TokenEnv c \<noteq> [] then Some (secret (cc_TokenEnv c)) else None),
        cr_CertificateSubject = cc_CertificateSubject c\<rparr>) cs"

definition Trim :: "go_string \<Rightarrow> char \<Rightarrow> go_string" where
  "Trim s c = rev (dropWhile (\<lambda>x. x = c) (rev (dropWhile (\<lambda>x. x = c) s)))"

definition endpoint_path :: "go_string \<Rightarrow> bool" where
  "endpoint_path path =
     (case Split (Trim path (CHR ''/'')) (CHR ''/'') of
        [p0, p1, p2, p3, p4, p5] \<Rightarrow> p0 = ''api'' \<and> p1 = ''v1'' \<and> p2 = ''clusters'' \<and> p3 \<noteq> [] \<and> p4 = ''endpoints'' \<and> p5 \<noteq> []
      | _ \<Rightarrow> False)"

definition authorized :: "go_string \<Rightarrow> go_string \<Rightarrow> go_string \<Rightarrow> bool" where
  "authorized role httpMethod path =
     (if role = ''admin'' then True
      else if role = ''discovery''
      then (httpMethod = ''PUT'' \<and> HasPrefix path ''/api/v1/discovery/'')
           \<or> (httpMethod = ''GET'' \<and> (path = ''/healthz'' \<or> path = ''/readyz''))
      else if path = ''/metrics'' \<or> path = ''/healthz'' \<or> path = ''/readyz'' then httpMethod = ''GET''
      else if role = ''metrics'' \<or> HasPrefix path ''/debug/'' then False
      else if HasPrefix path ''/api/v1/discovery/'' then False
      else if path = ''/api/dashboard/request'' \<and> role = ''viewer'' then False
      else if httpMethod = ''GET'' \<or> httpMethod = ''HEAD'' then role = ''viewer'' \<or> role = ''operator''
      else if path = ''/api/v1/config/validate'' then role = ''viewer'' \<or> role = ''operator''
      else if role \<noteq> ''operator'' then False
      else if httpMethod = ''POST'' \<and> path = ''/api/v1/request'' then True
      else httpMethod = ''PATCH'' \<and> endpoint_path path)"

text \<open>Whether a credential matches; \<open>sha\<close> is SHA-256.\<close>

definition credential_matches ::
    "(go_string \<Rightarrow> go_string) \<Rightarrow> go_string \<Rightarrow> verified_chains option \<Rightarrow> Credential \<Rightarrow> bool" where
  "credential_matches sha authorization tls c =
     ((case cr_Token c of
         Some (Inr token) \<Rightarrow> token \<noteq> [] \<and> sha authorization = sha (''Bearer '' @ token)
       | _ \<Rightarrow> False)
      \<or> (cr_CertificateSubject c \<noteq> [] \<and>
         (case tls of
            Some ((cert, _) # _) \<Rightarrow> ce_Subject cert = cr_CertificateSubject c \<or> cr_CertificateSubject c \<in> set (ce_URIs cert)
          | _ \<Rightarrow> False)))"

definition identify ::
    "(go_string \<Rightarrow> go_string) \<Rightarrow> Credential list \<Rightarrow> bool \<Rightarrow> go_string \<Rightarrow> verified_chains option \<Rightarrow> Principal" where
  "identify sha credentials insecure authorization tls =
     (case first_match (credential_matches sha authorization tls) credentials of
        Some c \<Rightarrow> \<lparr>pl_Name = cr_Name c, pl_Role = cr_Role c\<rparr>
      | None \<Rightarrow> if insecure then \<lparr>pl_Name = ''insecure-local'', pl_Role = ''admin''\<rparr> else \<lparr>pl_Name = [], pl_Role = []\<rparr>)"

section \<open>The audit log\<close>

definition append_event :: "AuditEvent \<Rightarrow> AuditEvent list \<Rightarrow> AuditEvent list" where
  "append_event event events = (if 128 \<le> length events then drop 1 events else events) @ [event]"

definition recordAudit ::
    "Principal \<Rightarrow> go_string \<Rightarrow> instant \<Rightarrow> request \<Rightarrow> int \<Rightarrow> go_string \<Rightarrow> go_string \<Rightarrow> AuditEvent list \<Rightarrow> AuditEvent list" where
  "recordAudit who eventID now request status before after events =
     append_event \<lparr>ae_ID = eventID, ae_Time = now, ae_Subject = pl_Name who, ae_Role = pl_Role who,
       ae_Method = rq_Method request, ae_Resource = u_Path (rq_URL request), ae_Before = before, ae_After = after,
       ae_Status = status\<rparr> events"

section \<open>The handlers in front of the API\<close>

text \<open>\<open>authorize\<close>. The state is the audit log and the state of the handler behind; \<open>fingerprint\<close> is
  \<open>auditFingerprint\<close> of that state, and the recorder passes on what the handler writes.\<close>

definition authorize ::
    "(go_string \<Rightarrow> go_string) \<Rightarrow> ('s \<Rightarrow> go_string) \<Rightarrow> go_string \<Rightarrow> instant \<Rightarrow> (go_string \<Rightarrow> 'p)
     \<Rightarrow> Credential list \<Rightarrow> bool \<Rightarrow> verified_chains option \<Rightarrow> (Principal \<Rightarrow> ('p, 's) handler)
     \<Rightarrow> request \<Rightarrow> AuditEvent list \<times> 's \<Rightarrow> 'p write_op list \<times> (AuditEvent list \<times> 's)" where
  "authorize sha fingerprint eventID now err credentials insecure tls handler request st =
     (let who = identify sha credentials insecure (Header_Get (rq_Header request) ''Authorization'') tls; (audit, s) = st
      in if pl_Name who = []
         then (SetHeader ''WWW-Authenticate'' ''Bearer realm=\"load-balancer-management\"''
               # writeJSON 401 (err ''authentication required''), st)
         else if \<not> authorized (pl_Role who) (rq_Method request) (u_Path (rq_URL request))
         then (writeJSON 403 (err ''role does not permit this operation''),
               (recordAudit who eventID now request 403 [] [] audit, s))
         else if rq_Method request = ''GET'' \<or> rq_Method request = ''HEAD''
         then (let (out, s) = handler who request s in (out, (audit, s)))
         else (let before = fingerprint s; (ops, s) = handler who request s; r = fold sr_op ops new_recorder
               in (sr_out r, (recordAudit who eventID now request (sr_status r) before (fingerprint s) audit, s))))"

definition managementAuth ::
    "(go_string \<Rightarrow> go_string) \<Rightarrow> ('s \<Rightarrow> go_string) \<Rightarrow> go_string \<Rightarrow> instant \<Rightarrow> (go_string \<Rightarrow> 'p)
     \<Rightarrow> Credential list \<Rightarrow> go_string \<Rightarrow> bool \<Rightarrow> verified_chains option \<Rightarrow> (Principal \<Rightarrow> ('p, 's) handler)
     \<Rightarrow> request \<Rightarrow> AuditEvent list \<times> 's \<Rightarrow> 'p write_op list \<times> (AuditEvent list \<times> 's)" where
  "managementAuth sha fingerprint eventID now err credentials token insecure tls handler =
     authorize sha fingerprint eventID now err
       (if token \<noteq> [] then credentials @ [\<lparr>cr_Name = ''admin'', cr_Role = ''admin'', cr_Token = Some (Inr token),
          cr_CertificateSubject = []\<rparr>] else credentials) insecure tls handler"

text \<open>\<open>mediaType\<close> is \<open>mime.ParseMediaType\<close>, without the parameters; \<open>None\<close> is an error.\<close>

definition managementMutationGuard ::
    "(go_string \<Rightarrow> go_string option) \<Rightarrow> (go_string \<Rightarrow> 'p) \<Rightarrow> ('p, 's) handler \<Rightarrow> ('p, 's) handler" where
  "managementMutationGuard mediaType err handler request s =
     (if \<not> HasPrefix (u_Path (rq_URL request)) ''/api/'' \<or> rq_Method request = ''GET'' \<or> rq_Method request = ''HEAD''
      then handler request s
      else if EqualFold (Header_Get (rq_Header request) ''Sec-Fetch-Site'') ''cross-site''
      then (writeJSON 403 (err ''cross-site management mutations are forbidden''), s)
      else if Header_Get (rq_Header request) ''X-Balancer-CSRF'' \<noteq> ''1''
      then (writeJSON 403 (err ''management mutation requires X-Balancer-CSRF: 1''), s)
      else if mediaType (Header_Get (rq_Header request) ''Content-Type'') \<noteq> Some ''application/json''
      then (writeJSON 415 (err ''management mutation requires Content-Type: application/json''), s)
      else handler request s)"

definition shouldLogAccess :: "rat \<Rightarrow> go_string \<Rightarrow> go_string \<Rightarrow> int \<Rightarrow> rat \<Rightarrow> bool" where
  "shouldLogAccess random listener httpMethod status sampleRate =
     (if 400 \<le> status \<or> (listener = ''management'' \<and> httpMethod \<noteq> ''GET'' \<and> httpMethod \<noteq> ''HEAD'') then True
      else 1 \<le> sampleRate \<or> (0 < sampleRate \<and> random < sampleRate))"

definition accessLogPath :: "go_string \<Rightarrow> bool \<Rightarrow> go_string" where
  "accessLogPath path include = (if \<not> include then ''[redacted]'' else path)"

text \<open>The request ID of \<open>instrument\<close>; \<open>fresh\<close> is what \<open>newRequestID\<close> gives.\<close>

definition requestID :: "go_string \<Rightarrow> http_header \<Rightarrow> go_string" where
  "requestID fresh header =
     (let given = Header_Get header ''X-Request-ID'' in if given = [] \<or> 128 < length given then fresh else given)"

section \<open>Facts\<close>

text \<open>The recorder: heads that are passed on, and the status of the first final one.\<close>

definition final_head :: "'p write_op \<Rightarrow> bool" where
  "final_head w = (case w of WriteHead s \<Rightarrow> \<not> (100 \<le> s \<and> s < 200) | _ \<Rightarrow> False)"

lemma final_head_simps [simp]:
  "\<not> final_head (SetHeader n v)" "\<not> final_head (WriteBody b)" "final_head (WriteHead s) \<longleftrightarrow> \<not> (100 \<le> s \<and> s < 200)"
  by (simp_all add: final_head_def)

fun first_status :: "'p write_op list \<Rightarrow> int option" where
  "first_status [] = None"
| "first_status (SetHeader n v # ops) = first_status ops"
| "first_status (WriteHead s # ops) = (if 100 \<le> s \<and> s < 200 then first_status ops else Some s)"
| "first_status (WriteBody b # ops) = Some 200"

lemma recorder_done:
  "sr_wroteHeader r \<Longrightarrow> sr_status (fold sr_op ops r) = sr_status r
     \<and> filter final_head (sr_out (fold sr_op ops r)) = filter final_head (sr_out r)"
proof (induction ops arbitrary: r)
  case (Cons op ops)
  have "sr_wroteHeader (sr_op op r) \<and> sr_status (sr_op op r) = sr_status r
      \<and> filter final_head (sr_out (sr_op op r)) = filter final_head (sr_out r)"
    using Cons.prems by (cases op) (auto simp: sr_WriteHeader_def sr_Write_def)
  with Cons.IH [of "sr_op op r"] show ?case by simp
qed simp

lemma recorder_first:
  assumes "\<not> sr_wroteHeader r" and "filter final_head (sr_out r) = []"
  shows "case first_status ops of
      None \<Rightarrow> sr_status (fold sr_op ops r) = sr_status r \<and> filter final_head (sr_out (fold sr_op ops r)) = []
    | Some s \<Rightarrow> sr_status (fold sr_op ops r) = s \<and> filter final_head (sr_out (fold sr_op ops r)) = [WriteHead s]"
  using assms
proof (induction ops arbitrary: r)
  case (Cons op ops)
  note prems = Cons.prems
  show ?case
  proof (cases op)
    case (SetHeader n v)
    with Cons.IH [of "sr_op op r"] prems show ?thesis by (simp split: option.splits)
  next
    case (WriteHead s)
    show ?thesis
    proof (cases "100 \<le> s \<and> s < 200")
      case True
      with WriteHead Cons.IH [of "sr_op op r"] prems show ?thesis by (simp add: sr_WriteHeader_def split: option.splits)
    next
      case False
      with WriteHead recorder_done [of "sr_op op r" ops] prems show ?thesis
        by (auto simp: sr_WriteHeader_def)
    qed
  next
    case (WriteBody b)
    with recorder_done [of "sr_op op r" ops] prems show ?thesis
      by (simp add: sr_Write_def sr_WriteHeader_def)
  qed
qed simp

text \<open>The audit log is the end of the sequence of all events.\<close>

lemma append_event_run: "fold append_event es [] = drop (length es - 128) es"
proof (induction es rule: rev_induct)
  case (snoc e es)
  have "fold append_event (es @ [e]) [] = append_event e (drop (length es - 128) es)" by (simp add: snoc)
  also have "\<dots> = drop (length (es @ [e]) - 128) (es @ [e])"
    using Suc_diff_le [of 128 "length es"] by (cases "128 \<le> length es") (auto simp: append_event_def)
  finally show ?case .
qed simp

text \<open>The paths of the endpoint operation.\<close>

lemma Split_slashfree: "sep \<notin> set s \<Longrightarrow> Split s sep = [s]"
  by (induction s) auto

lemma endpoint_path_iff:
  "endpoint_path path \<longleftrightarrow> (\<exists>c e. c \<noteq> [] \<and> e \<noteq> [] \<and> CHR ''/'' \<notin> set c \<and> CHR ''/'' \<notin> set e
     \<and> Trim path (CHR ''/'') = ''api/v1/clusters/'' @ c @ ''/endpoints/'' @ e)" (is "_ = ?R")
proof
  assume "endpoint_path path"
  then obtain c e where s: "Split (Trim path (CHR ''/'')) (CHR ''/'') = [''api'', ''v1'', ''clusters'', c, ''endpoints'', e]"
      and ne: "c \<noteq> []" "e \<noteq> []"
    by (auto simp: endpoint_path_def split: list.splits)
  have "CHR ''/'' \<notin> set c" "CHR ''/'' \<notin> set e"
    using Split_no_sep [of _ "Trim path (CHR ''/'')" "CHR ''/''"] s by auto
  moreover have "Trim path (CHR ''/'') = ''api/v1/clusters/'' @ c @ ''/endpoints/'' @ e"
    using join_Split [of "CHR ''/''" "Trim path (CHR ''/'')"] unfolding s by simp
  ultimately show ?R using ne by blast
next
  assume ?R
  then obtain c e where ce: "c \<noteq> []" "e \<noteq> []" "CHR ''/'' \<notin> set c" "CHR ''/'' \<notin> set e"
      and t: "Trim path (CHR ''/'') = ''api'' @ CHR ''/'' # ''v1'' @ CHR ''/'' # ''clusters'' @ CHR ''/'' # c @ CHR ''/'' # ''endpoints'' @ CHR ''/'' # e"
    by auto
  have "Split (Trim path (CHR ''/'')) (CHR ''/'') = [''api'', ''v1'', ''clusters'', c, ''endpoints'', e]"
    unfolding t Split_append using ce by (simp add: Split_slashfree)
  then show "endpoint_path path" using ce by (simp add: endpoint_path_def)
qed

lemma Trim_prefix:
  assumes "t \<noteq> []" and "hd t \<noteq> c" and "last t \<noteq> c"
  shows "\<exists>r'. Trim (c # t @ r) c = t @ r'"
proof -
  have front: "dropWhile (\<lambda>x. x = c) (c # t @ r) = t @ r" using assms(1,2) by (cases t) auto
  have "\<exists>r'. rev (dropWhile (\<lambda>x. x = c) (rev (t @ r))) = t @ r'"
  proof (cases "\<forall>x \<in> set (rev r). x = c")
    case True
    then have "dropWhile (\<lambda>x. x = c) (rev r @ rev t) = dropWhile (\<lambda>x. x = c) (rev t)"
      by (simp add: dropWhile_append)
    also have "\<dots> = rev t" using assms(1,3) by (cases t rule: rev_cases) auto
    finally show ?thesis by simp
  next
    case False
    then show ?thesis using dropWhile_append1 [of _ "rev r" "\<lambda>x. x = c" "rev t"] by auto
  qed
  with front show ?thesis by (simp add: Trim_def)
qed

lemma endpoint_path_exclusive:
  assumes "endpoint_path path"
  shows "\<not> HasPrefix path ''/debug/''" "\<not> HasPrefix path ''/api/v1/discovery/''"
    "path \<notin> {''/metrics'', ''/healthz'', ''/readyz''}"
proof -
  from assms have t: "take 8 (Trim path (CHR ''/'')) = ''api/v1/c''" by (auto simp: endpoint_path_iff)
  show "\<not> HasPrefix path ''/debug/''"
  proof
    assume "HasPrefix path ''/debug/''"
    then obtain r where "path = CHR ''/'' # ''debug'' @ CHR ''/'' # r" by (auto simp: HasPrefix_iff)
    with Trim_prefix [of "''debug''" "CHR ''/''" "CHR ''/'' # r"] t show False by auto
  qed
  show "\<not> HasPrefix path ''/api/v1/discovery/''"
  proof
    assume "HasPrefix path ''/api/v1/discovery/''"
    then obtain r where "path = CHR ''/'' # ''api/v1/discovery'' @ CHR ''/'' # r" by (auto simp: HasPrefix_iff)
    with Trim_prefix [of "''api/v1/discovery''" "CHR ''/''" "CHR ''/'' # r"] t show False by auto
  qed
  show "path \<notin> {''/metrics'', ''/healthz'', ''/readyz''}" using t by (auto simp: Trim_def)
qed

lemma known_paths:
  assumes "path \<in> {''/metrics'', ''/healthz'', ''/readyz'', ''/api/v1/config/validate'', ''/api/v1/request''}"
  shows "\<not> HasPrefix path ''/debug/''" "\<not> HasPrefix path ''/api/v1/discovery/''"
  using assms by (auto simp: HasPrefix_def)

lemma role_mutations:
  assumes m: "m \<noteq> ''GET''" "m \<noteq> ''HEAD''"
  shows "authorized ''viewer'' m path \<longleftrightarrow> path = ''/api/v1/config/validate''"
    and "\<not> authorized ''metrics'' m path"
    and "authorized ''discovery'' m path \<longleftrightarrow> m = ''PUT'' \<and> HasPrefix path ''/api/v1/discovery/''"
    and "authorized ''operator'' m path \<longleftrightarrow> path = ''/api/v1/config/validate''
      \<or> m = ''POST'' \<and> path = ''/api/v1/request'' \<or> m = ''PATCH'' \<and> endpoint_path path"
proof -
  show "authorized ''viewer'' m path \<longleftrightarrow> path = ''/api/v1/config/validate''"
    by (cases "path = ''/api/v1/config/validate''") (simp_all add: authorized_def m HasPrefix_def)
  show "\<not> authorized ''metrics'' m path" "authorized ''discovery'' m path \<longleftrightarrow> m = ''PUT'' \<and> HasPrefix path ''/api/v1/discovery/''"
    by (simp_all add: authorized_def m)
  consider (v) "path = ''/api/v1/config/validate''" | (r) "path = ''/api/v1/request''" | (e) "endpoint_path path"
    | (n) "path \<noteq> ''/api/v1/config/validate''" "path \<noteq> ''/api/v1/request''" "\<not> endpoint_path path" by blast
  then show "authorized ''operator'' m path \<longleftrightarrow> path = ''/api/v1/config/validate''
      \<or> m = ''POST'' \<and> path = ''/api/v1/request'' \<or> m = ''PATCH'' \<and> endpoint_path path"
  proof cases
    case v
    then show ?thesis by (simp add: authorized_def m HasPrefix_def)
  next
    case r
    then show ?thesis by (simp add: authorized_def m HasPrefix_def)
  next
    case e
    then have "path \<noteq> ''/api/v1/config/validate''" "path \<noteq> ''/api/v1/request''"
      by (auto simp: endpoint_path_def Trim_def)
    with e endpoint_path_exclusive [OF e] show ?thesis by (simp add: authorized_def m)
  next
    case n
    then show ?thesis by (simp add: authorized_def m)
  qed
qed

lemma probe_paths:
  "path \<in> {''/metrics'', ''/healthz'', ''/readyz''} \<Longrightarrow> role \<notin> {''admin'', ''discovery''}
   \<Longrightarrow> authorized role m path \<longleftrightarrow> m = ''GET''"
  by (auto simp: authorized_def)

lemma role_order:
  "authorized ''metrics'' m path \<Longrightarrow> authorized ''viewer'' m path"
  "authorized ''viewer'' m path \<Longrightarrow> authorized ''operator'' m path"
proof -
  assume "authorized ''metrics'' m path"
  then have "path \<in> {''/metrics'', ''/healthz'', ''/readyz''} \<and> m = ''GET''"
    by (simp add: authorized_def split: if_splits)
  then show "authorized ''viewer'' m path" by (simp add: probe_paths)
next
  assume v: "authorized ''viewer'' m path"
  show "authorized ''operator'' m path"
  proof (cases "path \<in> {''/metrics'', ''/healthz'', ''/readyz''} \<or> (m \<noteq> ''GET'' \<and> m \<noteq> ''HEAD'')")
    case True
    with v show ?thesis by (auto simp: probe_paths role_mutations)
  next
    case False
    then have p: "path \<noteq> ''/metrics''" "path \<noteq> ''/healthz''" "path \<noteq> ''/readyz''" "m = ''GET'' \<or> m = ''HEAD''" by auto
    with v have "\<not> HasPrefix path ''/debug/''" "\<not> HasPrefix path ''/api/v1/discovery/''"
      by (simp_all add: authorized_def split: if_splits)
    with p show ?thesis by (simp add: authorized_def)
  qed
qed

lemma debug_admin_only:
  assumes "HasPrefix path ''/debug/''" and "role \<noteq> ''admin''"
  shows "\<not> authorized role m path"
proof -
  have "path \<noteq> ''/metrics''" "path \<noteq> ''/healthz''" "path \<noteq> ''/readyz''" "\<not> HasPrefix path ''/api/v1/discovery/''"
    using assms(1) known_paths [of path] by (auto simp: HasPrefix_iff)
  with assms show ?thesis by (simp add: authorized_def)
qed

section \<open>Properties\<close>

text \<open>The recorder keeps the status a client really gets: that of the first head that is not
  informational, 200 when the body comes first or nothing is written. At most one final head is passed on,
  so a handler that writes two heads still makes one response, and informational heads do not end it.\<close>

theorem recorded_status_exact:
  "sr_status (fold sr_op ops new_recorder) = (case first_status ops of None \<Rightarrow> 200 | Some s \<Rightarrow> s)
   \<and> filter final_head (sr_out (fold sr_op ops new_recorder)) =
       (case first_status ops of None \<Rightarrow> [] | Some s \<Rightarrow> [WriteHead s])"
  using recorder_first [of new_recorder ops] by (simp add: new_recorder_def split: option.splits)

text \<open>The audit log holds exactly the last 128 events in their order, whatever has been recorded before.\<close>

theorem audit_log_bounded:
  "fold append_event es [] = drop (length es - 128) es \<and> length (fold append_event es []) \<le> 128"
  by (simp add: append_event_run)

text \<open>What each role may do. Every role of a configuration but admin is confined: of requests that are
  neither GET nor HEAD, discovery may only deliver discovery results, viewer and operator may only validate a
  configuration, and operator may besides send a diagnostic request and change one endpoint, whose path then
  names a cluster and an endpoint; metrics may do nothing. The roles are ordered: what metrics may do viewer
  may, what viewer may do operator may, what operator may do admin may. Profiling is for admin only.\<close>

theorem role_matrix:
  assumes "role \<in> {''viewer'', ''operator'', ''metrics'', ''discovery''}"
  shows "(m \<notin> {''GET'', ''HEAD''} \<longrightarrow> (authorized role m path \<longleftrightarrow>
        role = ''discovery'' \<and> m = ''PUT'' \<and> HasPrefix path ''/api/v1/discovery/''
        \<or> role \<in> {''viewer'', ''operator''} \<and> path = ''/api/v1/config/validate''
        \<or> role = ''operator'' \<and> m = ''POST'' \<and> path = ''/api/v1/request''
        \<or> role = ''operator'' \<and> m = ''PATCH'' \<and>
            (\<exists>c e. c \<noteq> [] \<and> e \<noteq> [] \<and> CHR ''/'' \<notin> set c \<and> CHR ''/'' \<notin> set e
               \<and> Trim path (CHR ''/'') = ''api/v1/clusters/'' @ c @ ''/endpoints/'' @ e)))
    \<and> (authorized ''metrics'' m path \<longrightarrow> authorized ''viewer'' m path)
    \<and> (authorized ''viewer'' m path \<longrightarrow> authorized ''operator'' m path)
    \<and> (HasPrefix path ''/debug/'' \<longrightarrow> \<not> authorized role m path)
    \<and> authorized ''admin'' m path"
proof (intro conjI impI)
  assume "m \<notin> {''GET'', ''HEAD''}"
  then have m: "m \<noteq> ''GET''" "m \<noteq> ''HEAD''" by simp_all
  from assms consider "role = ''viewer''" | "role = ''operator''" | "role = ''metrics''" | "role = ''discovery''" by blast
  then show "authorized role m path \<longleftrightarrow>
        role = ''discovery'' \<and> m = ''PUT'' \<and> HasPrefix path ''/api/v1/discovery/''
        \<or> role \<in> {''viewer'', ''operator''} \<and> path = ''/api/v1/config/validate''
        \<or> role = ''operator'' \<and> m = ''POST'' \<and> path = ''/api/v1/request''
        \<or> role = ''operator'' \<and> m = ''PATCH'' \<and>
            (\<exists>c e. c \<noteq> [] \<and> e \<noteq> [] \<and> CHR ''/'' \<notin> set c \<and> CHR ''/'' \<notin> set e
               \<and> Trim path (CHR ''/'') = ''api/v1/clusters/'' @ c @ ''/endpoints/'' @ e)"
    unfolding endpoint_path_iff [symmetric] by cases (simp_all add: role_mutations [OF m])
next
  show "\<not> authorized role m path" if "HasPrefix path ''/debug/''"
    using assms that by (intro debug_admin_only) auto
qed (auto intro: role_order simp: authorized_def [of "''admin''"])

theorem role_matrix_witness:
  "authorized ''operator'' ''PATCH'' ''/api/v1/clusters/web/endpoints/a''
   \<and> \<not> authorized ''viewer'' ''PATCH'' ''/api/v1/clusters/web/endpoints/a''"
proof -
  have "Trim ''/api/v1/clusters/web/endpoints/a'' (CHR ''/'') = ''api/v1/clusters/'' @ ''web'' @ ''/endpoints/'' @ ''a''"
    by (simp add: Trim_def)
  then have "\<exists>c e. c \<noteq> [] \<and> e \<noteq> [] \<and> CHR ''/'' \<notin> set c \<and> CHR ''/'' \<notin> set e
      \<and> Trim ''/api/v1/clusters/web/endpoints/a'' (CHR ''/'') = ''api/v1/clusters/'' @ c @ ''/endpoints/'' @ e"
    by (intro exI [of _ "''web''"] exI [of _ "''a''"]) simp
  then show ?thesis
    using role_matrix [of "''operator''" "''PATCH''" "''/api/v1/clusters/web/endpoints/a''"]
      role_matrix [of "''viewer''" "''PATCH''" "''/api/v1/clusters/web/endpoints/a''"] by simp
qed

text \<open>The identity of a request: the first credential that matches, or the local one of an insecure
  server.\<close>

lemma identify_named:
  assumes "pl_Name (identify sha credentials insecure authorization tls) \<noteq> []"
  shows "(\<exists>c \<in> set credentials. credential_matches sha authorization tls c
      \<and> identify sha credentials insecure authorization tls = \<lparr>pl_Name = cr_Name c, pl_Role = cr_Role c\<rparr>)
    \<or> (insecure \<and> pl_Role (identify sha credentials insecure authorization tls) = ''admin'')"
  using assms by (auto simp: identify_def dest: first_match_SomeD split: option.splits if_splits)

lemma guard_changes:
  assumes "snd (managementMutationGuard mediaType err handler request s) \<noteq> s"
  shows "\<not> HasPrefix (u_Path (rq_URL request)) ''/api/'' \<or> rq_Method request \<in> {''GET'', ''HEAD''}
    \<or> (\<not> EqualFold (Header_Get (rq_Header request) ''Sec-Fetch-Site'') ''cross-site''
        \<and> Header_Get (rq_Header request) ''X-Balancer-CSRF'' = ''1''
        \<and> mediaType (Header_Get (rq_Header request) ''Content-Type'') = Some ''application/json'')"
  using assms by (auto simp: managementMutationGuard_def split: if_splits)

lemma authorize_changes:
  assumes "authorize sha fp eid now err credentials insecure tls handler request (audit, s) = (out, (audit', s'))"
    and "s' \<noteq> s"
  shows "let who = identify sha credentials insecure (Header_Get (rq_Header request) ''Authorization'') tls
    in pl_Name who \<noteq> [] \<and> authorized (pl_Role who) (rq_Method request) (u_Path (rq_URL request))
       \<and> snd (handler who request s) = s'"
  using assms by (auto simp: authorize_def Let_def split: if_splits prod.splits)


definition demo_put :: request where
  "demo_put = \<lparr>rq_Method = ''PUT'', rq_URL = (simple_url ''x'')\<lparr>u_Path := ''/api/v1/config''\<rparr>, rq_Host = ''x'', rq_RequestURI = [],
     rq_Header = [(''Authorization'', [''Bearer t'']), (''X-Balancer-Csrf'', [''1'']), (''Content-Type'', [''application/json''])],
     rq_Body = None, rq_GetBody = None, rq_ContentLength = 0, rq_TLS = False, rq_retryPolicy = None, rq_upstreamHost = None,
     rq_clientIP = [], rq_forwardedProto = [], rq_TransferEncoding = [], rq_listener = [], rq_diagnostics = False,
     rq_maxBody = None, rq_timeout = 0\<rparr>"

definition demo_admin :: Credential where
  "demo_admin = \<lparr>cr_Name = ''root'', cr_Role = ''admin'', cr_Token = Some (Inr ''t''), cr_CertificateSubject = []\<rparr>"

text \<open>A handler that counts its calls.\<close>

definition demo_mux :: "Principal \<Rightarrow> (go_string, nat) handler" where
  "demo_mux who request n = (writeJSON 200 ''ok'', n + 1)"

definition demo_call :: "go_string write_op list \<times> (AuditEvent list \<times> nat)" where
  "demo_call = authorize (\<lambda>s. s) (\<lambda>n. ''f'') ''id'' 5 (\<lambda>e. e) [demo_admin] False None
     (\<lambda>who. managementMutationGuard Some (\<lambda>e. e) (demo_mux who)) demo_put ([], 0)"


end
