(* ===== verification/Overload.thy ===== *)
theory Overload
  imports Go_Text
begin

text \<open>
  The limit on requests in progress (\<open>internal/server/overload.go\<close>). The semaphore is a buffered channel,
  the gauge an atomic counter; every channel and counter operation is a step of its own, and any number of
  requests interleave.
\<close>

section \<open>Definitions\<close>

text \<open>Where a request is in \<open>middleware\<close>: at the \<open>select\<close> of \<open>acquire\<close>; with its token sent, before
  \<open>recordInflight(1)\<close>; in the next handler; with its token received back in \<open>release\<close>, before
  \<open>recordInflight(-1)\<close>; done; answered 503.\<close>

datatype overload_pc = Queued | Taken | Inside | Returned | Finished | Refused

record overloadController =
  ov_capacity :: nat
  ov_semaphore :: nat
  ov_queueTimeout :: duration
  ov_inflight :: int
  ov_requests :: "overload_pc list"

definition newOverloadController :: "nat \<Rightarrow> duration \<Rightarrow> nat \<Rightarrow> overloadController" where
  "newOverloadController maxConcurrent queueTimeout requests =
     \<lparr>ov_capacity = maxConcurrent, ov_semaphore = 0, ov_queueTimeout = queueTimeout, ov_inflight = 0,
      ov_requests = replicate requests Queued\<rparr>"

definition recordInflight :: "int \<Rightarrow> overloadController \<Rightarrow> overloadController" where
  "recordInflight delta c = c\<lparr>ov_inflight := ov_inflight c + delta\<rparr>"

text \<open>What wakes the \<open>select\<close>: the scheduler tries the send; the timer fires; the context is done.\<close>

datatype wake = Try | Timer | ContextDone

text \<open>The \<open>select\<close> of \<open>acquire\<close>. Without a queue timeout the default branch refuses at once when the channel
  is full; with one the request stays queued until it can send, its timer fires or its context ends.\<close>

definition acquire :: "wake \<Rightarrow> overloadController \<Rightarrow> overload_pc \<times> overloadController" where
  "acquire why c =
     (if ov_queueTimeout c = 0 then
        (if ov_semaphore c < ov_capacity c then (Taken, c\<lparr>ov_semaphore := ov_semaphore c + 1\<rparr>) else (Refused, c))
      else case why of
        Try \<Rightarrow> if ov_semaphore c < ov_capacity c then (Taken, c\<lparr>ov_semaphore := ov_semaphore c + 1\<rparr>) else (Queued, c)
      | Timer \<Rightarrow> (Refused, c)
      | ContextDone \<Rightarrow> (Refused, c))"

text \<open>\<open>middleware\<close>, one operation at a time: \<open>release\<close> is deferred, so it runs however the handler ends; its
  receive finds a token, since the request has sent one.\<close>

fun middleware_op :: "wake \<Rightarrow> overload_pc \<Rightarrow> overloadController \<Rightarrow> overload_pc \<times> overloadController" where
  "middleware_op why Queued c = acquire why c"
| "middleware_op why Taken c = (Inside, recordInflight 1 c)"
| "middleware_op why Inside c =
     (if 0 < ov_semaphore c then (Returned, c\<lparr>ov_semaphore := ov_semaphore c - 1\<rparr>) else (Inside, c))"
| "middleware_op why Returned c = (Finished, recordInflight (-1) c)"
| "middleware_op why Finished c = (Finished, c)"
| "middleware_op why Refused c = (Refused, c)"

text \<open>The answer to a refused request.\<close>

definition overloaded_reply :: "http_header \<Rightarrow> int \<times> http_header \<times> go_string" where
  "overloaded_reply h = (503, Header_Set (Header_Set h ''Retry-After'' ''1'') ''X-Balancer-Overloaded'' ''true'',
     ''load balancer is overloaded'')"

record OverloadSnapshot =
  os_MaxConcurrentRequests :: int
  os_Inflight :: int
  os_QueueTimeout :: duration

definition overload_Snapshot :: "overloadController \<Rightarrow> OverloadSnapshot" where
  "overload_Snapshot c = \<lparr>os_MaxConcurrentRequests = int (ov_capacity c), os_Inflight = ov_inflight c,
     os_QueueTimeout = ov_queueTimeout c\<rparr>"

section \<open>Interleavings\<close>

text \<open>A step: request \<open>i\<close> does its next operation, or a new request arrives.\<close>

datatype overload_event = Run nat wake | Arrive

fun overload_step :: "overload_event \<Rightarrow> overloadController \<Rightarrow> overloadController" where
  "overload_step (Run i why) c =
     (if i < length (ov_requests c)
      then (let (pc, d) = middleware_op why (ov_requests c ! i) c in d\<lparr>ov_requests := (ov_requests c)[i := pc]\<rparr>)
      else c)"
| "overload_step Arrive c = c\<lparr>ov_requests := ov_requests c @ [Queued]\<rparr>"

inductive overload_reachable :: "nat \<Rightarrow> overloadController \<Rightarrow> bool" for maxConcurrent where
  start: "overload_reachable maxConcurrent (newOverloadController maxConcurrent queueTimeout n)"
| step: "overload_reachable maxConcurrent c \<Longrightarrow> overload_reachable maxConcurrent (overload_step event c)"

definition holds_token :: "overload_pc \<Rightarrow> bool" where
  "holds_token pc \<longleftrightarrow> pc \<in> {Taken, Inside}"

definition in_gauge :: "overload_pc \<Rightarrow> bool" where
  "in_gauge pc \<longleftrightarrow> pc \<in> {Inside, Returned}"

definition overload_inv :: "nat \<Rightarrow> overloadController \<Rightarrow> bool" where
  "overload_inv n c \<longleftrightarrow> ov_capacity c = n \<and> ov_semaphore c \<le> n
     \<and> int (ov_semaphore c) = int (length (filter holds_token (ov_requests c)))
     \<and> ov_inflight c = int (length (filter in_gauge (ov_requests c)))"

lemma filter_le_length_mono: "(\<And>x. P x \<Longrightarrow> Q x) \<Longrightarrow> length (filter P xs) \<le> length (filter Q xs)"
  by (induction xs) auto

lemma middleware_op_effect:
  assumes "middleware_op why pc c = (pc', d)" and "ov_semaphore c \<le> ov_capacity c"
    and "holds_token pc \<Longrightarrow> 0 < ov_semaphore c"
  shows "ov_capacity d = ov_capacity c" "ov_requests d = ov_requests c" "ov_semaphore d \<le> ov_capacity d"
    "ov_queueTimeout d = ov_queueTimeout c"
    "int (ov_semaphore d) = int (ov_semaphore c) - of_bool (holds_token pc) + of_bool (holds_token pc')"
    "ov_inflight d = ov_inflight c - of_bool (in_gauge pc) + of_bool (in_gauge pc')"
  using assms
  by (cases pc; auto simp: acquire_def holds_token_def in_gauge_def recordInflight_def split: if_splits wake.splits)+

lemma overload_step_inv: "overload_inv n c \<Longrightarrow> overload_inv n (overload_step event c)"
proof (cases event)
  case (Run i why)
  assume inv: "overload_inv n c"
  show ?thesis
  proof (cases "i < length (ov_requests c)")
    case True
    let ?pc = "ov_requests c ! i"
    obtain pc' d where op: "middleware_op why ?pc c = (pc', d)" by fastforce
    have tok: "0 < ov_semaphore c" if "holds_token ?pc"
    proof -
      have "?pc \<in> set (filter holds_token (ov_requests c))" using that True by simp
      then have "0 < length (filter holds_token (ov_requests c))" by (auto simp del: set_filter)
      with inv show ?thesis by (simp add: overload_inv_def)
    qed
    have "ov_semaphore c \<le> ov_capacity c" using inv by (simp add: overload_inv_def)
    note e = middleware_op_effect [OF op this tok]
    show ?thesis
      using inv e(3) by (simp add: Run op True overload_inv_def e(1,2,5,6) filter_update_length [OF True])
  next
    case False
    with inv Run show ?thesis by simp
  qed
qed (simp add: overload_inv_def holds_token_def in_gauge_def)

lemma overload_reachable_inv: "overload_reachable n c \<Longrightarrow> overload_inv n c"
proof (induction rule: overload_reachable.induct)
  case (start queueTimeout k)
  show ?case by (simp add: overload_inv_def newOverloadController_def holds_token_def in_gauge_def)
qed (rule overload_step_inv)

lemma overload_run_reachable: "overload_reachable n c \<Longrightarrow> overload_reachable n (fold overload_step events c)"
  by (induction events arbitrary: c) (auto intro: overload_reachable.step)

section \<open>Properties\<close>

text \<open>C15. However requests interleave, at most the configured number are in the handler at a time, the channel
  holds exactly one token per request that is past \<open>acquire\<close> and has not given it back, and the gauge counts
  the requests between its two updates. So once every request has finished or been refused, all slots are free
  again and the gauge is zero. Without a queue timeout a request is refused only when every slot is taken.\<close>

theorem overload_admission:
  assumes "overload_reachable n c"
  shows "length (filter (\<lambda>pc. pc = Inside) (ov_requests c)) \<le> n
    \<and> ov_semaphore c = length (filter holds_token (ov_requests c))
    \<and> os_Inflight (overload_Snapshot c) = int (length (filter in_gauge (ov_requests c)))
    \<and> (list_all (\<lambda>pc. pc \<in> {Queued, Finished, Refused}) (ov_requests c) \<longrightarrow> ov_semaphore c = 0 \<and> ov_inflight c = 0)
    \<and> (i < length (ov_requests c) \<and> ov_requests c ! i = Queued \<and> ov_queueTimeout c = 0
        \<and> ov_requests (overload_step (Run i why) c) ! i = Refused \<longrightarrow>
        length (filter holds_token (ov_requests c)) = n)"
proof (intro conjI impI)
  from overload_reachable_inv [OF assms] have inv: "ov_capacity c = n" "ov_semaphore c \<le> n"
      "ov_semaphore c = length (filter holds_token (ov_requests c))"
      "ov_inflight c = int (length (filter in_gauge (ov_requests c)))" by (auto simp: overload_inv_def)
  have "length (filter (\<lambda>pc. pc = Inside) (ov_requests c)) \<le> length (filter holds_token (ov_requests c))"
    by (rule filter_le_length_mono) (simp add: holds_token_def)
  with inv show "length (filter (\<lambda>pc. pc = Inside) (ov_requests c)) \<le> n" by simp
  show "ov_semaphore c = length (filter holds_token (ov_requests c))"
    "os_Inflight (overload_Snapshot c) = int (length (filter in_gauge (ov_requests c)))"
    using inv by (simp_all add: overload_Snapshot_def)
  {
    assume "list_all (\<lambda>pc. pc \<in> {Queued, Finished, Refused}) (ov_requests c)"
    then have "filter holds_token (ov_requests c) = []" "filter in_gauge (ov_requests c) = []"
      by (auto simp: filter_empty_conv list_all_iff holds_token_def in_gauge_def)
    with inv show "ov_semaphore c = 0" "ov_inflight c = 0" by simp_all
  }
  assume "i < length (ov_requests c) \<and> ov_requests c ! i = Queued \<and> ov_queueTimeout c = 0
    \<and> ov_requests (overload_step (Run i why) c) ! i = Refused"
  with inv show "length (filter holds_token (ov_requests c)) = n" by (auto simp: acquire_def split: if_splits)
qed

theorem overload_admission_witness:
  "length (filter (\<lambda>pc. pc = Inside)
     (ov_requests (fold overload_step [Run 0 Try, Run 0 Try, Run 1 Try] (newOverloadController 1 0 2)))) \<le> 1
   \<and> ov_requests (fold overload_step [Run 0 Try, Run 0 Try, Run 1 Try] (newOverloadController 1 0 2)) = [Inside, Refused]"
proof -
  let ?c = "fold overload_step [Run 0 Try, Run 0 Try, Run 1 Try] (newOverloadController 1 0 2)"
  have "overload_reachable 1 ?c" by (rule overload_run_reachable) (rule overload_reachable.start)
  moreover have "ov_requests ?c = [Inside, Refused]" by code_simp
  ultimately show ?thesis using overload_admission [of 1 ?c] by blast
qed

text \<open>The gauge is not bounded by the limit: a request gives its token back before it leaves the gauge, and
  another can enter in between.\<close>

lemma gauge_exceeds_limit:
  "ov_inflight (fold overload_step [Run 0 Try, Run 0 Try, Run 0 Try, Run 1 Try, Run 1 Try] (newOverloadController 1 0 2)) = 2"
  by code_simp

end
