(* ===== verification/Gateway_API.thy ===== *)
theory Gateway_API
  imports Engine_Theorems Management_Auth Overload
begin

text \<open>
  The management API of the gateway (\<open>internal/server/gateway_api.go\<close>): the handlers that read and change the
  engine and the limiter. A decoded request body is an argument, \<open>Inl\<close> with the error of decoding it; the client
  of a call is the record \<open>caller\<close>. An error of the engine is reported as a value, not as its text. Each handler gives what it writes and the server it leaves; \<open>None\<close> is a panic.
\<close>

section \<open>Data\<close>

text \<open>What is outside: the environment of the engine, \<open>net/netip\<close>, the rate-limit store, the text of a prefix and
  the statistics of the local store.\<close>

record 's api =
  ap_env :: env
  ap_netip :: netip_text
  ap_store :: "'s Store"
  ap_prefix :: "(Addr \<times> int) option \<Rightarrow> go_string"
  ap_local :: "'s TokenBucketLimiter \<Rightarrow> LocalStoreStats"

record caller =
  ca_principal :: Principal
  ca_remote :: go_string
  ca_header :: http_header
  ca_now :: instant

record 's apiServer =
  as_gateway :: "Engine option"
  as_limiter :: "'s TokenBucketLimiter"
  as_resolver :: "clientIPResolver option"
  as_overload :: overloadController
  as_runtimeMutations :: bool
  as_shuttingDown :: bool

record statusReport =
  st_runtimeMutations :: bool
  st_principal :: Principal
  st_gateway :: Status
  st_ready :: bool
  st_storage :: go_string
  st_storageHealthy :: bool
  st_degraded :: bool
  st_settings :: RuntimeSettings
  st_remaining :: "rat option"
  st_local :: LocalStoreStats
  st_overload :: OverloadSnapshot

datatype api_payload = Failure go_string | EngineFailure engine_error | Valid | Invalid go_string | Accepted | Report statusReport

record configUpdate =
  cu_Config :: GatewayConfig
  cu_ExpectedRevision :: uint64

record rollbackUpdate =
  ro_ExpectedRevision :: uint64
  ro_Revision :: uint64

record endpointUpdate =
  eu_Enabled :: "bool option"
  eu_Draining :: "bool option"

record rateLimitPatch =
  rp_Enabled :: "bool option"
  rp_Capacity :: "int option"
  rp_Refill :: "rat option"
  rp_FailureMode :: "go_string option"

text \<open>\<open>du_ObservedAt\<close> is \<open>None\<close> for the zero time.\<close>

record DiscoveryUpdate =
  du_Endpoints :: "GatewayEndpointConfig list"
  du_Settings :: GatewayDiscoveryConfig
  du_ObservedAt :: "instant option"
  du_ResourceVersion :: go_string
  du_Error :: go_string

type_synonym 's answer = "(api_payload write_op list \<times> 's apiServer) option"

definition answer :: "int \<Rightarrow> api_payload \<Rightarrow> 's apiServer \<Rightarrow> 's answer" where
  "answer status payload st = Some (writeJSON status payload, st)"

definition put_engine :: "Engine \<Rightarrow> 's apiServer \<Rightarrow> 's apiServer" where
  "put_engine e st = st\<lparr>as_gateway := Some e\<rparr>"

section \<open>Handlers\<close>

text \<open>\<open>requireGateway\<close> and \<open>requireRuntimeMutations\<close> guard a handler.\<close>

definition requireGateway :: "'s apiServer \<Rightarrow> (Engine \<Rightarrow> 's answer) \<Rightarrow> 's answer" where
  "requireGateway st continue =
     (case as_gateway st of
        None \<Rightarrow> answer 501 (Failure ''versioned gateway configuration is not enabled'') st
      | Some e \<Rightarrow> continue e)"

definition requireRuntimeMutations :: "'s apiServer \<Rightarrow> 's answer \<Rightarrow> 's answer" where
  "requireRuntimeMutations st continue =
     (if as_runtimeMutations st then continue
      else answer 403 (Failure ''runtime mutations are disabled; update the declarative configuration and roll out all replicas'') st)"

definition decoded :: "go_string + 'u \<Rightarrow> 's apiServer \<Rightarrow> ('u \<Rightarrow> 's answer) \<Rightarrow> 's answer" where
  "decoded body st continue = (case body of Inl err \<Rightarrow> answer 400 (Failure err) st | Inr u \<Rightarrow> continue u)"

definition caller_IP :: "'s api \<Rightarrow> caller \<Rightarrow> 's apiServer \<Rightarrow> go_string" where
  "caller_IP A c st = clientIP (ap_netip A) (as_resolver st) (ca_remote c) (ca_header c)"

definition handleGatewayStatus :: "'s api \<Rightarrow> caller \<Rightarrow> 's apiServer \<Rightarrow> 's answer" where
  "handleGatewayStatus A c st =
     requireGateway st (\<lambda>e.
       let l = as_limiter st; settings = tb_settings l;
           storageHealthy = (Limiter_Healthy (ap_store A) l = None);
           (gatewayReady, e) = (if as_shuttingDown st then (False, e) else Engine_Ready (ca_now c) e);
           ready = (gatewayReady \<and> (\<not> rs_Enabled settings \<or> rs_FailureMode settings \<noteq> ''fail-closed'' \<or> storageHealthy));
           role = pl_Role (ca_principal c)
       in case Limiter_Snapshot (ap_store A) (nt_ParseAddr (ap_netip A)) (ap_prefix A) l (caller_IP A c st) (ca_now c) of
            None \<Rightarrow> None
          | Some bucket \<Rightarrow>
              (case Engine_Status (ca_now c) e of
                 None \<Rightarrow> None
               | Some (status, e) \<Rightarrow>
                   answer 200 (Report \<lparr>
                     st_runtimeMutations = (as_runtimeMutations st \<and> (role = ''admin'' \<or> role = ''operator'')),
                     st_principal = ca_principal c, st_gateway = status, st_ready = ready, st_storage = st_Name (ap_store A),
                     st_storageHealthy = storageHealthy,
                     st_degraded = (rs_Enabled settings \<and> \<not> storageHealthy \<and> rs_FailureMode settings \<noteq> ''fail-closed''),
                     st_settings = settings,
                     st_remaining = (case bucket of Inl err \<Rightarrow> None | Inr b \<Rightarrow> Some (bs_Tokens b)),
                     st_local = ap_local A l, st_overload = overload_Snapshot (as_overload st)\<rparr>) (put_engine e st)))"

definition patched_settings :: "rateLimitPatch \<Rightarrow> RuntimeSettings \<Rightarrow> RuntimeSettings" where
  "patched_settings u s =
     s\<lparr>rs_Enabled := (case rp_Enabled u of None \<Rightarrow> rs_Enabled s | Some v \<Rightarrow> v),
       rs_Policy := (rs_Policy s)\<lparr>
         pol_Capacity := (case rp_Capacity u of None \<Rightarrow> pol_Capacity (rs_Policy s) | Some v \<Rightarrow> v),
         pol_RefillPerSecond := (case rp_Refill u of None \<Rightarrow> pol_RefillPerSecond (rs_Policy s) | Some v \<Rightarrow> v)\<rparr>,
       rs_FailureMode := (case rp_FailureMode u of None \<Rightarrow> rs_FailureMode s | Some v \<Rightarrow> v)\<rparr>"

definition handleGatewayRateLimit :: "'s api \<Rightarrow> caller \<Rightarrow> go_string + rateLimitPatch \<Rightarrow> 's apiServer \<Rightarrow> 's answer" where
  "handleGatewayRateLimit A c body st =
     requireGateway st (\<lambda>e. requireRuntimeMutations st (decoded body st (\<lambda>u.
       if rp_Enabled u = None \<and> rp_Capacity u = None \<and> rp_Refill u = None \<and> rp_FailureMode u = None
       then answer 400 (Failure ''provide at least one rate-limit setting'') st
       else case Reconfigure (as_limiter st) (patched_settings u (tb_settings (as_limiter st))) of
              (Some err, l) \<Rightarrow> answer 400 (Failure err) (st\<lparr>as_limiter := l\<rparr>)
            | (None, l) \<Rightarrow> handleGatewayStatus A c (st\<lparr>as_limiter := l\<rparr>))))"

definition handleGatewayRateLimitReset :: "'s api \<Rightarrow> caller \<Rightarrow> go_string + unit \<Rightarrow> 's apiServer \<Rightarrow> 's answer" where
  "handleGatewayRateLimitReset A c body st =
     requireGateway st (\<lambda>e. requireRuntimeMutations st (decoded body st (\<lambda>u.
       case Limiter_Reset (ap_store A) (nt_ParseAddr (ap_netip A)) (ap_prefix A) (as_limiter st) (caller_IP A c st)
              (pol_Capacity (rs_Policy (tb_settings (as_limiter st)))) (ca_now c) of
         None \<Rightarrow> None
       | Some (Inl err, l) \<Rightarrow> answer 503 (Failure ''could not reset client bucket'') (st\<lparr>as_limiter := l\<rparr>)
       | Some (Inr bucket, l) \<Rightarrow> handleGatewayStatus A c (st\<lparr>as_limiter := l\<rparr>))))"

definition handleGatewayValidate :: "'s api \<Rightarrow> go_string + configUpdate \<Rightarrow> 's apiServer \<Rightarrow> 's answer" where
  "handleGatewayValidate A body st =
     requireGateway st (\<lambda>e. decoded body st (\<lambda>u.
       case Engine_Validate (ap_env A) (Some (cu_Config u)) e of
         Some err \<Rightarrow> answer 400 (Invalid err) st
       | None \<Rightarrow> answer 200 Valid st))"

text \<open>\<open>expectRevision\<close> reads the status of the engine, which may panic and refills retry budgets.\<close>

definition expectRevision :: "uint64 \<Rightarrow> instant \<Rightarrow> Engine \<Rightarrow> 's apiServer \<Rightarrow> (Engine \<Rightarrow> 's answer) \<Rightarrow> 's answer" where
  "expectRevision expected now e st continue =
     (if expected = 0 then answer 409 (Failure ''configuration revision changed; refresh before applying'') st
      else case Engine_Status now e of
             None \<Rightarrow> None
           | Some (status, e) \<Rightarrow>
               if us_Revision status \<noteq> expected
               then answer 409 (Failure ''configuration revision changed; refresh before applying'') (put_engine e st)
               else continue e)"

definition change_status :: "engine_error \<Rightarrow> int" where
  "change_status err = (case err of ErrRevisionConflict expected current \<Rightarrow> 409 | _ \<Rightarrow> 400)"

text \<open>\<open>gateway.Config()\<close> is nil for a closed engine, and reading its listeners then panics.\<close>

definition handleGatewayApply :: "'s api \<Rightarrow> caller \<Rightarrow> go_string + configUpdate \<Rightarrow> 's apiServer \<Rightarrow> 's answer" where
  "handleGatewayApply A c body st =
     requireGateway st (\<lambda>e. requireRuntimeMutations st (decoded body st (\<lambda>u.
       expectRevision (cu_ExpectedRevision u) (ca_now c) e st (\<lambda>e.
         let new = ApplyDefaults (cu_Config u)
         in case Engine_Config e of
              None \<Rightarrow> None
            | Some current \<Rightarrow>
                if gg_Listeners current \<noteq> gg_Listeners new
                then answer 400 (Failure ''listener changes require a rolling restart'') (put_engine e st)
                else case ApplyIfRevision (ap_env A) (Some new) (cu_ExpectedRevision u) (ca_now c) e of
                       (Some err, e) \<Rightarrow> answer (change_status err) (EngineFailure err) (put_engine e st)
                     | (None, e) \<Rightarrow> handleGatewayStatus A c (put_engine e st)))))"

definition handleGatewayRollback :: "'s api \<Rightarrow> caller \<Rightarrow> go_string + rollbackUpdate \<Rightarrow> 's apiServer \<Rightarrow> 's answer" where
  "handleGatewayRollback A c body st =
     requireGateway st (\<lambda>e. requireRuntimeMutations st (decoded body st (\<lambda>u.
       expectRevision (ro_ExpectedRevision u) (ca_now c) e st (\<lambda>e.
         case (if ro_Revision u = 0
               then map_option (\<lambda>(status, e). (us_PreviousRevision status, e)) (Engine_Status (ca_now c) e)
               else Some (ro_Revision u, e)) of
           None \<Rightarrow> None
         | Some (revision, e) \<Rightarrow>
             (case RollbackIfRevision (ap_env A) revision (ro_ExpectedRevision u) (ca_now c) e of
                (Some err, e) \<Rightarrow> answer (change_status err) (EngineFailure err) (put_engine e st)
              | (None, e) \<Rightarrow> handleGatewayStatus A c (put_engine e st))))))"

definition endpoint_request_invalid :: "endpointUpdate \<Rightarrow> bool" where
  "endpoint_request_invalid u \<longleftrightarrow> (eu_Enabled u = None \<and> eu_Draining u = None) \<or> (eu_Enabled u \<noteq> None \<and> eu_Draining u \<noteq> None)
     \<or> eu_Draining u = Some False"

definition handleGatewayEndpoint ::
    "'s api \<Rightarrow> caller \<Rightarrow> go_string \<Rightarrow> go_string \<Rightarrow> go_string + endpointUpdate \<Rightarrow> 's apiServer \<Rightarrow> 's answer" where
  "handleGatewayEndpoint A c cluster endpointID body st =
     requireGateway st (\<lambda>e. requireRuntimeMutations st
       (let bad = answer 400 (Failure ''provide exactly enabled:true/false or draining:true; enabled:true explicitly resumes an endpoint'') st
        in case body of
             Inl err \<Rightarrow> bad
           | Inr u \<Rightarrow>
               if endpoint_request_invalid u then bad
               else case (if eu_Draining u = Some True then DrainEndpoint cluster endpointID e
                          else case eu_Enabled u of
                                 Some enabled \<Rightarrow> SetEndpoint cluster endpointID enabled e
                               | None \<Rightarrow> SetEndpoint cluster endpointID True e) of
                      (Some err, e) \<Rightarrow> answer 404 (EngineFailure err) (put_engine e st)
                    | (None, e) \<Rightarrow> handleGatewayStatus A c (put_engine e st)))"

text \<open>The loop of \<open>handleDiscoveryUpdate\<close> over the configured clusters.\<close>

definition discovery_source_changed :: "go_string \<Rightarrow> GatewayDiscoveryConfig \<Rightarrow> GatewayClusterConfig list \<Rightarrow> bool" where
  "discovery_source_changed cid settings cs =
     list_ex (\<lambda>k. gc_ID k = cid \<and> (gc_Discovery k \<noteq> settings \<or> gdc_Type (gc_Discovery k) = ''static'')) cs"

definition stale_observation :: "go_string \<Rightarrow> instant \<Rightarrow> ClusterStatus list \<Rightarrow> bool" where
  "stale_observation cid observedAt cs =
     list_ex (\<lambda>k. cs_ID k = cid \<and> (case ds_LastUpdate (cs_Discovery k) of None \<Rightarrow> False | Some t \<Rightarrow> observedAt < t)) cs"

definition handleDiscoveryUpdate ::
    "'s api \<Rightarrow> caller \<Rightarrow> go_string \<Rightarrow> go_string + DiscoveryUpdate \<Rightarrow> 's apiServer \<Rightarrow> 's answer" where
  "handleDiscoveryUpdate A c cid body st =
     requireGateway st (\<lambda>e. decoded body st (\<lambda>u.
       case Engine_Config e of
         None \<Rightarrow> None
       | Some config \<Rightarrow>
           if discovery_source_changed cid (du_Settings u) (gg_Clusters config)
           then answer 409 (Failure ''discovery source changed'') st
           else if cid \<notin> gc_ID ` set (gg_Clusters config) then answer 404 (Failure ''cluster not found'') st
           else case du_ObservedAt u of
             None \<Rightarrow> answer 400 (Failure ''invalid discovery observation timestamp'') st
           | Some observedAt \<Rightarrow>
               if ca_now c + 60 * second < observedAt
               then answer 400 (Failure ''invalid discovery observation timestamp'') st
               else case Engine_Status (ca_now c) e of
                 None \<Rightarrow> None
               | Some (status, e) \<Rightarrow>
                   if stale_observation cid observedAt (us_Clusters status)
                   then answer 409 (Failure ''stale discovery observation'') (put_engine e st)
                   else if du_Error u \<noteq> []
                   then (case MarkDiscoveryErrorForSource cid (Some (du_Error u)) True (du_Settings u) e of
                           (Some err, e) \<Rightarrow> answer 409 (EngineFailure err) (put_engine e st)
                         | (None, e) \<Rightarrow> answer 200 Accepted (put_engine e st))
                   else (case UpdateEndpointsForSource (ap_env A) cid (du_Endpoints u)
                                \<lparr>ds_Type = gdc_Type (du_Settings u), ds_LastUpdate = Some observedAt, ds_Stale = False, ds_Error = []\<rparr>
                                (du_Settings u) (ca_now c) e of
                           (Some err, e) \<Rightarrow> answer 400 (EngineFailure err) (put_engine e st)
                         | (None, e) \<Rightarrow> answer 200 Accepted (put_engine e st))))"

text \<open>\<open>ApplyGatewayConfig\<close>, called for a reload.\<close>

definition ApplyGatewayConfig :: "'s api \<Rightarrow> GatewayConfig option \<Rightarrow> instant \<Rightarrow> 's apiServer \<Rightarrow> (engine_error option \<times> 's apiServer) option" where
  "ApplyGatewayConfig A new now st =
     (case as_gateway st of
        None \<Rightarrow> Some (Some (EngineError ''gateway is not enabled''), st)
      | Some e \<Rightarrow>
          (case new of
             None \<Rightarrow> Some (Some (EngineError ''gateway configuration is required''), st)
           | Some g \<Rightarrow>
               (let g = ApplyDefaults g
                in case Engine_Config e of
                     None \<Rightarrow> None
                   | Some current \<Rightarrow>
                       if gg_Listeners current \<noteq> gg_Listeners g then Some (Some (EngineError ''listener changes require restart''), st)
                       else (case Apply (ap_env A) (Some g) now e of
                               (err, e) \<Rightarrow> Some (err, put_engine e st)))))"

section \<open>What the handlers do to the engine\<close>

lemma first_status_writeJSON [simp]: "first_status (writeJSON s p) = (if 100 \<le> s \<and> s < 200 then Some 200 else Some s)"
  by (simp add: writeJSON_def)

lemma change_status_not_ok [simp]: "change_status err \<noteq> 200" "\<not> (100 \<le> change_status err \<and> change_status err < 200)"
  by (cases err; simp add: change_status_def)+

lemma put_engine_simps [simp]:
  "as_gateway (put_engine e st) = Some e" "put_engine e (put_engine e' st) = put_engine e st"
  "as_runtimeMutations (put_engine e st) = as_runtimeMutations st" "as_limiter (put_engine e st) = as_limiter st"
  by (simp_all add: put_engine_def)

text \<open>Reading the status touches no published configuration, and the report never fails.\<close>

lemma Engine_Status_abs: "Engine_Status now e = Some (s, e') \<Longrightarrow> engine_abs e' = engine_abs e \<and> en_defaults e' = en_defaults e"
  using Engine_Status_same [of now e s e'] same_abs by (auto simp: engine_same_def)

lemma Engine_Ready_abs: "engine_abs (snd (Engine_Ready now e)) = engine_abs e"
  using Engine_Ready_same same_abs by blast

lemma status_handler:
  assumes "handleGatewayStatus A c st = Some (out, st')" and "as_gateway st = Some e"
  shows "\<exists>e'. st' = put_engine e' st \<and> engine_abs e' = engine_abs e \<and> first_status out = Some 200"
  using assms Engine_Ready_abs [of "ca_now c" e]
  by (auto simp: handleGatewayStatus_def requireGateway_def answer_def Let_def split_def
      split: option.splits if_splits prod.splits dest!: Engine_Status_abs)

lemma put_engine_self: "as_gateway st = Some e \<Longrightarrow> put_engine e st = st"
  by (cases st) (simp add: put_engine_def)

lemma Engine_Status_revision:
  assumes "Engine_Status now e = Some (s, e')" and "engine_ok parse e" and "us_Revision s \<noteq> 0"
  shows "us_Revision s = vs_revision (engine_abs e)"
  using assms by (auto simp: Engine_Status_def engine_abs_def engine_ok_def history_ok_def current_snapshot_def Let_def
      split: option.splits prod.splits)

text \<open>The outcomes of a guard: the engine is kept and the status is an error, or the rest of the handler runs.\<close>

definition kept :: "Engine \<Rightarrow> 's apiServer \<Rightarrow> api_payload write_op list \<Rightarrow> 's apiServer \<Rightarrow> bool" where
  "kept e st out st' \<longleftrightarrow> (\<exists>e'. st' = put_engine e' st \<and> engine_abs e' = engine_abs e \<and> first_status out \<noteq> Some 200)"

lemma kept_answer:
  assumes "answer s p st1 = Some (out, st')" and "s \<noteq> 200" "\<not> (100 \<le> s \<and> s < 200)"
    and "st1 = put_engine e' st" "engine_abs e' = engine_abs e"
  shows "kept e st out st'"
  using assms by (auto simp: kept_def answer_def)

lemma guarded_handler:
  assumes "requireGateway st (\<lambda>e. requireRuntimeMutations st (decoded body st (k e))) = Some (out, st')"
    and "as_gateway st = Some e"
  shows "kept e st out st' \<or> (as_runtimeMutations st \<and> (\<exists>u. body = Inr u \<and> k e u = Some (out, st')))"
  using assms put_engine_self [OF assms(2)]
  by (auto simp: requireGateway_def requireRuntimeMutations_def decoded_def split: if_splits sum.splits
      intro: kept_answer [where e' = e])

lemma expected_handler:
  assumes "expectRevision expected now e st k = Some (out, st')" and "as_gateway st = Some e" and "engine_ok parse e"
  shows "kept e st out st' \<or> (expected = vs_revision (engine_abs e) \<and> expected \<noteq> 0
    \<and> (\<exists>e'. engine_ok parse e' \<and> engine_abs e' = engine_abs e \<and> en_defaults e' = en_defaults e \<and> k e' = Some (out, st')))"
proof (cases "expected = 0")
  case True
  with assms put_engine_self [OF assms(2)] show ?thesis
    by (auto simp: expectRevision_def intro: kept_answer [where e' = e])
next
  case False
  with assms(1) obtain s e' where s: "Engine_Status now e = Some (s, e')"
    by (auto simp: expectRevision_def split: option.splits)
  note abs = Engine_Status_abs [OF s] and ok = same_engine_ok [OF Engine_Status_same [OF s] assms(3)]
  show ?thesis
  proof (cases "us_Revision s = expected")
    case True
    with Engine_Status_revision [OF s assms(3)] False assms(1) s abs ok show ?thesis
      by (auto simp: expectRevision_def)
  next
    case no: False
    with False assms(1) s abs show ?thesis by (auto simp: expectRevision_def intro: kept_answer [where e' = e'])
  qed
qed

lemma changed_handler:
  assumes "(case change of (Some err, e') \<Rightarrow> answer (change_status err) (EngineFailure err) (put_engine e' st)
      | (None, e') \<Rightarrow> handleGatewayStatus A c (put_engine e' st)) = Some (out, st')"
    and "fst change \<noteq> None \<longrightarrow> engine_abs (snd change) = engine_abs e"
  shows "kept e st out st' \<or> (fst change = None \<and> (\<exists>e'. st' = put_engine e' st \<and> engine_abs e' = engine_abs (snd change)
    \<and> first_status out = Some 200))"
proof (cases change)
  case (Pair err e1)
  show ?thesis
  proof (cases err)
    case None
    with assms(1) Pair have "handleGatewayStatus A c (put_engine e1 st) = Some (out, st')" by simp
    from status_handler [OF this] Pair None show ?thesis by auto
  next
    case (Some x)
    with assms Pair show ?thesis using kept_answer [OF _ change_status_not_ok refl, of x _ e1 st out st' e] by simp
  qed
qed

section \<open>Configuration changes\<close>

text \<open>Changing and rolling back publish exactly when they report success.\<close>

lemma apply_handler:
  assumes "handleGatewayApply A c body st = Some (out, st')" and "as_gateway st = Some e" and ok: "engine_ok parse e"
    and "ev_parse (ap_env A) = parse"
  shows "kept e st out st' \<or> (\<exists>u n e'. as_runtimeMutations st \<and> body = Inr u \<and> st' = put_engine e' st \<and> first_status out = Some 200
    \<and> cu_ExpectedRevision u = vs_revision (engine_abs e)
    \<and> gg_Listeners (ApplyDefaults (cu_Config u)) = gg_Listeners (hd (vs_log (engine_abs e)))
    \<and> normalizeConfig parse (en_defaults e) (Some (ApplyDefaults (cu_Config u))) = Inr n
    \<and> engine_abs e' = vs_publish (history_limit (en_defaults e) n) n (engine_abs e))"
proof (cases "kept e st out st'")
  case fails: False
  from guarded_handler [OF assms(1) [unfolded handleGatewayApply_def] assms(2)] fails
  obtain u where u: "as_runtimeMutations st" "body = Inr u"
    "expectRevision (cu_ExpectedRevision u) (ca_now c) e st (\<lambda>e.
         let new = ApplyDefaults (cu_Config u)
         in case Engine_Config e of
              None \<Rightarrow> None
            | Some current \<Rightarrow>
                if gg_Listeners current \<noteq> gg_Listeners new
                then answer 400 (Failure ''listener changes require a rolling restart'') (put_engine e st)
                else case ApplyIfRevision (ap_env A) (Some new) (cu_ExpectedRevision u) (ca_now c) e of
                       (Some err, e) \<Rightarrow> answer (change_status err) (EngineFailure err) (put_engine e st)
                     | (None, e) \<Rightarrow> handleGatewayStatus A c (put_engine e st)) = Some (out, st')"
    by blast
  let ?new = "ApplyDefaults (cu_Config u)"
  from expected_handler [OF u(3) assms(2) ok] fails obtain e1 current where
    rev: "cu_ExpectedRevision u = vs_revision (engine_abs e)" and
    e1: "engine_ok parse e1" "engine_abs e1 = engine_abs e" "en_defaults e1 = en_defaults e" and
    cur: "Engine_Config e1 = Some current" and
    rest: "(if gg_Listeners current \<noteq> gg_Listeners ?new
                then answer 400 (Failure ''listener changes require a rolling restart'') (put_engine e1 st)
                else case ApplyIfRevision (ap_env A) (Some ?new) (cu_ExpectedRevision u) (ca_now c) e1 of
                       (Some err, e) \<Rightarrow> answer (change_status err) (EngineFailure err) (put_engine e st)
                     | (None, e) \<Rightarrow> handleGatewayStatus A c (put_engine e st)) = Some (out, st')"
    by (auto simp: Let_def split: option.splits)
  have listeners: "gg_Listeners current = gg_Listeners ?new"
    using rest fails e1(2) by (auto intro: kept_answer [where e' = e1] split: if_splits)
  have newest: "current = hd (vs_log (engine_abs e))"
    using Engine_Config_abs [OF e1(1)] cur e1(2) by (simp split: if_splits)
  let ?change = "ApplyIfRevision (ap_env A) (Some ?new) (cu_ExpectedRevision u) (ca_now c) e1"
  have change: "case ?change of (Some err, e') \<Rightarrow> engine_abs e' = engine_abs e
      | (None, e') \<Rightarrow> \<exists>n. normalizeConfig parse (en_defaults e) (Some ?new) = Inr n
        \<and> engine_abs e' = vs_publish (history_limit (en_defaults e) n) n (engine_abs e)"
    using applyLocked_abs [OF e1(1) assms(4), of "Some ?new" "ca_now c"] e1(2,3)
    by (auto simp: ApplyIfRevision_def split: option.splits)
  have "fst ?change \<noteq> None \<longrightarrow> engine_abs (snd ?change) = engine_abs e" using change by (auto split: prod.splits)
  from changed_handler [OF rest [simplified listeners, simplified] this] fails
  obtain e' where "fst ?change = None" "st' = put_engine e' st" "engine_abs e' = engine_abs (snd ?change)" "first_status out = Some 200"
    by blast
  with change u rev listeners newest show ?thesis by (auto split: prod.splits)
qed simp

lemma rollback_handler:
  assumes "handleGatewayRollback A c body st = Some (out, st')" and "as_gateway st = Some e" and ok: "engine_ok parse e"
    and "ev_parse (ap_env A) = parse"
  shows "kept e st out st' \<or> (\<exists>u revision g e'. as_runtimeMutations st \<and> body = Inr u \<and> st' = put_engine e' st
    \<and> first_status out = Some 200
    \<and> ro_ExpectedRevision u = vs_revision (engine_abs e) \<and> (ro_Revision u \<noteq> 0 \<longrightarrow> revision = ro_Revision u)
    \<and> vs_lookup revision (engine_abs e) = Some g
    \<and> engine_abs e' = vs_publish (history_limit (en_defaults e) g) g (engine_abs e))"
proof (cases "kept e st out st'")
  case fails: False
  from guarded_handler [OF assms(1) [unfolded handleGatewayRollback_def] assms(2)] fails
  obtain u where u: "as_runtimeMutations st" "body = Inr u"
    "expectRevision (ro_ExpectedRevision u) (ca_now c) e st (\<lambda>e.
         case (if ro_Revision u = 0
               then map_option (\<lambda>(status, e). (us_PreviousRevision status, e)) (Engine_Status (ca_now c) e)
               else Some (ro_Revision u, e)) of
           None \<Rightarrow> None
         | Some (revision, e) \<Rightarrow>
             (case RollbackIfRevision (ap_env A) revision (ro_ExpectedRevision u) (ca_now c) e of
                (Some err, e) \<Rightarrow> answer (change_status err) (EngineFailure err) (put_engine e st)
              | (None, e) \<Rightarrow> handleGatewayStatus A c (put_engine e st))) = Some (out, st')"
    by blast
  from expected_handler [OF u(3) assms(2) ok] fails obtain e1 where
    rev: "ro_ExpectedRevision u = vs_revision (engine_abs e)" and
    e1: "engine_ok parse e1" "engine_abs e1 = engine_abs e" "en_defaults e1 = en_defaults e" and
    rest1: "(case (if ro_Revision u = 0
               then map_option (\<lambda>(status, e). (us_PreviousRevision status, e)) (Engine_Status (ca_now c) e1)
               else Some (ro_Revision u, e1)) of
           None \<Rightarrow> None
         | Some (revision, e) \<Rightarrow>
             (case RollbackIfRevision (ap_env A) revision (ro_ExpectedRevision u) (ca_now c) e of
                (Some err, e) \<Rightarrow> answer (change_status err) (EngineFailure err) (put_engine e st)
              | (None, e) \<Rightarrow> handleGatewayStatus A c (put_engine e st))) = Some (out, st')"
    by blast
  then obtain revision e2 where
    target: "(if ro_Revision u = 0
               then map_option (\<lambda>(status, e). (us_PreviousRevision status, e)) (Engine_Status (ca_now c) e1)
               else Some (ro_Revision u, e1)) = Some (revision, e2)"
    by (cases "if ro_Revision u = 0
               then map_option (\<lambda>(status, e). (us_PreviousRevision status, e)) (Engine_Status (ca_now c) e1)
               else Some (ro_Revision u, e1)") auto
  have e2: "engine_ok parse e2 \<and> engine_abs e2 = engine_abs e \<and> en_defaults e2 = en_defaults e"
  proof (cases "ro_Revision u = 0")
    case True
    with target obtain s where s: "Engine_Status (ca_now c) e1 = Some (s, e2)" by auto
    from Engine_Status_abs [OF s] same_engine_ok [OF Engine_Status_same [OF s] e1(1)] e1 show ?thesis by simp
  next
    case False
    with target e1 show ?thesis by simp
  qed
  let ?change = "RollbackIfRevision (ap_env A) revision (ro_ExpectedRevision u) (ca_now c) e2"
  have change: "case ?change of (Some err, e') \<Rightarrow> engine_abs e' = engine_abs e
      | (None, e') \<Rightarrow> \<exists>g. vs_lookup revision (engine_abs e) = Some g
        \<and> engine_abs e' = vs_publish (history_limit (en_defaults e) g) g (engine_abs e)"
    using Rollback_abs [OF conjunct1 [OF e2] assms(4), of revision "ca_now c"] e2
    by (auto simp: RollbackIfRevision_def Rollback_def split: option.splits if_splits)
  have "fst ?change \<noteq> None \<longrightarrow> engine_abs (snd ?change) = engine_abs e" using change by (auto split: prod.splits)
  from changed_handler [OF rest1 [unfolded target, simplified] this] fails
  obtain e' where "fst ?change = None" "st' = put_engine e' st" "engine_abs e' = engine_abs (snd ?change)" "first_status out = Some 200"
    by blast
  moreover have "ro_Revision u \<noteq> 0 \<longrightarrow> revision = ro_Revision u" using target by (auto split: if_splits)
  moreover from \<open>fst ?change = None\<close> change obtain g where "vs_lookup revision (engine_abs e) = Some g"
    "engine_abs (snd ?change) = vs_publish (history_limit (en_defaults e) g) g (engine_abs e)" by (auto split: prod.splits)
  ultimately show ?thesis using u(1,2) rev by metis
qed simp

text \<open>C10. A configuration change through the management API is published exactly when the client is told so. For
  an engine in any reachable state, a change or a rollback that answers 200 was allowed on this process, named the
  latest revision, and published one new version: the normal form of the configuration that was sent, whose
  listeners are those in use, or the logged configuration rolled back to. Every other answer leaves the published
  configurations, their revision and their history as they were, and the rest of the server is never touched.\<close>

theorem api_change_exact:
  assumes "engine_reachable parse e" and "ev_parse (ap_env A) = parse" and "as_gateway st = Some e"
  shows "(handleGatewayApply A c body st = Some (out, st') \<longrightarrow>
      (\<exists>e'. st' = st\<lparr>as_gateway := Some e'\<rparr>
        \<and> (if first_status out = Some 200
           then \<exists>u n. as_runtimeMutations st \<and> body = Inr u \<and> cu_ExpectedRevision u = vs_revision (engine_abs e)
             \<and> gg_Listeners (ApplyDefaults (cu_Config u)) = gg_Listeners (hd (vs_log (engine_abs e)))
             \<and> normalizeConfig parse (en_defaults e) (Some (ApplyDefaults (cu_Config u))) = Inr n
             \<and> engine_abs e' = vs_publish (history_limit (en_defaults e) n) n (engine_abs e)
           else engine_abs e' = engine_abs e)))
    \<and> (handleGatewayRollback A c rollback st = Some (out, st') \<longrightarrow>
      (\<exists>e'. st' = st\<lparr>as_gateway := Some e'\<rparr>
        \<and> (if first_status out = Some 200
           then \<exists>u revision g. as_runtimeMutations st \<and> rollback = Inr u \<and> ro_ExpectedRevision u = vs_revision (engine_abs e)
             \<and> (ro_Revision u \<noteq> 0 \<longrightarrow> revision = ro_Revision u) \<and> vs_lookup revision (engine_abs e) = Some g
             \<and> engine_abs e' = vs_publish (history_limit (en_defaults e) g) g (engine_abs e)
           else engine_abs e' = engine_abs e)))"
proof (intro conjI impI)
  note ok = engine_reachable_ok [OF assms(1)]
  assume "handleGatewayApply A c body st = Some (out, st')"
  from apply_handler [OF this assms(3) ok assms(2)]
  show "\<exists>e'. st' = st\<lparr>as_gateway := Some e'\<rparr>
        \<and> (if first_status out = Some 200
           then \<exists>u n. as_runtimeMutations st \<and> body = Inr u \<and> cu_ExpectedRevision u = vs_revision (engine_abs e)
             \<and> gg_Listeners (ApplyDefaults (cu_Config u)) = gg_Listeners (hd (vs_log (engine_abs e)))
             \<and> normalizeConfig parse (en_defaults e) (Some (ApplyDefaults (cu_Config u))) = Inr n
             \<and> engine_abs e' = vs_publish (history_limit (en_defaults e) n) n (engine_abs e)
           else engine_abs e' = engine_abs e)"
    unfolding kept_def put_engine_def by (elim disjE exE conjE) (simp only: simp_thms if_True if_False; blast)+
next
  note ok = engine_reachable_ok [OF assms(1)]
  assume "handleGatewayRollback A c rollback st = Some (out, st')"
  from rollback_handler [OF this assms(3) ok assms(2)]
  show "\<exists>e'. st' = st\<lparr>as_gateway := Some e'\<rparr>
        \<and> (if first_status out = Some 200
           then \<exists>u revision g. as_runtimeMutations st \<and> rollback = Inr u \<and> ro_ExpectedRevision u = vs_revision (engine_abs e)
             \<and> (ro_Revision u \<noteq> 0 \<longrightarrow> revision = ro_Revision u) \<and> vs_lookup revision (engine_abs e) = Some g
             \<and> engine_abs e' = vs_publish (history_limit (en_defaults e) g) g (engine_abs e)
           else engine_abs e' = engine_abs e)"
    unfolding kept_def put_engine_def by (elim disjE exE conjE) (simp only: simp_thms if_True if_False; blast)+
qed

text \<open>A retry budget is made with every cluster, so a current snapshot just built can be reported.\<close>

definition budgeted :: "(go_string \<times> runtimeCluster) list \<Rightarrow> bool" where
  "budgeted clusters \<longleftrightarrow> (\<forall>(cid, k) \<in> set clusters. rt_budget (rk_lb k) \<noteq> None)"

lemma buildCluster_budget: "buildCluster ev c previous now r = (Inr k, r') \<Longrightarrow> rt_budget (rk_lb k) \<noteq> None"
  by (auto simp: buildCluster_def build_reserved_def NewLoadBalancer_def UpdatePolicy_def Let_def
      split: option.splits sum.splits if_splits prod.splits)

lemma budgeted_update: "budgeted xs \<Longrightarrow> rt_budget (rk_lb k) \<noteq> None \<Longrightarrow> budgeted (AList.update cid k xs)"
  unfolding budgeted_def by (induction xs) auto

lemma build_clusters_budget:
  "build_clusters ev current now cs built r = (Inr clusters, r') \<Longrightarrow> budgeted built \<Longrightarrow> budgeted clusters"
proof (induction cs arbitrary: built r)
  case (Cons c cs)
  obtain out r1 where b: "buildCluster ev c (map_of current (gc_ID c)) now r = (out, r1)" by fastforce
  with Cons.prems(1) obtain k where k: "out = Inr k" by (cases out) (simp_all add: Let_def)
  have "rt_budget (rk_lb (inherit_status (map_of current (gc_ID c)) k)) \<noteq> None"
    using buildCluster_budget [OF b [unfolded k]] by (simp add: inherit_status_def split: option.split)
  with Cons b k show ?case using budgeted_update by (auto simp: Let_def)
qed simp

lemma buildSnapshot_budget: "buildSnapshot ev d config revision previous current now r = (Inr s, r') \<Longrightarrow> budgeted (ss_clusters s)"
  by (auto simp: buildSnapshot_def budgeted_def [of "[]"] split: sum.splits prod.splits dest!: build_clusters_budget)

lemma clusters_status_total: "budgeted clusters \<Longrightarrow> \<exists>out clusters'. clusters_status cs now w clusters = Some (out, clusters') \<and> budgeted clusters'"
proof (induction cs arbitrary: clusters)
  case (Cons c cs)
  show ?case
  proof (cases "map_of clusters (gc_ID c)")
    case (Some k)
    then have "rt_budget (rk_lb k) \<noteq> None" using Cons.prems by (auto simp: budgeted_def dest: map_of_SomeD)
    then obtain s k' where k': "cluster_status c now w k = Some (s, k')" "rt_budget (rk_lb k') \<noteq> None"
      by (auto simp: cluster_status_def lb_RetryBudget_def Let_def split_def)
    from Cons.IH [OF budgeted_update [OF Cons.prems k'(2)]] k' Some show ?thesis by fastforce
  qed (use Cons in simp)
qed simp

definition current_budgeted :: "Engine \<Rightarrow> bool" where
  "current_budgeted e \<longleftrightarrow> (case en_current e of None \<Rightarrow> True | Some i \<Rightarrow> i < length (en_snapshots e) \<and> budgeted (ss_clusters (en_snapshots e ! i)))"

lemma Engine_Status_total:
  assumes "current_budgeted e"
  shows "\<exists>s e'. Engine_Status now e = Some (s, e') \<and> current_budgeted e'"
proof (cases "en_current e")
  case (Some i)
  with assms have i: "i < length (en_snapshots e)" "budgeted (ss_clusters (en_snapshots e ! i))" by (simp_all add: current_budgeted_def)
  from clusters_status_total [OF i(2), of "gg_Clusters (ss_config (en_snapshots e ! i))" now "rg_world (en_states e)"] Some i(1)
  show ?thesis by (auto simp: Engine_Status_def current_budgeted_def Let_def)
qed (simp add: Engine_Status_def current_budgeted_def)

lemma Engine_Ready_budgeted: "current_budgeted (snd (Engine_Ready now e)) \<longleftrightarrow> current_budgeted e"
  by (simp add: Engine_Ready_def current_budgeted_def split_def Let_def split: option.split)

lemma applied_budgeted:
  assumes "engine_ok parse e" and "ev_parse ev = parse" and "applyLocked ev config now e = (None, e')"
  shows "current_budgeted e'"
proof -
  have open_e: "\<not> en_closed e" using assms(3) by (auto simp: applyLocked_def)
  with assms(1) obtain i where cur: "en_current e = Some i" "i < length (en_snapshots e)"
    by (cases "en_current e") (auto simp: engine_ok_def life_ok_def)
  let ?prev = "case current_snapshot e of None \<Rightarrow> 0 | Some s \<Rightarrow> ss_revision s"
  from open_e assms(3) obtain s r where b: "buildSnapshot ev (en_defaults e) config (en_nextRevision e + 1) ?prev
      (current_snapshot e) now (en_states e) = (Inr s, r)"
    and e': "e' = retire_at i (install s now (e\<lparr>en_states := r\<rparr>))"
    by (auto simp: applyLocked_def Let_def cur split: sum.splits prod.splits if_splits)
  have "(en_snapshots e')!(length (en_snapshots e)) = s" "length (en_snapshots e') = Suc (length (en_snapshots e))"
    "en_current e' = Some (length (en_snapshots e))"
    using cur by (simp_all add: e' retire_at_def split_def Let_def nth_append)
  with buildSnapshot_budget [OF b] show ?thesis by (simp add: current_budgeted_def)
qed

section \<open>An example server\<close>

definition demo_api :: "unit api" where
  "demo_api = \<lparr>ap_env = demo_env, ap_netip = demo_netip,
     ap_store = \<lparr>st_Name = ''none'', st_Take = (\<lambda>s k p t. None), st_Peek = (\<lambda>s k p t. None), st_Reset = (\<lambda>s k p t. None),
       st_Healthy = (\<lambda>s. None)\<rparr>,
     ap_prefix = (\<lambda>p. []), ap_local = LocalStats_remote\<rparr>"

definition demo_caller :: caller where
  "demo_caller = \<lparr>ca_principal = \<lparr>pl_Name = ''root'', pl_Role = ''admin''\<rparr>, ca_remote = ''192.0.2.1'', ca_header = [], ca_now = 5\<rparr>"

definition demo_server :: "unit apiServer" where
  "demo_server = \<lparr>as_gateway = Some demo_engine,
     as_limiter = \<lparr>tb_primary = (), tb_fallback = NewLocalStore 4, tb_settings = closed_settings\<lparr>rs_Enabled := False\<rparr>\<rparr>,
     as_resolver = None, as_overload = newOverloadController 4 second 0, as_runtimeMutations = True, as_shuttingDown = False\<rparr>"

definition demo_update :: configUpdate where
  "demo_update = \<lparr>cu_Config = demo_gateway, cu_ExpectedRevision = 1\<rparr>"

lemma demo_update_ok:
  "gg_Listeners demo_normal = gg_Listeners (ApplyDefaults demo_gateway)"
  "normalizeConfig simple_parse demo_defaults (Some (ApplyDefaults demo_gateway)) = Inr demo_normal"
  by code_simp+

lemma demo_budgeted: "current_budgeted demo_engine"
proof -
  obtain s r where b: "buildSnapshot demo_env demo_defaults (Some demo_gateway) 1 0 None 0 (NewBackendStateRegistry empty_world)
      = (Inr s, r)"
    using demo_builds [OF demo_normalized, of 1 0 None 0 "NewBackendStateRegistry empty_world"] by blast
  have e: "demo_engine = install s 0 \<lparr>en_defaults = demo_defaults, en_states = r, en_snapshots = [],
     en_current = None, en_closed = False, en_nextRevision = 1, en_history = Map.empty, en_order = [], en_lastError = [],
     en_stats = zero_stats\<rparr>"
    using demo_engine_new b by (simp add: New_def demo_env_def)
  have "en_snapshots demo_engine = [s]" by (simp add: e)
  with buildSnapshot_budget [OF b] show ?thesis by (simp add: current_budgeted_def demo_fields)
qed

text \<open>A status handler of the example never panics.\<close>

lemma demo_status:
  assumes "current_budgeted e"
  shows "\<exists>out st'. handleGatewayStatus demo_api demo_caller (put_engine e demo_server) = Some (out, st')"
proof -
  obtain g e1 where r: "Engine_Ready 5 e = (g, e1)" by fastforce
  then have "current_budgeted e1" using Engine_Ready_budgeted [of 5 e] assms by simp
  then obtain s e2 where "Engine_Status 5 e1 = Some (s, e2)" using Engine_Status_total by blast
  with r show ?thesis
    by (simp add: handleGatewayStatus_def requireGateway_def answer_def Let_def split_def demo_caller_def demo_server_def
        put_engine_def Limiter_Snapshot_def closed_settings_def)
qed

lemma demo_handler: "\<exists>out st'. handleGatewayApply demo_api demo_caller (Inr demo_update) demo_server = Some (out, st') \<and> first_status out = Some 200"
proof -
  obtain s e1 where s: "Engine_Status 5 demo_engine = Some (s, e1)" using Engine_Status_total [OF demo_budgeted] by blast
  note same = Engine_Status_same [OF s]
  have ok: "engine_ok simple_parse e1" by (rule same_engine_ok [OF same engine_reachable_ok [OF demo_reachable]])
  have f: "en_closed e1 = False" "en_nextRevision e1 = 1" "en_current e1 = Some 0" "en_defaults e1 = demo_defaults"
    using same by (simp_all add: engine_same_def demo_fields)
  have rev: "us_Revision s = 1"
    using s by (auto simp: Engine_Status_def demo_fields Let_def split: option.splits)
  have cfg: "ss_config (en_snapshots e1 ! 0) = demo_normal" "ss_revision (en_snapshots e1 ! 0) = 1"
    using engine_same_snapshot [OF same, of 0] by (simp_all add: demo_fields snapshot_same_def)
  have "cloneConfig demo_normal = demo_normal" by code_simp
  then have config: "Engine_Config e1 = Some demo_normal" by (simp add: Engine_Config_def current_snapshot_def f cfg)
  obtain e2 where ap: "applyLocked demo_env (Some (ApplyDefaults demo_gateway)) 5 e1 = (None, e2)"
    using demo_builds [OF demo_update_ok(2), of 2 1 "Some (en_snapshots e1 ! 0)" 5 "en_states e1"]
    by (auto simp: applyLocked_def f cfg current_snapshot_def demo_env_def Let_def)
  have "current_budgeted e2" by (rule applied_budgeted [OF ok _ ap]) (simp add: demo_env_def)
  then obtain out st' where st: "handleGatewayStatus demo_api demo_caller (put_engine e2 demo_server) = Some (out, st')"
    using demo_status by blast
  have "ApplyIfRevision demo_env (Some (ApplyDefaults demo_gateway)) 1 5 e1 = (None, e2)"
    by (simp add: ApplyIfRevision_def revision_conflict_def current_snapshot_def f cfg ap)
  with s rev config demo_update_ok(1) st
  have "handleGatewayApply demo_api demo_caller (Inr demo_update) demo_server = Some (out, st')"
    by (simp add: handleGatewayApply_def requireGateway_def requireRuntimeMutations_def decoded_def expectRevision_def
        demo_update_def demo_server_def demo_caller_def demo_api_def Let_def)
  with status_handler [OF st] show ?thesis by auto
qed

theorem api_change_exact_witness:
  "\<exists>out e'. handleGatewayApply demo_api demo_caller (Inr demo_update) demo_server = Some (out, demo_server\<lparr>as_gateway := Some e'\<rparr>)
     \<and> first_status out = Some 200
     \<and> engine_abs e' = vs_publish (history_limit demo_defaults demo_normal) demo_normal (engine_abs demo_engine)"
proof -
  obtain out st' where h: "handleGatewayApply demo_api demo_caller (Inr demo_update) demo_server = Some (out, st')"
    "first_status out = Some 200" using demo_handler by blast
  have "ev_parse (ap_env demo_api) = simple_parse" "as_gateway demo_server = Some demo_engine"
    by (simp_all add: demo_api_def demo_env_def demo_server_def)
  from api_change_exact [OF demo_reachable this, of demo_caller "Inr demo_update" out st'] h
  obtain e' u n where "st' = demo_server\<lparr>as_gateway := Some e'\<rparr>" "Inr demo_update = (Inr u :: go_string + configUpdate)"
    "normalizeConfig simple_parse demo_defaults (Some (ApplyDefaults (cu_Config u))) = Inr n"
    "engine_abs e' = vs_publish (history_limit demo_defaults n) n (engine_abs demo_engine)"
    by (simp add: demo_fields) blast
  with h demo_update_ok(2) show ?thesis by (auto simp: demo_update_def)
qed

end
