(* ===== verification/Discovery.thy ===== *)
theory Discovery
  imports Gateway_API
begin

text \<open>
  Endpoint discovery: what DNS and the Kubernetes API are turned into (\<open>internal/discovery\<close>), the workers of the
  gateway that follow its configuration (\<open>cmd/balancer/discovery.go\<close>), and the controller that delivers
  observations to replicas (\<open>cmd/balancer/controller.go\<close>). The replies of DNS and of the API, and what
  \<open>net.ParseIP\<close> accepts, are arguments.
\<close>

section \<open>Endpoints of a lookup\<close>

definition JoinHostPort :: "go_string \<Rightarrow> go_string \<Rightarrow> go_string" where
  "JoinHostPort host port = (if ContainsChar host (CHR '':'') then ''['' @ host @ '']:'' @ port else host @ '':'' @ port)"

text \<open>The order of strings by their bytes, and of endpoints by their ID. \<open>sort.Slice\<close> need not be stable, but
  the IDs it sorts here are distinct.\<close>

fun string_before :: "go_string \<Rightarrow> go_string \<Rightarrow> bool" where
  "string_before xs [] = False"
| "string_before [] (y # ys) = True"
| "string_before (x # xs) (y # ys) = ((of_char x :: nat) < of_char y \<or> (x = y \<and> string_before xs ys))"

definition endpoint_before :: "GatewayEndpointConfig \<Rightarrow> GatewayEndpointConfig \<Rightarrow> bool" where
  "endpoint_before a b = string_before (ge_ID a) (ge_ID b)"

record Result =
  re_Endpoints :: "GatewayEndpointConfig list"
  re_ResourceVersion :: go_string
  re_ObservedAt :: instant
  re_Err :: "go_string option"

definition discovered :: "go_string \<Rightarrow> go_string \<Rightarrow> GatewayEndpointConfig" where
  "discovered scheme host = \<lparr>ge_ID = host, ge_URL = scheme @ ''://'' @ host, ge_Weight = 1, ge_Disabled = False\<rparr>"

text \<open>One turn of the loops over addresses: a host that was seen is skipped.\<close>

definition add_host ::
    "go_string \<Rightarrow> go_string \<Rightarrow> go_string list \<times> GatewayEndpointConfig list \<Rightarrow> go_string list \<times> GatewayEndpointConfig list" where
  "add_host scheme host acc =
     (case acc of (seen, result) \<Rightarrow>
        if host \<in> set seen then (seen, result) else (host # seen, result @ [discovered scheme host]))"

definition default_scheme :: "GatewayDiscoveryConfig \<Rightarrow> go_string" where
  "default_scheme settings = (if gdc_Scheme settings = [] then ''http'' else gdc_Scheme settings)"

definition default_port :: "GatewayDiscoveryConfig \<Rightarrow> int" where
  "default_port settings =
     (if gdc_Port settings = 0 then (if default_scheme settings = ''https'' then 443 else 80) else gdc_Port settings)"

text \<open>The observation of one DNS lookup in \<open>Run\<close>; \<open>addresses\<close> are the resolved ones as text.\<close>

definition dns_result :: "GatewayDiscoveryConfig \<Rightarrow> go_string + go_string list \<Rightarrow> instant \<Rightarrow> Result" where
  "dns_result settings lookup now =
     (case lookup of
        Inl err \<Rightarrow> \<lparr>re_Endpoints = [], re_ResourceVersion = [], re_ObservedAt = now, re_Err = Some err\<rparr>
      | Inr addresses \<Rightarrow>
          (let port = Itoa (default_port settings);
               endpoints = snd (fold (\<lambda>a. add_host (default_scheme settings) (JoinHostPort a port)) addresses ([], []))
           in \<lparr>re_Endpoints = SliceStable endpoint_before endpoints, re_ResourceVersion = [], re_ObservedAt = now,
               re_Err = (if endpoints = [] then Some ''DNS returned no addresses'' else None)\<rparr>))"

definition dns_interval :: "GatewayDiscoveryConfig \<Rightarrow> duration" where
  "dns_interval settings = (if gdc_RefreshInterval settings \<le> 0 then 10 * second else gdc_RefreshInterval settings)"

section \<open>Kubernetes\<close>

record sliceEndpoint =
  se_Addresses :: "go_string list"
  se_Ready :: "bool option"
  se_Serving :: "bool option"
  se_Terminating :: "bool option"

record endpointSlice =
  es_Name :: go_string
  es_ResourceVersion :: go_string
  es_AddressType :: go_string
  es_Endpoints :: "sliceEndpoint list"

type_synonym slices = "(go_string \<times> endpointSlice) list"

definition skipped :: "sliceEndpoint \<Rightarrow> bool" where
  "skipped e \<longleftrightarrow> se_Ready e = Some False \<or> se_Serving e = Some False \<or> se_Terminating e = Some True"

text \<open>The addresses of a slice that \<open>collectEndpoints\<close> uses; \<open>ip\<close> is the success of \<open>net.ParseIP\<close>.\<close>

definition slice_addresses :: "(go_string \<Rightarrow> bool) \<Rightarrow> GatewayDiscoveryConfig \<Rightarrow> endpointSlice \<Rightarrow> go_string list" where
  "slice_addresses ip settings s =
     (if es_AddressType s \<noteq> ''IPv4'' \<and> es_AddressType s \<noteq> ''IPv6'' then []
      else if gdc_Port settings < 1 \<or> gdc_Port settings > 65535 then []
      else concat (map (\<lambda>e. if skipped e then [] else filter ip (se_Addresses e)) (es_Endpoints s)))"

text \<open>The map of slices is ranged over in the order of the list.\<close>

definition collectEndpoints :: "(go_string \<Rightarrow> bool) \<Rightarrow> slices \<Rightarrow> GatewayDiscoveryConfig \<Rightarrow> GatewayEndpointConfig list" where
  "collectEndpoints ip slices settings =
     SliceStable endpoint_before
       (snd (fold (\<lambda>a. add_host (default_scheme settings) (JoinHostPort a (Itoa (gdc_Port settings))))
          (concat (map (\<lambda>(name, s). slice_addresses ip settings s) slices)) ([], [])))"

record kubeClient =
  kc_base :: go_string
  kc_path :: go_string
  kc_tokenFile :: go_string

text \<open>\<open>strings.TrimRight\<close> with one character; \<open>readCA\<close> reads a file and says whether it holds a certificate, and
  \<open>escape\<close> is \<open>url.PathEscape\<close>.\<close>

definition TrimRight :: "go_string \<Rightarrow> char \<Rightarrow> go_string" where
  "TrimRight s c = rev (dropWhile (\<lambda>d. d = c) (rev s))"

definition newKubeClient ::
    "url_parser \<Rightarrow> (go_string \<Rightarrow> go_string + bool) \<Rightarrow> (go_string \<Rightarrow> go_string) \<Rightarrow> GatewayDiscoveryConfig \<Rightarrow> go_string + kubeClient" where
  "newKubeClient parse readCA escape settings =
     (let base = (if gdc_APIServer settings = [] then ''https://kubernetes.default.svc'' else gdc_APIServer settings) in
      case parse base of
        None \<Rightarrow> Inl ''kubernetes API must use HTTPS without URL credentials''
      | Some u \<Rightarrow>
          if u_Scheme u \<noteq> ''https'' \<or> u_Host u = [] \<or> u_User u \<noteq> None \<or> u_RawQuery u \<noteq> []
          then Inl ''kubernetes API must use HTTPS without URL credentials''
          else
            (let caFile = (if gdc_CAFile settings = [] then ''/var/run/secrets/kubernetes.io/serviceaccount/ca.crt''
                           else gdc_CAFile settings) in
             case readCA caFile of
               Inl err \<Rightarrow> Inl (''read Kubernetes CA: '' @ err)
             | Inr False \<Rightarrow> Inl ''invalid Kubernetes CA''
             | Inr True \<Rightarrow> Inr \<lparr>kc_base = TrimRight base (CHR ''/''),
                 kc_path = ''/apis/discovery.k8s.io/v1/namespaces/'' @ escape (gdc_Namespace settings) @ ''/endpointslices'',
                 kc_tokenFile = (if gdc_TokenFile settings = [] then ''/var/run/secrets/kubernetes.io/serviceaccount/token''
                                 else gdc_TokenFile settings)\<rparr>))"

record kube_page =
  pg_Items :: "endpointSlice list"
  pg_ResourceVersion :: go_string
  pg_Continue :: go_string

text \<open>The loop of \<open>list\<close> on the replies to its requests in turn; \<open>None\<close> is a reply still to come.\<close>

fun list_slices :: "slices \<Rightarrow> (go_string + kube_page) list \<Rightarrow> (go_string + slices \<times> go_string) option" where
  "list_slices slices [] = None"
| "list_slices slices (Inl err # replies) = Some (Inl err)"
| "list_slices slices (Inr page # replies) =
     (let slices = fold (\<lambda>s. AList.update (es_Name s) s) (pg_Items page) slices
      in if pg_Continue page = [] then Some (Inr (slices, pg_ResourceVersion page)) else list_slices slices replies)"

text \<open>What the decoder of a watch gives: an event with the object decoded, or the end of the stream.\<close>

datatype watch_item =
    Event go_string "go_string + endpointSlice" instant
  | StreamEnd duration
  | StreamError go_string

definition known_event :: "go_string \<Rightarrow> bool" where
  "known_event kind \<longleftrightarrow> kind = ''ADDED'' \<or> kind = ''MODIFIED'' \<or> kind = ''DELETED'' \<or> kind = ''BOOKMARK''"

definition apply_event :: "go_string \<Rightarrow> endpointSlice \<Rightarrow> slices \<Rightarrow> slices" where
  "apply_event kind s slices =
     (if kind = ''ADDED'' \<or> kind = ''MODIFIED'' then AList.update (es_Name s) s slices
      else if kind = ''DELETED'' then AList.delete (es_Name s) slices
      else slices)"

text \<open>The loop of \<open>watchWithHealth\<close>: what it emits and, once it has returned, whether it was healthy and its
  error. \<open>StreamEnd\<close> carries the time since the start.\<close>

fun watch_loop ::
    "(slices \<Rightarrow> GatewayEndpointConfig list) \<Rightarrow> bool \<Rightarrow> go_string \<Rightarrow> slices \<Rightarrow> watch_item list
     \<Rightarrow> Result list \<times> (bool \<times> go_string option) option" where
  "watch_loop collect healthy version slices [] = ([], None)"
| "watch_loop collect healthy version slices (StreamEnd elapsed # items) = ([], Some (healthy \<or> elapsed \<ge> 5 * second, None))"
| "watch_loop collect healthy version slices (StreamError err # items) = ([], Some (healthy, Some err))"
| "watch_loop collect healthy version slices (Event kind object now # items) =
     (if kind = ''ERROR'' then ([], Some (healthy, Some ''endpoint slice watch requires relist''))
      else case object of
        Inl err \<Rightarrow> ([], Some (healthy, Some err))
      | Inr s \<Rightarrow>
          (let version = (if es_ResourceVersion s \<noteq> [] then es_ResourceVersion s else version);
               slices = apply_event kind s slices
           in if \<not> known_event kind then watch_loop collect healthy version slices items
              else (case watch_loop collect True version slices items of
                      (results, outcome) \<Rightarrow>
                        (\<lparr>re_Endpoints = collect slices, re_ResourceVersion = version, re_ObservedAt = now, re_Err = None\<rparr> # results,
                         outcome))))"

definition watchWithHealth ::
    "(go_string \<Rightarrow> bool) \<Rightarrow> GatewayDiscoveryConfig \<Rightarrow> slices \<Rightarrow> go_string \<Rightarrow> go_string + watch_item list
     \<Rightarrow> Result list \<times> (bool \<times> go_string option) option" where
  "watchWithHealth ip settings slices version response =
     (case response of
        Inl err \<Rightarrow> ([], Some (False, Some err))
      | Inr items \<Rightarrow> watch_loop (\<lambda>s. collectEndpoints ip s settings) False version slices items)"

text \<open>One turn of \<open>runKubernetes\<close>: what it emits and, unless it returns or still runs, how long it waits and the
  next backoff.\<close>

record kube_turn =
  kt_client :: "go_string option"
  kt_pages :: "(go_string + kube_page) list"
  kt_watch :: "go_string + watch_item list"
  kt_listed :: instant
  kt_ended :: instant
  kt_cancelled :: bool

definition failed_result :: "go_string \<Rightarrow> instant \<Rightarrow> Result" where
  "failed_result err now = \<lparr>re_Endpoints = [], re_ResourceVersion = [], re_ObservedAt = now, re_Err = Some err\<rparr>"

definition kube_pause :: "kube_turn \<Rightarrow> go_string option \<Rightarrow> duration \<Rightarrow> Result list \<times> (duration \<times> duration) option" where
  "kube_pause t err backoff =
     (if kt_cancelled t then ([], None)
      else (case err of None \<Rightarrow> [] | Some e \<Rightarrow> [failed_result e (kt_ended t)], Some (backoff, min (30 * second) (backoff * 2))))"

definition runKubernetes_turn ::
    "(go_string \<Rightarrow> bool) \<Rightarrow> GatewayDiscoveryConfig \<Rightarrow> kube_turn \<Rightarrow> duration \<Rightarrow> Result list \<times> (duration \<times> duration) option" where
  "runKubernetes_turn ip settings t backoff =
     (case kt_client t of
        Some err \<Rightarrow> ([failed_result err (kt_ended t)], Some (5 * second, backoff))
      | None \<Rightarrow>
          (case list_slices [] (kt_pages t) of
             None \<Rightarrow> ([], None)
           | Some (Inl err) \<Rightarrow> kube_pause t (Some err) backoff
           | Some (Inr (slices, version)) \<Rightarrow>
               (let first = \<lparr>re_Endpoints = collectEndpoints ip slices settings, re_ResourceVersion = version,
                             re_ObservedAt = kt_listed t, re_Err = None\<rparr>
                in case watchWithHealth ip settings slices version (kt_watch t) of
                     (results, None) \<Rightarrow> (first # results, None)
                   | (results, Some (healthy, err)) \<Rightarrow>
                       (case kube_pause t err (if healthy then second else backoff) of
                          (ended, pause) \<Rightarrow> (first # results @ ended, pause)))))"

section \<open>The controller\<close>

record discoveryState =
  dv_Good :: "DiscoveryUpdate option"
  dv_Failure :: "DiscoveryUpdate option"

definition observe :: "discoveryState \<Rightarrow> DiscoveryUpdate \<Rightarrow> discoveryState" where
  "observe previous update =
     (if du_Error update \<noteq> [] then previous\<lparr>dv_Failure := Some update\<rparr>
      else previous\<lparr>dv_Good := Some update, dv_Failure := None\<rparr>)"

fun discovery_targets :: "url_parser \<Rightarrow> bool \<Rightarrow> go_string list \<Rightarrow> go_string + url list" where
  "discovery_targets parse allowPlaintext [] = Inr []"
| "discovery_targets parse allowPlaintext (v # vs) =
     (case parse (TrimSpace v) of
        None \<Rightarrow> Inl ''DISCOVERY_TARGETS must contain management HTTP(S) origins''
      | Some u \<Rightarrow>
          if u_Host u = [] \<or> (u_Scheme u \<noteq> ''http'' \<and> u_Scheme u \<noteq> ''https'') \<or> u_User u \<noteq> None \<or> u_RawQuery u \<noteq> []
            \<or> u_Fragment u \<noteq> [] \<or> (u_Path u \<noteq> [] \<and> u_Path u \<noteq> ''/'')
          then Inl ''DISCOVERY_TARGETS must contain management HTTP(S) origins''
          else if u_Scheme u = ''http'' \<and> \<not> allowPlaintext
          then Inl ''discovery requires HTTPS; plaintext isolated development needs DISCOVERY_ALLOW_PLAINTEXT=true''
          else (case discovery_targets parse allowPlaintext vs of Inl err \<Rightarrow> Inl err | Inr us \<Rightarrow> Inr (u # us)))"

definition discoveryTargets :: "url_parser \<Rightarrow> go_string \<Rightarrow> bool \<Rightarrow> go_string + url list" where
  "discoveryTargets parse v allowPlaintext = discovery_targets parse allowPlaintext (Split v (CHR '',''))"

text \<open>The update made of a result; the callback of \<open>runDiscoveryController\<close>.\<close>

definition delivery :: "GatewayDiscoveryConfig \<Rightarrow> Result \<Rightarrow> DiscoveryUpdate" where
  "delivery settings r = \<lparr>du_Endpoints = re_Endpoints r, du_Settings = settings, du_ObservedAt = Some (re_ObservedAt r),
     du_ResourceVersion = re_ResourceVersion r, du_Error = (case re_Err r of None \<Rightarrow> [] | Some err \<Rightarrow> err)\<rparr>"

definition receive :: "go_string \<times> DiscoveryUpdate \<Rightarrow> (go_string \<rightharpoonup> discoveryState) \<Rightarrow> (go_string \<rightharpoonup> discoveryState)" where
  "receive event latest =
     (case event of (cid, update) \<Rightarrow>
        latest(cid \<mapsto> observe (case latest cid of None \<Rightarrow> \<lparr>dv_Good = None, dv_Failure = None\<rparr> | Some s \<Rightarrow> s) update))"

text \<open>The updates \<open>broadcastDiscovery\<close> delivers of a state, in their order.\<close>

definition state_updates :: "discoveryState \<Rightarrow> DiscoveryUpdate list" where
  "state_updates s = concat (map (\<lambda>u. case u of None \<Rightarrow> [] | Some v \<Rightarrow> [v]) [dv_Good s, dv_Failure s])"

text \<open>The replica addresses of \<open>deliverDiscovery\<close>; \<open>port\<close> and \<open>hostname\<close> are those of the target's URL, \<open>lookup\<close>
  the resolved addresses as text where they are looked up.\<close>

definition replica_addresses ::
    "url \<Rightarrow> go_string \<Rightarrow> go_string \<Rightarrow> (go_string + go_string list) option \<Rightarrow> go_string + go_string list" where
  "replica_addresses target port hostname lookup =
     (let port = (if port = [] then (if u_Scheme target = ''https'' then ''443'' else ''80'') else port) in
      case lookup of
        None \<Rightarrow> Inr [JoinHostPort hostname port]
      | Some (Inl err) \<Rightarrow> Inl err
      | Some (Inr []) \<Rightarrow> Inl ''no replica addresses''
      | Some (Inr ips) \<Rightarrow> Inr (map (\<lambda>ip. JoinHostPort ip port) ips))"

section \<open>The workers of the gateway\<close>

text \<open>A worker is its context, a number; the key is the JSON text of its settings, which the model keeps as the
  settings. The state has the workers, the next context and the contexts cancelled.\<close>

record worker =
  wk_key :: GatewayDiscoveryConfig
  wk_ctx :: nat

record localDiscovery =
  ld_workers :: "(go_string \<times> worker) list"
  ld_next :: nat
  ld_cancelled :: "nat set"

definition start_worker :: "GatewayClusterConfig \<Rightarrow> localDiscovery \<Rightarrow> localDiscovery" where
  "start_worker c d =
     d\<lparr>ld_workers := AList.update (gc_ID c) \<lparr>wk_key = gc_Discovery c, wk_ctx = ld_next d\<rparr> (ld_workers d), ld_next := ld_next d + 1\<rparr>"

definition follow_cluster :: "GatewayClusterConfig \<Rightarrow> localDiscovery \<Rightarrow> localDiscovery" where
  "follow_cluster c d =
     (if gdc_Type (gc_Discovery c) = ''static'' then d
      else case map_of (ld_workers d) (gc_ID c) of
             None \<Rightarrow> start_worker c d
           | Some old \<Rightarrow>
               if wk_key old = gc_Discovery c then d
               else start_worker c (d\<lparr>ld_cancelled := insert (wk_ctx old) (ld_cancelled d)\<rparr>))"

definition wanted :: "GatewayClusterConfig list \<Rightarrow> go_string \<Rightarrow> bool" where
  "wanted cs cid = list_ex (\<lambda>c. gc_ID c = cid \<and> gdc_Type (gc_Discovery c) \<noteq> ''static'') cs"

definition follow_config :: "GatewayClusterConfig list \<Rightarrow> localDiscovery \<Rightarrow> localDiscovery" where
  "follow_config cs d =
     (let d = fold follow_cluster cs d
      in d\<lparr>ld_workers := filter (\<lambda>(cid, v). wanted cs cid) (ld_workers d),
           ld_cancelled := ld_cancelled d \<union> (\<lambda>(cid, v). wk_ctx v) ` set (filter (\<lambda>(cid, v). \<not> wanted cs cid) (ld_workers d))\<rparr>)"

definition zero_discovery :: GatewayDiscoveryConfig where
  "zero_discovery = \<lparr>gdc_Type = [], gdc_Hostname = [], gdc_Port = 0, gdc_Scheme = [], gdc_Namespace = [], gdc_Service = [],
     gdc_APIServer = [], gdc_TokenFile = [], gdc_CAFile = [], gdc_RefreshInterval = 0, gdc_StaleAfter = 0\<rparr>"

definition findDiscovery :: "GatewayConfig option \<Rightarrow> go_string \<Rightarrow> GatewayDiscoveryConfig" where
  "findDiscovery g cid =
     (case g of
        None \<Rightarrow> zero_discovery
      | Some v \<Rightarrow> (case first_match (\<lambda>c. gc_ID c = cid) (gg_Clusters v) of None \<Rightarrow> zero_discovery | Some c \<Rightarrow> gc_Discovery c))"

text \<open>What a worker does with a result.\<close>

definition worker_emit :: "env \<Rightarrow> localDiscovery \<Rightarrow> go_string \<Rightarrow> worker \<Rightarrow> Result \<Rightarrow> instant \<Rightarrow> Engine \<Rightarrow> Engine" where
  "worker_emit ev d cid v r now e =
     (if wk_ctx v \<in> ld_cancelled d then e
      else if findDiscovery (Engine_Config e) cid \<noteq> wk_key v then e
      else case re_Err r of
             Some err \<Rightarrow> snd (MarkDiscoveryErrorForSource cid (Some err) True (wk_key v) e)
           | None \<Rightarrow> snd (UpdateEndpointsForSource ev cid (re_Endpoints r)
                       \<lparr>ds_Type = gdc_Type (wk_key v), ds_LastUpdate = Some (re_ObservedAt r), ds_Stale = False, ds_Error = []\<rparr>
                       (wk_key v) now e))"

section \<open>Order\<close>

lemma string_before_irrefl [simp]: "\<not> string_before xs xs"
  by (induction xs) auto

lemma string_before_trans: "string_before xs ys \<Longrightarrow> string_before ys zs \<Longrightarrow> string_before xs zs"
proof (induction xs ys arbitrary: zs rule: string_before.induct)
  case (2 y ys)
  then show ?case by (cases zs) auto
next
  case (3 x xs y ys)
  then show ?case by (cases zs) auto
qed simp

lemma string_before_total: "xs \<noteq> ys \<Longrightarrow> string_before xs ys \<or> string_before ys xs"
proof (induction xs ys rule: string_before.induct)
  case (1 xs)
  then show ?case by (cases xs) auto
next
  case (3 x xs y ys)
  have "x = y \<or> (of_char x :: nat) < of_char y \<or> (of_char y :: nat) < of_char x"
    by (metis linorder_less_linear of_char_eq_iff)
  with 3 show ?case by auto
qed simp

interpretation endpoint_order: strict_weak_order endpoint_before
proof (unfold_locales; unfold endpoint_before_def)
  fix x y z :: GatewayEndpointConfig
  show "string_before (ge_ID x) (ge_ID y) \<Longrightarrow> \<not> string_before (ge_ID y) (ge_ID x)"
    using string_before_trans string_before_irrefl by blast
  show "string_before (ge_ID x) (ge_ID y) \<Longrightarrow> string_before (ge_ID y) (ge_ID z) \<Longrightarrow> string_before (ge_ID x) (ge_ID z)"
    by (rule string_before_trans)
  show "\<not> string_before (ge_ID x) (ge_ID y) \<Longrightarrow> \<not> string_before (ge_ID y) (ge_ID z) \<Longrightarrow> \<not> string_before (ge_ID x) (ge_ID z)"
    using string_before_trans string_before_total by metis
qed

text \<open>A list in strict order is determined by its elements.\<close>

context strict_weak_order
begin

lemma strict_order_unique:
  "sorted_wrt lt xs \<Longrightarrow> sorted_wrt lt ys \<Longrightarrow> set xs = set ys \<Longrightarrow> xs = ys"
proof (induction xs arbitrary: ys)
  case (Cons x xs)
  then obtain y ys' where ys: "ys = y # ys'" by (cases ys) auto
  have "x = y" using Cons.prems ys lt_asym by (metis list.set_intros(1) set_ConsD sorted_wrt.simps(2))
  moreover have "x \<notin> set xs" "y \<notin> set ys'" using Cons.prems ys lt_asym by auto blast+
  ultimately have "set xs = set ys'" using Cons.prems ys by auto
  with Cons ys \<open>x = y\<close> show ?case by simp
qed simp

end

lemma strictly_sorted:
  assumes "distinct (map ge_ID es)"
  shows "sorted_wrt endpoint_before (SliceStable endpoint_before es)"
proof -
  have m: "mset (SliceStable endpoint_before es) = mset es" by (rule endpoint_order.mset_SliceStable)
  then have "mset (map ge_ID (SliceStable endpoint_before es)) = mset (map ge_ID es)" by simp
  then have d: "distinct (map ge_ID (SliceStable endpoint_before es))" using assms by (metis mset_eq_imp_distinct_iff)
  have "sorted_wrt (\<lambda>x y. \<not> endpoint_before y x) zs \<Longrightarrow> distinct (map ge_ID zs) \<Longrightarrow> sorted_wrt endpoint_before zs" for zs
  proof (induction zs)
    case (Cons z zs)
    have "endpoint_before z y" if y: "y \<in> set zs" for y
    proof -
      from Cons.prems y have "\<not> endpoint_before y z" "ge_ID y \<noteq> ge_ID z" by (auto simp: image_iff)
      then show ?thesis using string_before_total by (auto simp: endpoint_before_def)
    qed
    with Cons show ?case by simp
  qed simp
  with d endpoint_order.sorted_SliceStable show ?thesis by blast
qed

section \<open>Observed endpoints\<close>

lemma add_hosts:
  assumes "fold (\<lambda>a. add_host scheme (f a)) as (seen, map (discovered scheme) hs) = (seen', result)"
    and "set seen = set hs" and "distinct hs"
  shows "\<exists>hs'. result = map (discovered scheme) hs' \<and> distinct hs' \<and> set hs' = set hs \<union> f ` set as"
  using assms
proof (induction as arbitrary: seen hs)
  case (Cons a as)
  show ?case
  proof (cases "f a \<in> set seen")
    case True
    with Cons.prems Cons.IH [of seen hs] show ?thesis by (auto simp: add_host_def)
  next
    case False
    with Cons.prems Cons.IH [of "f a # seen" "hs @ [f a]"] show ?thesis by (auto simp: add_host_def)
  qed
qed auto

lemma add_hosts_fresh:
  obtains hs where "snd (fold (\<lambda>a. add_host scheme (f a)) as ([], [])) = map (discovered scheme) hs"
    "distinct hs" "set hs = f ` set as"
  using add_hosts [of scheme f as "[]" "[]"] by (cases "fold (\<lambda>a. add_host scheme (f a)) as ([], [])") auto

lemma discovered_ID [simp]: "ge_ID (discovered scheme host) = host"
  by (simp add: discovered_def)

lemma collected:
  fixes ip settings
  defines "host \<equiv> \<lambda>a. JoinHostPort a (Itoa (gdc_Port settings))"
  shows "sorted_wrt endpoint_before (collectEndpoints ip slices settings)
    \<and> distinct (map ge_ID (collectEndpoints ip slices settings))
    \<and> set (collectEndpoints ip slices settings) =
      discovered (default_scheme settings) ` host ` (\<Union>(name, s) \<in> set slices. set (slice_addresses ip settings s))"
proof -
  let ?as = "concat (map (\<lambda>(name, s). slice_addresses ip settings s) slices)"
  obtain hs where hs: "snd (fold (\<lambda>a. add_host (default_scheme settings) (host a)) ?as ([], [])) = map (discovered (default_scheme settings)) hs"
    "distinct hs" "set hs = host ` set ?as" by (rule add_hosts_fresh)
  then have eq: "collectEndpoints ip slices settings = SliceStable endpoint_before (map (discovered (default_scheme settings)) hs)"
    by (simp add: collectEndpoints_def host_def)
  have d: "distinct (map ge_ID (map (discovered (default_scheme settings)) hs))" using hs(2) by (simp add: comp_def)
  have "mset (map ge_ID (collectEndpoints ip slices settings)) = mset (map ge_ID (map (discovered (default_scheme settings)) hs))"
    unfolding eq mset_map endpoint_order.mset_SliceStable ..
  then have "distinct (map ge_ID (collectEndpoints ip slices settings))" using d by (metis mset_eq_imp_distinct_iff)
  moreover have "set (collectEndpoints ip slices settings) =
      discovered (default_scheme settings) ` host ` (\<Union>(name, s) \<in> set slices. set (slice_addresses ip settings s))"
    unfolding eq endpoint_order.set_SliceStable set_map hs(3) by (simp add: image_UN split_def)
  ultimately show ?thesis using strictly_sorted [OF d] eq by simp
qed

text \<open>C16. What the gateway is told about a Kubernetes service is canonical: the endpoints collected from its slices
  are in strict order of their IDs, so without duplicates; they are exactly the parsable addresses, at the
  configured port, of the endpoints that are not known to be unready, not serving or terminating, in the slices of
  IP addresses; and the order in which the map of slices is ranged over makes no difference, so an unchanged service is
  never reported as changed.\<close>

theorem collect_endpoints_canonical:
  assumes "set slices' = set slices"
  shows "sorted_wrt endpoint_before (collectEndpoints ip slices settings)
    \<and> distinct (map ge_ID (collectEndpoints ip slices settings))
    \<and> set (collectEndpoints ip slices settings) =
       {discovered (default_scheme settings) (JoinHostPort a (Itoa (gdc_Port settings))) | a.
          1 \<le> gdc_Port settings \<and> gdc_Port settings \<le> 65535 \<and> ip a
          \<and> (\<exists>(name, s) \<in> set slices. es_AddressType s \<in> {''IPv4'', ''IPv6''}
               \<and> (\<exists>e \<in> set (es_Endpoints s). \<not> skipped e \<and> a \<in> set (se_Addresses e)))}
    \<and> collectEndpoints ip slices' settings = collectEndpoints ip slices settings"
proof -
  note c = collected [of ip slices settings] and c' = collected [of ip slices' settings]
  have "set (slice_addresses ip settings s) = {a. 1 \<le> gdc_Port settings \<and> gdc_Port settings \<le> 65535 \<and> ip a
      \<and> es_AddressType s \<in> {''IPv4'', ''IPv6''} \<and> (\<exists>e \<in> set (es_Endpoints s). \<not> skipped e \<and> a \<in> set (se_Addresses e))}" for s
    unfolding slice_addresses_def by (cases "es_AddressType s = ''IPv4''"; cases "es_AddressType s = ''IPv6''") (auto split: if_splits)
  then have "set (collectEndpoints ip slices settings) =
       {discovered (default_scheme settings) (JoinHostPort a (Itoa (gdc_Port settings))) | a.
          1 \<le> gdc_Port settings \<and> gdc_Port settings \<le> 65535 \<and> ip a
          \<and> (\<exists>(name, s) \<in> set slices. es_AddressType s \<in> {''IPv4'', ''IPv6''}
               \<and> (\<exists>e \<in> set (es_Endpoints s). \<not> skipped e \<and> a \<in> set (se_Addresses e)))}"
    using c by fast
  moreover have "collectEndpoints ip slices' settings = collectEndpoints ip slices settings"
    by (rule endpoint_order.strict_order_unique) (use c c' assms in simp_all)
  ultimately show ?thesis using c by simp
qed

definition demo_slice :: "go_string \<Rightarrow> go_string list \<Rightarrow> endpointSlice" where
  "demo_slice name as = \<lparr>es_Name = name, es_ResourceVersion = ''1'', es_AddressType = ''IPv4'',
     es_Endpoints = [\<lparr>se_Addresses = as, se_Ready = None, se_Serving = None, se_Terminating = None\<rparr>]\<rparr>"

theorem collect_endpoints_canonical_witness:
  "map ge_ID (collectEndpoints (\<lambda>a. True) [(''x'', demo_slice ''x'' [''b'', ''a'']), (''y'', demo_slice ''y'' [''a''])]
     (zero_discovery\<lparr>gdc_Port := 80\<rparr>)) = [''a:80'', ''b:80'']
   \<and> collectEndpoints (\<lambda>a. True) [(''y'', demo_slice ''y'' [''a'']), (''x'', demo_slice ''x'' [''b'', ''a''])]
       (zero_discovery\<lparr>gdc_Port := 80\<rparr>) =
     collectEndpoints (\<lambda>a. True) [(''x'', demo_slice ''x'' [''b'', ''a'']), (''y'', demo_slice ''y'' [''a''])]
       (zero_discovery\<lparr>gdc_Port := 80\<rparr>)"
proof -
  let ?xs = "[(''x'', demo_slice ''x'' [''b'', ''a'']), (''y'', demo_slice ''y'' [''a''])]"
  let ?ys = "[(''y'', demo_slice ''y'' [''a'']), (''x'', demo_slice ''x'' [''b'', ''a''])]"
  have "set ?ys = set ?xs" by (simp add: insert_commute)
  note collect_endpoints_canonical [OF this, of "\<lambda>a. True" "zero_discovery\<lparr>gdc_Port := 80\<rparr>"]
  moreover have "map ge_ID (collectEndpoints (\<lambda>a. True) ?xs (zero_discovery\<lparr>gdc_Port := 80\<rparr>)) = [''a:80'', ''b:80'']"
    by code_simp
  ultimately show ?thesis by blast
qed

section \<open>Following the API\<close>

lemma map_of_filter_fst: "map_of (filter (\<lambda>(k, v). P k) xs) k = (if P k then map_of xs k else None)"
  by (induction xs) auto

text \<open>The waits between turns stay between a second and half a minute.\<close>

lemma kube_backoff_bounded:
  assumes "second \<le> backoff" "backoff \<le> 30 * second" and "runKubernetes_turn ip settings t backoff = (results, Some (pause, next))"
  shows "second \<le> pause \<and> pause \<le> 30 * second \<and> second \<le> next \<and> next \<le> 30 * second"
  using assms
  by (auto simp: runKubernetes_turn_def kube_pause_def second_def Let_def split: option.splits sum.splits prod.splits if_splits)

section \<open>The controller\<close>

definition last_good :: "DiscoveryUpdate list \<Rightarrow> DiscoveryUpdate option" where
  "last_good us = (case rev (filter (\<lambda>u. du_Error u = []) us) of [] \<Rightarrow> None | u # _ \<Rightarrow> Some u)"

definition last_failure :: "DiscoveryUpdate list \<Rightarrow> DiscoveryUpdate option" where
  "last_failure us = (case rev us of [] \<Rightarrow> None | u # _ \<Rightarrow> if du_Error u = [] then None else Some u)"

lemma last_snoc:
  "last_good (us @ [u]) = (if du_Error u = [] then Some u else last_good us)"
  "last_failure (us @ [u]) = (if du_Error u = [] then None else Some u)"
  by (simp_all add: last_good_def last_failure_def)

lemma observed_state:
  "fold receive events Map.empty cid =
     (let us = map snd (filter (\<lambda>(c, u). c = cid) events)
      in if us = [] then None else Some \<lparr>dv_Good = last_good us, dv_Failure = last_failure us\<rparr>)"
proof (induction events rule: rev_induct)
  case (snoc event events)
  obtain c u where event: "event = (c, u)" by fastforce
  show ?case
  proof (cases "c = cid")
    case True
    then have "fold receive (events @ [event]) Map.empty cid =
        Some (observe (case fold receive events Map.empty cid of None \<Rightarrow> \<lparr>dv_Good = None, dv_Failure = None\<rparr> | Some s \<Rightarrow> s) u)"
      by (simp add: event receive_def)
    with snoc True show ?thesis
      by (cases "map snd (filter (\<lambda>(c, u). c = cid) events) = []")
        (simp_all add: event observe_def last_snoc Let_def, simp add: last_good_def last_failure_def)
  next
    case False
    with snoc show ?thesis by (simp add: event receive_def)
  qed
qed simp

text \<open>The controller keeps, of whatever it has observed of a cluster, what a replica needs: it delivers the last
  successful observation, and after it the last observation if that one failed; a replica that joins late gets the
  same endpoints, and the failure that makes them stale, in this order.\<close>

theorem controller_keeps_latest:
  "case fold receive events Map.empty cid of
      None \<Rightarrow> cid \<notin> fst ` set events
    | Some s \<Rightarrow>
        state_updates s = (let us = map snd (filter (\<lambda>(c, u). c = cid) events)
          in (case rev (filter (\<lambda>u. du_Error u = []) us) of [] \<Rightarrow> [] | u # _ \<Rightarrow> [u])
             @ (if du_Error (last us) = [] then [] else [last us]))"
proof (cases "filter (\<lambda>(c, u). c = cid) events = []")
  case True
  then show ?thesis unfolding observed_state by (auto simp: filter_empty_conv)
next
  case False
  let ?us = "map snd (filter (\<lambda>(c, u). c = cid) events)"
  from False obtain u us where us: "?us = us @ [u]" by (metis map_is_Nil_conv rev_exhaust)
  then show ?thesis unfolding observed_state Let_def us
    by (simp add: state_updates_def last_good_def last_failure_def split: list.split)
qed

section \<open>Workers\<close>

text \<open>The contexts that run are those of the table, each of one cluster: \<open>f\<close> gives the context of a cluster, \<open>n\<close> the
  next one and \<open>C\<close> those cancelled.\<close>

definition running :: "(go_string \<rightharpoonup> nat) \<Rightarrow> nat \<Rightarrow> nat set \<Rightarrow> bool" where
  "running f n C \<longleftrightarrow> inj_on f (dom f) \<and> ran f = {..< n} - C \<and> C \<subseteq> {..< n}"

lemma running_start:
  assumes "running f n C" and "f cid = None"
  shows "running (f(cid \<mapsto> n)) (Suc n) C"
proof -
  have "n \<notin> ran f" using assms(1) by (simp add: running_def)
  then have "inj_on (f(cid \<mapsto> n)) (dom (f(cid \<mapsto> n)))"
    using assms by (auto simp: running_def inj_on_def ran_def domIff split: if_splits)
  moreover have "ran (f(cid \<mapsto> n)) = {..< Suc n} - C" using assms by (auto simp: running_def)
  ultimately show ?thesis using assms(1) by (auto simp: running_def)
qed

lemma running_restrict:
  assumes "running f n C"
  shows "running (f |` A) n (C \<union> {x. \<exists>a. a \<notin> A \<and> f a = Some x})"
proof -
  have "ran (f |` A) = ran f - {x. \<exists>a. a \<notin> A \<and> f a = Some x}"
  proof -
    have one: "a = b" if "f a = Some x" "f b = Some x" for a b x
      using inj_onD [of f "dom f" a b] assms that by (simp add: running_def domIff)
    have "(\<exists>a. (f |` A) a = Some x) \<longleftrightarrow> (\<exists>a. f a = Some x) \<and> \<not> (\<exists>a. a \<notin> A \<and> f a = Some x)" for x
      unfolding restrict_map_def using one by (metis option.distinct(1))
    then show ?thesis unfolding ran_def by blast
  qed
  moreover have "{x. \<exists>a. a \<notin> A \<and> f a = Some x} \<subseteq> {..< n}" using assms by (auto simp: running_def ran_def)
  moreover have "inj_on (f |` A) (dom (f |` A))"
    using assms by (auto simp: running_def inj_on_def restrict_map_def domIff split: if_splits)
  ultimately show ?thesis using assms by (auto simp: running_def)
qed

definition contexts :: "localDiscovery \<Rightarrow> go_string \<rightharpoonup> nat" where
  "contexts d = (\<lambda>cid. map_option wk_ctx (map_of (ld_workers d) cid))"

definition workers_ok :: "localDiscovery \<Rightarrow> bool" where
  "workers_ok d \<longleftrightarrow> distinct (map fst (ld_workers d)) \<and> running (contexts d) (ld_next d) (ld_cancelled d)"

lemma follow_cluster_ok:
  assumes "workers_ok d"
  shows "workers_ok (follow_cluster c d)"
proof (cases "gdc_Type (gc_Discovery c) = ''static''")
  case False
  note ok = assms [unfolded workers_ok_def]
  let ?v = "\<lparr>wk_key = gc_Discovery c, wk_ctx = ld_next d\<rparr>"
  have upd: "contexts (start_worker c d1) = (contexts d1)(gc_ID c \<mapsto> ld_next d1)" for d1
    by (auto simp: contexts_def start_worker_def update_conv')
  show ?thesis
  proof (cases "map_of (ld_workers d) (gc_ID c)")
    case None
    then have "contexts d (gc_ID c) = None" by (simp add: contexts_def)
    from running_start [OF conjunct2 [OF ok] this] None False ok show ?thesis
      by (simp add: workers_ok_def follow_cluster_def upd) (simp add: start_worker_def distinct_update)
  next
    case (Some old)
    let ?d = "d\<lparr>ld_cancelled := insert (wk_ctx old) (ld_cancelled d)\<rparr>"
    have same: "contexts ?d = contexts d" by (simp add: contexts_def)
    have "{x. \<exists>a. a \<notin> - {gc_ID c} \<and> contexts d a = Some x} = {wk_ctx old}" using Some by (simp add: contexts_def)
    with running_restrict [OF conjunct2 [OF ok], of "- {gc_ID c}"]
    have "running (contexts d |` (- {gc_ID c})) (ld_next d) (insert (wk_ctx old) (ld_cancelled d))" by simp
    from running_start [OF this, of "gc_ID c"]
    have "running ((contexts d)(gc_ID c \<mapsto> ld_next d)) (Suc (ld_next d)) (insert (wk_ctx old) (ld_cancelled d))"
      by (simp add: fun_upd_restrict_conv restrict_complement_singleton_eq)
    with Some False ok show ?thesis
      by (simp add: workers_ok_def follow_cluster_def upd same) (simp add: start_worker_def distinct_update)
  qed
qed (use assms in \<open>simp add: follow_cluster_def\<close>)

lemma follow_clusters_ok: "workers_ok d \<Longrightarrow> workers_ok (fold follow_cluster cs d)"
  by (induction cs arbitrary: d) (simp_all add: follow_cluster_ok)

lemma follow_config_ok:
  assumes "workers_ok d"
  shows "workers_ok (follow_config cs d)"
proof -
  let ?d = "fold follow_cluster cs d"
  have ok: "distinct (map fst (ld_workers ?d))" "running (contexts ?d) (ld_next ?d) (ld_cancelled ?d)"
    using follow_clusters_ok [OF assms, of cs] by (simp_all add: workers_ok_def)
  have f: "contexts (follow_config cs d) = contexts ?d |` {cid. wanted cs cid}"
    by (auto simp: contexts_def follow_config_def Let_def restrict_map_def map_of_filter_fst)
  have "(\<lambda>(cid, v). wk_ctx v) ` set (filter (\<lambda>(cid, v). \<not> wanted cs cid) (ld_workers ?d)) =
      {x. \<exists>a. a \<notin> {cid. wanted cs cid} \<and> contexts ?d a = Some x}"
    using ok(1) by (force simp: contexts_def image_iff)
  then have c: "ld_cancelled (follow_config cs d) = ld_cancelled ?d \<union> {x. \<exists>a. a \<notin> {cid. wanted cs cid} \<and> contexts ?d a = Some x}"
    by (simp add: follow_config_def Let_def)
  have "distinct (map fst (ld_workers (follow_config cs d)))"
    using ok(1) by (simp add: follow_config_def Let_def distinct_map_filter)
  with running_restrict [OF ok(2), of "{cid. wanted cs cid}"] show ?thesis
    unfolding workers_ok_def f c by (simp add: follow_config_def Let_def)
qed

text \<open>What following a configuration makes of the worker of a cluster.\<close>

definition followed :: "GatewayClusterConfig \<Rightarrow> worker option \<Rightarrow> worker option \<Rightarrow> bool" where
  "followed c old new \<longleftrightarrow> (\<exists>v. new = Some v \<and> wk_key v = gc_Discovery c \<and> (\<forall>u. old = Some u \<and> wk_key u = gc_Discovery c \<longrightarrow> v = u))"

lemma follow_cluster_other: "gc_ID c \<noteq> cid \<Longrightarrow> map_of (ld_workers (follow_cluster c d)) cid = map_of (ld_workers d) cid"
  by (auto simp: follow_cluster_def start_worker_def update_conv' split: option.split)

lemma follow_cluster_own:
  "gdc_Type (gc_Discovery c) \<noteq> ''static'' \<Longrightarrow>
     followed c (map_of (ld_workers d) (gc_ID c)) (map_of (ld_workers (follow_cluster c d)) (gc_ID c))"
  by (auto simp: followed_def follow_cluster_def start_worker_def update_conv' split: option.split)

lemma follow_clusters_other:
  "cid \<notin> gc_ID ` set cs \<Longrightarrow> map_of (ld_workers (fold follow_cluster cs d)) cid = map_of (ld_workers d) cid"
  by (induction cs arbitrary: d) (auto simp: follow_cluster_other)

lemma follow_clusters_own:
  assumes "distinct (map gc_ID cs)" and "c \<in> set cs" and "gdc_Type (gc_Discovery c) \<noteq> ''static''"
  shows "followed c (map_of (ld_workers d) (gc_ID c)) (map_of (ld_workers (fold follow_cluster cs d)) (gc_ID c))"
  using assms
proof (induction cs arbitrary: d)
  case (Cons c' cs)
  show ?case
  proof (cases "c = c'")
    case True
    with Cons.prems follow_cluster_own [OF Cons.prems(3), of d] show ?thesis by (simp add: follow_clusters_other)
  next
    case False
    with Cons.prems have "c \<in> set cs" "gc_ID c' \<noteq> gc_ID c" by (auto simp: image_iff)
    with Cons.IH [of "follow_cluster c' d"] Cons.prems show ?thesis by (simp add: follow_cluster_other)
  qed
qed simp

definition no_workers :: localDiscovery where
  "no_workers = \<lparr>ld_workers = [], ld_next = 0, ld_cancelled = {}\<rparr>"

lemma no_workers_ok: "workers_ok no_workers"
  by (simp add: workers_ok_def running_def contexts_def no_workers_def)

text \<open>The gateway watches every dynamically discovered cluster with exactly one worker. Whatever configurations
  were current before, after the loop has read the present one there is a worker for each cluster that is not
  static and for no other, it observes with the settings the cluster has now, one whose settings have not changed
  was not restarted, and the contexts that run are those of the workers in the table, each of a single cluster: a
  replaced or removed worker was cancelled.\<close>

theorem local_workers_follow:
  fixes history :: "GatewayClusterConfig list list" and cs :: "GatewayClusterConfig list"
  defines "d \<equiv> fold follow_config history no_workers"
  defines "d' \<equiv> follow_config cs d"
  assumes "distinct (map gc_ID cs)"
  shows "(\<forall>c \<in> set cs. gdc_Type (gc_Discovery c) \<noteq> ''static'' \<longrightarrow>
       (\<exists>v. map_of (ld_workers d') (gc_ID c) = Some v \<and> wk_key v = gc_Discovery c
          \<and> (\<forall>u. map_of (ld_workers d) (gc_ID c) = Some u \<and> wk_key u = gc_Discovery c \<longrightarrow> v = u)))
    \<and> fst ` set (ld_workers d') = gc_ID ` {c \<in> set cs. gdc_Type (gc_Discovery c) \<noteq> ''static''}
    \<and> distinct (map fst (ld_workers d')) \<and> distinct (map (\<lambda>(cid, v). wk_ctx v) (ld_workers d'))
    \<and> (\<lambda>(cid, v). wk_ctx v) ` set (ld_workers d') = {n. n < ld_next d' \<and> n \<notin> ld_cancelled d'}"
proof -
  have "workers_ok (fold follow_config h no_workers)" for h
    by (induction h rule: rev_induct) (simp_all add: no_workers_ok follow_config_ok)
  then have ok: "workers_ok d'" unfolding d_def d'_def by (intro follow_config_ok)
  have look: "map_of (ld_workers d') cid = (if wanted cs cid then map_of (ld_workers (fold follow_cluster cs d)) cid else None)" for cid
    by (simp add: d'_def follow_config_def Let_def map_of_filter_fst)
  have own: "followed c (map_of (ld_workers d) (gc_ID c)) (map_of (ld_workers d') (gc_ID c))"
    if "c \<in> set cs" "gdc_Type (gc_Discovery c) \<noteq> ''static''" for c
  proof -
    have "wanted cs (gc_ID c)" using that by (auto simp: wanted_def list_ex_iff)
    with follow_clusters_own [OF assms(3) that] show ?thesis by (simp add: look)
  qed
  have dom: "fst ` set (ld_workers d') = {cid. \<exists>v. map_of (ld_workers d') cid = Some v}"
    by (simp add: dom_map_of_conv_image_fst [symmetric] dom_def)
  have "fst ` set (ld_workers d') = gc_ID ` {c \<in> set cs. gdc_Type (gc_Discovery c) \<noteq> ''static''}"
  proof (intro equalityI subsetI)
    fix cid assume "cid \<in> fst ` set (ld_workers d')"
    then have "wanted cs cid" unfolding dom by (auto simp: look split: if_splits)
    then show "cid \<in> gc_ID ` {c \<in> set cs. gdc_Type (gc_Discovery c) \<noteq> ''static''}" by (auto simp: wanted_def list_ex_iff)
  next
    fix cid assume "cid \<in> gc_ID ` {c \<in> set cs. gdc_Type (gc_Discovery c) \<noteq> ''static''}"
    with own show "cid \<in> fst ` set (ld_workers d')" unfolding dom by (auto simp: followed_def)
  qed
  moreover have keys: "distinct (map fst (ld_workers d'))" using ok by (simp add: workers_ok_def)
  moreover have at: "contexts d' cid = Some (wk_ctx v)" if "(cid, v) \<in> set (ld_workers d')" for cid v
    using keys that by (simp add: contexts_def)
  moreover have "distinct (map (\<lambda>(cid, v). wk_ctx v) (ld_workers d'))"
    unfolding distinct_map using keys distinct_map
  proof (intro conjI inj_onI)
    fix x y assume x: "x \<in> set (ld_workers d')" and y: "y \<in> set (ld_workers d')"
      and eq: "(case x of (cid, v) \<Rightarrow> wk_ctx v) = (case y of (cid, v) \<Rightarrow> wk_ctx v)"
    have "contexts d' (fst x) = contexts d' (fst y)" using at [of "fst x" "snd x"] at [of "fst y" "snd y"] x y eq by (simp add: split_def)
    moreover have "fst x \<in> dom (contexts d')" "fst y \<in> dom (contexts d')"
      using at [of "fst x" "snd x"] at [of "fst y" "snd y"] x y by auto
    ultimately have "fst x = fst y" using ok unfolding workers_ok_def running_def inj_on_def by blast
    then show "x = y" using keys x y by (metis eq_key_imp_eq_value prod.collapse)
  qed blast
  moreover have "(\<lambda>(cid, v). wk_ctx v) ` set (ld_workers d') = ran (contexts d')"
    using keys by (force simp: ran_def contexts_def image_iff)
  ultimately show ?thesis using ok own by (auto simp: workers_ok_def running_def followed_def)
qed

theorem local_workers_follow_witness:
  "map fst (ld_workers (follow_config [] (follow_config [demo_cluster\<lparr>gc_ID := ''d'', gc_Discovery := zero_discovery\<lparr>gdc_Type := ''dns''\<rparr>\<rparr>]
     no_workers))) = []
   \<and> fst ` set (ld_workers (follow_config [demo_cluster\<lparr>gc_ID := ''d'', gc_Discovery := zero_discovery\<lparr>gdc_Type := ''dns''\<rparr>\<rparr>] no_workers)) = {''d''}"
proof -
  let ?cs = "[demo_cluster\<lparr>gc_ID := ''d'', gc_Discovery := zero_discovery\<lparr>gdc_Type := ''dns''\<rparr>\<rparr>]"
  have "distinct (map gc_ID ?cs)" by simp
  moreover have "{c \<in> set ?cs. gdc_Type (gc_Discovery c) \<noteq> ''static''} = set ?cs" by auto
  ultimately show ?thesis
    using local_workers_follow [of ?cs "[]"] local_workers_follow [of "[]" "[?cs]"] by simp
qed

section \<open>Observations reach the engine in order\<close>

lemma endpoint_ids_distinct:
  "passes (endpoint_checks parse c ids urls es) \<Longrightarrow> distinct (map ge_ID es) \<and> set ids \<inter> ge_ID ` set es = {}"
  by (induction parse c ids urls es rule: endpoint_checks.induct) (auto simp: Let_def)

lemma cluster_ids_distinct: "passes (validateGatewayCluster parse c) \<Longrightarrow> distinct (map ge_ID (gc_Endpoints c))"
  using endpoint_ids_distinct [of parse c "[]" "[]"] by (simp add: validateGatewayCluster_def)

lemma normalizeEndpoints_ID [simp]: "map ge_ID (normalizeEndpoints es) = map ge_ID es"
  by (induction es) (simp_all add: normalizeEndpoints_def default_endpoint_def)

lemma updated_values: "map_of (fold (\<lambda>e m. AList.update (ge_ID e) e m) xs m) k = Some v \<Longrightarrow> v \<in> set xs \<or> map_of m k = Some v"
proof (induction xs arbitrary: m)
  case (Cons x xs)
  from Cons.IH [of "AList.update (ge_ID x) x m"] Cons.prems show ?case by (auto simp: update_conv' split: if_splits)
qed simp

lemma endpointSetsEqual_sound:
  assumes eq: "endpointSetsEqual left right" and d: "distinct (map ge_ID right)"
  shows "set (normalizeEndpoints left) = set (normalizeEndpoints right)"
proof -
  let ?l = "normalizeEndpoints left" and ?r = "normalizeEndpoints right"
  have len: "length ?l = length ?r" using eq by (simp add: endpointSetsEqual_def normalizeEndpoints_def split: if_splits)
  have "e \<in> set ?l" if e: "e \<in> set ?r" for e
  proof -
    have "ge_Weight e \<noteq> 0" using e by (auto simp: normalizeEndpoints_def default_endpoint_def split: if_splits)
    then have "e \<noteq> zero_endpoint" by (auto simp: zero_endpoint_def)
    moreover have "(case map_of (fold (\<lambda>e m. AList.update (ge_ID e) e m) ?l []) (ge_ID e) of None \<Rightarrow> zero_endpoint | Some v \<Rightarrow> v) = e"
      using eq e by (simp add: endpointSetsEqual_def Let_def list_all_iff split: if_splits)
    ultimately have "map_of (fold (\<lambda>e m. AList.update (ge_ID e) e m) ?l []) (ge_ID e) = Some e" by (auto split: option.splits)
    from updated_values [OF this] show ?thesis by simp
  qed
  then have sub: "set ?r \<subseteq> set ?l" by blast
  have "distinct ?r" using d by (metis distinct_map normalizeEndpoints_ID)
  then have "card (set ?l) \<le> card (set ?r)" using len by (metis card_length distinct_card)
  with sub show ?thesis by (metis List.finite_set card_seteq)
qed

lemma set_endpoints_eq:
  "distinct (map gc_ID cs) \<Longrightarrow> set_endpoints cid es cs = map (\<lambda>c. if gc_ID c = cid then c\<lparr>gc_Endpoints := es\<rparr> else c) cs"
proof (induction cs)
  case (Cons c cs)
  have "gc_ID c = cid \<Longrightarrow> map (\<lambda>c. if gc_ID c = cid then c\<lparr>gc_Endpoints := es\<rparr> else c) cs = cs"
    using Cons.prems by (intro map_idI) (metis distinct.simps(2) image_eqI list.set_map list.simps(9))
  with Cons show ?case by simp
qed simp

lemma default_endpoint_twice [simp]: "normalizeEndpoints (normalizeEndpoints es) = normalizeEndpoints es"
  by (simp add: normalizeEndpoints_def comp_def default_endpoint_def)

lemma normalized_endpoints:
  assumes "normalizeConfig parse d (Some g) = Inr n" and "c \<in> set (gg_Clusters g)"
  shows "\<exists>c' \<in> set (gg_Clusters n). gc_ID c' = gc_ID c \<and> gc_Endpoints c' = normalizeEndpoints (gc_Endpoints c)"
proof -
  let ?c = "normalize_cluster d (default_cluster (cloned_cluster c))"
  have "?c \<in> set (gg_Clusters n)" using normalizeConfig_result [OF assms(1)] assms(2) by auto
  moreover have "gc_ID ?c = gc_ID c" "gc_Endpoints ?c = normalizeEndpoints (gc_Endpoints c)"
    by (simp_all add: normalize_cluster_def default_cluster_def cloned_cluster_def normalizeEndpoints_def Let_def)
  ultimately show ?thesis by blast
qed

definition cluster_discovery :: "go_string \<Rightarrow> Engine \<Rightarrow> DiscoveryStatus option" where
  "cluster_discovery cid e =
     (case current_snapshot e of None \<Rightarrow> None | Some s \<Rightarrow> map_option rk_discovery (map_of (ss_clusters s) cid))"

lemma cluster_discovery_set:
  assumes "engine_ok parse e" and "cluster_discovery cid e = Some d"
  shows "cluster_discovery cid (on_cluster cid (setDiscovery status) e) = Some status"
proof -
  from assms(2) obtain i where i: "en_current e = Some i" by (auto simp: cluster_discovery_def current_snapshot_def split: option.splits)
  with assms(1) have "i < length (en_snapshots e)" by (auto simp: engine_ok_def life_ok_def)
  with assms(2) i show ?thesis
    by (auto simp: cluster_discovery_def current_snapshot_def on_cluster_def setDiscovery_def update_conv' Let_def split: option.splits)
qed

lemma on_cluster_Config:
  assumes "engine_ok parse e"
  shows "Engine_Config (on_cluster cid (setDiscovery status) e) = Engine_Config e"
proof (cases "en_current e")
  case (Some i)
  with assms have "i < length (en_snapshots e)" by (auto simp: engine_ok_def life_ok_def)
  with Some show ?thesis by (simp add: Engine_Config_def on_cluster_def current_snapshot_def Let_def split: option.split)
qed (simp add: on_cluster_def)

lemma cluster_known:
  assumes ok: "engine_ok parse e" and g: "Engine_Config e = Some g" and c: "c \<in> set (gg_Clusters g)"
  shows "\<exists>d. cluster_discovery (gc_ID c) e = Some d"
proof -
  from g obtain s where s: "current_snapshot e = Some s" "g = cloneConfig (ss_config s)" by (auto simp: Engine_Config_def)
  then have "snapshot_ok parse (en_defaults e) s" using ok by (auto simp: engine_ok_def current_snapshot_def life_ok_def)
  then have "map fst (ss_clusters s) = map gc_ID (gg_Clusters g)" using s by (simp add: snapshot_ok_def normal_def)
  with c have "gc_ID c \<in> fst ` set (ss_clusters s)" by (metis image_eqI list.set_map)
  then have "map_of (ss_clusters s) (gc_ID c) \<noteq> None" by (simp only: map_of_eq_None_iff) simp
  then show ?thesis using s by (auto simp: cluster_discovery_def)
qed

lemma config_clusters_normal:
  assumes "normal parse d g" and "c \<in> set (gg_Clusters g)"
  shows "normalizeEndpoints (gc_Endpoints c) = gc_Endpoints c"
proof -
  have "normalizeConfig parse d (Some g) = Inr g" using assms(1) by (simp add: normal_def)
  from normalizeConfig_result [OF this] have "gg_Clusters g = map (\<lambda>c. normalize_cluster d (default_cluster (cloned_cluster c))) (gg_Clusters g)"
    by blast
  note eq = this
  have "c \<in> set (map (\<lambda>c. normalize_cluster d (default_cluster (cloned_cluster c))) (gg_Clusters g))"
    by (subst eq [symmetric]) (rule assms(2))
  then obtain c0 where "c = normalize_cluster d (default_cluster (cloned_cluster c0))" by auto
  then have "gc_Endpoints c = normalizeEndpoints (gc_Endpoints c0)"
    by (simp add: normalize_cluster_def default_cluster_def cloned_cluster_def normalizeEndpoints_def Let_def)
  then show ?thesis by simp
qed

text \<open>The branches of an update that succeeds.\<close>

lemma update_success:
  assumes "updateEndpointsLocked ev cid eps status (Some settings) now e = (None, e')" and "current_snapshot e = Some s"
    and clone: "cloneConfig (ss_config s) = ss_config s" and ids: "distinct (map gc_ID (gg_Clusters (ss_config s)))"
  obtains c copy status' where "c \<in> set (gg_Clusters (ss_config s))" "gc_ID c = cid" "gc_Discovery c = settings"
    "ds_LastUpdate status' = ds_LastUpdate status" "discovery_check s c status' (Some settings) = None"
    "c\<lparr>gc_Endpoints := normalizeEndpoints eps\<rparr> \<in> set (gg_Clusters copy)" "gateway_valid (ev_parse ev) copy"
    "(endpointSetsEqual (gc_Endpoints c) (normalizeEndpoints eps) \<and> e' = on_cluster cid (setDiscovery status') e)
     \<or> (\<exists>e1. applyLocked ev (Some copy) now e = (None, e1) \<and> e' = on_cluster cid (setDiscovery status') e1)"
proof -
  let ?g = "ss_config s"
  obtain c where c: "first_match (\<lambda>c. gc_ID c = cid) (gg_Clusters ?g) = Some c"
    using assms(1,2) clone by (auto simp: updateEndpointsLocked_def Let_def split: if_splits option.splits)
  then have c': "c \<in> set (gg_Clusters ?g)" "gc_ID c = cid" by (auto dest: first_match_SomeD)
  let ?status = "if ds_Type status = [] then status\<lparr>ds_Type := gdc_Type (gc_Discovery c)\<rparr> else status"
  let ?copy = "?g\<lparr>gg_Clusters := set_endpoints cid (normalizeEndpoints eps) (gg_Clusters ?g)\<rparr>"
  have check: "discovery_check s c ?status (Some settings) = None"
    using assms(1,2) clone c by (auto simp: updateEndpointsLocked_def Let_def split: if_splits option.splits)
  obtain err copy where v: "Validate (ev_parse ev) ?copy = (err, copy)" by fastforce
  with assms(1,2) clone c check have "err = None"
    by (cases err) (simp_all add: updateEndpointsLocked_def Let_def split: if_splits)
  note valid = Validate_ok [OF v [unfolded this]]
  have mem: "c\<lparr>gc_Endpoints := normalizeEndpoints eps\<rparr> \<in> set (gg_Clusters copy)"
    using valid c' set_endpoints_eq [OF ids, of cid "normalizeEndpoints eps"] by (auto simp: image_iff)
  have branches: "(endpointSetsEqual (gc_Endpoints c) (normalizeEndpoints eps) \<and> e' = on_cluster cid (setDiscovery ?status) e)
     \<or> (\<exists>e1. applyLocked ev (Some copy) now e = (None, e1) \<and> e' = on_cluster cid (setDiscovery ?status) e1)"
    using assms(1,2) clone c check v \<open>err = None\<close>
    by (simp add: updateEndpointsLocked_def Let_def split: if_splits prod.splits option.splits)
  have disc: "gc_Discovery c = settings" using check by (auto simp: discovery_check_def split: if_splits)
  have last: "ds_LastUpdate ?status = ds_LastUpdate status" by simp
  show ?thesis by (rule that [OF c' disc last check mem conjunct2 [OF valid] branches])
qed

text \<open>C11. Observations of a discovered cluster reach the engine in order, and an accepted one is what the engine then
  runs. For a reachable engine that has the cluster, an update that succeeds is not older than the one recorded
  before, which it replaces, was made with the settings the cluster has, and afterwards the endpoints of the
  cluster in the published configuration are exactly those of the observation, with their default weights; an
  update that fails leaves the published configurations and the recorded observation as they were.\<close>

theorem discovery_update_exact:
  assumes "engine_reachable parse e" and "ev_parse ev = parse" and "cluster_discovery cid e = Some d"
    and "ds_LastUpdate status = Some observed"
    and "UpdateEndpointsForSource ev cid eps status settings now e = (res, e')"
  shows "case res of
      Some err \<Rightarrow> cluster_discovery cid e' = Some d \<and> engine_abs e' = engine_abs e
    | None \<Rightarrow> (\<forall>t. ds_LastUpdate d = Some t \<longrightarrow> t \<le> observed)
        \<and> (\<exists>d'. cluster_discovery cid e' = Some d' \<and> ds_LastUpdate d' = Some observed)
        \<and> (\<exists>c \<in> set (gg_Clusters (the (Engine_Config e))). gc_ID c = cid \<and> gc_Discovery c = settings)
        \<and> (\<exists>c \<in> set (gg_Clusters (the (Engine_Config e'))). gc_ID c = cid \<and> set (gc_Endpoints c) = set (normalizeEndpoints eps))"
proof -
  note ok = engine_reachable_ok [OF assms(1)] and up = assms(5) [unfolded UpdateEndpointsForSource_def]
  from assms(3) obtain s k where s: "current_snapshot e = Some s" "map_of (ss_clusters s) cid = Some k" "rk_discovery k = d"
    by (auto simp: cluster_discovery_def split: option.splits)
  then have n: "normal parse (en_defaults e) (ss_config s)"
    using ok by (auto simp: engine_ok_def life_ok_def current_snapshot_def snapshot_ok_def)
  then have clone: "cloneConfig (ss_config s) = ss_config s" and ids: "distinct (map gc_ID (gg_Clusters (ss_config s)))"
    by (simp_all add: normal_def gateway_valid_def)
  have config: "Engine_Config e = Some (ss_config s)" using s clone by (simp add: Engine_Config_def)
  show ?thesis
  proof (cases res)
    case (Some err)
    with up have "e' = e \<or> (\<exists>c. applyLocked ev c now e = (Some err, e'))"
      by (auto simp: updateEndpointsLocked_def Let_def split: if_splits option.splits prod.splits)
    then have "e' = e \<or> refused e err e'" using applyLocked_outcome [OF ok assms(2)] by fastforce
    moreover have "cluster_discovery cid (apply_failed msg (e\<lparr>en_states := r\<rparr>)) = cluster_discovery cid e" for msg r
      by (simp add: apply_failed_def cluster_discovery_def current_snapshot_def comp_def)
    ultimately show ?thesis using assms(3) Some refused_abs [of e err e'] by (auto simp: refused_def)
  next
    case None
    obtain c copy status' where c: "c \<in> set (gg_Clusters (ss_config s))" "gc_ID c = cid" "gc_Discovery c = settings"
      "ds_LastUpdate status' = ds_LastUpdate status" "discovery_check s c status' (Some settings) = None"
      "c\<lparr>gc_Endpoints := normalizeEndpoints eps\<rparr> \<in> set (gg_Clusters copy)" "gateway_valid (ev_parse ev) copy"
      "(endpointSetsEqual (gc_Endpoints c) (normalizeEndpoints eps) \<and> e' = on_cluster cid (setDiscovery status') e)
       \<or> (\<exists>e1. applyLocked ev (Some copy) now e = (None, e1) \<and> e' = on_cluster cid (setDiscovery status') e1)"
      by (rule update_success [OF up [unfolded None] s(1) clone ids])
    have order: "\<forall>t. ds_LastUpdate d = Some t \<longrightarrow> t \<le> observed"
      using c(2,4,5) s assms(4) by (auto simp: discovery_check_def split: if_splits option.splits)
    have ids': "distinct (map ge_ID (normalizeEndpoints eps))"
      using c(6,7) cluster_ids_distinct [of "ev_parse ev" "c\<lparr>gc_Endpoints := normalizeEndpoints eps\<rparr>"] by (auto simp: gateway_valid_def)
    have "(\<exists>d'. cluster_discovery cid e' = Some d' \<and> ds_LastUpdate d' = Some observed)
        \<and> (\<exists>c \<in> set (gg_Clusters (the (Engine_Config e'))). gc_ID c = cid \<and> set (gc_Endpoints c) = set (normalizeEndpoints eps))"
      using c(8)
    proof (elim disjE conjE exE)
      assume eq: "endpointSetsEqual (gc_Endpoints c) (normalizeEndpoints eps)" and e': "e' = on_cluster cid (setDiscovery status') e"
      have "set (gc_Endpoints c) = set (normalizeEndpoints eps)"
        using endpointSetsEqual_sound [OF eq ids'] config_clusters_normal [OF n c(1)] by simp
      with c cluster_discovery_set [OF ok assms(3)] on_cluster_Config [OF ok] config assms(4) show ?thesis unfolding e' by auto
    next
      fix e1 assume ap: "applyLocked ev (Some copy) now e = (None, e1)" and e': "e' = on_cluster cid (setDiscovery status') e1"
      have ok1: "engine_ok parse e1" using applyLocked_ok [OF ok assms(2), of "Some copy" now] ap by simp
      from applyLocked_outcome [OF ok assms(2) ap] obtain s1 where s1: "current_snapshot e1 = Some s1"
        "normalizeConfig parse (en_defaults e) (Some copy) = Inr (ss_config s1)" by (auto simp: installed_def)
      then have "normal parse (en_defaults e1) (ss_config s1)"
        using ok1 by (auto simp: engine_ok_def life_ok_def current_snapshot_def snapshot_ok_def)
      then have config1: "Engine_Config e1 = Some (ss_config s1)" using s1 by (simp add: Engine_Config_def normal_def)
      from normalized_endpoints [OF s1(2) c(6)] c(2) obtain c1 where c1: "c1 \<in> set (gg_Clusters (ss_config s1))"
        "gc_ID c1 = cid" "gc_Endpoints c1 = normalizeEndpoints eps" by auto
      from cluster_known [OF ok1 config1 c1(1)] c1(2) obtain d1 where "cluster_discovery cid e1 = Some d1" by auto
      with c1 c(4) cluster_discovery_set [OF ok1] on_cluster_Config [OF ok1] config1 assms(4) show ?thesis unfolding e' by auto
    qed
    with None order c(1,2,3) config show ?thesis by auto
  qed
qed

text \<open>The clusters of a first snapshot have not been observed.\<close>

definition unobserved :: "(go_string \<times> runtimeCluster) list \<Rightarrow> bool" where
  "unobserved clusters \<longleftrightarrow> (\<forall>(cid, k) \<in> set clusters. ds_LastUpdate (rk_discovery k) = None)"

lemma unobserved_update: "unobserved xs \<Longrightarrow> ds_LastUpdate (rk_discovery k) = None \<Longrightarrow> unobserved (AList.update cid k xs)"
  unfolding unobserved_def by (induction xs) auto

lemma buildCluster_unobserved: "buildCluster ev c previous now r = (Inr k, r') \<Longrightarrow> ds_LastUpdate (rk_discovery k) = None"
  by (auto simp: buildCluster_def build_reserved_def Let_def split: option.splits sum.splits if_splits prod.splits)

lemma build_clusters_unobserved:
  "build_clusters ev [] now cs built r = (Inr clusters, r') \<Longrightarrow> unobserved built \<Longrightarrow> unobserved clusters"
proof (induction cs arbitrary: built r)
  case (Cons c cs)
  obtain out r1 where b: "buildCluster ev c None now r = (out, r1)" by fastforce
  with Cons.prems(1) obtain k where k: "out = Inr k" by (cases out) (simp_all add: Let_def)
  have "ds_LastUpdate (rk_discovery (inherit_status None k)) = None"
    using buildCluster_unobserved [OF b [unfolded k]] by (simp add: inherit_status_def)
  with Cons b k show ?case using unobserved_update by (auto simp: Let_def)
qed simp

lemma demo_unobserved:
  assumes "cluster_discovery cid demo_engine = Some d"
  shows "ds_LastUpdate d = None"
proof -
  obtain s r where b: "buildSnapshot demo_env demo_defaults (Some demo_gateway) 1 0 None 0 (NewBackendStateRegistry empty_world)
      = (Inr s, r)"
    using demo_builds [OF demo_normalized, of 1 0 None 0 "NewBackendStateRegistry empty_world"] by blast
  have e: "demo_engine = install s 0 \<lparr>en_defaults = demo_defaults, en_states = r, en_snapshots = [],
     en_current = None, en_closed = False, en_nextRevision = 1, en_history = Map.empty, en_order = [], en_lastError = [],
     en_stats = zero_stats\<rparr>"
    using demo_engine_new b by (simp add: New_def demo_env_def)
  have "en_snapshots demo_engine = [s]" by (simp add: e)
  moreover have "unobserved (ss_clusters s)"
    using b by (auto simp: buildSnapshot_def unobserved_def [of "[]"] split: sum.splits prod.splits dest!: build_clusters_unobserved)
  ultimately show ?thesis
    using assms by (auto simp: cluster_discovery_def current_snapshot_def demo_fields unobserved_def dest: map_of_SomeD)
qed

theorem discovery_update_exact_witness:
  "\<exists>c e'. c \<in> set (gg_Clusters demo_normal)
     \<and> UpdateEndpointsForSource demo_env (gc_ID c) (gc_Endpoints c)
         \<lparr>ds_Type = gdc_Type (gc_Discovery c), ds_LastUpdate = Some 7, ds_Stale = False, ds_Error = []\<rparr> (gc_Discovery c) 9 demo_engine = (None, e')
     \<and> (\<exists>d. cluster_discovery (gc_ID c) e' = Some d \<and> ds_LastUpdate d = Some 7)"
proof -
  let ?s = "en_snapshots demo_engine ! 0"
  define c where "c = hd (gg_Clusters demo_normal)"
  have g: "gg_Clusters demo_normal = [c]" by (rule demo_clusters) (simp add: c_def)
  have n: "cloneConfig demo_normal = demo_normal" by code_simp
  have parse: "ev_parse demo_env = simple_parse" by (simp add: demo_env_def)
  have config: "Engine_Config demo_engine = Some demo_normal" by (simp add: Engine_Config_def current_snapshot_def demo_fields n)
  have "c \<in> set (gg_Clusters demo_normal)" by (simp add: g)
  from cluster_known [OF engine_reachable_ok [OF demo_reachable] config this]
  obtain d where d: "cluster_discovery (gc_ID c) demo_engine = Some d" by blast
  let ?status = "\<lparr>ds_Type = gdc_Type (gc_Discovery c), ds_LastUpdate = Some 7, ds_Stale = False, ds_Error = []\<rparr>"
  have facts: "gdc_Type (gc_Discovery c) \<noteq> []" "normalizeEndpoints (gc_Endpoints c) = gc_Endpoints c"
    "endpointSetsEqual (gc_Endpoints c) (gc_Endpoints c)" "fst (Validate simple_parse demo_normal) = None"
    unfolding c_def by code_simp+
  have same: "demo_normal\<lparr>gg_Clusters := [c]\<rparr> = demo_normal" using g by (cases demo_normal) simp
  have check: "discovery_check ?s c ?status (Some (gc_Discovery c)) = None"
    using demo_unobserved [OF d] d
    by (auto simp: discovery_check_def cluster_discovery_def current_snapshot_def demo_fields split: option.splits)
  obtain copy where "Validate simple_parse (demo_normal\<lparr>gg_Clusters := [c]\<rparr>) = (None, copy)"
    unfolding same using facts(4) by (metis prod.collapse)
  then have up: "UpdateEndpointsForSource demo_env (gc_ID c) (gc_Endpoints c) ?status (gc_Discovery c) 9 demo_engine =
      (None, on_cluster (gc_ID c) (setDiscovery ?status) demo_engine)"
    using facts check
    by (simp add: UpdateEndpointsForSource_def updateEndpointsLocked_def demo_fields current_snapshot_def n g parse Let_def)
  from discovery_update_exact [OF demo_reachable parse d _ up, of 7] up g show ?thesis by auto
qed

end
