(* ===== verification/Reload.thy ===== *)
theory Reload
  imports Management_Auth Build_Frame
begin

text \<open>
  The process around a static pool of backends (\<open>cmd/balancer/wiring.go\<close>, \<open>runtime.go\<close>, \<open>main.go\<close> and
  \<open>NewServer\<close> of \<open>internal/server/server.go\<close>): how the sections of the configuration become settings of the
  components, updates through the management API, and a reload that changes every component at once.
\<close>

section \<open>From configuration to settings\<close>

definition backendSpecs :: "BackendConfig list \<Rightarrow> BackendSpec list" where
  "backendSpecs bs = map (\<lambda>b. \<lparr>spec_ID = bc_ID b, spec_URL = bc_URL b, spec_Weight = 0, spec_Disabled = bc_Disabled b\<rparr>) bs"

definition backendConcurrency :: "UpstreamConfig list \<Rightarrow> int" where
  "backendConcurrency upstream = (case upstream of [] \<Rightarrow> 512 | u # us \<Rightarrow> up_MaxConcurrentRequests u)"

definition passivePolicy :: "HealthCheckConfig \<Rightarrow> UpstreamConfig list \<Rightarrow> PassivePolicy" where
  "passivePolicy h upstream = \<lparr>pp_FailureThreshold = hcc_FailureThreshold h, pp_Cooldown = hcc_Cooldown h,
     pp_MaxConcurrentRequests = backendConcurrency upstream, pp_SlowStart = hcc_SlowStart h,
     pp_SlowStartMinimum = hcc_SlowStartMinimum h\<rparr>"

definition process_healthSettings :: "HealthCheckConfig \<Rightarrow> UpstreamConfig list \<Rightarrow> HealthSettings" where
  "process_healthSettings h upstream = \<lparr>hs_Mode = hcc_Mode h, hs_Path = hcc_Path h, hs_Interval = hcc_Interval h,
     hs_Timeout = hcc_Timeout h, hs_FailureThreshold = hcc_FailureThreshold h, hs_SuccessThreshold = hcc_SuccessThreshold h,
     hs_MaxConcurrency = hcc_MaxConcurrency h, hs_Jitter = hcc_Jitter h, hs_Cooldown = hcc_Cooldown h,
     hs_ExpectedStatuses = hcc_ExpectedStatuses h, hs_SlowStart = hcc_SlowStart h, hs_SlowStartMinimum = hcc_SlowStartMinimum h,
     hs_MaxConcurrentRequests = backendConcurrency upstream\<rparr>"

definition limiterSettings :: "RateLimitConfig \<Rightarrow> RuntimeSettings" where
  "limiterSettings r = \<lparr>rs_Enabled = rl_Enabled r,
     rs_Policy = \<lparr>pol_Capacity = rl_Capacity r, pol_RefillPerSecond = rl_RefillPerSecond r\<rparr>,
     rs_FailureMode = rl_FailureMode r, rs_OperationTimeout = rl_OperationTimeout r,
     rs_IPv4PrefixBits = rl_IPv4PrefixBits r, rs_IPv6PrefixBits = rl_IPv6PrefixBits r\<rparr>"

definition process_retryPolicy :: "RetryConfig \<Rightarrow> RetryPolicy" where
  "process_retryPolicy r = \<lparr>rp_MaxAttempts = rc_MaxAttempts r, rp_PerTryTimeout = rc_PerTryTimeout r,
     rp_BodyLimit = rc_BodyLimit r, rp_Methods = rc_Methods r, rp_Statuses = rc_Statuses r,
     rp_BudgetCapacity = rc_BudgetCapacity r, rp_BudgetRefillPerSecond = rc_BudgetRefillPerSecond r\<rparr>"

definition gatewayDefaults :: "Config \<Rightarrow> Defaults" where
  "gatewayDefaults cfg = \<lparr>d_Upstream = sc_Upstream (cf_Server cfg), d_Retry = process_retryPolicy (sc_Retry (cf_Server cfg)),
     d_Health = process_healthSettings (cf_HealthCheck cfg) [sc_Upstream (cf_Server cfg)], d_HistoryLimit = 0,
     d_WarmupTimeout = 15 * second\<rparr>"

section \<open>The server's options\<close>

text \<open>The options \<open>NewServer\<close> checks or hands on; \<open>op_MetricsToken\<close> says whether a token provider is given.\<close>

record Options =
  op_Credentials :: "Credential list"
  op_ManagementTLS :: ServerTLSConfig
  op_MetricsAddress :: go_string
  op_MetricsToken :: bool
  op_Port :: go_string
  op_ManagementEnabled :: bool
  op_ManagementAddress :: go_string
  op_ManagementAuthToken :: go_string
  op_ManagementInsecure :: bool
  op_RuntimeMutations :: bool
  op_TrustedProxies :: "go_string list"
  op_AccessLogSampleRate :: rat
  op_AccessLogIncludePath :: bool
  op_ReadHeaderTimeout :: duration
  op_ReadTimeout :: duration
  op_WriteTimeout :: duration
  op_ManagementWriteTimeout :: duration
  op_IdleTimeout :: duration
  op_MaxHeaderBytes :: int
  op_OverloadMaxConcurrent :: int
  op_OverloadQueueTimeout :: duration
  op_Health :: HealthSettings

definition serverOptions :: "Config \<Rightarrow> go_string \<Rightarrow> Options" where
  "serverOptions cfg managementToken =
     (let s = cf_Server cfg; m = cf_Management cfg
      in \<lparr>op_Credentials = [],
          op_ManagementTLS = \<lparr>st_CertFile = [], st_KeyFile = [], st_CAFile = [], st_RequireClientCert = False\<rparr>,
          op_MetricsAddress = [], op_MetricsToken = False,
          op_Port = sc_Port s, op_ManagementEnabled = mc_Enabled m, op_ManagementAddress = mc_Address m,
          op_ManagementAuthToken = managementToken, op_ManagementInsecure = mc_AllowInsecure m,
          op_RuntimeMutations = mc_RuntimeMutations m, op_TrustedProxies = sc_TrustedProxies s,
          op_AccessLogSampleRate = sc_AccessLogSampleRate s, op_AccessLogIncludePath = sc_AccessLogIncludePath s,
          op_ReadHeaderTimeout = sc_ReadHeaderTimeout s, op_ReadTimeout = sc_ReadTimeout s, op_WriteTimeout = sc_WriteTimeout s,
          op_ManagementWriteTimeout = mc_WriteTimeout m, op_IdleTimeout = sc_IdleTimeout s,
          op_MaxHeaderBytes = sc_MaxHeaderBytes s, op_OverloadMaxConcurrent = oc_MaxConcurrentRequests (sc_Overload s),
          op_OverloadQueueTimeout = oc_QueueTimeout (sc_Overload s),
          op_Health = process_healthSettings (cf_HealthCheck cfg) [sc_Upstream s]\<rparr>)"

definition option_checks :: "Options \<Rightarrow> check list" where
  "option_checks o' =
     [(op_Port o' = [], ''server port is required''),
      (op_ReadHeaderTimeout o' \<le> 0 \<or> op_ReadTimeout o' \<le> 0 \<or> op_WriteTimeout o' < 0 \<or> op_IdleTimeout o' \<le> 0,
       ''HTTP server timeouts are invalid''),
      (op_ManagementEnabled o' \<and> op_ManagementWriteTimeout o' \<le> 0, ''management write timeout must be positive''),
      (op_MaxHeaderBytes o' < 1024, ''max header bytes must be at least 1024''),
      (op_OverloadMaxConcurrent o' < 1 \<or> op_OverloadQueueTimeout o' < 0, ''overload protection values are invalid''),
      (op_AccessLogSampleRate o' < 0 \<or> op_AccessLogSampleRate o' > 1, ''access log sample rate must be between 0 and 1''),
      (op_ManagementEnabled o' \<and> op_ManagementAddress o' = [], ''management address is required''),
      (op_ManagementEnabled o' \<and> op_ManagementAuthToken o' = [] \<and> op_Credentials o' = [] \<and> \<not> op_ManagementInsecure o',
       ''management auth token is required'')]"

definition metrics_checks :: "Options \<Rightarrow> check list" where
  "metrics_checks o' = [(op_MetricsAddress o' \<noteq> [] \<and> \<not> op_MetricsToken o', ''metrics listener requires a token provider'')]"

text \<open>\<open>NewServer\<close> up to the listeners of a gateway: an error or the resolver and the health settings it stores.\<close>

definition NewServer :: "netip_text \<Rightarrow> Options \<Rightarrow> go_string + (clientIPResolver option \<times> HealthSettings)" where
  "NewServer N o' =
     (case first_error (option_checks o') of
        Some err \<Rightarrow> Inl err
      | None \<Rightarrow>
          (case newClientIPResolver N (op_TrustedProxies o') of
             Inl err \<Rightarrow> Inl err
           | Inr resolver \<Rightarrow>
               (case first_error (metrics_checks o') of
                  Some err \<Rightarrow> Inl err
                | None \<Rightarrow> Inr (Some resolver, op_Health o'))))"

section \<open>Updates through the management API\<close>

record RateLimitUpdate =
  ru_Capacity :: int
  ru_RefillPerSecond :: rat
  ru_FailureMode :: go_string

record HealthUpdate =
  hu_Mode :: go_string
  hu_Path :: go_string
  hu_Interval :: go_string
  hu_Timeout :: go_string
  hu_FailureThreshold :: int
  hu_SuccessThreshold :: int
  hu_MaxConcurrency :: int
  hu_Jitter :: go_string
  hu_Cooldown :: go_string
  hu_ExpectedStatuses :: "int list"
  hu_SlowStart :: go_string
  hu_SlowStartMinimum :: int

record RetryUpdate =
  tu_MaxAttempts :: int
  tu_PerTryTimeout :: go_string
  tu_Methods :: "go_string list"
  tu_Statuses :: "int list"
  tu_BudgetCapacity :: int
  tu_BudgetRefillPerSecond :: rat

record RuntimeUpdate =
  uu_RateLimit :: "RateLimitUpdate option"
  uu_Health :: "HealthUpdate option"
  uu_Retry :: "RetryUpdate option"

text \<open>A duration given as text replaces the old one; \<open>PD\<close> is \<open>time.ParseDuration\<close>. After an error the copy of the
  configuration is dropped, so only the error is returned.\<close>

definition set_duration :: "(go_string \<Rightarrow> duration option) \<Rightarrow> go_string \<Rightarrow> go_string \<Rightarrow> duration \<Rightarrow> go_string + duration" where
  "set_duration PD message raw old =
     (if raw = [] then Inr old else case PD raw of None \<Rightarrow> Inl message | Some d \<Rightarrow> Inr d)"

definition if_positive :: "'a :: {zero, ord} \<Rightarrow> 'a \<Rightarrow> 'a" where
  "if_positive new old = (if new > 0 then new else old)"

definition mergeHealthUpdate ::
    "(go_string \<Rightarrow> duration option) \<Rightarrow> HealthUpdate \<Rightarrow> HealthCheckConfig \<Rightarrow> go_string + HealthCheckConfig" where
  "mergeHealthUpdate PD u h =
     (case set_duration PD ''invalid health interval'' (hu_Interval u) (hcc_Interval h) of Inl err \<Rightarrow> Inl err | Inr interval \<Rightarrow>
      case set_duration PD ''invalid health timeout'' (hu_Timeout u) (hcc_Timeout h) of Inl err \<Rightarrow> Inl err | Inr timeout \<Rightarrow>
      case set_duration PD ''invalid health jitter'' (hu_Jitter u) (hcc_Jitter h) of Inl err \<Rightarrow> Inl err | Inr jitter \<Rightarrow>
      case set_duration PD ''invalid health cooldown'' (hu_Cooldown u) (hcc_Cooldown h) of Inl err \<Rightarrow> Inl err | Inr cooldown \<Rightarrow>
      case set_duration PD ''invalid health slow start'' (hu_SlowStart u) (hcc_SlowStart h) of Inl err \<Rightarrow> Inl err | Inr slowStart \<Rightarrow>
        Inr (h\<lparr>hcc_Mode := (if hu_Mode u \<noteq> [] then hu_Mode u else hcc_Mode h),
               hcc_Path := (if hu_Path u \<noteq> [] then hu_Path u else hcc_Path h),
               hcc_Interval := interval, hcc_Timeout := timeout, hcc_Jitter := jitter, hcc_Cooldown := cooldown,
               hcc_SlowStart := slowStart,
               hcc_FailureThreshold := if_positive (hu_FailureThreshold u) (hcc_FailureThreshold h),
               hcc_SuccessThreshold := if_positive (hu_SuccessThreshold u) (hcc_SuccessThreshold h),
               hcc_MaxConcurrency := if_positive (hu_MaxConcurrency u) (hcc_MaxConcurrency h),
               hcc_SlowStartMinimum := if_positive (hu_SlowStartMinimum u) (hcc_SlowStartMinimum h),
               hcc_ExpectedStatuses := (if hu_ExpectedStatuses u \<noteq> [] then hu_ExpectedStatuses u else hcc_ExpectedStatuses h)\<rparr>))"

definition mergeRetryUpdate ::
    "(go_string \<Rightarrow> duration option) \<Rightarrow> RetryUpdate \<Rightarrow> RetryConfig \<Rightarrow> go_string + RetryConfig" where
  "mergeRetryUpdate PD u r =
     (case set_duration PD ''invalid retry timeout'' (tu_PerTryTimeout u) (rc_PerTryTimeout r) of Inl err \<Rightarrow> Inl err | Inr perTry \<Rightarrow>
        Inr (r\<lparr>rc_MaxAttempts := if_positive (tu_MaxAttempts u) (rc_MaxAttempts r),
               rc_PerTryTimeout := perTry,
               rc_Methods := (if tu_Methods u \<noteq> [] then tu_Methods u else rc_Methods r),
               rc_Statuses := (if tu_Statuses u \<noteq> [] then tu_Statuses u else rc_Statuses r),
               rc_BudgetCapacity := if_positive (tu_BudgetCapacity u) (rc_BudgetCapacity r),
               rc_BudgetRefillPerSecond := if_positive (tu_BudgetRefillPerSecond u) (rc_BudgetRefillPerSecond r)\<rparr>))"

definition mergeRuntimeUpdate :: "(go_string \<Rightarrow> duration option) \<Rightarrow> RuntimeUpdate \<Rightarrow> Config \<Rightarrow> go_string + Config" where
  "mergeRuntimeUpdate PD u cfg =
     (let cfg = (case uu_RateLimit u of
            None \<Rightarrow> cfg
          | Some l \<Rightarrow> cfg\<lparr>cf_RateLimit := (cf_RateLimit cfg)\<lparr>
              rl_Capacity := if_positive (ru_Capacity l) (rl_Capacity (cf_RateLimit cfg)),
              rl_RefillPerSecond := if_positive (ru_RefillPerSecond l) (rl_RefillPerSecond (cf_RateLimit cfg)),
              rl_FailureMode := (if ru_FailureMode l \<noteq> [] then ru_FailureMode l else rl_FailureMode (cf_RateLimit cfg))\<rparr>\<rparr>)
      in case (case uu_Health u of None \<Rightarrow> Inr (cf_HealthCheck cfg) | Some h \<Rightarrow> mergeHealthUpdate PD h (cf_HealthCheck cfg)) of
           Inl err \<Rightarrow> Inl err
         | Inr health \<Rightarrow>
             (case (case uu_Retry u of None \<Rightarrow> Inr (sc_Retry (cf_Server cfg))
                    | Some r \<Rightarrow> mergeRetryUpdate PD r (sc_Retry (cf_Server cfg))) of
                Inl err \<Rightarrow> Inl err
              | Inr retry \<Rightarrow> Inr (cfg\<lparr>cf_HealthCheck := health, cf_Server := (cf_Server cfg)\<lparr>sc_Retry := retry\<rparr>\<rparr>)))"

section \<open>Reload\<close>

text \<open>The running process; \<open>pr_server\<close> holds what the HTTP server keeps of the configuration, \<open>None\<close> before there is
  a server.\<close>

record 's process =
  pr_config :: Config
  pr_pool :: addr
  pr_checker :: HealthChecker
  pr_limiter :: "'s TokenBucketLimiter"
  pr_balancer :: retryTransport
  pr_server :: "(clientIPResolver option \<times> HealthSettings) option"
  pr_world :: world

text \<open>The last part of \<open>applyReload\<close>, after the limiter and the checker have taken their settings.\<close>

definition reload_finish ::
    "netip_text \<Rightarrow> Config \<Rightarrow> HealthSettings \<Rightarrow> BackendReplacement \<Rightarrow> instant \<Rightarrow> 's process \<Rightarrow> go_string option \<times> 's process" where
  "reload_finish N new health replacement now p =
     (let p = p\<lparr>pr_balancer := UpdatePolicy (pr_balancer p) (process_retryPolicy (sc_Retry (cf_Server new))) now\<rparr>
      in case (case pr_server p of
                 None \<Rightarrow> (None, None)
               | Some s \<Rightarrow> (let (err, s) = UpdateRuntime N (sc_TrustedProxies (cf_Server new)) health s in (err, Some s))) of
           (Some err, s) \<Rightarrow> (Some err, p\<lparr>pr_server := s\<rparr>)
         | (None, s) \<Rightarrow>
             (case CommitReplacement (pr_pool p) (Some replacement) now (pr_world p) of
                (Some err, w) \<Rightarrow> (Some (''commit backend replacement: '' @ err), p\<lparr>pr_server := s, pr_world := w\<rparr>)
              | (None, w) \<Rightarrow> (None, p\<lparr>pr_server := s, pr_world := w\<rparr>)))"

definition applyReload ::
    "url_parser \<Rightarrow> netip_text \<Rightarrow> (go_string \<Rightarrow> bool) \<Rightarrow> (url \<Rightarrow> int option) \<Rightarrow> (nat \<Rightarrow> bool) \<Rightarrow> Config \<Rightarrow> instant \<Rightarrow> 's process
     \<Rightarrow> go_string option \<times> 's process" where
  "applyReload parse N dial get ctxErr new now p =
     (case ValidateReload (pr_config p) new of
        Some err \<Rightarrow> (Some err, p)
      | None \<Rightarrow>
          (case PrepareReplacement parse (pr_pool p) (backendSpecs (cf_Backends new)) (pr_world p) of
             Inl err \<Rightarrow> (Some err, p)
           | Inr (replacement, w) \<Rightarrow>
               (let health = process_healthSettings (cf_HealthCheck new) [sc_Upstream (cf_Server new)]
                in case WarmReplacement dial get ctxErr (pr_checker p) (Some replacement) health now w of
                     (Some err, w) \<Rightarrow> (Some (''warm backend replacement: '' @ err), p\<lparr>pr_world := w\<rparr>)
                   | (None, w) \<Rightarrow>
                       (case Reconfigure (pr_limiter p) (limiterSettings (cf_RateLimit new)) of
                          (Some err, l) \<Rightarrow> (Some (''reconfigure rate limiter: '' @ err), p\<lparr>pr_world := w, pr_limiter := l\<rparr>)
                        | (None, l) \<Rightarrow>
                            (case HealthChecker_Update (pr_checker p) health w of
                               (Some err, hc, w) \<Rightarrow> (Some err, p\<lparr>pr_world := w, pr_limiter := l, pr_checker := hc\<rparr>)
                             | (None, hc, w) \<Rightarrow>
                                 reload_finish N new health replacement now
                                   (p\<lparr>pr_world := w, pr_limiter := l, pr_checker := hc\<rparr>))))))"

text \<open>\<open>applyRuntime\<close> of \<open>run\<close>, and the branch of its loop for a SIGHUP with what \<open>InitConfig\<close> gave.\<close>

definition applyRuntime ::
    "url_parser \<Rightarrow> netip_text \<Rightarrow> (go_string \<Rightarrow> duration option) \<Rightarrow> (go_string \<Rightarrow> bool) \<Rightarrow> (url \<Rightarrow> int option) \<Rightarrow> (nat \<Rightarrow> bool)
     \<Rightarrow> RuntimeUpdate \<Rightarrow> instant \<Rightarrow> 's process \<Rightarrow> go_string option \<times> 's process" where
  "applyRuntime parse N PD dial get ctxErr update now p =
     (case mergeRuntimeUpdate PD update (pr_config p) of
        Inl err \<Rightarrow> (Some err, p)
      | Inr new \<Rightarrow>
          (case Config_Validate parse N new of
             (Some err, new) \<Rightarrow> (Some err, p)
           | (None, new) \<Rightarrow>
               (case applyReload parse N dial get ctxErr new now p of
                  (Some err, p) \<Rightarrow> (Some err, p)
                | (None, p) \<Rightarrow> (None, p\<lparr>pr_config := new\<rparr>))))"

definition reload_signal ::
    "url_parser \<Rightarrow> netip_text \<Rightarrow> (go_string \<Rightarrow> bool) \<Rightarrow> (url \<Rightarrow> int option) \<Rightarrow> (nat \<Rightarrow> bool) \<Rightarrow> go_string + Config \<Rightarrow> instant
     \<Rightarrow> 's process \<Rightarrow> go_string option \<times> 's process" where
  "reload_signal parse N dial get ctxErr loaded now p =
     (case loaded of
        Inl err \<Rightarrow> (Some err, p)
      | Inr new \<Rightarrow>
          (case applyReload parse N dial get ctxErr new now p of
             (Some err, p) \<Rightarrow> (Some err, p)
           | (None, p) \<Rightarrow> (None, p\<lparr>pr_config := new\<rparr>)))"

section \<open>What validation promises\<close>

lemma validated_sections:
  assumes "Config_Validate parse N x = (None, cfg)"
  shows "passes (late_checks parse N cfg)" and "passes (server_checks (cf_Server cfg))"
    and "passes (validateSecurity parse cfg)"
proof -
  from assms obtain ms g where v: "passes (validateSecurity parse x)" "passes (server_checks (cf_Server x))"
    "cfg = x\<lparr>cf_Server := (cf_Server x)\<lparr>sc_Retry := (sc_Retry (cf_Server x))\<lparr>rc_Methods := ms\<rparr>\<rparr>, cf_Gateway := g\<rparr>"
    "passes (late_checks parse N x)"
    and gw: "case cf_Gateway x of None \<Rightarrow> g = None | Some g0 \<Rightarrow> (\<exists>g1. g = Some g1 \<and> Validate parse g0 = (None, g1))"
    by (rule Config_Validate_ok)
  have "(g = None) = (cf_Gateway x = None)" using gw by (cases "cf_Gateway x") auto
  then have "late_checks parse N cfg = late_checks parse N x" "server_checks (cf_Server cfg) = server_checks (cf_Server x)"
      "validateSecurity parse cfg = validateSecurity parse x"
    by (simp_all add: v(3) late_checks_def rate_limit_checks_def server_checks_def validateSecurity_def Let_def)
  with v show "passes (late_checks parse N cfg)" "passes (server_checks (cf_Server cfg))" "passes (validateSecurity parse cfg)"
    by simp_all
qed

lemma limiter_settings_valid:
  assumes "passes (late_checks parse N cfg)"
  shows "validateSettings (applyRuntimeDefaults (limiterSettings (cf_RateLimit cfg))) = None"
    and "applyRuntimeDefaults (limiterSettings (cf_RateLimit cfg)) = limiterSettings (cf_RateLimit cfg)"
proof -
  from assms have "passes (rate_limit_checks cfg)" by (simp add: late_checks_def Let_def)
  then show "validateSettings (applyRuntimeDefaults (limiterSettings (cf_RateLimit cfg))) = None"
    "applyRuntimeDefaults (limiterSettings (cf_RateLimit cfg)) = limiterSettings (cf_RateLimit cfg)"
    by (auto simp: rate_limit_checks_def validateSettings_def applyRuntimeDefaults_def limiterSettings_def Let_def)
qed

lemma health_settings_valid:
  assumes "passes (late_checks parse N cfg)" and "passes (server_checks (cf_Server cfg))"
  shows "validateHealthSettings (normalizeHealthSettings
      (process_healthSettings (cf_HealthCheck cfg) [sc_Upstream (cf_Server cfg)])) = None"
proof -
  from assms(1) have "passes (health_config_checks (cf_HealthCheck cfg))" by (simp add: late_checks_def Let_def)
  moreover have "1 \<le> up_MaxConcurrentRequests (sc_Upstream (cf_Server cfg))"
    using assms(2) by (simp add: server_checks_def Let_def)
  ultimately show ?thesis
    by (auto simp: health_config_checks_def validateHealthSettings_def normalizeHealthSettings_def
        process_healthSettings_def backendConcurrency_def HasPrefix_slash)
qed

lemma parse_proxies_total:
  "\<forall>t \<in> set texts. \<not> isl (parsePrefix N t) \<Longrightarrow> \<exists>ps. parse_proxies N texts acc = Inr ps"
  by (induction texts arbitrary: acc) (auto split: sum.splits)

lemma trusted_proxies_valid:
  assumes "passes (late_checks parse N cfg)"
  shows "\<exists>r. newClientIPResolver N (sc_TrustedProxies (cf_Server cfg)) = Inr r"
proof -
  from assms have "\<forall>t \<in> set (sc_TrustedProxies (cf_Server cfg)). \<not> isl (parsePrefix N t)"
    by (simp add: late_checks_def Let_def config_parsePrefix_same)
  from parse_proxies_total [OF this, of "[]"] show ?thesis by (auto simp: newClientIPResolver_def)
qed

lemma backends_valid:
  "passes (backend_checks parse ids urls bs) \<Longrightarrow> \<exists>as w'. buildBackends parse policy ids urls (backendSpecs bs) w = Inr (as, w')"
proof (induction bs arbitrary: ids urls w)
  case (Cons b bs)
  from Cons.prems obtain u where u: "parse (bc_URL b) = Some u" "u_Host u \<noteq> []" "u_Scheme u = ''http'' \<or> u_Scheme u = ''https''"
      "bc_ID b \<notin> set ids" "u_text u \<notin> set urls" "TrimSpace (bc_ID b) \<noteq> []"
      "passes (backend_checks parse (bc_ID b # ids) (u_text u # urls) bs)"
    by (auto split: option.splits)
  have "bc_ID b \<noteq> []" using u(6) by (auto simp: TrimSpace_def)
  with u have "spec_error parse ids urls \<lparr>spec_ID = bc_ID b, spec_URL = bc_URL b, spec_Weight = 0, spec_Disabled = bc_Disabled b\<rparr> = Inr u"
    by (auto simp: spec_error_def)
  moreover from Cons.IH [OF u(7)] have "\<exists>as w'. buildBackends parse policy (bc_ID b # ids) (u_text u # urls)
      (map (\<lambda>b. \<lparr>spec_ID = bc_ID b, spec_URL = bc_URL b, spec_Weight = 0, spec_Disabled = bc_Disabled b\<rparr>) bs) v = Inr (as, w')" for v
    by (simp add: backendSpecs_def)
  ultimately show ?case by (simp add: backendSpecs_def Let_def) (metis (no_types, lifting) old.prod.case old.sum.simps(6))
qed (simp add: backendSpecs_def)

lemma validated_components:
  assumes "Config_Validate parse N x = (None, cfg)"
  shows "validateSettings (applyRuntimeDefaults (limiterSettings (cf_RateLimit cfg))) = None"
    and "validateHealthSettings (normalizeHealthSettings
      (process_healthSettings (cf_HealthCheck cfg) [sc_Upstream (cf_Server cfg)])) = None"
    and "\<exists>r. newClientIPResolver N (sc_TrustedProxies (cf_Server cfg)) = Inr r"
    and "cf_Gateway cfg = None \<Longrightarrow> \<exists>as w'. buildBackends parse policy [] [] (backendSpecs (cf_Backends cfg)) w = Inr (as, w')"
proof -
  note v = validated_sections [OF assms]
  show "validateSettings (applyRuntimeDefaults (limiterSettings (cf_RateLimit cfg))) = None"
    by (rule limiter_settings_valid [OF v(1)])
  show "validateHealthSettings (normalizeHealthSettings
      (process_healthSettings (cf_HealthCheck cfg) [sc_Upstream (cf_Server cfg)])) = None"
    by (rule health_settings_valid [OF v(1,2)])
  show "\<exists>r. newClientIPResolver N (sc_TrustedProxies (cf_Server cfg)) = Inr r"
    by (rule trusted_proxies_valid [OF v(1)])
  assume "cf_Gateway cfg = None"
  with v(1) have "passes (backend_checks parse [] [] (cf_Backends cfg))"
    by (simp add: late_checks_def validateBackends_def Let_def)
  then show "\<exists>as w'. buildBackends parse policy [] [] (backendSpecs (cf_Backends cfg)) w = Inr (as, w')"
    by (rule backends_valid)
qed

section \<open>What a replacement touches before it is committed\<close>

text \<open>Candidates that belong to no pool: recording results changes their own states only.\<close>

definition detached :: "addr \<Rightarrow> addr list \<Rightarrow> world \<Rightarrow> bool" where
  "detached n bs w \<longleftrightarrow> (\<forall>b \<in> set bs. n \<le> b_state (w_backends w b) \<and> s_pools (state_of w b) = [])"

lemma health_detached:
  assumes "detached n bs w" and "b \<in> set bs"
  shows "below_same n w (RecordHealthResult b ok st ft now w) \<and> detached n bs (RecordHealthResult b ok st ft now w)"
proof -
  let ?a = "b_state (w_backends w b)"
  let ?r = "recordHealthResultLocked (w_backends w b) ok st ft now (w_states w ?a)"
  have e: "s_pools (snd ?r) = []" and a: "n \<le> ?a" using assms by (auto simp: detached_def)
  have "RecordHealthResult b ok st ft now w = set_state w ?a (snd ?r)"
    using e by (simp add: RecordHealthResult_step Let_def state_step_def refreshAvailability_def invalidateLocked_def)
  with assms(1) e a show ?thesis by (auto simp: below_same_def detached_def)
qed

lemma check_detached:
  assumes "detached n bs w" and "set cs \<subseteq> set bs"
  shows "below_same n w (check dial get ctxErr cs s now w) \<and> detached n bs (check dial get ctxErr cs s now w)"
  using assms
proof (induction cs arbitrary: w)
  case Nil
  then show ?case by (simp add: check_def)
next
  case (Cons c cs)
  let ?w = "if ctxErr c then w else RecordHealthResult c (checkBackend dial get (b_URL (w_backends w c)) s)
    (hs_SuccessThreshold s) (hs_FailureThreshold s) now w"
  have "below_same n w ?w \<and> detached n bs ?w" using Cons.prems health_detached by simp
  moreover from this Cons.IH [of ?w] Cons.prems
  have "below_same n ?w (check dial get ctxErr cs s now ?w) \<and> detached n bs (check dial get ctxErr cs s now ?w)" by simp
  ultimately show ?case using below_same_trans [of n w ?w n] by (simp add: check_def)
qed

lemma warm_rounds_detached:
  "detached n bs w \<Longrightarrow> below_same n w (snd (warm_rounds dial get ctxErr bs s now k w))"
proof (induction k arbitrary: w)
  case (Suc k)
  let ?w = "check dial get (\<lambda>b. ctxErr k) bs s now w"
  have "below_same n w ?w" "detached n bs ?w" using check_detached [OF Suc.prems, of bs] by auto
  with Suc.IH [of ?w] below_same_trans [of n w ?w n] show ?case by (cases "ctxErr k") (simp_all add: Let_def)
qed simp

lemma WarmReplacement_world:
  "snd (WarmReplacement dial get ctxErr hc (Some r) s now w) \<in>
     {w, snd (warm_rounds dial get ctxErr (br_backends r) (normalizeHealthSettings s) now
            (nat (hs_SuccessThreshold (normalizeHealthSettings s))) w)}"
  by (auto simp: WarmReplacement_def Let_def split: option.splits prod.splits bool.splits)

lemma prepared_detached:
  assumes "PrepareReplacement parse p specs w0 = Inr (r, w)"
  shows "below_same (w_next w0) w0 w \<and> detached (w_next w0) (br_backends r) w \<and> br_owner r = p
    \<and> map (backend_key w) (br_backends r) = map (\<lambda>s. spec_ID s @ [char_of (0 :: nat)] @ u_text (the (parse (spec_URL s)))) specs"
proof -
  from assms obtain bs where r: "r = \<lparr>br_owner = p, br_backends = bs\<rparr>"
    and build: "buildBackends parse (p_policy (w_pools w0 p)) [] [] specs w0 = Inr (bs, w)"
    by (auto simp: PrepareReplacement_def split: sum.splits)
  note ok = buildBackends_ok [OF build]
  let ?n = "w_next w0"
  have st: "b_state (w_backends w b) = b \<and> s_pools (w_states w b) = [] \<and> ?n \<le> b" if "b \<in> set bs" for b
  proof -
    from that ok obtain i where "b = ?n + i" "i < length specs" by (auto intro: that [of "b - ?n"])
    with ok show ?thesis by (auto simp: built_backend_def new_state_def)
  qed
  have "map (backend_key w) bs = map (\<lambda>s. spec_ID s @ [char_of (0 :: nat)] @ u_text (the (parse (spec_URL s)))) specs"
    using ok by (intro nth_equalityI) (auto simp: backend_key_def built_backend_def)
  with st ok show ?thesis by (auto simp: r below_same_def detached_def)
qed

lemma warmed_frame:
  assumes "PrepareReplacement parse p specs w0 = Inr (r, w)"
  shows "below_same (w_next w0) w0 (snd (WarmReplacement dial get ctxErr hc (Some r) s now w))"
proof -
  note prep = prepared_detached [OF assms]
  have "below_same (w_next w0) w (snd (WarmReplacement dial get ctxErr hc (Some r) s now w))"
    using WarmReplacement_world [of dial get ctxErr hc r s now w] warm_rounds_detached [of "w_next w0" "br_backends r" w] prep
    by auto
  with prep show ?thesis using below_same_trans [of "w_next w0" w0 w "w_next w0"] by simp
qed

section \<open>What a committed replacement gives\<close>

lemma backend_key_steps [simp]:
  "backend_key (set_state w a s) = backend_key w" "backend_key (set_pool w p q) = backend_key w"
  "backend_key (attach_pool p b w) = backend_key w"
  "backend_key (applyReplacementState b enabled warmed weight now w) = backend_key w"
  "backend_key (refreshAvailable p now w) = backend_key w"
  by (auto simp: fun_eq_iff backend_key_def attach_pool_def applyReplacementState_def refreshAvailable_def Let_def)

lemma commit_backends_keys:
  "commit_backends p current now bs w = (rest, w') \<Longrightarrow>
     backend_key w' = backend_key w \<and> map (backend_key w) rest = map (backend_key w) bs"
proof (induction bs arbitrary: w rest w')
  case (Cons b bs)
  show ?case
  proof (cases "find_current w current (backend_key w b)")
    case None
    let ?w = "attach_pool p b w"
    let ?w1 = "set_state ?w (b_state (w_backends ?w b)) ((w_states ?w (b_state (w_backends ?w b)))\<lparr>s_maxConcurrent :=
      pp_MaxConcurrentRequests (p_policy (w_pools ?w p))\<rparr>)"
    obtain r1 w1 where c: "commit_backends p current now bs ?w1 = (r1, w1)" by fastforce
    with Cons.prems None have "rest = b # r1" "w' = w1" by (simp_all add: Let_def)
    with Cons.IH [OF c] show ?thesis by simp
  next
    case (Some previous)
    let ?w1 = "applyReplacementState previous (s_enabled (state_of w b)) (s_healthy (state_of w b)) (Weight (w_backends w b)) now w"
    obtain r1 w1 where c: "commit_backends p current now bs ?w1 = (r1, w1)" by fastforce
    with Cons.prems Some have "rest = previous # r1" "w' = w1" by (simp_all add: Let_def)
    moreover have "backend_key w previous = backend_key w b"
      using Some first_match_SomeD [of _ "rev current" previous] by (fastforce simp: find_current_def)
    ultimately show ?thesis using Cons.IH [OF c] by simp
  qed
qed simp

lemma CommitReplacement_keys:
  assumes "br_owner r = p"
  shows "fst (CommitReplacement p (Some r) now w) = None
    \<and> (let w' = snd (CommitReplacement p (Some r) now w)
       in map (backend_key w') (p_all (w_pools w' p)) = map (backend_key w) (br_backends r))"
proof -
  obtain bs w1 where c: "commit_backends p (p_all (w_pools w p)) now (br_backends r) w = (bs, w1)" by fastforce
  have all: "p_all (w_pools (refreshAvailable p now v) p) = p_all (w_pools v p)" for v
    by (simp add: refreshAvailable_def Let_def)
  show ?thesis using commit_backends_keys [OF c] assms by (simp add: CommitReplacement_def c Let_def all)
qed

lemma UpdatePassivePolicy_key: "backend_key (UpdatePassivePolicy p policy w) = backend_key w"
proof -
  have "backend_key (fold (\<lambda>b w. set_state w (b_state (w_backends w b)) (f b w)) bs v) = backend_key v" for f bs v
    by (induction bs arbitrary: v) simp_all
  then show ?thesis by (simp add: UpdatePassivePolicy_def)
qed

lemma check_key: "backend_key (check dial get ctxErr bs s now w) = backend_key w"
proof -
  have pools: "w_backends (fold (\<lambda>p w. set_pool w p (f p w)) ps v) = w_backends v" for f ps v
    by (induction ps arbitrary: v) simp_all
  have "backend_key (RecordHealthResult b ok st ft now v) = backend_key v" for b ok st ft v
    by (auto simp: fun_eq_iff backend_key_def RecordHealthResult_step Let_def state_step_def refreshAvailability_def
        invalidateLocked_def pools)
  then have "backend_key (fold (\<lambda>b w. if ctxErr b then w else RecordHealthResult b (g b w) st ft now w) bs v) = backend_key v"
    for g st ft v by (induction bs arbitrary: v) simp_all
  then show ?thesis by (simp add: check_def)
qed

lemma warm_rounds_key: "backend_key (snd (warm_rounds dial get ctxErr bs s now k w)) = backend_key w"
  by (induction k arbitrary: w) (simp_all add: Let_def check_key)

lemma WarmReplacement_key: "backend_key (snd (WarmReplacement dial get ctxErr hc (Some r) s now w)) = backend_key w"
  using WarmReplacement_world [of dial get ctxErr hc r s now w] warm_rounds_key
  by (metis insertE singletonD)

lemma UpdatePolicy_validated:
  assumes "passes (late_checks parse N cfg)" and "passes (server_checks (cf_Server cfg))"
  shows "rt_policy (UpdatePolicy t (process_retryPolicy (sc_Retry (cf_Server cfg))) now) =
    Some (process_retryPolicy (sc_Retry (cf_Server cfg)))"
  using assms by (simp add: UpdatePolicy_def process_retryPolicy_def late_checks_def server_checks_def Let_def)

text \<open>The settings of a process that runs a configuration.\<close>

definition runs_config :: "url_parser \<Rightarrow> netip_text \<Rightarrow> Config \<Rightarrow> 's process \<Rightarrow> bool" where
  "runs_config parse N cfg p \<longleftrightarrow>
     (let health = process_healthSettings (cf_HealthCheck cfg) [sc_Upstream (cf_Server cfg)] in
      tb_settings (pr_limiter p) = limiterSettings (cf_RateLimit cfg)
      \<and> hc_settings (pr_checker p) = normalizeHealthSettings health
      \<and> rt_policy (pr_balancer p) = Some (process_retryPolicy (sc_Retry (cf_Server cfg)))
      \<and> (\<forall>s. pr_server p = Some s \<longrightarrow> newClientIPResolver N (sc_TrustedProxies (cf_Server cfg)) = Inr (the (fst s))
           \<and> fst s \<noteq> None \<and> snd s = health)
      \<and> map (backend_key (pr_world p)) (p_all (w_pools (pr_world p) (pr_pool p))) =
          map (\<lambda>b. bc_ID b @ [char_of (0 :: nat)] @ u_text (the (parse (bc_URL b)))) (cf_Backends cfg))"

lemma reload_finish_runs:
  assumes valid: "Config_Validate parse N x = (None, new)"
    and health: "health = process_healthSettings (cf_HealthCheck new) [sc_Upstream (cf_Server new)]"
    and settings: "tb_settings (pr_limiter p) = limiterSettings (cf_RateLimit new)"
      "hc_settings (pr_checker p) = normalizeHealthSettings health"
    and replacement: "br_owner r = pr_pool p"
      "map (backend_key (pr_world p)) (br_backends r) =
         map (\<lambda>b. bc_ID b @ [char_of (0 :: nat)] @ u_text (the (parse (bc_URL b)))) (cf_Backends new)"
  shows "\<exists>p'. reload_finish N new health r now p = (None, p') \<and> runs_config parse N new p'"
proof -
  note v = validated_sections [OF valid]
  from validated_components(3) [OF valid] obtain res where res: "newClientIPResolver N (sc_TrustedProxies (cf_Server new)) = Inr res" ..
  let ?c = "CommitReplacement (pr_pool p) (Some r) now (pr_world p)"
  have commit: "fst ?c = None" "map (backend_key (snd ?c)) (p_all (w_pools (snd ?c) (pr_pool p))) = map (backend_key (pr_world p)) (br_backends r)"
    using CommitReplacement_keys [OF replacement(1), of now "pr_world p"] by (simp_all add: Let_def)
  then obtain w where w: "?c = (None, w)" by (cases ?c) simp
  show ?thesis
    using commit settings replacement res UpdatePolicy_validated [OF v(1,2), of "pr_balancer p" now]
    by (cases "pr_server p")
      (auto simp: reload_finish_def w UpdateRuntime_def runs_config_def health Let_def split: prod.splits)
qed

lemma reload_outcome:
  assumes valid: "Config_Validate parse N x = (None, new)" and pool: "hc_pool (pr_checker p) = pr_pool p"
    and run: "applyReload parse N dial get ctxErr new now p = (err, p')"
  shows "(err = None \<longrightarrow> runs_config parse N new p')
    \<and> (err \<noteq> None \<longrightarrow> (\<exists>w. p' = p\<lparr>pr_world := w\<rparr> \<and> below_same (w_next (pr_world p)) (pr_world p) w))"
proof (cases "ValidateReload (pr_config p) new = None")
  case False
  with run show ?thesis by (auto simp: applyReload_def intro!: exI [of _ "pr_world p"])
next
  case vr: True
  let ?health = "process_healthSettings (cf_HealthCheck new) [sc_Upstream (cf_Server new)]"
  show ?thesis
  proof (cases "PrepareReplacement parse (pr_pool p) (backendSpecs (cf_Backends new)) (pr_world p)")
    case (Inl e)
    with run vr show ?thesis by (auto simp: applyReload_def intro!: exI [of _ "pr_world p"])
  next
    case (Inr rw)
    obtain r w where rw: "rw = (r, w)" by fastforce
    note prep = Inr [unfolded rw]
    let ?warm = "WarmReplacement dial get ctxErr (pr_checker p) (Some r) ?health now w"
    obtain e w2 where warm: "?warm = (e, w2)" by fastforce
    show ?thesis
    proof (cases e)
      case (Some m)
      with run vr prep warm warmed_frame [OF prep, of dial get ctxErr "pr_checker p" ?health now] show ?thesis
        by (auto simp: applyReload_def Let_def)
    next
      case None
      note v = validated_sections [OF valid] and c = validated_components [OF valid]
      have lim: "Reconfigure (pr_limiter p) (limiterSettings (cf_RateLimit new)) =
          (None, (pr_limiter p)\<lparr>tb_settings := limiterSettings (cf_RateLimit new)\<rparr>)"
        using limiter_settings_valid [OF v(1)] by (simp add: Reconfigure_def Let_def)
      let ?hc = "(pr_checker p)\<lparr>hc_settings := normalizeHealthSettings ?health, hc_updated := True\<rparr>"
      let ?w3 = "UpdatePassivePolicy (hc_pool (pr_checker p)) (policyFromHealth (normalizeHealthSettings ?health)) w2"
      have upd: "HealthChecker_Update (pr_checker p) ?health w2 = (None, ?hc, ?w3)"
        using c(2) by (simp add: HealthChecker_Update_def Let_def)
      note pd = prepared_detached [OF prep]
      have keys: "map (backend_key ?w3) (br_backends r) =
          map (\<lambda>b. bc_ID b @ [char_of (0 :: nat)] @ u_text (the (parse (bc_URL b)))) (cf_Backends new)"
        using pd WarmReplacement_key [of dial get ctxErr "pr_checker p" r ?health now w] warm
        by (simp add: UpdatePassivePolicy_key backendSpecs_def comp_def)
      let ?q = "p\<lparr>pr_world := ?w3, pr_limiter := (pr_limiter p)\<lparr>tb_settings := limiterSettings (cf_RateLimit new)\<rparr>, pr_checker := ?hc\<rparr>"
      obtain p2 where "reload_finish N new ?health r now ?q = (None, p2)" "runs_config parse N new p2"
        using reload_finish_runs [OF valid refl, of ?q r now] keys pd by auto
      with run vr prep warm None lim upd show ?thesis by (auto simp: applyReload_def Let_def)
    qed
  qed
qed

text \<open>A reload to a validated pool, of which some enabled backend answers its probe, goes through.\<close>

lemma reload_succeeds:
  assumes valid: "Config_Validate parse N x = (None, new)" and pool: "hc_pool (pr_checker p) = pr_pool p"
    and same: "ValidateReload (pr_config p) new = None" and gw: "cf_Gateway new = None"
    and calm: "\<And>k. \<not> ctxErr k" and now: "0 \<le> now"
    and live: "\<exists>b \<in> set (cf_Backends new). \<not> bc_Disabled b \<and> checkBackend dial get (the (parse (bc_URL b)))
      (normalizeHealthSettings (process_healthSettings (cf_HealthCheck new) [sc_Upstream (cf_Server new)]))"
  shows "fst (applyReload parse N dial get ctxErr new now p) = None"
proof -
  let ?health = "process_healthSettings (cf_HealthCheck new) [sc_Upstream (cf_Server new)]"
  note c = validated_components [OF valid]
  from c(4) [OF gw, of "p_policy (w_pools (pr_world p) (pr_pool p))" "pr_world p"] obtain r w where
    prep: "PrepareReplacement parse (pr_pool p) (backendSpecs (cf_Backends new)) (pr_world p) = Inr (r, w)"
    by (auto simp: PrepareReplacement_def)
  note fresh = PrepareReplacement_fresh [OF prep]
  from live obtain b where b: "b \<in> set (cf_Backends new)" "\<not> bc_Disabled b"
    "checkBackend dial get (the (parse (bc_URL b))) (normalizeHealthSettings ?health)" by blast
  have "(True, the (parse (bc_URL b))) \<in> (\<lambda>b. (s_enabled (state_of w b), b_URL (w_backends w b))) ` set (br_backends r)"
    using fresh b(1,2) by (auto simp: backendSpecs_def image_image)
  with b(3) have "\<exists>b \<in> set (br_backends r). s_enabled (state_of w b)
      \<and> checkBackend dial get (b_URL (w_backends w b)) (normalizeHealthSettings ?health)" by auto
  then have warm: "fst (WarmReplacement dial get ctxErr (pr_checker p) (Some r) ?health now w) = None"
    using WarmReplacement_fresh [OF c(2) _ _ _ _ calm now, of r "pr_checker p" w dial get] fresh pool by auto
  show ?thesis
  proof (rule ccontr)
    assume err: "fst (applyReload parse N dial get ctxErr new now p) \<noteq> None"
    note v = validated_sections [OF valid]
    obtain w2 where w2: "WarmReplacement dial get ctxErr (pr_checker p) (Some r) ?health now w = (None, w2)"
      using warm by (cases "WarmReplacement dial get ctxErr (pr_checker p) (Some r) ?health now w") simp
    have lim: "Reconfigure (pr_limiter p) (limiterSettings (cf_RateLimit new)) =
        (None, (pr_limiter p)\<lparr>tb_settings := limiterSettings (cf_RateLimit new)\<rparr>)"
      using limiter_settings_valid [OF v(1)] by (simp add: Reconfigure_def Let_def)
    obtain hc w3 where upd: "HealthChecker_Update (pr_checker p) ?health w2 = (None, hc, w3)"
      using c(2) by (auto simp: HealthChecker_Update_def Let_def)
    from c(3) obtain res where res: "newClientIPResolver N (sc_TrustedProxies (cf_Server new)) = Inr res" ..
    have commit: "fst (CommitReplacement (pr_pool p) (Some r) now v) = None" for v
      using CommitReplacement_keys [of r "pr_pool p" now v] fresh by simp
    have "fst (applyReload parse N dial get ctxErr new now p) = None"
      using commit [of w3]
      by (cases "pr_server p") (auto simp: applyReload_def same prep w2 lim upd reload_finish_def UpdateRuntime_def res Let_def
          split: prod.splits option.splits)
    with err show False by simp
  qed
qed

section \<open>Properties\<close>


definition demo_process :: "unit process" where
  "demo_process = \<lparr>pr_config = demo_config, pr_pool = 0, pr_checker = demo_checker,
     pr_limiter = \<lparr>tb_primary = (), tb_fallback = NewLocalStore 1, tb_settings = limiterSettings (cf_RateLimit demo_config)\<rparr>,
     pr_balancer = \<lparr>rt_pool = 0, rt_strategy = LeastRequestStrategy 0, rt_policy = None, rt_budget = None, rt_events = []\<rparr>,
     pr_server = Some (None, demo_health), pr_world = empty_world\<rparr>"

lemma demo_validated: "Config_Validate simple_parse demo_netip demo_config = (None, demo_config)"
  using loaded_config_fixed [OF demo_loaded] by simp

lemma demo_reload_ok:
  "fst (applyReload simple_parse demo_netip (\<lambda>h. True) (\<lambda>u. Some 200) (\<lambda>k. False) demo_config 7 demo_process) = None"
proof (rule reload_succeeds [OF demo_validated])
  show "ValidateReload (pr_config demo_process) demo_config = None" by (simp add: demo_process_def ValidateReload_def Let_def first_error.simps)
  show "cf_Gateway demo_config = None" by code_simp
  have "list_ex (\<lambda>b. \<not> bc_Disabled b \<and> checkBackend (\<lambda>h. True) (\<lambda>u. Some 200) (the (simple_parse (bc_URL b)))
      (normalizeHealthSettings (process_healthSettings (cf_HealthCheck demo_config) [sc_Upstream (cf_Server demo_config)])))
      (cf_Backends demo_config)" by code_simp
  then show "\<exists>b \<in> set (cf_Backends demo_config). \<not> bc_Disabled b \<and> checkBackend (\<lambda>h. True) (\<lambda>u. Some 200) (the (simple_parse (bc_URL b)))
      (normalizeHealthSettings (process_healthSettings (cf_HealthCheck demo_config) [sc_Upstream (cf_Server demo_config)]))"
    by (simp add: list_ex_iff)
qed (simp_all add: demo_process_def demo_checker_def)


lemma first_error_append: "passes cs \<Longrightarrow> first_error (cs @ [(True, msg)]) = Some msg"
  by (induction cs) (auto simp: first_error.simps)

lemma option_checks_ok:
  assumes "passes (late_checks parse N cfg)" and "passes (server_checks (cf_Server cfg))"
    and "mc_Enabled (cf_Management cfg) \<Longrightarrow> token \<noteq> [] \<or> mc_AllowInsecure (cf_Management cfg)"
  shows "passes (option_checks (serverOptions cfg token))"
proof -
  have "sc_Port (cf_Server cfg) \<noteq> []" using assms(2) by (auto simp: server_checks_def Let_def Atoi_def)
  moreover have "passes (management_checks (cf_Management cfg))" using assms(1) by (simp add: late_checks_def Let_def)
  ultimately show ?thesis
    using assms by (auto simp: option_checks_def serverOptions_def server_checks_def late_checks_def management_checks_def Let_def
        split: if_splits)
qed

text \<open>A configuration that loads can be run: its limiter settings are accepted, with a static pool its backends
  build a pool and its health settings start a checker on it, and the server accepts its options as long as the
  management API, if it is on, has a token or is declared insecure.\<close>

theorem loaded_config_starts:
  assumes "Load parse N (Inr raw) = Inr cfg"
  shows "(\<exists>l. NewTokenBucketLimiter (limiterSettings (cf_RateLimit cfg)) (Some st) fallback = Inr l
         \<and> tb_settings l = limiterSettings (cf_RateLimit cfg))
    \<and> (cf_Gateway cfg = None \<longrightarrow>
        (\<exists>p w1. NewBackendPool parse (backendSpecs (cf_Backends cfg))
            (Some (passivePolicy (cf_HealthCheck cfg) [sc_Upstream (cf_Server cfg)])) now w = Inr (p, w1)
          \<and> (\<exists>hc w2. NewHealthChecker p (process_healthSettings (cf_HealthCheck cfg) [sc_Upstream (cf_Server cfg)]) w1 = Inr (hc, w2))))
    \<and> ((mc_Enabled (cf_Management cfg) \<longrightarrow> token \<noteq> [] \<or> mc_AllowInsecure (cf_Management cfg)) \<longrightarrow>
        (\<exists>s. NewServer N (serverOptions cfg token) = Inr s))"
proof (intro conjI impI)
  have valid: "Config_Validate parse N cfg = (None, cfg)" using loaded_config_fixed [OF assms] by simp
  note v = validated_sections [OF valid] and c = validated_components [OF valid]
  show "\<exists>l. NewTokenBucketLimiter (limiterSettings (cf_RateLimit cfg)) (Some st) fallback = Inr l
      \<and> tb_settings l = limiterSettings (cf_RateLimit cfg)"
    using limiter_settings_valid [OF v(1)] by (simp add: NewTokenBucketLimiter_def Let_def)
  {
    assume gw: "cf_Gateway cfg = None"
    let ?pol = "passivePolicy (cf_HealthCheck cfg) [sc_Upstream (cf_Server cfg)]"
    from c(4) [OF gw, of ?pol "w\<lparr>w_next := w_next w + 1\<rparr>"] obtain p w1 where
      "NewBackendPool parse (backendSpecs (cf_Backends cfg)) (Some ?pol) now w = Inr (p, w1)"
      by (auto simp: NewBackendPool_def Let_def)
    moreover have "\<exists>hc w2. NewHealthChecker p (process_healthSettings (cf_HealthCheck cfg) [sc_Upstream (cf_Server cfg)]) w1 = Inr (hc, w2)"
      using c(2) by (simp add: NewHealthChecker_def Let_def)
    ultimately show "\<exists>p w1. NewBackendPool parse (backendSpecs (cf_Backends cfg)) (Some ?pol) now w = Inr (p, w1)
        \<and> (\<exists>hc w2. NewHealthChecker p (process_healthSettings (cf_HealthCheck cfg) [sc_Upstream (cf_Server cfg)]) w1 = Inr (hc, w2))"
      by blast
  }
  assume "mc_Enabled (cf_Management cfg) \<longrightarrow> token \<noteq> [] \<or> mc_AllowInsecure (cf_Management cfg)"
  with option_checks_ok [OF v(1,2)] have "passes (option_checks (serverOptions cfg token))" by blast
  moreover have "op_TrustedProxies (serverOptions cfg token) = sc_TrustedProxies (cf_Server cfg)"
    "op_MetricsAddress (serverOptions cfg token) = []" by (simp_all add: serverOptions_def Let_def)
  moreover from this(2) have "first_error (metrics_checks (serverOptions cfg token)) = None"
    by (simp add: metrics_checks_def)
  ultimately show "\<exists>s. NewServer N (serverOptions cfg token) = Inr s" using c(3) by (auto simp: NewServer_def)
qed

theorem loaded_config_starts_witness:
  "\<exists>s. NewServer demo_netip (serverOptions demo_config []) = Inr s"
proof -
  have "\<not> mc_Enabled (cf_Management demo_config)" by code_simp
  with loaded_config_starts [OF demo_loaded, of "()" None 0 empty_world "[]"] show ?thesis by simp
qed

text \<open>With a static pool, role credentials and TLS of the management API are ignored: the options made from the
  configuration have neither. A configuration that passes validation because it has credentials, without the single
  admin token, is refused by the server as one without any authentication, and with the admin token the API is
  served without the configured certificate.\<close>

theorem static_pool_ignores_credentials:
  assumes "Load parse N (Inr raw) = Inr cfg" and "mc_Enabled (cf_Management cfg)"
    and "mc_AuthTokenEnv (cf_Management cfg) = []" and "\<not> mc_AllowInsecure (cf_Management cfg)"
    and "SecretFromEnv env read (mc_AuthTokenEnv (cf_Management cfg)) = Inr token"
  shows "mc_Credentials (cf_Management cfg) \<noteq> []
    \<and> NewServer N (serverOptions cfg token) = Inl ''management auth token is required''
    \<and> st_CertFile (op_ManagementTLS (serverOptions cfg other)) = [] \<and> op_Credentials (serverOptions cfg other) = []"
proof -
  have valid: "Config_Validate parse N cfg = (None, cfg)" using loaded_config_fixed [OF assms(1)] by simp
  note v = validated_sections [OF valid]
  have token: "token = []" using assms(3,5) by (simp add: SecretFromEnv_def)
  have m: "passes (management_checks (cf_Management cfg))" using v(1) by (simp add: late_checks_def Let_def)
  have "passes (option_checks (serverOptions cfg ''t''))" by (rule option_checks_ok [OF v(1,2)]) simp
  then have "passes (butlast (option_checks (serverOptions cfg [])))"
    by (simp add: option_checks_def serverOptions_def Let_def)
  moreover have "option_checks (serverOptions cfg []) =
      butlast (option_checks (serverOptions cfg [])) @ [(True, ''management auth token is required'')]"
    using assms(2,4) by (simp add: option_checks_def serverOptions_def Let_def)
  ultimately have "first_error (option_checks (serverOptions cfg [])) = Some ''management auth token is required''"
    using first_error_append by metis
  with m assms(2-4) show ?thesis by (simp add: NewServer_def token management_checks_def serverOptions_def Let_def)
qed

definition demo_secure_raw :: Config where
  "demo_secure_raw = demo_raw\<lparr>cf_Management := (cf_Management demo_raw)\<lparr>mc_Enabled := True,
     mc_Credentials := [\<lparr>cc_Name = ''ops'', cc_Role = ''operator'', cc_TokenEnv = ''TOKEN'', cc_CertificateSubject = []\<rparr>]\<rparr>\<rparr>"

theorem static_pool_ignores_credentials_witness:
  "NewServer demo_netip (serverOptions (projr (Load simple_parse demo_netip (Inr demo_secure_raw))) []) =
     Inl ''management auth token is required''"
proof -
  let ?cfg = "projr (Load simple_parse demo_netip (Inr demo_secure_raw))"
  have "\<not> isl (Load simple_parse demo_netip (Inr demo_secure_raw))" by code_simp
  then have load: "Load simple_parse demo_netip (Inr demo_secure_raw) = Inr ?cfg" by simp
  have "mc_Enabled (cf_Management ?cfg)" "mc_AuthTokenEnv (cf_Management ?cfg) = []" "\<not> mc_AllowInsecure (cf_Management ?cfg)"
    by code_simp+
  from static_pool_ignores_credentials [OF load this, of "\<lambda>n. None" "\<lambda>f. Inl []" "[]"] this(2) show ?thesis
    by (simp add: SecretFromEnv_def)
qed

end
