(* ===== verification/Lifecycle.thy ===== *)
theory Lifecycle
  imports Reload
begin

text \<open>
  The listeners of the process (\<open>internal/server/lifecycle.go\<close>, \<open>listeners.go\<close> and \<open>internal/identity/tls.go\<close>): which
  HTTP servers there are, how each is bound to its address, the TLS configuration of a handshake, the connections
  that are tracked, and shutting down. The files with certificates are an argument, and may change between two
  handshakes; whether the operating system grants an address is an argument too.
\<close>

section \<open>Certificates\<close>

record tls_files =
  tf_ReadFile :: "go_string \<Rightarrow> go_string + go_string"
  tf_AppendCertsFromPEM :: "go_string \<Rightarrow> bool"
  tf_LoadX509KeyPair :: "go_string \<Rightarrow> go_string \<Rightarrow> go_string + go_string"

text \<open>A pool of authorities is the data it was read from.\<close>

definition roots :: "tls_files \<Rightarrow> go_string \<Rightarrow> go_string + go_string" where
  "roots files path =
     (case tf_ReadFile files path of
        Inl err \<Rightarrow> Inl (''read certificate authority: '' @ err)
      | Inr data \<Rightarrow> if \<not> tf_AppendCertsFromPEM files data then Inl ''certificate authority contains no certificates'' else Inr data)"

text \<open>\<open>tls_ClientAuth\<close> stands for \<open>RequireAndVerifyClientCert\<close>.\<close>

record tlsConfig =
  tls_Certificate :: go_string
  tls_ClientAuth :: bool
  tls_ClientCAs :: "go_string option"
  tls_NextProtos :: "go_string list"

text \<open>The closure \<open>load\<close> of \<open>Server\<close>, called at start and, as \<open>GetConfigForClient\<close>, for each handshake.\<close>

definition identity_load :: "tls_files \<Rightarrow> ServerTLSConfig \<Rightarrow> go_string + tlsConfig" where
  "identity_load files settings =
     (case tf_LoadX509KeyPair files (st_CertFile settings) (st_KeyFile settings) of
        Inl err \<Rightarrow> Inl (''load server certificate: '' @ err)
      | Inr certificate \<Rightarrow>
          (let conf = \<lparr>tls_Certificate = certificate, tls_ClientAuth = False, tls_ClientCAs = None, tls_NextProtos = [''h2'', ''http/1.1'']\<rparr>
           in if st_RequireClientCert settings
              then (case roots files (st_CAFile settings) of
                      Inl err \<Rightarrow> Inl err
                    | Inr pool \<Rightarrow> Inr (conf\<lparr>tls_ClientAuth := True, tls_ClientCAs := Some pool\<rparr>))
              else Inr conf))"

definition identity_Server :: "tls_files \<Rightarrow> ServerTLSConfig \<Rightarrow> go_string + tlsConfig option" where
  "identity_Server files settings =
     (case first_error (ServerTLS_Validate settings) of
        Some err \<Rightarrow> Inl err
      | None \<Rightarrow>
          if st_CertFile settings = [] then Inr None
          else (case identity_load files settings of Inl err \<Rightarrow> Inl err | Inr initial \<Rightarrow> Inr (Some initial)))"

record tlsClient =
  tlc_ServerName :: go_string
  tlc_RootCAs :: "go_string option"
  tlc_presents :: bool

definition identity_Client :: "tls_files \<Rightarrow> ClientTLSConfig \<Rightarrow> go_string + tlsClient option" where
  "identity_Client files settings =
     (if \<not> ct_Enabled settings then Inr None
      else case (if ct_CAFile settings \<noteq> [] then map_sum id Some (roots files (ct_CAFile settings)) else Inr None) of
             Inl err \<Rightarrow> Inl err
           | Inr pool \<Rightarrow>
               if (ct_ClientCertFile settings = []) \<noteq> (ct_ClientKeyFile settings = [])
               then Inl ''client TLS certificate and key must be configured together''
               else if ct_ClientCertFile settings \<noteq> []
               then (case tf_LoadX509KeyPair files (ct_ClientCertFile settings) (ct_ClientKeyFile settings) of
                       Inl err \<Rightarrow> Inl err
                     | Inr certificate \<Rightarrow>
                         Inr (Some \<lparr>tlc_ServerName = ct_ServerName settings, tlc_RootCAs = pool, tlc_presents = True\<rparr>))
               else Inr (Some \<lparr>tlc_ServerName = ct_ServerName settings, tlc_RootCAs = pool, tlc_presents = False\<rparr>))"

section \<open>Servers\<close>

datatype mux = PublicMux | ListenerEntry go_string | ManagementMux | MetricsMux

record httpServer =
  ht_Addr :: go_string
  ht_Handler :: mux
  ht_ReadHeaderTimeout :: duration
  ht_ReadTimeout :: duration
  ht_WriteTimeout :: duration
  ht_IdleTimeout :: duration
  ht_MaxHeaderBytes :: int
  ht_HTTP2 :: bool
  ht_UnencryptedHTTP2 :: bool
  ht_TLSConfig :: "tlsConfig option"

definition newHTTPServer :: "go_string \<Rightarrow> mux \<Rightarrow> Options \<Rightarrow> duration \<Rightarrow> httpServer" where
  "newHTTPServer address handler options writeTimeout =
     \<lparr>ht_Addr = address, ht_Handler = handler, ht_ReadHeaderTimeout = op_ReadHeaderTimeout options,
      ht_ReadTimeout = op_ReadTimeout options, ht_WriteTimeout = writeTimeout, ht_IdleTimeout = op_IdleTimeout options,
      ht_MaxHeaderBytes = op_MaxHeaderBytes options, ht_HTTP2 = True, ht_UnencryptedHTTP2 = False, ht_TLSConfig = None\<rparr>"

definition http1_only :: "GatewayListenerConfig \<Rightarrow> tlsConfig \<Rightarrow> tlsConfig" where
  "http1_only l conf = (if gl_Protocol l = ''http1'' then conf\<lparr>tls_NextProtos := [''http/1.1'']\<rparr> else conf)"

definition configure_listener :: "tls_files \<Rightarrow> Options \<Rightarrow> GatewayListenerConfig \<Rightarrow> go_string + httpServer" where
  "configure_listener files options l =
     (case identity_Server files (gl_TLS l) of
        Inl err \<Rightarrow> Inl err
      | Inr conf \<Rightarrow>
          Inr ((newHTTPServer (gl_Address l) (ListenerEntry (gl_ID l)) options (op_WriteTimeout options))\<lparr>
            ht_HTTP2 := (gl_Protocol l = ''http2''), ht_UnencryptedHTTP2 := (gl_Protocol l = ''h2c''),
            ht_TLSConfig := map_option (http1_only l) conf\<rparr>))"

text \<open>The configuration of one handshake of a listener, which \<open>GetConfigForClient\<close> gives.\<close>

definition listener_handshake :: "tls_files \<Rightarrow> GatewayListenerConfig \<Rightarrow> go_string + tlsConfig" where
  "listener_handshake files l = map_sum id (http1_only l) (identity_load files (gl_TLS l))"

record serverSet =
  sv_publicServer :: httpServer
  sv_extraServers :: "httpServer list"
  sv_managementServer :: "httpServer option"
  sv_metricsServer :: "httpServer option"
  sv_managementTLS :: ServerTLSConfig

text \<open>The loop over the listeners; the first one takes the place of the public server.\<close>

fun configure_listeners :: "tls_files \<Rightarrow> Options \<Rightarrow> nat \<Rightarrow> GatewayListenerConfig list \<Rightarrow> serverSet \<Rightarrow> go_string + serverSet" where
  "configure_listeners files options index [] s = Inr s"
| "configure_listeners files options index (l # ls) s =
     (case configure_listener files options l of
        Inl err \<Rightarrow> Inl err
      | Inr instance_ \<Rightarrow> configure_listeners files options (Suc index) ls
          (if index = 0 then s\<lparr>sv_publicServer := instance_\<rparr> else s\<lparr>sv_extraServers := sv_extraServers s @ [instance_]\<rparr>))"

definition configureGatewayListeners :: "tls_files \<Rightarrow> Options \<Rightarrow> GatewayListenerConfig list \<Rightarrow> serverSet \<Rightarrow> go_string + serverSet" where
  "configureGatewayListeners files options ls s = configure_listeners files options 0 ls s"

text \<open>The servers \<open>NewServer\<close> makes; \<open>listeners\<close> is \<open>None\<close> without a gateway.\<close>

definition new_servers :: "tls_files \<Rightarrow> Options \<Rightarrow> GatewayListenerConfig list option \<Rightarrow> go_string + serverSet" where
  "new_servers files options listeners =
     (let s = \<lparr>sv_publicServer = newHTTPServer ('':'' @ op_Port options) PublicMux options (op_WriteTimeout options),
               sv_extraServers = [],
               sv_managementServer = (if op_ManagementEnabled options
                 then Some (newHTTPServer (op_ManagementAddress options) ManagementMux options (op_ManagementWriteTimeout options)) else None),
               sv_metricsServer = (if op_MetricsAddress options \<noteq> []
                 then Some (newHTTPServer (op_MetricsAddress options) MetricsMux options (op_ManagementWriteTimeout options)) else None),
               sv_managementTLS = op_ManagementTLS options\<rparr>
      in case listeners of None \<Rightarrow> Inr s | Some ls \<Rightarrow> configureGatewayListeners files options ls s)"

definition httpServers :: "serverSet \<Rightarrow> httpServer list" where
  "httpServers s = sv_publicServer s # sv_extraServers s
     @ (case sv_managementServer s of None \<Rightarrow> [] | Some m \<Rightarrow> [m]) @ (case sv_metricsServer s of None \<Rightarrow> [] | Some m \<Rightarrow> [m])"

section \<open>Listening\<close>

text \<open>The sockets that are open, with their addresses, and the number of calls of \<open>net.Listen\<close> so far.\<close>

record network =
  nw_open :: "(nat \<times> go_string) list"
  nw_calls :: nat

type_synonym refusals = "nat \<Rightarrow> go_string \<Rightarrow> go_string option"

definition net_Listen :: "refusals \<Rightarrow> go_string \<Rightarrow> network \<Rightarrow> (go_string + nat) \<times> network" where
  "net_Listen refuse address w =
     (let w' = w\<lparr>nw_calls := Suc (nw_calls w)\<rparr>
      in case refuse (nw_calls w) address of
           Some err \<Rightarrow> (Inl err, w')
         | None \<Rightarrow> (Inr (nw_calls w), w'\<lparr>nw_open := nw_open w @ [(nw_calls w, address)]\<rparr>))"

definition close_listeners :: "nat list \<Rightarrow> network \<Rightarrow> network" where
  "close_listeners ls w = w\<lparr>nw_open := filter (\<lambda>(l, address). l \<notin> set ls) (nw_open w)\<rparr>"

fun listen_extra ::
    "refusals \<Rightarrow> httpServer list \<Rightarrow> nat list \<Rightarrow> nat option \<Rightarrow> network \<Rightarrow> (go_string + nat list) \<times> network" where
  "listen_extra refuse [] listeners managementListener w = (Inr listeners, w)"
| "listen_extra refuse (i # is) listeners managementListener w =
     (case net_Listen refuse (ht_Addr i) w of
        (Inl err, w) \<Rightarrow> (Inl err, close_listeners (listeners @ (case managementListener of None \<Rightarrow> [] | Some l \<Rightarrow> [l])) w)
      | (Inr l, w) \<Rightarrow> listen_extra refuse is (listeners @ [l]) managementListener w)"

text \<open>\<open>Serve\<close> up to the goroutines it starts, each with a server and its listener; \<open>None\<close> is an index out of range.\<close>

definition serve_all :: "httpServer list \<Rightarrow> nat list \<Rightarrow> (httpServer \<times> nat) list option" where
  "serve_all servers listeners = (if length listeners < length servers then None else Some (zip servers listeners))"

definition serve_rest ::
    "refusals \<Rightarrow> serverSet \<Rightarrow> nat \<Rightarrow> nat option \<Rightarrow> network \<Rightarrow> (go_string + (httpServer \<times> nat) list option) \<times> network" where
  "serve_rest refuse s publicListener managementListener w =
     (case listen_extra refuse (sv_extraServers s) [publicListener] managementListener w of
        (Inl err, w) \<Rightarrow> (Inl err, w)
      | (Inr listeners, w) \<Rightarrow>
          (let listeners = listeners @ (case managementListener of None \<Rightarrow> [] | Some l \<Rightarrow> [l])
           in case sv_metricsServer s of
                None \<Rightarrow> (Inr (serve_all (httpServers s) listeners), w)
              | Some m \<Rightarrow>
                  (case net_Listen refuse (ht_Addr m) w of
                     (Inl err, w) \<Rightarrow> (Inl err, close_listeners listeners w)
                   | (Inr l, w) \<Rightarrow> (Inr (serve_all (httpServers s) (listeners @ [l])), w))))"

definition Serve ::
    "tls_files \<Rightarrow> refusals \<Rightarrow> serverSet \<Rightarrow> nat option \<Rightarrow> nat option \<Rightarrow> network
     \<Rightarrow> (go_string + (httpServer \<times> nat) list option) \<times> network" where
  "Serve files refuse s publicListener managementListener w =
     (case publicListener of
        None \<Rightarrow> (Inl ''public listener is required'', w)
      | Some p \<Rightarrow>
          (case sv_managementServer s of
             None \<Rightarrow> serve_rest refuse s p managementListener w
           | Some m \<Rightarrow>
               (case managementListener of
                  None \<Rightarrow> (Inl ''management listener is required'', w)
                | Some l \<Rightarrow>
                    (case identity_Server files (sv_managementTLS s) of
                       Inl err \<Rightarrow> (Inl err, close_listeners [p, l] w)
                     | Inr conf \<Rightarrow>
                         serve_rest refuse (s\<lparr>sv_managementServer := Some (m\<lparr>ht_TLSConfig := conf\<rparr>)\<rparr>) p (Some l) w))))"

definition Start :: "tls_files \<Rightarrow> refusals \<Rightarrow> serverSet \<Rightarrow> network \<Rightarrow> (go_string + (httpServer \<times> nat) list option) \<times> network" where
  "Start files refuse s w =
     (case net_Listen refuse (ht_Addr (sv_publicServer s)) w of
        (Inl err, w) \<Rightarrow> (Inl (''listen on public address '' @ ht_Addr (sv_publicServer s) @ '': '' @ err), w)
      | (Inr p, w) \<Rightarrow>
          (case sv_managementServer s of
             None \<Rightarrow> Serve files refuse s (Some p) None w
           | Some m \<Rightarrow>
               (case net_Listen refuse (ht_Addr m) w of
                  (Inl err, w) \<Rightarrow> (Inl (''listen on management address '' @ ht_Addr m @ '': '' @ err), close_listeners [p] w)
                | (Inr l, w) \<Rightarrow> Serve files refuse s (Some p) (Some l) w)))"

section \<open>Connections\<close>

datatype conn_state = StateNew | StateActive | StateIdle | StateHijacked | StateClosed

datatype conn_event = Accept nat | ConnState nat conn_state | CloseConn nat

text \<open>The tracked connections, and those whose flag \<open>hijacked\<close> is set.\<close>

record connections =
  cn_tracked :: "nat list"
  cn_hijacked :: "nat list"

definition trackedConn_Close :: "nat \<Rightarrow> connections \<Rightarrow> connections" where
  "trackedConn_Close c t = t\<lparr>cn_tracked := removeAll c (cn_tracked t)\<rparr>"

definition connectionState :: "nat \<Rightarrow> conn_state \<Rightarrow> connections \<Rightarrow> connections" where
  "connectionState c state t =
     (let t = (if state = StateHijacked then t\<lparr>cn_hijacked := c # cn_hijacked t\<rparr> else t)
      in if state = StateClosed then t\<lparr>cn_tracked := removeAll c (cn_tracked t)\<rparr> else t)"

fun conn_step :: "conn_event \<Rightarrow> connections \<Rightarrow> connections" where
  "conn_step (Accept c) t = t\<lparr>cn_tracked := c # cn_tracked t\<rparr>"
| "conn_step (ConnState c state) t = connectionState c state t"
| "conn_step (CloseConn c) t = trackedConn_Close c t"

definition hijackedCount :: "connections \<Rightarrow> nat" where
  "hijackedCount t = length (filter (\<lambda>c. c \<in> set (cn_hijacked t)) (cn_tracked t))"

definition closeConnections :: "connections \<Rightarrow> connections" where
  "closeConnections t = fold trackedConn_Close (cn_tracked t) t"

section \<open>Shutting down\<close>

text \<open>One turn of the loop of \<open>Shutdown\<close>: what happens to connections while it waits, and whether it then sees that
  its context is done. \<open>None\<close>: the loop is still waiting after all turns.\<close>

fun await_hijacked :: "(conn_event list \<times> bool) list \<Rightarrow> connections \<Rightarrow> (bool \<times> connections) option" where
  "await_hijacked turns t =
     (if hijackedCount t = 0 then Some (False, t)
      else case turns of
             [] \<Rightarrow> None
           | (events, ctxDone) # turns \<Rightarrow>
               (let t = fold conn_step events t
                in if ctxDone then Some (True, closeConnections t) else await_hijacked turns t))"

declare await_hijacked.simps [simp del]

text \<open>\<open>results\<close> are the errors of the servers' own \<open>Shutdown\<close>, in the order they are collected. The answer is the
  joined errors and the flag \<open>shuttingDown\<close>.\<close>

definition Shutdown ::
    "go_string \<Rightarrow> go_string option list \<Rightarrow> (conn_event list \<times> bool) list \<Rightarrow> connections \<Rightarrow> (go_string list \<times> bool \<times> connections) option" where
  "Shutdown ctxErr results turns t =
     (let shutdownErrors = List.map_filter id results
      in map_option (\<lambda>(expired, t). (shutdownErrors @ (if expired then [ctxErr] else []), True, t)) (await_hijacked turns t))"

section \<open>Sockets\<close>

definition sockets_ok :: "network \<Rightarrow> bool" where
  "sockets_ok w \<longleftrightarrow> (\<forall>p \<in> set (nw_open w). fst p < nw_calls w)"

lemma net_Listen_cases:
  assumes "net_Listen refuse address w = (r, w')" and "sockets_ok w"
  shows "sockets_ok w'" "nw_calls w' = Suc (nw_calls w)"
    "r = Inl err \<Longrightarrow> nw_open w' = nw_open w"
    "r = Inr l \<Longrightarrow> l = nw_calls w \<and> nw_open w' = nw_open w @ [(l, address)]"
  using assms by (auto simp: net_Listen_def sockets_ok_def Let_def intro: less_SucI dest: bspec split: option.splits)

lemma close_listeners_open [simp]: "nw_open (close_listeners ls w) = filter (\<lambda>(l, address). l \<notin> set ls) (nw_open w)"
  by (simp add: close_listeners_def)

text \<open>Closing everything opened since a moment leaves what was open then.\<close>

lemma close_opened:
  assumes "sockets_ok w" and "fst ` set opened \<subseteq> gone" and "\<forall>l \<in> gone. nw_calls w \<le> l"
  shows "filter (\<lambda>(l, address). l \<notin> gone) (nw_open w @ opened) = nw_open w"
proof -
  have "filter (\<lambda>(l, address). l \<notin> gone) (nw_open w) = nw_open w"
    using assms(1,3) by (force simp: sockets_ok_def filter_id_conv)
  moreover have "filter (\<lambda>(l, address). l \<notin> gone) opened = []" using assms(2) by (auto simp: filter_empty_conv)
  ultimately show ?thesis by simp
qed

lemma listen_extra_outcome:
  assumes "listen_extra refuse is ls mg w = (r, w')" and "sockets_ok w"
  shows "\<exists>new. sockets_ok w' \<and> nw_calls w \<le> nw_calls w' \<and> distinct new \<and> (\<forall>l \<in> set new. nw_calls w \<le> l \<and> l < nw_calls w')
    \<and> (case r of Inr ls' \<Rightarrow> ls' = ls @ new \<and> length new = length is \<and> nw_open w' = nw_open w @ zip new (map ht_Addr is)
       | Inl err \<Rightarrow> nw_open w' = filter (\<lambda>(l, address). l \<notin> set (ls @ new @ (case mg of None \<Rightarrow> [] | Some l \<Rightarrow> [l])))
           (nw_open w @ zip new (map ht_Addr is)))"
  using assms
proof (induction "is" arbitrary: ls w)
  case Nil
  then show ?case by (intro exI [of _ "[]"]) auto
next
  case (Cons i "is")
  obtain r1 w1 where listen: "net_Listen refuse (ht_Addr i) w = (r1, w1)" by fastforce
  note one = net_Listen_cases [OF listen Cons.prems(2)]
  show ?case
  proof (cases r1)
    case (Inl err)
    with Cons.prems(1) listen one(3) [of err] have w': "nw_open w' = filter (\<lambda>(l, address). l \<notin> set (ls @ (case mg of None \<Rightarrow> [] | Some l \<Rightarrow> [l]))) (nw_open w)"
      and r: "r = Inl err" and "nw_calls w' = nw_calls w1" by (auto simp: close_listeners_def)
    moreover have "sockets_ok w'" using one(1) w' one(3) [OF Inl] \<open>nw_calls w' = nw_calls w1\<close> by (auto simp: sockets_ok_def)
    ultimately show ?thesis using one(2) by (intro exI [of _ "[]"]) simp
  next
    case (Inr l)
    with Cons.prems(1) listen have "listen_extra refuse is (ls @ [l]) mg w1 = (r, w')" by simp
    from Cons.IH [OF this one(1)] obtain new where new: "sockets_ok w'" "nw_calls w1 \<le> nw_calls w'" "distinct new"
      "\<forall>l \<in> set new. nw_calls w1 \<le> l \<and> l < nw_calls w'"
      "case r of Inr ls' \<Rightarrow> ls' = (ls @ [l]) @ new \<and> length new = length is \<and> nw_open w' = nw_open w1 @ zip new (map ht_Addr is)
       | Inl err \<Rightarrow> nw_open w' = filter (\<lambda>(m, address). m \<notin> set ((ls @ [l]) @ new @ (case mg of None \<Rightarrow> [] | Some l \<Rightarrow> [l])))
           (nw_open w1 @ zip new (map ht_Addr is))" by blast
    with one(2) one(4) [OF Inr] show ?thesis by (intro exI [of _ "l # new"]) (auto split: sum.splits option.splits)
  qed
qed

text \<open>Both outcomes of \<open>serve_rest\<close>, from the public and the management listener opened since \<open>w0\<close>.\<close>

lemma serve_rest_outcome:
  assumes "serve_rest refuse s p mg w = (r, w')" and "sockets_ok w" and "sockets_ok w0" and "nw_calls w0 \<le> p" and "p < nw_calls w"
    and "(mg = None \<and> sv_managementServer s = None \<and> nw_open w = nw_open w0 @ [(p, ht_Addr (sv_publicServer s))])
      \<or> (\<exists>l m. mg = Some l \<and> sv_managementServer s = Some m \<and> nw_calls w0 \<le> l \<and> l < nw_calls w \<and> p \<noteq> l
           \<and> nw_open w = nw_open w0 @ [(p, ht_Addr (sv_publicServer s)), (l, ht_Addr m)])"
  shows "case r of Inl err \<Rightarrow> nw_open w' = nw_open w0
    | Inr started \<Rightarrow> \<exists>pairs. started = Some pairs \<and> map fst pairs = httpServers s \<and> distinct (map snd pairs)
        \<and> mset (nw_open w') = mset (nw_open w0) + mset (map (\<lambda>(i, l). (l, ht_Addr i)) pairs)"
proof -
  let ?mg = "case mg of None \<Rightarrow> [] | Some l \<Rightarrow> [l]"
  obtain r1 w1 where extra: "listen_extra refuse (sv_extraServers s) [p] mg w = (r1, w1)" by fastforce
  from listen_extra_outcome [OF extra assms(2)] obtain new where new: "sockets_ok w1" "nw_calls w \<le> nw_calls w1" "distinct new"
    "\<forall>l \<in> set new. nw_calls w \<le> l \<and> l < nw_calls w1"
    "case r1 of Inr ls' \<Rightarrow> ls' = [p] @ new \<and> length new = length (sv_extraServers s) \<and> nw_open w1 = nw_open w @ zip new (map ht_Addr (sv_extraServers s))
       | Inl err \<Rightarrow> nw_open w1 = filter (\<lambda>(l, address). l \<notin> set ([p] @ new @ ?mg)) (nw_open w @ zip new (map ht_Addr (sv_extraServers s)))"
    by blast
  have calls: "nw_calls w0 \<le> nw_calls w" using assms(4,5) by simp
  obtain ad where w: "nw_open w = nw_open w0 @ zip (p # ?mg) ad" "length ad = Suc (length ?mg)"
    "ad = ht_Addr (sv_publicServer s) # (case sv_managementServer s of None \<Rightarrow> [] | Some m \<Rightarrow> [ht_Addr m])"
    using assms(6) by auto
  have mine: "\<forall>l \<in> set (p # new @ ?mg). nw_calls w0 \<le> l" using new(4) calls assms(4,6) by auto
  have closed: "filter (\<lambda>(l, address). l \<notin> set ([p] @ new @ ?mg)) (nw_open w @ zip new (map ht_Addr (sv_extraServers s))) = nw_open w0"
    unfolding w(1) append_assoc using mine by (intro close_opened [OF assms(3)]) (auto dest!: set_zip_leftD)
  have dist: "distinct (p # new @ ?mg)" using new(3,4) assms(5,6) by (force split: option.splits)
  show ?thesis
  proof (cases r1)
    case (Inl err)
    with assms(1) extra new(5) closed show ?thesis by (auto simp: serve_rest_def)
  next
    case (Inr ls)
    with new(5) have ls: "ls = p # new" "length new = length (sv_extraServers s)" "nw_open w1 = nw_open w @ zip new (map ht_Addr (sv_extraServers s))" by simp_all
    have n: "length ?mg = length (case sv_managementServer s of None \<Rightarrow> [] | Some m \<Rightarrow> [m])" using assms(6) by auto
    have pairs: "mset (nw_open w1) = mset (nw_open w0) + mset (map (\<lambda>(i, l). (l, ht_Addr i))
        (zip (sv_publicServer s # sv_extraServers s @ (case sv_managementServer s of None \<Rightarrow> [] | Some m \<Rightarrow> [m])) (p # new @ ?mg)))"
      using assms(6) ls(2) by (auto simp: ls(3) zip_map2 split_def zip_commute [of new] comp_def)
    show ?thesis
    proof (cases "sv_metricsServer s")
      case None
      with assms(1) extra Inr ls have "r = Inr (serve_all (httpServers s) ((p # new) @ ?mg))" "w' = w1" by (simp_all add: serve_rest_def Let_def)
      with pairs dist n ls(2) None show ?thesis by (simp add: serve_all_def httpServers_def)
    next
      case (Some m)
      obtain r2 w2 where listen: "net_Listen refuse (ht_Addr m) w1 = (r2, w2)" by fastforce
      note two = net_Listen_cases [OF listen new(1)]
      show ?thesis
      proof (cases r2)
        case (Inl err)
        with assms(1) extra Inr ls Some listen two(3) [OF Inl] closed show ?thesis by (auto simp: serve_rest_def Let_def)
      next
        case l: (Inr l)
        with assms(1) extra Inr ls Some listen have "r = Inr (serve_all (httpServers s) ((p # new) @ ?mg @ [l]))" "w' = w2"
          by (simp_all add: serve_rest_def Let_def)
        moreover from two(4) [OF l] new(4) assms(5,6) new(2) dist have "distinct ((p # new) @ ?mg @ [l])" by (force split: option.splits)
        ultimately show ?thesis using pairs n ls(2) Some two(4) [OF l] by (simp add: serve_all_def httpServers_def)
      qed
    qed
  qed
qed

lemma map_fst_pairs: "map fst pairs = is \<Longrightarrow> map (\<lambda>(i, l). f i) pairs = map f is"
  by (auto simp: split_def)

lemma served_pairs:
  assumes "case r of Inl err \<Rightarrow> A | Inr started \<Rightarrow> \<exists>pairs. started = Some pairs \<and> map fst pairs = is \<and> B pairs" and "map f is = map f is'"
  shows "case r of Inl err \<Rightarrow> A | Inr started \<Rightarrow> \<exists>pairs. started = Some pairs \<and> map (\<lambda>(i, l). f i) pairs = map f is' \<and> B pairs"
proof (cases r)
  case (Inr started)
  with assms(1) obtain pairs where "started = Some pairs" "map fst pairs = is" "B pairs" by auto
  with map_fst_pairs [of pairs "is" f] assms(2) Inr show ?thesis by simp
next
  case (Inl err)
  with assms(1) show ?thesis by simp
qed

text \<open>C20. Starting is all or nothing. If any address is refused or the management certificate cannot be loaded, \<open>Start\<close>
  returns an error with every socket it opened closed again. Otherwise every server of the process is served, on
  exactly one socket, bound to its own address, no index is out of range, and no other socket is left open.\<close>

theorem start_all_or_nothing:
  assumes "Start files refuse s w = (r, w')" and "sockets_ok w"
  shows "case r of Inl err \<Rightarrow> nw_open w' = nw_open w
    | Inr started \<Rightarrow> \<exists>pairs. started = Some pairs
        \<and> map (\<lambda>(i, l). (ht_Addr i, ht_Handler i)) pairs = map (\<lambda>i. (ht_Addr i, ht_Handler i)) (httpServers s) \<and> distinct (map snd pairs)
        \<and> mset (nw_open w') = mset (nw_open w) + mset (map (\<lambda>(i, l). (l, ht_Addr i)) pairs)"
proof -
  obtain r1 w1 where public: "net_Listen refuse (ht_Addr (sv_publicServer s)) w = (r1, w1)" by fastforce
  note one = net_Listen_cases [OF public assms(2)]
  show ?thesis
  proof (cases r1)
    case (Inl err)
    with assms(1) public one(3) show ?thesis by (auto simp: Start_def)
  next
    case p: (Inr p)
    note opened = one(4) [OF p]
    show ?thesis
    proof (cases "sv_managementServer s")
      case None
      with assms(1) public p have "serve_rest refuse s p None w1 = (r, w')" by (simp add: Start_def Serve_def)
      from serve_rest_outcome [OF this one(1) assms(2)] opened one(2) None
      have "case r of Inl err \<Rightarrow> nw_open w' = nw_open w
        | Inr started \<Rightarrow> \<exists>pairs. started = Some pairs \<and> map fst pairs = httpServers s \<and> distinct (map snd pairs)
            \<and> mset (nw_open w') = mset (nw_open w) + mset (map (\<lambda>(i, l). (l, ht_Addr i)) pairs)" by simp
      from served_pairs [OF this refl] show ?thesis .
    next
      case (Some m)
      obtain r2 w2 where management: "net_Listen refuse (ht_Addr m) w1 = (r2, w2)" by fastforce
      note two = net_Listen_cases [OF management one(1)]
      show ?thesis
      proof (cases r2)
        case (Inl err)
        with assms(1) public p Some management have "r = Inl (''listen on management address '' @ ht_Addr m @ '': '' @ err)" "w' = close_listeners [p] w2"
          by (simp_all add: Start_def)
        with close_opened [OF assms(2), of "[(p, ht_Addr (sv_publicServer s))]" "{p}"] opened two(3) [OF Inl] show ?thesis by simp
      next
        case l: (Inr l)
        note opened2 = two(4) [OF l]
        have serve: "Serve files refuse s (Some p) (Some l) w2 = (r, w')" using assms(1) public p Some management l by (simp add: Start_def)
        show ?thesis
        proof (cases "identity_Server files (sv_managementTLS s)")
          case (Inl err)
          with serve Some have "r = Inl err" "w' = close_listeners [p, l] w2" by (simp_all add: Serve_def)
          with close_opened [OF assms(2), of "[(p, ht_Addr (sv_publicServer s)), (l, ht_Addr m)]" "{p, l}"] opened opened2 one(2) show ?thesis by simp
        next
          case (Inr conf)
          let ?s = "s\<lparr>sv_managementServer := Some (m\<lparr>ht_TLSConfig := conf\<rparr>)\<rparr>"
          from serve Some Inr have "serve_rest refuse ?s p (Some l) w2 = (r, w')" by (simp add: Serve_def)
          from serve_rest_outcome [OF this two(1) assms(2)] opened opened2 one(2) two(2)
          have out: "case r of Inl err \<Rightarrow> nw_open w' = nw_open w
            | Inr started \<Rightarrow> \<exists>pairs. started = Some pairs \<and> map fst pairs = httpServers ?s \<and> distinct (map snd pairs)
                \<and> mset (nw_open w') = mset (nw_open w) + mset (map (\<lambda>(i, l). (l, ht_Addr i)) pairs)" by simp
          have "map (\<lambda>i. (ht_Addr i, ht_Handler i)) (httpServers ?s) = map (\<lambda>i. (ht_Addr i, ht_Handler i)) (httpServers s)"
            using Some by (simp add: httpServers_def)
          from served_pairs [OF out this] show ?thesis .
        qed
      qed
    qed
  qed
qed

definition demo_options :: Options where
  "demo_options = (serverOptions demo_config ''secret'')\<lparr>op_Port := ''8080'', op_ManagementEnabled := True, op_ManagementAddress := '':9090'',
     op_MetricsAddress := '':9100'', op_MetricsToken := True\<rparr>"

definition demo_files :: tls_files where
  "demo_files = \<lparr>tf_ReadFile = (\<lambda>path. Inr path), tf_AppendCertsFromPEM = (\<lambda>pem. True), tf_LoadX509KeyPair = (\<lambda>cert key. Inr cert)\<rparr>"

definition demo_servers :: serverSet where
  "demo_servers = \<lparr>sv_publicServer = newHTTPServer '':8080'' PublicMux demo_options 0, sv_extraServers = [],
     sv_managementServer = Some (newHTTPServer '':9090'' ManagementMux demo_options 0), sv_metricsServer = Some (newHTTPServer '':9100'' MetricsMux demo_options 0),
     sv_managementTLS = \<lparr>st_CertFile = [], st_KeyFile = [], st_CAFile = [], st_RequireClientCert = False\<rparr>\<rparr>"

theorem start_all_or_nothing_witness:
  "\<exists>err w'. Start demo_files (\<lambda>n a. if a = '':9100'' then Some ''in use'' else None) demo_servers \<lparr>nw_open = [], nw_calls = 0\<rparr> = (Inl err, w')
     \<and> nw_open w' = []"
proof -
  let ?refuse = "\<lambda>n a. if a = '':9100'' then Some ''in use'' else None" and ?w = "\<lparr>nw_open = [], nw_calls = 0\<rparr> :: network"
  obtain r w' where start: "Start demo_files ?refuse demo_servers ?w = (r, w')" by fastforce
  moreover have "fst (Start demo_files ?refuse demo_servers ?w) = Inl ''in use''" by code_simp
  ultimately have "r = Inl ''in use''" by simp
  with start_all_or_nothing [OF start] start show ?thesis by (simp add: sockets_ok_def)
qed

section \<open>TLS of a listener\<close>


definition tls_listener :: GatewayListenerConfig where
  "tls_listener = \<lparr>gl_ID = ''web'', gl_Address = '':8443'', gl_Protocol = ''http1'', gl_Hostnames = [], gl_Default = True,
     gl_TLS = \<lparr>st_CertFile = ''cert.pem'', st_KeyFile = ''key.pem'', st_CAFile = ''ca.pem'', st_RequireClientCert = True\<rparr>\<rparr>"


section \<open>Shutdown\<close>

lemma closeConnections_all [simp]: "cn_tracked (closeConnections t) = []"
proof -
  have "cn_tracked (fold trackedConn_Close cs t) = filter (\<lambda>c. c \<notin> set cs) (cn_tracked t)" for cs
    by (induction cs arbitrary: t) (auto simp: trackedConn_Close_def removeAll_filter_not_eq filter_filter intro: filter_cong)
  then show ?thesis by (simp add: closeConnections_def)
qed

text \<open>The context is done while a hijacked connection has been open all the time.\<close>

definition expires :: "(conn_event list \<times> bool) list \<Rightarrow> connections \<Rightarrow> bool" where
  "expires turns t \<longleftrightarrow> (\<exists>before events after. turns = before @ (events, True) # after \<and> (\<forall>turn \<in> set before. \<not> snd turn)
     \<and> (\<forall>k \<le> length before. hijackedCount (fold conn_step (concat (map fst (take k before))) t) \<noteq> 0))"

lemma expires_Cons: "expires ((events, ctxDone) # turns) t \<longleftrightarrow> hijackedCount t \<noteq> 0 \<and> (ctxDone \<or> expires turns (fold conn_step events t))"
proof
  assume "expires ((events, ctxDone) # turns) t"
  then obtain before es after where b: "(events, ctxDone) # turns = before @ (es, True) # after" "\<forall>turn \<in> set before. \<not> snd turn"
    "\<And>k. k \<le> length before \<Longrightarrow> hijackedCount (fold conn_step (concat (map fst (take k before))) t) \<noteq> 0" unfolding expires_def by blast
  from b(3) [of 0] have "hijackedCount t \<noteq> 0" by simp
  moreover have "expires turns (fold conn_step events t)" if "\<not> ctxDone"
  proof -
    from b(1) that obtain before' where before': "before = (events, ctxDone) # before'" by (cases before) auto
    have "hijackedCount (fold conn_step (concat (map fst (take k before'))) (fold conn_step events t)) \<noteq> 0" if "k \<le> length before'" for k
      using b(3) [of "Suc k"] that before' by simp
    moreover from b(1,2) before' have "turns = before' @ (es, True) # after" "\<forall>turn \<in> set before'. \<not> snd turn" by simp_all
    ultimately show ?thesis unfolding expires_def by blast
  qed
  ultimately show "hijackedCount t \<noteq> 0 \<and> (ctxDone \<or> expires turns (fold conn_step events t))" by blast
next
  assume h: "hijackedCount t \<noteq> 0 \<and> (ctxDone \<or> expires turns (fold conn_step events t))"
  show "expires ((events, ctxDone) # turns) t"
  proof (cases ctxDone)
    case True
    with h show ?thesis unfolding expires_def by (intro exI [of _ "[]"] exI [of _ events] exI [of _ turns]) simp
  next
    case False
    with h obtain before es after where b: "turns = before @ (es, True) # after" "\<forall>turn \<in> set before. \<not> snd turn"
      "\<And>k. k \<le> length before \<Longrightarrow> hijackedCount (fold conn_step (concat (map fst (take k before))) (fold conn_step events t)) \<noteq> 0"
      unfolding expires_def by blast
    have "hijackedCount (fold conn_step (concat (map fst (take k ((events, ctxDone) # before)))) t) \<noteq> 0" if "k \<le> length ((events, ctxDone) # before)" for k
      using b(3) [of "k - 1"] that h by (cases k) simp_all
    with b False show ?thesis unfolding expires_def
      by (intro exI [of _ "(events, ctxDone) # before"] exI [of _ es] exI [of _ after]) simp
  qed
qed

lemma await_returns:
  assumes "\<exists>turn \<in> set turns. snd turn"
  shows "\<exists>t'. await_hijacked turns t = Some (expires turns t, t') \<and> hijackedCount t' = 0 \<and> (expires turns t \<longrightarrow> cn_tracked t' = [])"
  using assms
proof (induction turns arbitrary: t)
  case (Cons turn turns)
  obtain events ctxDone where turn: "turn = (events, ctxDone)" by fastforce
  with Cons.prems Cons.IH [of "fold conn_step events t"] show ?case
    by (subst await_hijacked.simps) (auto simp: expires_Cons Let_def hijackedCount_def)
qed simp

text \<open>C22. A shutdown whose context ends returns, with the server marked as shutting down and no upgraded connection left
  open: either they all ended in time, or the rest of the connections were closed. It reports an error exactly
  when a server did not shut down or the context was done while an upgraded connection had been open all the time.\<close>

theorem shutdown_completes:
  assumes "\<exists>turn \<in> set turns. snd turn"
  shows "\<exists>errors t'. Shutdown ctxErr results turns t = Some (errors, True, t') \<and> hijackedCount t' = 0
    \<and> (errors = [] \<longleftrightarrow> (\<forall>r \<in> set results. r = None) \<and> \<not> expires turns t) \<and> (expires turns t \<longrightarrow> cn_tracked t' = [])"
proof -
  have "List.map_filter id results = [] \<longleftrightarrow> (\<forall>r \<in> set results. r = None)" for results :: "go_string option list"
    by (induction results) (auto simp: List.map_filter_simps split: option.split)
  moreover from await_returns [OF assms, of t] obtain t' where t': "await_hijacked turns t = Some (expires turns t, t')"
    "hijackedCount t' = 0" "expires turns t \<longrightarrow> cn_tracked t' = []" by blast
  ultimately show ?thesis by (simp add: Shutdown_def)
qed

theorem shutdown_completes_witness:
  "\<exists>errors t'. Shutdown ''deadline'' [None, None] [([], False), ([CloseConn 7], False), ([], True)] \<lparr>cn_tracked = [7, 8], cn_hijacked = [7]\<rparr> = Some (errors, True, t')
     \<and> errors = [] \<and> hijackedCount t' = 0"
proof -
  have "\<exists>turn \<in> set [([], False), ([CloseConn 7], False), ([], True)]. snd turn" by simp
  note returns = shutdown_completes [OF this, of "''deadline''" "[None, None]" "\<lparr>cn_tracked = [7, 8], cn_hijacked = [7]\<rparr>"]
  have "\<not> expires [([], False), ([CloseConn 7], False), ([], True)] \<lparr>cn_tracked = [7, 8], cn_hijacked = [7]\<rparr>"
    by (simp add: expires_Cons hijackedCount_def trackedConn_Close_def)
  with returns show ?thesis by auto
qed

end
