(* ===== verification/Controller.thy ===== *)
theory Controller
  imports Fan_Out Discovery Lifecycle
begin

text \<open>
  The discovery controller from an observation to the replicas (\<open>cmd/balancer/controller.go\<close>): the loop that keeps
  the latest observations, the delivery loop that is woken by it, the goroutines of a broadcast and of a delivery,
  and the request that is sent. Its path is taken apart again the way a replica does it, so that what the
  controller sends and what the management API receives meet. DNS, the environment, the files and the network are
  arguments.
\<close>

section \<open>Paths of URLs\<close>

text \<open>\<open>url.PathEscape\<close> and \<open>URL.EscapedPath\<close> differ in the bytes they leave as they are.\<close>

definition unreserved :: "char \<Rightarrow> bool" where
  "unreserved c \<longleftrightarrow> is_upper c \<or> is_lower c \<or> is_digit c \<or> c \<in> set ''-_.~''"

definition segment_plain :: "char \<Rightarrow> bool" where
  "segment_plain c \<longleftrightarrow> unreserved c \<or> c \<in> set ''$&+:=@''"

definition path_plain :: "char \<Rightarrow> bool" where
  "path_plain c \<longleftrightarrow> unreserved c \<or> c \<in> set ''$&+,/:;=@''"

definition hex_char :: "nat \<Rightarrow> char" where
  "hex_char n = (if n < 10 then char_of (48 + n) else char_of (55 + n))"

definition escape_byte :: "(char \<Rightarrow> bool) \<Rightarrow> char \<Rightarrow> go_string" where
  "escape_byte plain c = (if plain c then [c] else [CHR ''%'', hex_char (byte c div 16), hex_char (byte c mod 16)])"

definition escape :: "(char \<Rightarrow> bool) \<Rightarrow> go_string \<Rightarrow> go_string" where
  "escape plain s = concat (map (escape_byte plain) s)"

definition PathEscape :: "go_string \<Rightarrow> go_string" where
  "PathEscape s = escape segment_plain s"

definition EscapedPath :: "go_string \<Rightarrow> go_string" where
  "EscapedPath path = (if path = ''*'' then ''*'' else escape path_plain path)"

definition unhex :: "char \<Rightarrow> nat option" where
  "unhex c = (let n = byte c in
     if 48 \<le> n \<and> n \<le> 57 then Some (n - 48) else if 97 \<le> n \<and> n \<le> 102 then Some (n - 87)
     else if 65 \<le> n \<and> n \<le> 70 then Some (n - 55) else None)"

fun PathUnescape :: "go_string \<Rightarrow> go_string option" where
  "PathUnescape [] = Some []"
| "PathUnescape (c # s) =
     (if c \<noteq> CHR ''%'' then map_option (Cons c) (PathUnescape s)
      else (case s of
              h # l # s' \<Rightarrow>
                (case (unhex h, unhex l) of
                   (Some a, Some b) \<Rightarrow> map_option (Cons (char_of (16 * a + b))) (PathUnescape s')
                 | _ \<Rightarrow> None)
            | _ \<Rightarrow> None))"

section \<open>The route of a replica\<close>

text \<open>\<open>ServeMux\<close> redirects a path that is not clean, and matches the pattern
  \<open>PUT /api/v1/discovery/{cluster}\<close> segment by segment on the escaped path.\<close>

fun clean_segments :: "go_string list \<Rightarrow> go_string list \<Rightarrow> go_string list" where
  "clean_segments out [] = out"
| "clean_segments out (s # ss) =
     (if s = [] \<or> s = ''.'' then clean_segments out ss
      else if s = ''..'' then clean_segments (butlast out) ss else clean_segments (out @ [s]) ss)"

definition cleanPath :: "go_string \<Rightarrow> go_string" where
  "cleanPath p =
     (let p = (if p = [] then ''/'' else if hd p \<noteq> CHR ''/'' then CHR ''/'' # p else p);
          clean = clean_segments [] (Split (tl p) (CHR ''/''))
      in if clean = [] then ''/''
         else CHR ''/'' # join_with (CHR ''/'') clean @ (if last p = CHR ''/'' then ''/'' else []))"

definition unescaped_segment :: "go_string \<Rightarrow> go_string" where
  "unescaped_segment s = (case PathUnescape s of None \<Rightarrow> s | Some t \<Rightarrow> t)"

datatype routed = Redirect | NotFound | DiscoveryRoute go_string

definition discovery_route :: "go_string \<Rightarrow> routed" where
  "discovery_route path =
     (if cleanPath path \<noteq> path then Redirect
      else case Split (tl path) (CHR ''/'') of
             [a, b, c, d] \<Rightarrow>
               if unescaped_segment a = ''api'' \<and> unescaped_segment b = ''v1'' \<and> unescaped_segment c = ''discovery'' \<and> d \<noteq> []
               then DiscoveryRoute (unescaped_segment d) else NotFound
           | _ \<Rightarrow> NotFound)"

section \<open>Sending an update\<close>

record controllerEnv =
  cv_LookupEnv :: "go_string \<Rightarrow> go_string option"
  cv_ReadFile :: "go_string \<Rightarrow> go_string + go_string"
  cv_files :: tls_files
  cv_LookupNetIP :: "go_string \<Rightarrow> go_string + go_string list"
  cv_Hostname :: "url \<Rightarrow> go_string"
  cv_Port :: "url \<Rightarrow> go_string"

definition Getenv :: "controllerEnv \<Rightarrow> go_string \<Rightarrow> go_string" where
  "Getenv env name = (case cv_LookupEnv env name of None \<Rightarrow> [] | Some v \<Rightarrow> v)"

definition controller_secret :: "controllerEnv \<Rightarrow> go_string + go_string" where
  "controller_secret env = SecretFromEnv (cv_LookupEnv env) (cv_ReadFile env) ''BALANCER_DISCOVERY_TOKEN''"

definition discovery_path :: "go_string \<Rightarrow> go_string" where
  "discovery_path cluster = ''/api/v1/discovery/'' @ PathEscape cluster"

text \<open>The request; a replica sees the path of the URL and the headers, the body is the update.\<close>

definition discovery_request :: "url \<Rightarrow> go_string \<Rightarrow> go_string \<Rightarrow> request" where
  "discovery_request target cluster token =
     \<lparr>rq_Method = ''PUT'', rq_URL = target\<lparr>u_Path := discovery_path cluster\<rparr>, rq_Host = u_Host target, rq_RequestURI = [],
      rq_Header = Header_Set (Header_Set (Header_Set [] ''Authorization'' (''Bearer '' @ token)) ''Content-Type'' ''application/json'')
        ''X-Balancer-CSRF'' ''1'',
      rq_Body = None, rq_GetBody = None, rq_ContentLength = 0, rq_TLS = (u_Scheme target = ''https''), rq_retryPolicy = None,
      rq_upstreamHost = None, rq_clientIP = [], rq_forwardedProto = [], rq_TransferEncoding = [], rq_listener = [],
      rq_diagnostics = False, rq_maxBody = None, rq_timeout = 0\<rparr>"

text \<open>\<open>transport\<close> dials the address and gives an error or the status of the answer, and what the network is
  afterwards. The destination is the text of a URL that was parsed, so that making the request does not fail.\<close>

definition client_settings :: "controllerEnv \<Rightarrow> url \<Rightarrow> ClientTLSConfig" where
  "client_settings env target =
     \<lparr>ct_Enabled = (u_Scheme target = ''https''), ct_CAFile = Getenv env ''DISCOVERY_CA_FILE'', ct_ServerName = cv_Hostname env target,
      ct_ClientCertFile = Getenv env ''DISCOVERY_CLIENT_CERT_FILE'', ct_ClientKeyFile = Getenv env ''DISCOVERY_CLIENT_KEY_FILE''\<rparr>"

definition sendDiscovery ::
    "controllerEnv \<Rightarrow> (tlsClient option \<Rightarrow> go_string \<Rightarrow> request \<Rightarrow> DiscoveryUpdate \<Rightarrow> 'n \<Rightarrow> (go_string + int) \<times> 'n)
     \<Rightarrow> url \<Rightarrow> go_string \<Rightarrow> go_string \<Rightarrow> DiscoveryUpdate \<Rightarrow> 'n \<Rightarrow> go_string option \<times> 'n" where
  "sendDiscovery env transport target address cluster update net =
     (case identity_Client (cv_files env) (client_settings env target) of
        Inl err \<Rightarrow> (Some err, net)
      | Inr tlsConfig \<Rightarrow>
          (case controller_secret env of
             Inl err \<Rightarrow> (Some err, net)
           | Inr token \<Rightarrow>
               (case transport tlsConfig address (discovery_request target cluster token) update net of
                  (Inl err, net) \<Rightarrow> (Some err, net)
                | (Inr status, net) \<Rightarrow>
                    if go_div status 100 \<noteq> 2
                    then (Some (''replica '' @ address @ '' rejected discovery update: HTTP '' @ Itoa status), net)
                    else (None, net))))"

section \<open>A delivery and a broadcast\<close>

text \<open>A send: the target, the address of the replica, the cluster and the update.\<close>

type_synonym discovery_send = "url \<times> go_string \<times> go_string \<times> DiscoveryUpdate"

definition target_addresses :: "controllerEnv \<Rightarrow> url \<Rightarrow> go_string + go_string list" where
  "target_addresses env target =
     replica_addresses target (cv_Port env target) (cv_Hostname env target)
       (if Getenv env ''DISCOVERY_RESOLVE_TARGETS'' \<noteq> ''false'' then Some (cv_LookupNetIP env (cv_Hostname env target)) else None)"

definition deliver_jobs :: "url \<Rightarrow> go_string \<Rightarrow> DiscoveryUpdate \<Rightarrow> go_string list \<Rightarrow> discovery_send list set list" where
  "deliver_jobs target cluster update addresses = map (\<lambda>address. {[(target, address, cluster, update)]}) addresses"

text \<open>What \<open>deliverDiscovery\<close> may send, in which order: eight goroutines at a time over the addresses.\<close>

definition deliverDiscovery :: "controllerEnv \<Rightarrow> bool \<Rightarrow> url \<Rightarrow> go_string \<Rightarrow> DiscoveryUpdate \<Rightarrow> discovery_send list set" where
  "deliverDiscovery env cancellable target cluster update =
     (case target_addresses env target of
        Inl err \<Rightarrow> {[]}
      | Inr addresses \<Rightarrow>
          {map snd (fa_log f) |f. fan_run cancellable 8 (deliver_jobs target cluster update addresses) fan_start f
             \<and> fan_finished (deliver_jobs target cluster update addresses) f})"

text \<open>\<open>broadcastDiscovery\<close>: four goroutines at a time over the targets and the states, each delivering the good
  observation and then the failure.\<close>

definition broadcastDiscovery ::
    "controllerEnv \<Rightarrow> bool \<Rightarrow> url list \<Rightarrow> (go_string \<times> discoveryState) list \<Rightarrow> discovery_send list set list" where
  "broadcastDiscovery env cancellable targets states =
     concat (map (\<lambda>target. map (\<lambda>(cluster, state).
       concat ` listset (map (deliverDiscovery env cancellable target cluster) (state_updates state))) states) targets)"

section \<open>The loops of the controller\<close>

text \<open>The start of \<open>runDiscoveryController\<close>: an error, or the targets and the clusters that are observed.\<close>

definition runDiscoveryController :: "url_parser \<Rightarrow> controllerEnv \<Rightarrow> Config \<Rightarrow> go_string + url list \<times> GatewayClusterConfig list" where
  "runDiscoveryController parse env cfg =
     (case cf_Gateway cfg of
        None \<Rightarrow> Inl ''discovery controller requires gateway configuration''
      | Some g \<Rightarrow>
          (case discoveryTargets parse (Getenv env ''DISCOVERY_TARGETS'') (Getenv env ''DISCOVERY_ALLOW_PLAINTEXT'' = ''true'') of
             Inl err \<Rightarrow> Inl err
           | Inr targets \<Rightarrow>
               (case controller_secret env of
                  Inl err \<Rightarrow> Inl err
                | Inr _ \<Rightarrow>
                    Inr (targets, filter (\<lambda>c. \<not> (gdc_Type (gc_Discovery c) = [] \<or> gdc_Type (gc_Discovery c) = ''static'')) (gg_Clusters g)))))"

text \<open>The main loop is at its \<open>select\<close>, or has stored an event and not yet signalled; the delivery loop is at its
  \<open>select\<close>, has been woken, or broadcasts the copy it made.\<close>

datatype delivery_pc = Idle | Woken | Broadcasting

record controller =
  co_events :: "(go_string \<times> DiscoveryUpdate) list"
  co_latest :: "go_string \<rightharpoonup> discoveryState"
  co_stored :: bool
  co_changed :: bool
  co_delivery :: delivery_pc
  co_snapshot :: "go_string \<rightharpoonup> discoveryState"

definition new_controller :: controller where
  "new_controller = \<lparr>co_events = [], co_latest = Map.empty, co_stored = False, co_changed = False, co_delivery = Idle,
     co_snapshot = Map.empty\<rparr>"

datatype controller_event = Emit go_string DiscoveryUpdate | Store | Signal | Wake | Tick | Copy | Delivered

text \<open>One operation of a goroutine; one that blocks leaves the state as it is. The channel of events has 32
  places, the channel \<open>changed\<close> one, and the send to it never blocks.\<close>

fun controller_step :: "controller_event \<Rightarrow> controller \<Rightarrow> controller" where
  "controller_step (Emit cluster update) c =
     (if length (co_events c) < 32 then c\<lparr>co_events := co_events c @ [(cluster, update)]\<rparr> else c)"
| "controller_step Store c =
     (case co_events c of
        event # events \<Rightarrow> if co_stored c then c else c\<lparr>co_events := events, co_latest := receive event (co_latest c), co_stored := True\<rparr>
      | [] \<Rightarrow> c)"
| "controller_step Signal c = (if co_stored c then c\<lparr>co_stored := False, co_changed := True\<rparr> else c)"
| "controller_step Wake c = (if co_delivery c = Idle \<and> co_changed c then c\<lparr>co_delivery := Woken, co_changed := False\<rparr> else c)"
| "controller_step Tick c = (if co_delivery c = Idle then c\<lparr>co_delivery := Woken\<rparr> else c)"
| "controller_step Copy c = (if co_delivery c = Woken then c\<lparr>co_delivery := Broadcasting, co_snapshot := co_latest c\<rparr> else c)"
| "controller_step Delivered c = (if co_delivery c = Broadcasting then c\<lparr>co_delivery := Idle\<rparr> else c)"

inductive controller_reachable :: "controller \<Rightarrow> bool" where
  start: "controller_reachable new_controller"
| step: "controller_reachable c \<Longrightarrow> controller_reachable (controller_step e c)"

section \<open>Escaping\<close>

lemma hex_char_cases: "n < 16 \<Longrightarrow> unhex (hex_char n) = Some n \<and> byte (hex_char n) = (if n < 10 then 48 + n else 55 + n)"
  by (simp add: unhex_def hex_char_def byte_def Let_def)

lemma hex_digits: "byte c div 16 < 16" "byte c mod 16 < 16" "16 * (byte c div 16) + byte c mod 16 = byte c"
  using byte_lt [of c] by (simp_all add: less_mult_imp_div_less)

lemma unescape_byte:
  assumes "\<not> plain (CHR ''%'')"
  shows "PathUnescape (escape_byte plain c @ s) = map_option (Cons c) (PathUnescape s)"
proof (cases "plain c")
  case True
  then have "c \<noteq> CHR ''%''" using assms by auto
  with True show ?thesis by (simp add: escape_byte_def)
next
  case False
  have "char_of (16 * (byte c div 16) + byte c mod 16) = c" unfolding hex_digits(3) by (simp add: byte_def)
  with False hex_digits(1,2) [of c] show ?thesis by (simp add: escape_byte_def hex_char_cases)
qed

lemma escape_simps [simp]: "escape plain [] = []" "escape plain (c # s) = escape_byte plain c @ escape plain s"
  "escape plain (s @ t) = escape plain s @ escape plain t"
  by (simp_all add: escape_def)

lemma unescape_escape: "\<not> plain (CHR ''%'') \<Longrightarrow> PathUnescape (escape plain s) = Some s"
  by (induction s) (simp_all add: unescape_byte)

lemma escape_plain: "list_all plain s \<Longrightarrow> escape plain s = s"
  by (induction s) (simp_all add: escape_byte_def)

lemma escape_length: "length s \<le> length (escape plain s) \<and> (length (escape plain s) = length s \<longrightarrow> list_all plain s)"
  by (induction s) (auto simp: escape_byte_def)

lemma escape_same: "escape plain s = s \<longleftrightarrow> list_all plain s"
  using escape_plain escape_length [of s plain] by metis

lemma percent_not_plain: "\<not> segment_plain (CHR ''%'')" "\<not> path_plain (CHR ''%'')"
  by code_simp+

lemma hex_char_slash: "n < 16 \<Longrightarrow> hex_char n \<noteq> CHR ''/''"
  using hex_char_cases [of n] by (auto simp: byte_def split: if_splits)

lemma escape_byte_slash: "c \<noteq> CHR ''/'' \<or> \<not> plain c \<Longrightarrow> CHR ''/'' \<notin> set (escape_byte plain c)"
  using hex_digits(1,2) [of c] hex_char_slash [of "byte c div 16"] hex_char_slash [of "byte c mod 16"]
  by (auto simp: escape_byte_def)

lemma escape_slash: "CHR ''/'' \<notin> set s \<or> \<not> plain (CHR ''/'') \<Longrightarrow> CHR ''/'' \<notin> set (escape plain s)"
  by (induction s) (auto dest: escape_byte_slash [of _ plain, rotated] simp: escape_byte_slash)

lemma escape_Nil [simp]: "escape plain s = [] \<longleftrightarrow> s = []"
  by (cases s) (auto simp: escape_byte_def)

lemma escape_inject:
  assumes "\<not> plain (CHR ''%'')"
  shows "escape plain s = escape plain t \<longleftrightarrow> s = t"
  using unescape_escape [of plain, OF assms] by (metis option.inject)

section \<open>The name a replica reads\<close>

lemma prefix_plain: "escape path_plain ''/api/v1/discovery/'' = ''/api/v1/discovery/''"
  by (rule escape_plain) code_simp

lemma discovery_segments:
  assumes "CHR ''/'' \<notin> set d"
  shows "Split (tl (''/api/v1/discovery/'' @ d)) (CHR ''/'') = [''api'', ''v1'', ''discovery'', d]"
proof -
  have "tl (''/api/v1/discovery/'' @ d) = ''api'' @ CHR ''/'' # ''v1'' @ CHR ''/'' # ''discovery'' @ CHR ''/'' # d" by simp
  then show ?thesis by (simp add: Split_append Split_slashfree assms)
qed

lemma unescaped_words: "unescaped_segment ''api'' = ''api''" "unescaped_segment ''v1'' = ''v1''" "unescaped_segment ''discovery'' = ''discovery''"
  by code_simp+

lemma discovery_clean:
  assumes "CHR ''/'' \<notin> set d" and "d \<noteq> []"
  shows "cleanPath (''/api/v1/discovery/'' @ d) = ''/api/v1/discovery/'' @ d \<longleftrightarrow> d \<noteq> ''.'' \<and> d \<noteq> ''..''"
proof -
  have "last (''/api/v1/discovery/'' @ d) \<noteq> CHR ''/''" using assms by (simp add: last_in_set) (metis last_in_set)
  then show ?thesis
    unfolding cleanPath_def discovery_segments [OF assms(1)] Let_def using assms(2)
    by (simp add: discovery_segments [OF assms(1), simplified])
qed

lemma discovery_routed:
  assumes "cluster \<noteq> []"
  shows "discovery_route (EscapedPath (discovery_path cluster)) =
    (if cluster = ''.'' \<or> cluster = ''..'' then Redirect else DiscoveryRoute (PathEscape cluster))"
proof -
  define d where "d = escape path_plain (PathEscape cluster)"
  have slash: "CHR ''/'' \<notin> set d"
    unfolding d_def PathEscape_def by (intro escape_slash disjI1 disjI2) code_simp
  have ne: "d \<noteq> []" using assms by (simp add: d_def PathEscape_def)
  have e: "EscapedPath (discovery_path cluster) = ''/api/v1/discovery/'' @ d"
    using prefix_plain by (simp add: EscapedPath_def discovery_path_def d_def)
  have dots: "escape plain cluster = x \<longleftrightarrow> cluster = x" if "\<not> plain (CHR ''%'')" "list_all plain x" for plain x
    using escape_inject [of plain, OF that(1), of cluster x] escape_plain [of plain, OF that(2)] by simp
  have "d = x \<longleftrightarrow> cluster = x" if "x = ''.'' \<or> x = ''..''" for x
  proof -
    have p: "list_all path_plain x" "list_all segment_plain x" using that by (auto, (code_simp)+)
    then show ?thesis
      using escape_inject [of path_plain, OF percent_not_plain(2), of "PathEscape cluster" x] escape_plain [of path_plain, OF p(1)]
        dots [of segment_plain, OF percent_not_plain(1) p(2)] by (simp add: d_def PathEscape_def)
  qed
  then have clean: "cleanPath (''/api/v1/discovery/'' @ d) = ''/api/v1/discovery/'' @ d \<longleftrightarrow> \<not> (cluster = ''.'' \<or> cluster = ''..'')"
    using discovery_clean [OF slash ne] by blast
  have "unescaped_segment d = PathEscape cluster"
    by (simp add: unescaped_segment_def d_def unescape_escape percent_not_plain)
  then show ?thesis
    unfolding e discovery_route_def clean discovery_segments [OF slash] by (simp add: unescaped_words ne)
qed

section \<open>Goroutines of a broadcast\<close>

interpretation deliver: bounded_fan_out cancellable 8 "deliver_jobs target cluster update addresses"
  for cancellable target cluster update addresses
  by unfold_locales (auto simp: deliver_jobs_def)

lemma deliverDiscovery_possible: "deliverDiscovery env cancellable target cluster update \<noteq> {}"
  using deliver.returns [of cancellable target cluster update] by (auto simp: deliverDiscovery_def split: sum.splits)

interpretation broadcast: bounded_fan_out cancellable 4 "broadcastDiscovery env cancellable targets states"
  for cancellable env targets states
  by unfold_locales (auto simp: broadcastDiscovery_def listset_empty deliverDiscovery_possible [symmetric] split: prod.splits)

text \<open>A delivery that is not cancelled sends the update to every address once.\<close>

lemma delivery_complete:
  assumes "t \<in> deliverDiscovery env False target cluster update" and "target_addresses env target = Inr addresses"
  shows "mset t = mset (map (\<lambda>address. (target, address, cluster, update)) addresses)"
proof -
  let ?jobs = "deliver_jobs target cluster update addresses"
  from assms obtain f where t: "t = map snd (fa_log f)" and run: "fan_run False 8 ?jobs fan_start f" and fin: "fan_finished ?jobs f"
    by (auto simp: deliverDiscovery_def)
  have n: "fa_next f = length addresses"
    using deliver.complete(2) [OF run fin] deliver.not_stopped [OF run] by (simp add: deliver_jobs_def)
  have each: "actions_of i (fa_log f) = [(target, addresses ! i, cluster, update)]" if "i < length addresses" for i
    using deliver.complete(1) [OF run fin] that n by (simp add: deliver_jobs_def)
  have "mset t = (\<Sum>i < length addresses. mset (actions_of i (fa_log f)))"
    unfolding t by (rule mset_actions) (use deliver.run_ok [OF run] n in \<open>simp add: fan_ok_def\<close>)
  also have "\<dots> = (\<Sum>i < length addresses. {#(target, addresses ! i, cluster, update)#})"
    by (intro sum.cong) (simp_all add: each)
  also have "\<dots> = mset (map (\<lambda>address. (target, address, cluster, update)) addresses)"
    by (induction addresses rule: rev_induct) (simp_all add: nth_append)
  finally show ?thesis .
qed

text \<open>The job of a target and a state.\<close>

lemma broadcast_job:
  assumes "target \<in> set targets" and "(cluster, state) \<in> set states"
  obtains i where "i < length (broadcastDiscovery env cancellable targets states)"
    and "broadcastDiscovery env cancellable targets states ! i =
      concat ` listset (map (deliverDiscovery env cancellable target cluster) (state_updates state))"
proof -
  have "concat ` listset (map (deliverDiscovery env cancellable target cluster) (state_updates state))
      \<in> set (broadcastDiscovery env cancellable targets states)"
    using assms by (force simp: broadcastDiscovery_def)
  with that show ?thesis by (auto simp: in_set_conv_nth)
qed


definition demo_controller_env :: controllerEnv where
  "demo_controller_env = \<lparr>cv_LookupEnv = (\<lambda>n. if n = ''BALANCER_DISCOVERY_TOKEN'' then Some ''t'' else None), cv_ReadFile = (\<lambda>p. Inl ''no file''),
     cv_files = demo_files, cv_LookupNetIP = (\<lambda>h. Inr [''10.0.0.1'', ''10.0.0.2'']), cv_Hostname = u_Host, cv_Port = (\<lambda>u. [])\<rparr>"

definition demo_observed :: DiscoveryUpdate where
  "demo_observed = \<lparr>du_Endpoints = [], du_Settings = zero_discovery, du_ObservedAt = Some 1, du_ResourceVersion = [], du_Error = []\<rparr>"


section \<open>No observation is forgotten\<close>

text \<open>As long as what was last broadcast is not what is known, the delivery loop is awake or will be woken, without
  waiting for its ticker.\<close>

theorem controller_wakes:
  assumes "controller_reachable c"
  shows "co_snapshot c \<noteq> co_latest c \<longrightarrow> co_stored c \<or> co_changed c \<or> co_delivery c = Woken"
    and "length (co_events c) \<le> 32"
proof -
  have "(co_snapshot c \<noteq> co_latest c \<longrightarrow> co_stored c \<or> co_changed c \<or> co_delivery c = Woken) \<and> length (co_events c) \<le> 32"
    using assms
  proof (induction rule: controller_reachable.induct)
    case start
    show ?case by (simp add: new_controller_def)
  next
    case (step c e)
    then show ?case by (cases e) (auto split: list.splits)
  qed
  then show "co_snapshot c \<noteq> co_latest c \<longrightarrow> co_stored c \<or> co_changed c \<or> co_delivery c = Woken" "length (co_events c) \<le> 32" by blast+
qed

section \<open>The replica\<close>

text \<open>The route of the controller's requests. A handler that panics writes nothing; \<open>handleDiscoveryUpdate\<close> does so
  only on an engine that does not run.\<close>

definition discovery_mux :: "'s api \<Rightarrow> caller \<Rightarrow> DiscoveryUpdate \<Rightarrow> Principal \<Rightarrow> (api_payload, 's apiServer) handler" where
  "discovery_mux A c update who request st =
     (case discovery_route (EscapedPath (u_Path (rq_URL request))) of
        DiscoveryRoute cid \<Rightarrow> (case handleDiscoveryUpdate A c cid (Inr update) st of Some reply \<Rightarrow> reply | None \<Rightarrow> ([], st))
      | Redirect \<Rightarrow> ([WriteHead 301], st)
      | NotFound \<Rightarrow> ([WriteHead 404], st))"

text \<open>The status a client reads: the first final head, 200 when only a body was written.\<close>

definition answered_status :: "'p write_op list \<Rightarrow> int" where
  "answered_status out = (case filter final_head out of WriteHead s # _ \<Rightarrow> s | _ \<Rightarrow> 200)"

record 's replica =
  rp_api :: "'s api"
  rp_caller :: caller
  rp_credentials :: "Credential list"
  rp_insecure :: bool
  rp_sha :: "go_string \<Rightarrow> go_string"
  rp_mediaType :: "go_string \<Rightarrow> go_string option"
  rp_fingerprint :: "'s apiServer \<Rightarrow> go_string"
  rp_eventID :: go_string
  rp_tls :: "verified_chains option"

text \<open>A replica as the network of one send: the management API behind its guards.\<close>

definition replica_transport ::
    "'s replica \<Rightarrow> tlsClient option \<Rightarrow> go_string \<Rightarrow> request \<Rightarrow> DiscoveryUpdate \<Rightarrow> AuditEvent list \<times> 's apiServer
     \<Rightarrow> (go_string + int) \<times> (AuditEvent list \<times> 's apiServer)" where
  "replica_transport R tlsConfig address request update st =
     (let (out, st) = authorize (rp_sha R) (rp_fingerprint R) (rp_eventID R) (ca_now (rp_caller R)) Failure (rp_credentials R)
            (rp_insecure R) (rp_tls R) (\<lambda>who. managementMutationGuard (rp_mediaType R) Failure (discovery_mux (rp_api R) (rp_caller R) update who))
            request st
      in (Inr (answered_status out), st))"

text \<open>What a replica needs to take the controller for who it is.\<close>

definition knows_controller :: "'s replica \<Rightarrow> go_string \<Rightarrow> bool" where
  "knows_controller R token =
     (token \<noteq> [] \<and> rp_mediaType R ''application/json'' = Some ''application/json'' \<and>
      (case first_match (credential_matches (rp_sha R) (''Bearer '' @ token) (rp_tls R)) (rp_credentials R) of
         None \<Rightarrow> False
       | Some cred \<Rightarrow> cr_Name cred \<noteq> [] \<and> (cr_Role cred = ''discovery'' \<or> cr_Role cred = ''admin'')))"

lemma request_headers:
  "Header_Get (rq_Header (discovery_request target cluster token)) ''Authorization'' = ''Bearer '' @ token"
  "Header_Get (rq_Header (discovery_request target cluster token)) ''X-Balancer-CSRF'' = ''1''"
  "Header_Get (rq_Header (discovery_request target cluster token)) ''Content-Type'' = ''application/json''"
  "Header_Get (rq_Header (discovery_request target cluster token)) ''Sec-Fetch-Site'' = []"
proof -
  have keys: "CanonicalHeaderKey ''X-Balancer-CSRF'' \<noteq> CanonicalHeaderKey ''Authorization''" "CanonicalHeaderKey ''Content-Type'' \<noteq> CanonicalHeaderKey ''Authorization''"
    "CanonicalHeaderKey ''X-Balancer-CSRF'' \<noteq> CanonicalHeaderKey ''Content-Type''" "CanonicalHeaderKey ''X-Balancer-CSRF'' \<noteq> CanonicalHeaderKey ''Sec-Fetch-Site''"
    "CanonicalHeaderKey ''Content-Type'' \<noteq> CanonicalHeaderKey ''Sec-Fetch-Site''" "CanonicalHeaderKey ''Authorization'' \<noteq> CanonicalHeaderKey ''Sec-Fetch-Site''"
    by code_simp+
  have none: "Header_Get [] n = []" for n by (simp add: Header_Get_def Header_Values_def)
  show "Header_Get (rq_Header (discovery_request target cluster token)) ''Authorization'' = ''Bearer '' @ token"
    "Header_Get (rq_Header (discovery_request target cluster token)) ''X-Balancer-CSRF'' = ''1''"
    "Header_Get (rq_Header (discovery_request target cluster token)) ''Content-Type'' = ''application/json''"
    "Header_Get (rq_Header (discovery_request target cluster token)) ''Sec-Fetch-Site'' = []"
    using keys none by (simp_all add: discovery_request_def Header_Get_Set_other)
qed

lemma request_line:
  "rq_Method (discovery_request target cluster token) = ''PUT''"
  "u_Path (rq_URL (discovery_request target cluster token)) = discovery_path cluster"
  by (simp_all add: discovery_request_def)

text \<open>A request of a controller that is known passes the guards: the handler runs, its status is the answer.\<close>

lemma controller_admitted:
  assumes "knows_controller R token"
    and "discovery_mux (rp_api R) (rp_caller R) update who (discovery_request target cluster token) st = (ops, st')"
    and "first_status ops = Some status"
  shows "\<exists>audit'. replica_transport R tlsConfig address (discovery_request target cluster token) update (audit, st) = (Inr status, (audit', st'))"
proof -
  let ?q = "discovery_request target cluster token"
  from assms(1) obtain cred where cred: "first_match (credential_matches (rp_sha R) (''Bearer '' @ token) (rp_tls R)) (rp_credentials R) = Some cred"
      and named: "cr_Name cred \<noteq> []" and role: "cr_Role cred = ''discovery'' \<or> cr_Role cred = ''admin''"
      and media: "rp_mediaType R ''application/json'' = Some ''application/json''"
    by (auto simp: knows_controller_def split: option.splits)
  have who: "identify (rp_sha R) (rp_credentials R) (rp_insecure R) (''Bearer '' @ token) (rp_tls R) = \<lparr>pl_Name = cr_Name cred, pl_Role = cr_Role cred\<rparr>"
    using cred by (simp add: identify_def)
  have path: "HasPrefix (discovery_path cluster) ''/api/v1/discovery/''" "HasPrefix (discovery_path cluster) ''/api/''"
    by (simp_all add: discovery_path_def HasPrefix_def)
  have auth: "authorized (cr_Role cred) ''PUT'' (discovery_path cluster)" using role path(1) by (auto simp: authorized_def)
  have site: "\<not> EqualFold [] ''cross-site''" by code_simp
  have guard: "managementMutationGuard (rp_mediaType R) Failure (discovery_mux (rp_api R) (rp_caller R) update w) ?q st = (ops, st')" for w
    using assms(2) by (simp add: discovery_mux_def managementMutationGuard_def request_headers request_line site media)
  have "filter final_head (sr_out (fold sr_op ops new_recorder)) = [WriteHead status]"
    using recorder_first [of new_recorder ops] assms(3) by (simp add: new_recorder_def)
  then have "answered_status (sr_out (fold sr_op ops new_recorder)) = status" by (simp add: answered_status_def)
  with who named auth guard show ?thesis
    by (simp add: replica_transport_def authorize_def request_headers request_line Let_def)
qed

text \<open>A handler of the discovery route, reached by a request of the controller.\<close>

lemma discovery_mux_routed:
  assumes "cluster \<noteq> []" and "cluster \<noteq> ''.''" and "cluster \<noteq> ''..''"
    and "handleDiscoveryUpdate A c (PathEscape cluster) (Inr update) st = Some reply"
  shows "discovery_mux A c update who (discovery_request target cluster token) st = reply"
  using assms by (simp add: discovery_mux_def request_line discovery_routed)

lemma go_div_hundred: "0 \<le> s \<Longrightarrow> go_div s 100 = 2 \<longleftrightarrow> 200 \<le> s \<and> s < 300"
  by (auto simp: go_div_nonneg)


definition demo_replica :: "unit replica" where
  "demo_replica = \<lparr>rp_api = demo_api, rp_caller = demo_caller,
     rp_credentials = [demo_admin\<lparr>cr_Name := ''controller'', cr_Role := ''discovery''\<rparr>], rp_insecure = False, rp_sha = (\<lambda>s. s),
     rp_mediaType = Some, rp_fingerprint = (\<lambda>s. []), rp_eventID = ''id'', rp_tls = None\<rparr>"

text \<open>The cluster of the example is not discovered, so that its replica refuses the update, and the controller
  learns it.\<close>

lemma demo_refuses:
  "handleDiscoveryUpdate demo_api demo_caller ''c'' (Inr demo_observed) demo_server =
     Some (writeJSON 409 (Failure ''discovery source changed''), demo_server)"
proof -
  have n: "cloneConfig demo_normal = demo_normal" by code_simp
  have config: "Engine_Config demo_engine = Some demo_normal" by (simp add: Engine_Config_def current_snapshot_def demo_fields n)
  have changed: "discovery_source_changed ''c'' (du_Settings demo_observed) (gg_Clusters demo_normal)" by code_simp
  show ?thesis
    using config changed by (simp add: handleDiscoveryUpdate_def requireGateway_def decoded_def answer_def demo_server_def)
qed


text \<open>The name of a cluster is escaped twice: once by the controller, for the path, and once more when the URL is
  printed. A cluster with a byte that a segment escapes is therefore looked up under another name; a replica without
  a cluster of that name answers 404 and keeps its state, whatever the update is.\<close>

theorem escaped_cluster_not_found:
  assumes "controller_secret env = Inr token" and "knows_controller R token"
    and "identity_Client (cv_files env) (client_settings env target) = Inr tlsConfig"
    and "cluster \<noteq> []" and "\<not> list_all segment_plain cluster"
    and "as_gateway st = Some e" and "Engine_Config e = Some config" and "PathEscape cluster \<notin> gc_ID ` set (gg_Clusters config)"
  shows "PathEscape cluster \<noteq> cluster"
    and "\<exists>audit'. sendDiscovery env (replica_transport R) target address cluster update (audit, st) =
      (Some (''replica '' @ address @ '' rejected discovery update: HTTP 404''), (audit', st))"
proof -
  show "PathEscape cluster \<noteq> cluster" using assms(5) by (simp add: PathEscape_def escape_same)
  have dots: "cluster \<noteq> ''.''" "cluster \<noteq> ''..''"
    using assms(5) by (rule contrapos_nn, simp, code_simp)+
  have "\<not> discovery_source_changed (PathEscape cluster) (du_Settings update) (gg_Clusters config)"
    using assms(8) by (simp add: discovery_source_changed_def list_ex_iff) (metis imageI)
  then have h: "handleDiscoveryUpdate (rp_api R) (rp_caller R) (PathEscape cluster) (Inr update) st = Some (writeJSON 404 (Failure ''cluster not found''), st)"
    using assms(6-8) by (simp add: handleDiscoveryUpdate_def requireGateway_def decoded_def answer_def)
  note mux = discovery_mux_routed [OF assms(4) dots h]
  have s: "first_status (writeJSON 404 (Failure ''cluster not found'')) = Some 404" by simp
  from controller_admitted [OF assms(2) mux s] obtain audit' where
    "replica_transport R tlsConfig address (discovery_request target cluster token) update (audit, st) = (Inr 404, (audit', st))" by blast
  moreover have "Itoa 404 = ''404''" "go_div 404 100 = 4" by code_simp+
  ultimately show "\<exists>audit'. sendDiscovery env (replica_transport R) target address cluster update (audit, st) =
      (Some (''replica '' @ address @ '' rejected discovery update: HTTP 404''), (audit', st))"
    using assms(1,3) by (simp add: sendDiscovery_def)
qed

lemma escaped_twice_example:
  "discovery_route (EscapedPath (discovery_path ''a b'')) = DiscoveryRoute ''a%20b''"
  "discovery_route (EscapedPath (discovery_path ''a-b'')) = DiscoveryRoute ''a-b''"
  by code_simp+

section \<open>The token\<close>

lemma discovery_targets_schemes:
  "discovery_targets parse allow vs = Inr us \<Longrightarrow> u \<in> set us \<Longrightarrow> u_Scheme u = ''https'' \<or> (u_Scheme u = ''http'' \<and> allow)"
  by (induction vs arbitrary: us) (auto split: option.splits if_splits sum.splits)

text \<open>The controller does not send its token in the clear: unless plaintext was allowed, whatever a network would do
  with a connection without TLS, or with one that is verified against another name than that of the target, makes
  no difference to a send.\<close>

theorem controller_token_protected:
  assumes "runDiscoveryController parse env cfg = Inr (targets, sources)" and "Getenv env ''DISCOVERY_ALLOW_PLAINTEXT'' \<noteq> ''true''"
    and "target \<in> set targets"
    and "\<And>tls. tlc_ServerName tls = cv_Hostname env target \<Longrightarrow> transport (Some tls) = transport' (Some tls)"
  shows "sendDiscovery env transport target = sendDiscovery env transport' target"
proof -
  from assms(1) have "discovery_targets parse (Getenv env ''DISCOVERY_ALLOW_PLAINTEXT'' = ''true'') (Split (Getenv env ''DISCOVERY_TARGETS'') (CHR '','')) = Inr targets"
    by (auto simp: runDiscoveryController_def discoveryTargets_def split: option.splits sum.splits)
  from discovery_targets_schemes [OF this assms(3)] assms(2) have "ct_Enabled (client_settings env target)"
    by (simp add: client_settings_def)
  then have "\<exists>tls. tlsConfig = Some tls \<and> tlc_ServerName tls = cv_Hostname env target"
    if "identity_Client (cv_files env) (client_settings env target) = Inr tlsConfig" for tlsConfig
    using that by (auto simp: identity_Client_def client_settings_def split: if_splits sum.splits)
  with assms(4) show ?thesis by (fastforce simp: sendDiscovery_def fun_eq_iff split: sum.splits)
qed

end
