(* ===== verification/Metrics.thy ===== *)
theory Metrics
  imports Discovery
begin

text \<open>
  The metrics of the process (\<open>internal/observability/metrics.go\<close> and \<open>runtime.go\<close>): counters and histograms kept in
  concurrent maps, and the text that a scrape returns. A concurrent map is an association list from keys to the
  addresses of cells; looking up, inserting and updating are steps that other goroutines can come between. What
  \<open>fmt\<close> writes for a quoted string and for a number with a fraction, and what the Go runtime reports of itself, are
  arguments.
\<close>

section \<open>Histograms\<close>

definition latencyBuckets :: "rat list" where
  "latencyBuckets = [1 / 1000, 3 / 1000, 1 / 100, 3 / 100, 1 / 10, 3 / 10, 1, 3, 10]"

record histogramSeries =
  hi_counts :: "uint64 list"
  hi_count :: uint64
  hi_sum :: rat

definition new_histogram :: histogramSeries where
  "new_histogram = \<lparr>hi_counts = replicate (length latencyBuckets) 0, hi_count = 0, hi_sum = 0\<rparr>"

definition observeHistogram :: "rat \<Rightarrow> histogramSeries \<Rightarrow> histogramSeries" where
  "observeHistogram v entry =
     \<lparr>hi_counts = fold (\<lambda>(index, upper) counts. if v \<le> upper then counts[index := counts ! index + 1] else counts)
        (enumerate 0 latencyBuckets) (hi_counts entry),
      hi_count = hi_count entry + 1, hi_sum = hi_sum entry + v\<rparr>"

section \<open>Concurrent maps\<close>

record 'v syncMap =
  sy_entries :: "(go_string \<times> nat) list"
  sy_cells :: "'v list"

text \<open>A goroutine in \<open>counterFor\<close> or \<open>histogramFor\<close> and the update that follows: before its \<open>Load\<close>, before its
  \<open>LoadOrStore\<close> with the cell it allocated, before the update of the cell it was given (an atomic addition, or
  an observation under the lock of the cell), and after it.\<close>

datatype series_pc = AtLoad | AtStore nat | AtUpdate nat | Recorded

fun series_op :: "'v \<Rightarrow> ('v \<Rightarrow> 'v) \<Rightarrow> go_string \<Rightarrow> series_pc \<Rightarrow> 'v syncMap \<Rightarrow> series_pc \<times> 'v syncMap" where
  "series_op new f key AtLoad m =
     (case map_of (sy_entries m) key of
        Some a \<Rightarrow> (AtUpdate a, m)
      | None \<Rightarrow> (AtStore (length (sy_cells m)), m\<lparr>sy_cells := sy_cells m @ [new]\<rparr>))"
| "series_op new f key (AtStore a) m =
     (case map_of (sy_entries m) key of
        Some actual \<Rightarrow> (AtUpdate actual, m)
      | None \<Rightarrow> (AtUpdate a, m\<lparr>sy_entries := sy_entries m @ [(key, a)]\<rparr>))"
| "series_op new f key (AtUpdate a) m = (Recorded, m\<lparr>sy_cells := (sy_cells m)[a := f (sy_cells m ! a)]\<rparr>)"
| "series_op new f key Recorded m = (Recorded, m)"

text \<open>An observation that nothing comes between, and what a scrape reads.\<close>

definition observe_series :: "'v \<Rightarrow> ('v \<Rightarrow> 'v) \<Rightarrow> go_string \<Rightarrow> 'v syncMap \<Rightarrow> 'v syncMap" where
  "observe_series new f key m =
     (case series_op new f key AtLoad m of
        (pc, m) \<Rightarrow> case series_op new f key pc m of
          (pc, m) \<Rightarrow> snd (series_op new f key pc m))"

definition snapshot_series :: "'v syncMap \<Rightarrow> (go_string \<times> 'v) list" where
  "snapshot_series m = map (\<lambda>(key, a). (key, sy_cells m ! a)) (sy_entries m)"

section \<open>Metrics\<close>

record Metrics =
  me_httpSeries :: "histogramSeries syncMap"
  me_upstreamAttempts :: "uint64 syncMap"
  me_upstreamDuration :: "histogramSeries syncMap"
  me_protectionEvents :: "uint64 syncMap"
  me_inflightRequests :: int
  me_started :: instant

definition NewMetrics :: "instant \<Rightarrow> Metrics" where
  "NewMetrics now = \<lparr>me_httpSeries = \<lparr>sy_entries = [], sy_cells = []\<rparr>, me_upstreamAttempts = \<lparr>sy_entries = [], sy_cells = []\<rparr>,
     me_upstreamDuration = \<lparr>sy_entries = [], sy_cells = []\<rparr>, me_protectionEvents = \<lparr>sy_entries = [], sy_cells = []\<rparr>,
     me_inflightRequests = 0, me_started = now\<rparr>"

abbreviation NUL :: char where
  "NUL \<equiv> CHR 0x00"

definition http_key :: "go_string \<Rightarrow> int \<Rightarrow> go_string" where
  "http_key listener status = listener @ NUL # Itoa status"

definition ObserveProtectionEvent :: "go_string \<Rightarrow> go_string \<Rightarrow> Metrics \<Rightarrow> Metrics" where
  "ObserveProtectionEvent kind backendID m =
     m\<lparr>me_protectionEvents := observe_series 0 (\<lambda>c. c + 1) (kind @ NUL # backendID) (me_protectionEvents m)\<rparr>"

definition SetInflightRequests :: "int \<Rightarrow> Metrics \<Rightarrow> Metrics" where
  "SetInflightRequests v m = m\<lparr>me_inflightRequests := v\<rparr>"

definition ObserveHTTPRequest :: "go_string \<Rightarrow> int \<Rightarrow> duration \<Rightarrow> Metrics \<Rightarrow> Metrics" where
  "ObserveHTTPRequest listener status d m =
     m\<lparr>me_httpSeries := observe_series new_histogram (observeHistogram (seconds d)) (http_key listener status) (me_httpSeries m)\<rparr>"

definition attempt_outcome :: "bool \<Rightarrow> int \<Rightarrow> go_string" where
  "attempt_outcome failed status = (if failed then ''error'' else if status \<ge> 500 then ''5xx'' else ''success'')"

definition FormatBool :: "bool \<Rightarrow> go_string" where
  "FormatBool b = (if b then ''true'' else ''false'')"

definition attempt_key :: "go_string \<Rightarrow> int \<Rightarrow> bool \<Rightarrow> bool \<Rightarrow> go_string" where
  "attempt_key backendID status failed retry = backendID @ NUL # attempt_outcome failed status @ NUL # FormatBool retry"

definition ObserveBackendAttempt :: "go_string \<Rightarrow> int \<Rightarrow> duration \<Rightarrow> bool \<Rightarrow> bool \<Rightarrow> Metrics \<Rightarrow> Metrics" where
  "ObserveBackendAttempt backendID status d failed retry m =
     m\<lparr>me_upstreamAttempts := observe_series 0 (\<lambda>c. c + 1) (attempt_key backendID status failed retry) (me_upstreamAttempts m),
       me_upstreamDuration := observe_series new_histogram (observeHistogram (seconds d)) backendID (me_upstreamDuration m)\<rparr>"

section \<open>Scraping\<close>

record BackendMetric =
  bm_ID :: go_string
  bm_Cluster :: go_string
  bm_Available :: bool

record LimiterMetric =
  lm_Storage :: go_string
  lm_Healthy :: bool
  lm_Degraded :: bool
  lm_LocalBuckets :: int
  lm_LocalEvictions :: uint64

record ClusterMetric =
  cm_ID :: go_string
  cm_Inflight :: int
  cm_AvailableEndpoints :: int
  cm_DiscoveryStale :: bool
  cm_LastUpdate :: "instant option"

record GatewayMetric =
  gm_Revision :: uint64
  gm_AppliedAt :: instant
  gm_ApplySuccess :: uint64
  gm_ApplyFailures :: uint64
  gm_Clusters :: "ClusterMetric list"

text \<open>What the scrape takes from outside: \<open>%q\<close>, \<open>FormatFloat\<close>, \<open>%g\<close>, and the lines about the Go runtime.\<close>

record scrape =
  sp_quote :: "go_string \<Rightarrow> go_string"
  sp_float :: "rat \<Rightarrow> go_string"
  sp_general :: "rat \<Rightarrow> go_string"
  sp_runtime :: "go_string list"
  sp_build :: go_string

definition boolNumber :: "bool \<Rightarrow> go_string" where
  "boolNumber b = (if b then ''1'' else ''0'')"

definition FormatUint :: "uint64 \<Rightarrow> go_string" where
  "FormatUint w = digits (unat w)"

definition sortedKeys :: "(go_string \<times> 'v) list \<Rightarrow> go_string list" where
  "sortedKeys vs = SliceStable string_before (keys vs)"

text \<open>\<open>values[key]\<close> for a key of the map.\<close>

definition at_key :: "(go_string \<times> 'v) list \<Rightarrow> go_string \<Rightarrow> 'v" where
  "at_key vs key = the (map_of vs key)"

definition series_lines :: "scrape \<Rightarrow> go_string \<Rightarrow> go_string \<Rightarrow> histogramSeries \<Rightarrow> go_string list" where
  "series_lines q name label entry =
     map (\<lambda>(index, upper). name @ ''_bucket{'' @ label @ '',le='' @ sp_quote q (sp_float q upper) @ ''} '' @ FormatUint (hi_counts entry ! index))
       (enumerate 0 latencyBuckets) @
     [name @ ''_bucket{'' @ label @ '',le=\"+Inf\"} '' @ FormatUint (hi_count entry),
      name @ ''_sum{'' @ label @ ''} '' @ sp_general q (hi_sum entry),
      name @ ''_count{'' @ label @ ''} '' @ FormatUint (hi_count entry)]"

definition writeHistograms ::
    "scrape \<Rightarrow> go_string \<Rightarrow> go_string \<Rightarrow> (go_string \<times> histogramSeries) list \<Rightarrow> (go_string \<Rightarrow> go_string) \<Rightarrow> go_string list" where
  "writeHistograms q name help vs labels =
     [''# HELP '' @ name @ '' '' @ help, ''# TYPE '' @ name @ '' histogram''] @
     concat (map (\<lambda>key. series_lines q name (labels key) (at_key vs key)) (sortedKeys vs))"

definition part :: "go_string \<Rightarrow> nat \<Rightarrow> go_string" where
  "part key i = Split key NUL ! i"

definition http_labels :: "scrape \<Rightarrow> go_string \<Rightarrow> go_string" where
  "http_labels q key = ''listener='' @ sp_quote q (part key 0) @ '',code='' @ sp_quote q (part key 1)"

definition attempt_labels :: "scrape \<Rightarrow> go_string \<Rightarrow> go_string" where
  "attempt_labels q key = ''backend='' @ sp_quote q (part key 0) @ '',outcome='' @ sp_quote q (part key 1) @ '',retry='' @ sp_quote q (part key 2)"

definition protection_labels :: "scrape \<Rightarrow> go_string \<Rightarrow> go_string" where
  "protection_labels q key = ''kind='' @ sp_quote q (part key 0) @ '',backend='' @ sp_quote q (part key 1)"

definition counter_lines ::
    "go_string \<Rightarrow> (go_string \<Rightarrow> go_string) \<Rightarrow> (go_string \<times> uint64) list \<Rightarrow> go_string list" where
  "counter_lines name labels vs = map (\<lambda>key. name @ ''{'' @ labels key @ ''} '' @ FormatUint (at_key vs key)) (sortedKeys vs)"

definition backend_line :: "scrape \<Rightarrow> BackendMetric \<Rightarrow> go_string" where
  "backend_line q b =
     ''load_balancer_backend_available{backend='' @ sp_quote q (bm_ID b)
       @ (if bm_Cluster b \<noteq> [] then '',cluster='' @ sp_quote q (bm_Cluster b) else []) @ ''} '' @ boolNumber (bm_Available b)"

definition limiter_lines :: "scrape \<Rightarrow> LimiterMetric \<Rightarrow> go_string list" where
  "limiter_lines q l =
     [''# HELP load_balancer_rate_limit_storage_healthy Whether the configured rate-limit storage is reachable.'',
      ''# TYPE load_balancer_rate_limit_storage_healthy gauge'',
      ''load_balancer_rate_limit_storage_healthy{storage='' @ sp_quote q (lm_Storage l) @ ''} '' @ boolNumber (lm_Healthy l),
      ''# HELP load_balancer_rate_limit_degraded Whether traffic is using a degraded rate-limit policy.'',
      ''# TYPE load_balancer_rate_limit_degraded gauge'',
      ''load_balancer_rate_limit_degraded{storage='' @ sp_quote q (lm_Storage l) @ ''} '' @ boolNumber (lm_Degraded l),
      ''# HELP load_balancer_rate_limit_local_buckets Buckets currently held by the bounded local store or fallback.'',
      ''# TYPE load_balancer_rate_limit_local_buckets gauge'',
      ''load_balancer_rate_limit_local_buckets '' @ Itoa (lm_LocalBuckets l),
      ''# HELP load_balancer_rate_limit_local_evictions_total Buckets evicted by the bounded local store or fallback.'',
      ''# TYPE load_balancer_rate_limit_local_evictions_total counter'',
      ''load_balancer_rate_limit_local_evictions_total '' @ FormatUint (lm_LocalEvictions l)]"

text \<open>\<open>Time.Unix\<close>.\<close>

definition Unix :: "instant \<Rightarrow> go_string" where
  "Unix t = Itoa (t div second)"

definition cluster_lines :: "scrape \<Rightarrow> ClusterMetric \<Rightarrow> go_string list" where
  "cluster_lines q c =
     (let label = ''{cluster='' @ sp_quote q (cm_ID c) @ ''} ''
      in [''load_balancer_cluster_available_endpoints'' @ label @ Itoa (cm_AvailableEndpoints c),
          ''load_balancer_cluster_inflight_requests'' @ label @ Itoa (cm_Inflight c),
          ''load_balancer_discovery_stale'' @ label @ boolNumber (cm_DiscoveryStale c)]
         @ (case cm_LastUpdate c of
              None \<Rightarrow> []
            | Some t \<Rightarrow> [''load_balancer_discovery_last_update_timestamp_seconds'' @ label @ Unix t]))"

definition writeRuntimeMetrics :: "scrape \<Rightarrow> Metrics \<Rightarrow> GatewayMetric option \<Rightarrow> go_string list" where
  "writeRuntimeMetrics q m provider =
     sp_runtime q @
     [''# TYPE process_start_time_seconds gauge'', ''process_start_time_seconds '' @ Unix (me_started m),
      ''# TYPE load_balancer_build_info gauge'', sp_build q] @
     (case provider of
        None \<Rightarrow> []
      | Some g \<Rightarrow>
          [''# TYPE load_balancer_config_revision gauge'',
           ''load_balancer_config_revision '' @ FormatUint (gm_Revision g),
           ''# TYPE load_balancer_config_last_applied_timestamp_seconds gauge'',
           ''load_balancer_config_last_applied_timestamp_seconds '' @ Unix (gm_AppliedAt g),
           ''# TYPE load_balancer_config_apply_total counter'',
           ''load_balancer_config_apply_total{result=\"success\"} '' @ FormatUint (gm_ApplySuccess g),
           ''load_balancer_config_apply_total{result=\"failure\"} '' @ FormatUint (gm_ApplyFailures g),
           ''# TYPE load_balancer_discovery_stale gauge'',
           ''# TYPE load_balancer_discovery_last_update_timestamp_seconds gauge'',
           ''# TYPE load_balancer_cluster_available_endpoints gauge'',
           ''# TYPE load_balancer_cluster_inflight_requests gauge'']
          @ concat (map (cluster_lines q) (gm_Clusters g)))"

text \<open>The lines of a scrape; a provider that is not set is \<open>None\<close>.\<close>

definition Metrics_ServeHTTP ::
    "scrape \<Rightarrow> BackendMetric list option \<Rightarrow> LimiterMetric option \<Rightarrow> GatewayMetric option \<Rightarrow> Metrics \<Rightarrow> go_string list" where
  "Metrics_ServeHTTP q backendProvider limiterProvider gatewayProvider m =
     (let httpDuration = snapshot_series (me_httpSeries m);
          httpRequests = map (\<lambda>(key, entry). (key, hi_count entry)) httpDuration;
          upstreamAttempts = snapshot_series (me_upstreamAttempts m);
          upstreamDuration = snapshot_series (me_upstreamDuration m);
          protectionEvents = snapshot_series (me_protectionEvents m)
      in writeRuntimeMetrics q m gatewayProvider @
         [''# HELP load_balancer_http_requests_total Requests handled by listener and status code.'',
          ''# TYPE load_balancer_http_requests_total counter''] @
         counter_lines ''load_balancer_http_requests_total'' (http_labels q) httpRequests @
         writeHistograms q ''load_balancer_http_request_duration_seconds'' ''Request latency by listener and status.'' httpDuration (http_labels q) @
         [''# HELP load_balancer_upstream_attempts_total Requests attempted against an upstream backend.'',
          ''# TYPE load_balancer_upstream_attempts_total counter''] @
         counter_lines ''load_balancer_upstream_attempts_total'' (attempt_labels q) upstreamAttempts @
         writeHistograms q ''load_balancer_upstream_duration_seconds'' ''Upstream attempt latency by backend.'' upstreamDuration
           (\<lambda>key. ''backend='' @ sp_quote q key) @
         [''# HELP load_balancer_protection_events_total Requests affected by overload, retry-budget or backend concurrency protection.'',
          ''# TYPE load_balancer_protection_events_total counter''] @
         counter_lines ''load_balancer_protection_events_total'' (protection_labels q) protectionEvents @
         [''# HELP load_balancer_inflight_requests Current requests admitted to the public data plane.'',
          ''# TYPE load_balancer_inflight_requests gauge'',
          ''load_balancer_inflight_requests '' @ Itoa (me_inflightRequests m)] @
         (case backendProvider of
            None \<Rightarrow> []
          | Some bs \<Rightarrow>
              [''# HELP load_balancer_backend_available Whether a backend is eligible for routing.'',
               ''# TYPE load_balancer_backend_available gauge''] @ map (backend_line q) bs) @
         (case limiterProvider of None \<Rightarrow> [] | Some l \<Rightarrow> limiter_lines q l))"

section \<open>Cells\<close>

definition series_value :: "'v \<Rightarrow> 'v syncMap \<Rightarrow> go_string \<Rightarrow> 'v" where
  "series_value new m key = (case map_of (sy_entries m) key of None \<Rightarrow> new | Some a \<Rightarrow> sy_cells m ! a)"

text \<open>Keys are distinct, and so are their cells.\<close>

definition syncMap_ok :: "'v syncMap \<Rightarrow> bool" where
  "syncMap_ok m \<longleftrightarrow> distinct (keys (sy_entries m)) \<and> distinct (map snd (sy_entries m))
     \<and> (\<forall>a \<in> snd ` set (sy_entries m). a < length (sy_cells m))"

lemma map_of_own_cell:
  "distinct (map snd xs) \<Longrightarrow> map_of xs k = Some a \<Longrightarrow> map_of xs k' = Some a \<Longrightarrow> k' = k"
  by (metis distinct_map inj_on_contraD map_of_SomeD prod.inject snd_conv)

lemma series_value_update:
  assumes "syncMap_ok m" and "map_of (sy_entries m) key = Some a"
  shows "series_value new (m\<lparr>sy_cells := (sy_cells m)[a := v]\<rparr>) k = (if k = key then v else series_value new m k)"
proof -
  have "a < length (sy_cells m)" using assms by (force simp: syncMap_ok_def dest: map_of_SomeD)
  moreover have "b \<noteq> a" if "map_of (sy_entries m) k = Some b" "k \<noteq> key" for b
    using assms that map_of_own_cell [of "sy_entries m"] by (auto simp: syncMap_ok_def)
  ultimately show ?thesis using assms by (auto simp: series_value_def split: option.split)
qed

lemma series_value_alloc:
  "syncMap_ok m \<Longrightarrow> series_value new (m\<lparr>sy_cells := sy_cells m @ [v]\<rparr>) k = series_value new m k"
  by (force simp: series_value_def syncMap_ok_def nth_append split: option.split dest: map_of_SomeD)

lemma series_value_insert:
  assumes "map_of (sy_entries m) key = None" and "sy_cells m ! a = new"
  shows "series_value new (m\<lparr>sy_entries := sy_entries m @ [(key, a)]\<rparr>) k = series_value new m k"
  using assms by (auto simp: series_value_def map_add_def split: option.splits if_splits)

lemma syncMap_ok_alloc: "syncMap_ok m \<Longrightarrow> syncMap_ok (m\<lparr>sy_cells := sy_cells m @ [v]\<rparr>)"
  by (force simp: syncMap_ok_def)

lemma syncMap_ok_update: "syncMap_ok m \<Longrightarrow> syncMap_ok (m\<lparr>sy_cells := (sy_cells m)[a := v]\<rparr>)"
  by (simp add: syncMap_ok_def)

lemma syncMap_ok_insert:
  "syncMap_ok m \<Longrightarrow> map_of (sy_entries m) key = None \<Longrightarrow> a < length (sy_cells m) \<Longrightarrow> a \<notin> snd ` set (sy_entries m) \<Longrightarrow>
   syncMap_ok (m\<lparr>sy_entries := sy_entries m @ [(key, a)]\<rparr>)"
  by (auto simp: syncMap_ok_def map_of_eq_None_iff)

lemma snapshot_keys [simp]: "keys (snapshot_series m) = keys (sy_entries m)"
  by (simp add: snapshot_series_def split_def)

lemma snapshot_value: "key \<in> set (keys (sy_entries m)) \<Longrightarrow> at_key (snapshot_series m) key = series_value new m key"
proof -
  assume "key \<in> set (keys (sy_entries m))"
  then obtain a where a: "map_of (sy_entries m) key = Some a" by (cases "map_of (sy_entries m) key") (auto simp: map_of_eq_None_iff)
  have "map_of (map (\<lambda>(k, a). (k, sy_cells m ! a)) xs) key = map_option (\<lambda>a. sy_cells m ! a) (map_of xs key)" for xs
    by (induction xs) auto
  with a show ?thesis by (simp add: at_key_def snapshot_series_def series_value_def)
qed

section \<open>Interleavings\<close>

text \<open>Goroutines, each with one observation to record, and the observations recorded so far, in order.\<close>

record 'v series_system =
  ss_map :: "'v syncMap"
  ss_threads :: "((go_string \<times> ('v \<Rightarrow> 'v)) \<times> series_pc) list"
  ss_done :: "(go_string \<times> ('v \<Rightarrow> 'v)) list"

definition series_start :: "(go_string \<times> ('v \<Rightarrow> 'v)) list \<Rightarrow> 'v series_system" where
  "series_start obs = \<lparr>ss_map = \<lparr>sy_entries = [], sy_cells = []\<rparr>, ss_threads = map (\<lambda>ob. (ob, AtLoad)) obs, ss_done = []\<rparr>"

definition series_step :: "'v \<Rightarrow> nat \<Rightarrow> 'v series_system \<Rightarrow> 'v series_system" where
  "series_step new i S =
     (if i < length (ss_threads S)
      then (case ss_threads S ! i of (ob, pc) \<Rightarrow>
              case series_op new (snd ob) (fst ob) pc (ss_map S) of (pc', m) \<Rightarrow>
                \<lparr>ss_map = m, ss_threads = (ss_threads S)[i := (ob, pc')],
                 ss_done = (case pc of AtUpdate a \<Rightarrow> ss_done S @ [ob] | _ \<Rightarrow> ss_done S)\<rparr>)
      else S)"

definition applied :: "go_string \<Rightarrow> (go_string \<times> ('v \<Rightarrow> 'v)) list \<Rightarrow> 'v \<Rightarrow> 'v" where
  "applied key obs = fold (\<lambda>ob. snd ob) (filter (\<lambda>ob. fst ob = key) obs)"

lemma applied_simps [simp]:
  "applied key [] v = v"
  "applied key (obs @ [ob]) v = (if fst ob = key then snd ob (applied key obs v) else applied key obs v)"
  by (simp_all add: applied_def)

text \<open>A goroutine about to store holds a fresh cell of its own; one about to update was given the cell of its key.\<close>

definition pc_ok :: "'v \<Rightarrow> 'v syncMap \<Rightarrow> go_string \<Rightarrow> series_pc \<Rightarrow> bool" where
  "pc_ok new m key pc = (case pc of
     AtStore a \<Rightarrow> a < length (sy_cells m) \<and> a \<notin> snd ` set (sy_entries m) \<and> sy_cells m ! a = new
   | AtUpdate a \<Rightarrow> map_of (sy_entries m) key = Some a
   | _ \<Rightarrow> True)"

definition stores :: "((go_string \<times> ('v \<Rightarrow> 'v)) \<times> series_pc) list \<Rightarrow> nat list" where
  "stores ts = concat (map (\<lambda>t. case snd t of AtStore a \<Rightarrow> [a] | _ \<Rightarrow> []) ts)"

definition series_inv :: "'v \<Rightarrow> 'v series_system \<Rightarrow> bool" where
  "series_inv new S \<longleftrightarrow> syncMap_ok (ss_map S) \<and> distinct (stores (ss_threads S))
     \<and> (\<forall>t \<in> set (ss_threads S). pc_ok new (ss_map S) (fst (fst t)) (snd t))
     \<and> mset (ss_done S) = mset (map fst (filter (\<lambda>t. snd t = Recorded) (ss_threads S)))
     \<and> (\<forall>key. series_value new (ss_map S) key = applied key (ss_done S) new)"

lemma stores_append [simp]: "stores (xs @ ys) = stores xs @ stores ys"
  by (simp add: stores_def)

lemma stores_Cons [simp]: "stores (t # ts) = (case snd t of AtStore a \<Rightarrow> [a] | _ \<Rightarrow> []) @ stores ts"
  by (simp add: stores_def)

lemma stores_Nil [simp]: "stores [] = []"
  by (simp add: stores_def)

lemma stores_pc: "a \<in> set (stores ts) \<longleftrightarrow> (\<exists>t \<in> set ts. snd t = AtStore a)"
  by (induction ts) (auto split: series_pc.splits)

lemma series_op_inv:
  assumes inv: "syncMap_ok m" "pc_ok new m (fst ob) pc" "series_op new (snd ob) (fst ob) pc m = (pc', m')"
  shows "syncMap_ok m'" "pc_ok new m' (fst ob) pc'"
    "series_value new m' k = (case pc of AtUpdate a \<Rightarrow> if fst ob = k then snd ob (series_value new m k) else series_value new m k
       | _ \<Rightarrow> series_value new m k)"
proof -
  have "syncMap_ok m' \<and> pc_ok new m' (fst ob) pc' \<and> series_value new m' k = (case pc of AtUpdate a \<Rightarrow>
      if fst ob = k then snd ob (series_value new m k) else series_value new m k | _ \<Rightarrow> series_value new m k)"
  proof (cases pc)
    case AtLoad
    show ?thesis
    proof (cases "map_of (sy_entries m) (fst ob)")
      case None
      with AtLoad inv have "pc' = AtStore (length (sy_cells m))" "m' = m\<lparr>sy_cells := sy_cells m @ [new]\<rparr>" by simp_all
      with inv(1) AtLoad show ?thesis
        by (auto simp: syncMap_ok_alloc series_value_alloc pc_ok_def) (auto simp: syncMap_ok_def)
    next
      case (Some a)
      with AtLoad inv show ?thesis by (auto simp: pc_ok_def)
    qed
  next
    case (AtStore a)
    show ?thesis
    proof (cases "map_of (sy_entries m) (fst ob)")
      case None
      with AtStore inv have "pc' = AtUpdate a" "m' = m\<lparr>sy_entries := sy_entries m @ [(fst ob, a)]\<rparr>" by simp_all
      with inv AtStore None show ?thesis
        by (auto simp: syncMap_ok_insert series_value_insert pc_ok_def map_add_def)
    next
      case (Some a)
      with AtStore inv show ?thesis by (auto simp: pc_ok_def)
    qed
  next
    case (AtUpdate a)
    with inv have a: "pc' = Recorded" "m' = m\<lparr>sy_cells := (sy_cells m)[a := snd ob (sy_cells m ! a)]\<rparr>" "map_of (sy_entries m) (fst ob) = Some a"
      by (simp_all add: pc_ok_def)
    then have "series_value new m (fst ob) = sy_cells m ! a" by (simp add: series_value_def)
    with a inv(1) AtUpdate show ?thesis by (auto simp: series_value_update syncMap_ok_update pc_ok_def)
  next
    case Recorded
    with inv show ?thesis by (simp add: pc_ok_def)
  qed
  then show "syncMap_ok m'" "pc_ok new m' (fst ob) pc'"
    "series_value new m' k = (case pc of AtUpdate a \<Rightarrow> if fst ob = k then snd ob (series_value new m k) else series_value new m k
       | _ \<Rightarrow> series_value new m k)" by blast+
qed

text \<open>Another goroutine keeps what it knows.\<close>

lemma series_op_other:
  assumes "syncMap_ok m" "pc_ok new m key pc" "series_op new f key pc m = (pc', m')" "pc_ok new m key2 pc2"
    and "\<And>a. pc2 = AtStore a \<Longrightarrow> pc \<noteq> AtStore a"
  shows "pc_ok new m' key2 pc2"
proof (cases pc)
  case AtLoad
  with assms show ?thesis by (auto simp: pc_ok_def nth_append split: option.splits series_pc.splits)
next
  case (AtStore a)
  with assms show ?thesis by (auto simp: pc_ok_def map_add_def split: option.splits series_pc.splits)
next
  case (AtUpdate a)
  with assms have "a \<in> snd ` set (sy_entries m)" by (force simp: pc_ok_def dest: map_of_SomeD)
  moreover from AtUpdate assms have "m' = m\<lparr>sy_cells := (sy_cells m)[a := f (sy_cells m ! a)]\<rparr>" by simp
  moreover from calculation assms(4) have "pc2 = AtStore b \<Longrightarrow> b \<noteq> a" for b by (auto simp: pc_ok_def)
  ultimately show ?thesis using assms(4) by (auto simp: pc_ok_def split: series_pc.splits)
next
  case Recorded
  with assms show ?thesis by simp
qed

lemma stores_twice:
  assumes "i < length ts" "j < length ts" "i \<noteq> j" "snd (ts ! i) = AtStore a" "snd (ts ! j) = AtStore a"
  shows "\<not> distinct (stores ts)"
  using assms
proof (induction ts arbitrary: i j)
  case (Cons t ts)
  show ?case
  proof (cases "i = 0 \<or> j = 0")
    case True
    then obtain k where k: "snd t = AtStore a" "k < length ts" "snd (ts ! k) = AtStore a"
      using Cons.prems by (cases i; cases j) auto
    then have "a \<in> set (stores ts)" by (auto simp: stores_pc)
    with k show ?thesis by simp
  next
    case False
    with Cons.prems Cons.IH [of "i - 1" "j - 1"] show ?thesis by (cases i; cases j) auto
  qed
qed simp

lemma stores_update:
  assumes "i < length ts" and "distinct (stores ts)" and "\<And>a. pc' = AtStore a \<Longrightarrow> a \<notin> set (stores ts)"
  shows "distinct (stores (ts[i := (ob, pc')]))"
proof -
  have ts: "ts = take i ts @ ts ! i # drop (Suc i) ts" using assms(1) by (rule id_take_nth_drop)
  have "distinct (stores (take i ts @ (ob, pc') # drop (Suc i) ts))"
    using assms(2,3) by (subst (asm) ts, subst (asm) (3) ts) (auto split: series_pc.splits)
  with assms(1) show ?thesis by (simp add: upd_conv_take_nth_drop)
qed

lemma recorded_update:
  assumes "i < length ts" and "ts ! i = (ob, pc)"
  shows "mset (map fst (filter (\<lambda>t. snd t = Recorded) (ts[i := (ob, pc')]))) + (if pc = Recorded then {#ob#} else {#})
    = mset (map fst (filter (\<lambda>t. snd t = Recorded) ts)) + (if pc' = Recorded then {#ob#} else {#})"
proof -
  have ts: "ts = take i ts @ (ob, pc) # drop (Suc i) ts" using assms id_take_nth_drop by metis
  then have "mset (map fst (filter (\<lambda>t. snd t = Recorded) ts))
      = mset (map fst (filter (\<lambda>t. snd t = Recorded) (take i ts @ (ob, pc) # drop (Suc i) ts)))" by simp
  then show ?thesis using assms(1) by (simp add: upd_conv_take_nth_drop)
qed

lemma series_step_inv: "series_inv new S \<Longrightarrow> series_inv new (series_step new i S)"
proof (cases "i < length (ss_threads S)")
  case True
  assume inv: "series_inv new S"
  obtain ob pc where t: "ss_threads S ! i = (ob, pc)" by fastforce
  obtain pc' m' where op: "series_op new (snd ob) (fst ob) pc (ss_map S) = (pc', m')" by fastforce
  have mem: "(ob, pc) \<in> set (ss_threads S)" using True t by (metis nth_mem)
  note ok = inv [unfolded series_inv_def]
  have pc: "pc_ok new (ss_map S) (fst ob) pc" using ok mem by force
  note own = series_op_inv [OF conjunct1 [OF ok] pc op]
  have fresh: "a \<notin> set (stores (ss_threads S))" if "pc' = AtStore a" for a
  proof -
    from op that have "a = length (sy_cells (ss_map S))" by (cases pc) (auto split: option.splits)
    with ok show ?thesis by (auto simp: stores_pc pc_ok_def)
  qed
  have other: "pc_ok new m' (fst (fst t2)) (snd t2)" if "j < length (ss_threads S)" "j \<noteq> i" "t2 = ss_threads S ! j" for j t2
  proof (rule series_op_other [OF conjunct1 [OF ok] pc op])
    show "pc_ok new (ss_map S) (fst (fst t2)) (snd t2)" using ok that by simp
    show "pc \<noteq> AtStore a" if "snd t2 = AtStore a" for a
    proof
      assume "pc = AtStore a"
      with t True that \<open>j < length (ss_threads S)\<close> \<open>j \<noteq> i\<close> \<open>t2 = ss_threads S ! j\<close> stores_twice [of i "ss_threads S" j a] ok
      show False by simp
    qed
  qed
  have "\<forall>t \<in> set ((ss_threads S)[i := (ob, pc')]). pc_ok new m' (fst (fst t)) (snd t)"
  proof
    fix t2
    assume "t2 \<in> set ((ss_threads S)[i := (ob, pc')])"
    then obtain j where "j < length (ss_threads S)" "t2 = (if j = i then (ob, pc') else ss_threads S ! j)"
      by (auto simp: in_set_conv_nth nth_list_update)
    with other [of j] own(2) show "pc_ok new m' (fst (fst t2)) (snd t2)" by (auto split: if_splits)
  qed
  moreover have "mset (case pc of AtUpdate a \<Rightarrow> ss_done S @ [ob] | _ \<Rightarrow> ss_done S)
      = mset (map fst (filter (\<lambda>t. snd t = Recorded) ((ss_threads S)[i := (ob, pc')])))"
    using recorded_update [OF True t, of pc'] ok op by (cases pc) (auto split: option.splits)
  moreover have "series_value new m' key = applied key (case pc of AtUpdate a \<Rightarrow> ss_done S @ [ob] | _ \<Rightarrow> ss_done S) new" for key
    using own(3) [of key] ok by (cases pc) simp_all
  ultimately show ?thesis using own(1) stores_update [OF True _ fresh] ok True
    by (simp add: series_step_def series_inv_def t op)
qed (simp add: series_step_def)

lemma series_reachable_inv: "series_inv new (fold (series_step new) schedule (series_start obs))"
proof -
  have "stores (map (\<lambda>ob. (ob, AtLoad)) obs) = []" by (induction obs) simp_all
  then have "series_inv new (series_start obs)"
    by (simp add: series_inv_def series_start_def syncMap_ok_def pc_ok_def series_value_def)
  then show ?thesis by (induction schedule rule: rev_induct) (simp_all add: series_step_inv)
qed

primrec steps_left :: "series_pc \<Rightarrow> nat" where
  "steps_left AtLoad = 3"
| "steps_left (AtStore a) = 2"
| "steps_left (AtUpdate a) = 1"
| "steps_left Recorded = 0"

lemma series_op_progress: "steps_left (fst (series_op new f key pc m)) \<le> steps_left pc - 1"
  by (cases pc) (auto split: option.split)

lemma series_step_threads:
  "length (ss_threads (series_step new j S)) = length (ss_threads S)"
  "map fst (ss_threads (series_step new j S)) = map fst (ss_threads S)"
  by (auto simp: series_step_def split_def map_update list_update_same_conv)

lemma series_step_progress:
  assumes "i < length (ss_threads S)"
  shows "steps_left (snd (ss_threads (series_step new j S) ! i)) \<le> steps_left (snd (ss_threads S ! i)) - (if i = j then 1 else 0)"
  using assms series_op_progress [of new _ _ "snd (ss_threads S ! i)"]
  by (auto simp: series_step_def split_def nth_list_update)

lemma series_run_progress:
  assumes "i < length (ss_threads S)"
  shows "steps_left (snd (ss_threads (fold (series_step new) schedule S) ! i)) \<le> steps_left (snd (ss_threads S ! i)) - count_list schedule i"
  using assms
proof (induction schedule arbitrary: S)
  case (Cons j schedule)
  from Cons.IH [of "series_step new j S"] Cons.prems series_step_progress [of i S new j] series_step_threads [of new j S]
  show ?case by (auto split: if_splits)
qed simp

text \<open>C18. No observation is lost or counted twice, whatever the goroutines that record them do to each other: under every
  schedule the value of a series is the result of the observations recorded so far, one after the other, and
  these are exactly the observations of the goroutines that have finished. Each goroutine finishes within three
  steps of its own, and no series is listed twice.\<close>

theorem observations_never_lost:
  fixes obs :: "(go_string \<times> ('v \<Rightarrow> 'v)) list" and schedule :: "nat list" and new :: 'v
  defines "S \<equiv> fold (series_step new) schedule (series_start obs)"
  shows "\<exists>done. mset done = mset (map fst (filter (\<lambda>t. snd t = Recorded) (ss_threads S)))
      \<and> (\<forall>key. series_value new (ss_map S) key = fold snd (filter (\<lambda>ob. fst ob = key) done) new)
    \<and> map fst (ss_threads S) = obs
    \<and> (\<forall>i < length obs. 3 \<le> count_list schedule i \<longrightarrow> snd (ss_threads S ! i) = Recorded)
    \<and> distinct (keys (snapshot_series (ss_map S)))"
proof -
  have inv: "series_inv new S" unfolding S_def by (rule series_reachable_inv)
  have start: "length (ss_threads (series_start obs)) = length obs" "map fst (ss_threads (series_start obs)) = obs"
    "i < length obs \<Longrightarrow> snd (ss_threads (series_start obs) ! i) = AtLoad" for i
    by (simp_all add: series_start_def comp_def)
  have log: "\<exists>done. mset done = mset (map fst (filter (\<lambda>t. snd t = Recorded) (ss_threads S)))
      \<and> (\<forall>key. series_value new (ss_map S) key = fold snd (filter (\<lambda>ob. fst ob = key) done) new)"
    using inv by (auto simp: series_inv_def applied_def)
  have obs: "map fst (ss_threads S) = obs" unfolding S_def
    by (induction schedule rule: rev_induct) (simp_all add: start series_step_threads)
  have rec: "\<forall>i < length obs. 3 \<le> count_list schedule i \<longrightarrow> snd (ss_threads S ! i) = Recorded"
  proof (intro allI impI)
    fix i
    assume i: "i < length obs" "3 \<le> count_list schedule i"
    then have "steps_left (snd (ss_threads S ! i)) \<le> 3 - count_list schedule i"
      using series_run_progress [of i "series_start obs" new schedule] start by (simp add: S_def)
    with i show "snd (ss_threads S ! i) = Recorded" by (cases "snd (ss_threads S ! i)") auto
  qed
  have keys: "distinct (keys (snapshot_series (ss_map S)))" using inv by (simp add: series_inv_def syncMap_ok_def)
  from log obs rec keys show ?thesis by blast
qed

text \<open>Two goroutines meet a series that does not exist yet, and a third one an existing cell: all are counted.\<close>

definition demo_observations :: "(go_string \<times> (uint64 \<Rightarrow> uint64)) list" where
  "demo_observations = [(''a'', (+) 1), (''a'', (+) 1), (''b'', (+) 1)]"

definition demo_schedule :: "nat list" where
  "demo_schedule = [0, 1, 0, 1, 2, 0, 1, 2, 2]"

theorem observations_never_lost_witness:
  "snd (ss_threads (fold (series_step 0) demo_schedule (series_start demo_observations)) ! 0) = Recorded
   \<and> snd (ss_threads (fold (series_step 0) demo_schedule (series_start demo_observations)) ! 2) = Recorded
   \<and> series_value 0 (ss_map (fold (series_step 0) demo_schedule (series_start demo_observations))) ''a'' = 2"
proof -
  let ?S = "fold (series_step 0) demo_schedule (series_start demo_observations)"
  have "\<forall>i < length demo_observations. 3 \<le> count_list demo_schedule i \<longrightarrow> snd (ss_threads ?S ! i) = Recorded"
    using observations_never_lost [where obs = demo_observations and schedule = demo_schedule and new = 0] by blast
  moreover have "series_value 0 (ss_map ?S) ''a'' = 2"
    by (simp add: series_step_def series_start_def series_value_def demo_schedule_def demo_observations_def)
  ultimately show ?thesis by (simp add: demo_observations_def demo_schedule_def)
qed

section \<open>What a scrape shows\<close>

lemma observe_series_value:
  assumes "syncMap_ok m"
  shows "syncMap_ok (observe_series new f key m)"
    and "series_value new (observe_series new f key m) k = (if k = key then f (series_value new m k) else series_value new m k)"
    and "set (keys (sy_entries (observe_series new f key m))) = insert key (set (keys (sy_entries m)))"
proof -
  obtain pc1 m1 where op1: "series_op new f key AtLoad m = (pc1, m1)" by fastforce
  obtain pc2 m2 where op2: "series_op new f key pc1 m1 = (pc2, m2)" by fastforce
  obtain pc3 m3 where op3: "series_op new f key pc2 m2 = (pc3, m3)" by fastforce
  have m3: "observe_series new f key m = m3" using op1 op2 op3 by (simp add: observe_series_def del: series_op.simps)
  have "pc_ok new m key AtLoad" by (simp add: pc_ok_def)
  with assms series_op_inv [of m new "(key, f)" AtLoad pc1 m1] op1
  have one: "syncMap_ok m1" "pc_ok new m1 key pc1" "series_value new m1 k = series_value new m k" by simp_all
  with series_op_inv(1,2) [of m1 new "(key, f)" pc1 pc2 m2] series_op_inv(3) [of m1 new "(key, f)" pc1 pc2 m2 k] op2
  have two: "syncMap_ok m2" "pc_ok new m2 key pc2" "series_value new m2 k = (case pc1 of AtUpdate a \<Rightarrow>
      if k = key then f (series_value new m k) else series_value new m k | _ \<Rightarrow> series_value new m k)" by (auto split: series_pc.split)
  with series_op_inv(1,2) [of m2 new "(key, f)" pc2 pc3 m3] series_op_inv(3) [of m2 new "(key, f)" pc2 pc3 m3 k] op3
  have three: "syncMap_ok m3" "series_value new m3 k = (case pc2 of AtUpdate a \<Rightarrow>
      if k = key then f (series_value new m2 k) else series_value new m2 k | _ \<Rightarrow> series_value new m2 k)" by (auto split: series_pc.split)
  show "syncMap_ok (observe_series new f key m)" using three m3 by simp
  show "series_value new (observe_series new f key m) k = (if k = key then f (series_value new m k) else series_value new m k)"
    unfolding m3 three(2) two(3) using op1 op2 by (auto split: option.splits)
  show "set (keys (sy_entries (observe_series new f key m))) = insert key (set (keys (sy_entries m)))"
  proof (cases "map_of (sy_entries m) key")
    case None
    with op1 op2 op3 have "sy_entries m3 = sy_entries m @ [(key, length (sy_cells m))]" by auto
    then show ?thesis unfolding m3 by simp
  next
    case (Some a)
    then have "key \<in> set (keys (sy_entries m))" by (force dest: map_of_SomeD)
    moreover have "sy_entries m3 = sy_entries m" using Some op1 op2 op3 by auto
    ultimately show ?thesis unfolding m3 by auto
  qed
qed

lemma series_run:
  assumes "syncMap_ok m"
  shows "let m' = fold (\<lambda>ob. observe_series new (snd ob) (fst ob)) obs m
    in syncMap_ok m' \<and> (\<forall>key. series_value new m' key = applied key obs (series_value new m key))
       \<and> set (keys (sy_entries m')) = fst ` set obs \<union> set (keys (sy_entries m))"
  using assms by (induction obs rule: rev_induct) (simp_all add: observe_series_value observe_series_value(3) [simplified] Let_def insert_commute)

text \<open>The histogram of a list of values.\<close>

definition histogram_of :: "rat list \<Rightarrow> histogramSeries" where
  "histogram_of vs = \<lparr>hi_counts = map (\<lambda>upper. of_nat (length (filter (\<lambda>v. v \<le> upper) vs))) latencyBuckets,
     hi_count = of_nat (length vs), hi_sum = sum_list vs\<rparr>"

lemma fold_enumerate_update:
  fixes cs :: "'a list"
  shows "length (fold (\<lambda>(i, u) cs. if P u then cs[i := g (cs ! i)] else cs) (enumerate n us) cs) = length cs"
    and "j < length cs \<Longrightarrow> fold (\<lambda>(i, u) cs. if P u then cs[i := g (cs ! i)] else cs) (enumerate n us) cs ! j
      = (if n \<le> j \<and> j < n + length us \<and> P (us ! (j - n)) then g (cs ! j) else cs ! j)"
  by (induction us arbitrary: n cs) (auto simp: nth_list_update nth_Cons')

lemma observeHistogram_of: "observeHistogram v (histogram_of vs) = histogram_of (vs @ [v])"
proof -
  let ?us = latencyBuckets
  note upd = fold_enumerate_update [where P = "\<lambda>u. v \<le> u" and g = "\<lambda>c :: uint64. c + 1"]
  have "fold (\<lambda>(i, u) cs. if v \<le> u then cs[i := cs ! i + 1] else cs) (enumerate 0 ?us) (hi_counts (histogram_of vs))
      = hi_counts (histogram_of (vs @ [v]))"
  proof (rule nth_equalityI)
    fix i
    assume "i < length (fold (\<lambda>(i, u) cs. if v \<le> u then cs[i := cs ! i + 1] else cs) (enumerate 0 ?us) (hi_counts (histogram_of vs)))"
    then have i: "i < length ?us" "i < length (hi_counts (histogram_of vs))" by (simp_all add: upd histogram_of_def)
    show "fold (\<lambda>(i, u) cs. if v \<le> u then cs[i := cs ! i + 1] else cs) (enumerate 0 ?us) (hi_counts (histogram_of vs)) ! i
        = hi_counts (histogram_of (vs @ [v])) ! i"
      unfolding upd(2) [OF i(2)] using i(1) by (simp add: histogram_of_def)
  qed (simp add: upd histogram_of_def)
  then show ?thesis by (simp add: observeHistogram_def histogram_of_def)
qed

lemma applied_histogram:
  "applied key (map (\<lambda>(k, v). (k, observeHistogram v)) obs) new_histogram = histogram_of (map snd (filter (\<lambda>ob. fst ob = key) obs))"
proof (induction obs rule: rev_induct)
  case Nil
  show ?case by (simp add: new_histogram_def histogram_of_def map_replicate_const)
next
  case (snoc ob obs)
  then show ?case by (auto simp: split_def observeHistogram_of)
qed

lemma applied_counter:
  "applied key (map (\<lambda>k. (k, \<lambda>c. c + 1)) ks) (0 :: uint64) = of_nat (count_list ks key)"
  by (induction ks rule: rev_induct) simp_all

lemma FormatUint_of_nat: "FormatUint (of_nat n) = digits (n mod 2 ^ 64)"
  by (simp add: FormatUint_def unat_of_nat)

text \<open>A histogram is cumulative, as long as no counter has wrapped.\<close>

lemma histogram_cumulative:
  assumes "length vs < 2 ^ 64"
  shows "sorted (map unat (hi_counts (histogram_of vs)) @ [unat (hi_count (histogram_of vs))])"
proof -
  have small: "unat (of_nat (length (filter P vs)) :: uint64) = length (filter P vs)" for P
    using assms le_less_trans [OF length_filter_le [of P vs] assms] by (simp add: unat_of_nat)
  have mono: "length (filter (\<lambda>v. v \<le> a) vs) \<le> length (filter (\<lambda>v. v \<le> b) vs)" if "a \<le> b" for a b :: rat
    using that by (intro filter_le_length_mono) auto
  have "sorted latencyBuckets" by code_simp
  then have "sorted (map (\<lambda>u. length (filter (\<lambda>v. v \<le> u) vs)) us)" if "us = latencyBuckets" for us
    using that mono by (simp add: sorted_wrt_map sorted_wrt_mono_rel [of _ "(\<le>)"])
  with small small [of "\<lambda>v. True"] show ?thesis by (auto simp: histogram_of_def sorted_append comp_def)
qed

text \<open>What the program reports, in order.\<close>

datatype metric_event =
    HTTPRequest go_string int duration
  | BackendAttempt go_string int duration bool bool
  | ProtectionEvent go_string go_string
  | Inflight int

fun record_event :: "metric_event \<Rightarrow> Metrics \<Rightarrow> Metrics" where
  "record_event (HTTPRequest listener status d) = ObserveHTTPRequest listener status d"
| "record_event (BackendAttempt b status d failed retry) = ObserveBackendAttempt b status d failed retry"
| "record_event (ProtectionEvent kind b) = ObserveProtectionEvent kind b"
| "record_event (Inflight v) = SetInflightRequests v"

fun http_obs :: "metric_event \<Rightarrow> (go_string \<times> rat) list" where
  "http_obs (HTTPRequest listener status d) = [(http_key listener status, seconds d)]"
| "http_obs _ = []"

fun attempt_obs :: "metric_event \<Rightarrow> go_string list" where
  "attempt_obs (BackendAttempt b status d failed retry) = [attempt_key b status failed retry]"
| "attempt_obs _ = []"

fun duration_obs :: "metric_event \<Rightarrow> (go_string \<times> rat) list" where
  "duration_obs (BackendAttempt b status d failed retry) = [(b, seconds d)]"
| "duration_obs _ = []"

fun protection_obs :: "metric_event \<Rightarrow> go_string list" where
  "protection_obs (ProtectionEvent kind b) = [kind @ NUL # b]"
| "protection_obs _ = []"

definition obs_of :: "(metric_event \<Rightarrow> 'b list) \<Rightarrow> metric_event list \<Rightarrow> 'b list" where
  "obs_of f events = concat (map f events)"

lemma obs_of_simps [simp]: "obs_of f [] = []" "obs_of f (e # events) = f e @ obs_of f events"
  by (simp_all add: obs_of_def)

lemma obs_of_member: "x \<in> set (f e) \<Longrightarrow> e \<in> set events \<Longrightarrow> x \<in> set (obs_of f events)"
  by (auto simp: obs_of_def)

lemma recorded_series:
  "me_httpSeries (fold record_event events m) = fold (\<lambda>ob. observe_series new_histogram (snd ob) (fst ob))
     (map (\<lambda>(k, v). (k, observeHistogram v)) (obs_of http_obs events)) (me_httpSeries m)
   \<and> me_upstreamAttempts (fold record_event events m) = fold (\<lambda>ob. observe_series 0 (snd ob) (fst ob))
     (map (\<lambda>k. (k, \<lambda>c. c + 1)) (obs_of attempt_obs events)) (me_upstreamAttempts m)
   \<and> me_upstreamDuration (fold record_event events m) = fold (\<lambda>ob. observe_series new_histogram (snd ob) (fst ob))
     (map (\<lambda>(k, v). (k, observeHistogram v)) (obs_of duration_obs events)) (me_upstreamDuration m)
   \<and> me_protectionEvents (fold record_event events m) = fold (\<lambda>ob. observe_series 0 (snd ob) (fst ob))
     (map (\<lambda>k. (k, \<lambda>c. c + 1)) (obs_of protection_obs events)) (me_protectionEvents m)"
proof (induction events arbitrary: m)
  case (Cons e events)
  then show ?case by (cases e)
    (simp_all add: ObserveHTTPRequest_def ObserveBackendAttempt_def ObserveProtectionEvent_def SetInflightRequests_def)
qed simp

lemma empty_series [simp]: "syncMap_ok \<lparr>sy_entries = [], sy_cells = []\<rparr>" "series_value new \<lparr>sy_entries = [], sy_cells = []\<rparr> key = new"
  by (simp_all add: syncMap_ok_def series_value_def)

lemma histogram_series:
  assumes "m = fold (\<lambda>ob. observe_series new_histogram (snd ob) (fst ob)) (map (\<lambda>(k, v). (k, observeHistogram v)) obs) \<lparr>sy_entries = [], sy_cells = []\<rparr>"
  shows "set (keys (snapshot_series m)) = fst ` set obs"
    and "key \<in> fst ` set obs \<Longrightarrow> at_key (snapshot_series m) key = histogram_of (map snd (filter (\<lambda>ob. fst ob = key) obs))"
proof -
  from series_run [of "\<lparr>sy_entries = [], sy_cells = []\<rparr>" new_histogram "map (\<lambda>(k, v). (k, observeHistogram v)) obs"] assms
  have run: "\<forall>key. series_value new_histogram m key = histogram_of (map snd (filter (\<lambda>ob. fst ob = key) obs))" "fst ` set (sy_entries m) = fst ` set obs"
    by (auto simp: Let_def applied_histogram [unfolded split_def] image_image split_def)
  then show "set (keys (snapshot_series m)) = fst ` set obs" by simp
  show "at_key (snapshot_series m) key = histogram_of (map snd (filter (\<lambda>ob. fst ob = key) obs))" if "key \<in> fst ` set obs"
    using run that snapshot_value [of key m new_histogram] by simp
qed

lemma counter_series:
  assumes "m = fold (\<lambda>ob. observe_series 0 (snd ob) (fst ob)) (map (\<lambda>k. (k, \<lambda>c :: uint64. c + 1)) ks) \<lparr>sy_entries = [], sy_cells = []\<rparr>"
  shows "set (keys (snapshot_series m)) = set ks"
    and "key \<in> set ks \<Longrightarrow> at_key (snapshot_series m) key = of_nat (count_list ks key)"
proof -
  from series_run [of "\<lparr>sy_entries = [], sy_cells = []\<rparr>" "0 :: uint64" "map (\<lambda>k. (k, \<lambda>c. c + 1)) ks"] assms
  have run: "\<forall>key. series_value 0 m key = of_nat (count_list ks key)" "fst ` set (sy_entries m) = set ks"
    by (auto simp: Let_def applied_counter image_image)
  then show "set (keys (snapshot_series m)) = set ks" by simp
  show "at_key (snapshot_series m) key = of_nat (count_list ks key)" if "key \<in> set ks"
    using run that snapshot_value [of key m "0 :: uint64"] by simp
qed

lemma new_series [simp]:
  "me_httpSeries (NewMetrics t) = \<lparr>sy_entries = [], sy_cells = []\<rparr>" "me_upstreamAttempts (NewMetrics t) = \<lparr>sy_entries = [], sy_cells = []\<rparr>"
  "me_upstreamDuration (NewMetrics t) = \<lparr>sy_entries = [], sy_cells = []\<rparr>" "me_protectionEvents (NewMetrics t) = \<lparr>sy_entries = [], sy_cells = []\<rparr>"
  by (simp_all add: NewMetrics_def)

interpretation string_order: strict_weak_order string_before
  by unfold_locales (metis string_before_trans string_before_irrefl, metis string_before_trans,
    metis string_before_trans string_before_total)

lemma set_sortedKeys [simp]: "set (sortedKeys vs) = set (keys vs)"
  by (simp add: sortedKeys_def)

lemma counter_lines_member:
  "key \<in> set (keys vs) \<Longrightarrow> name @ ''{'' @ labels key @ ''} '' @ FormatUint (at_key vs key) \<in> set (counter_lines name labels vs)"
  unfolding counter_lines_def set_map by (rule image_eqI [OF refl]) simp

lemma writeHistograms_member:
  "key \<in> set (keys vs) \<Longrightarrow> set (series_lines q name (labels key) (at_key vs key)) \<subseteq> set (writeHistograms q name help vs labels)"
proof -
  assume "key \<in> set (keys vs)"
  then have "set (series_lines q name (labels key) (at_key vs key)) \<subseteq> set (concat (map (\<lambda>key. series_lines q name (labels key) (at_key vs key)) (sortedKeys vs)))"
    by (auto simp del: set_map simp: set_map [of _ "sortedKeys vs"])
  then show ?thesis unfolding writeHistograms_def set_append by blast
qed

lemma split_parts:
  "NUL \<notin> set a \<Longrightarrow> NUL \<notin> set b \<Longrightarrow> part (a @ NUL # b) 0 = a \<and> part (a @ NUL # b) 1 = b"
  "NUL \<notin> set a \<Longrightarrow> NUL \<notin> set b \<Longrightarrow> NUL \<notin> set c \<Longrightarrow>
     part (a @ NUL # b @ NUL # c) 0 = a \<and> part (a @ NUL # b @ NUL # c) 1 = b \<and> part (a @ NUL # b @ NUL # c) 2 = c"
  by (simp_all add: part_def Split_append Split_slashfree)

lemma digit_NUL: "k < 10 \<Longrightarrow> NUL \<noteq> char_of (48 + k :: nat)"
proof
  assume k: "k < 10" and "NUL = char_of (48 + k)"
  then have "(of_char NUL :: nat) = of_char (char_of (48 + k) :: char)" by simp
  with k show False by simp
qed

lemma digits_NUL: "NUL \<notin> set (digits n)"
proof (induction n rule: digits.induct)
  case (1 n)
  then show ?case using digit_NUL [of n] digit_NUL [of "n mod 10"] by (subst digits.simps) simp
qed

lemma Itoa_NUL [simp]: "NUL \<notin> set (Itoa i)"
  by (auto simp: Itoa_def digits_NUL)

text \<open>Decimal numbers are told apart.\<close>

definition decimal_value :: "go_string \<Rightarrow> nat" where
  "decimal_value = foldl (\<lambda>n c. 10 * n + (of_char c - 48)) 0"

lemma decimal_digits: "decimal_value (digits n) = n"
proof (induction n rule: digits.induct)
  case (1 n)
  then show ?case by (subst digits.simps) (simp add: decimal_value_def)
qed

lemma digits_no_minus: "digits n \<noteq> CHR ''-'' # s"
proof (induction n arbitrary: s rule: digits.induct)
  case (1 n)
  have "CHR ''-'' \<noteq> char_of (48 + k :: nat)" if "k < 10" for k
  proof
    assume "CHR ''-'' = char_of (48 + k)"
    then have "(of_char (CHR ''-'') :: nat) = of_char (char_of (48 + k) :: char)" by simp
    with that show False by simp
  qed
  moreover have "digits (n div 10) \<noteq> []" by (subst digits.simps) simp
  ultimately show ?case using 1 by (subst digits.simps) (auto simp: append_eq_Cons_conv eq_commute [of "char_of _"])
qed

lemma Itoa_inject [simp]: "Itoa i = Itoa j \<longleftrightarrow> i = j"
proof
  assume eq: "Itoa i = Itoa j"
  have inj: "digits a = digits b \<Longrightarrow> a = b" for a b using decimal_digits by metis
  show "i = j"
  proof (cases "i < 0")
    case True
    with eq digits_no_minus have "j < 0" by (metis Itoa_def)
    with True eq inj [of "nat (- i)" "nat (- j)"] show ?thesis by (simp add: Itoa_def)
  next
    case False
    with eq digits_no_minus have "\<not> j < 0" by (metis Itoa_def)
    with False eq inj [of "nat i" "nat j"] show ?thesis by (simp add: Itoa_def)
  qed
qed simp

lemma NUL_words [simp]: "NUL \<notin> set (attempt_outcome failed status)" "NUL \<notin> set (FormatBool b)"
  by (simp_all add: attempt_outcome_def FormatBool_def)

lemma FormatBool_inject: "FormatBool a = FormatBool b \<longleftrightarrow> a = b"
  by (cases a; cases b) (simp_all add: FormatBool_def)

lemma http_key_inject: "NUL \<notin> set l \<Longrightarrow> NUL \<notin> set l' \<Longrightarrow> http_key l s = http_key l' s' \<longleftrightarrow> l = l' \<and> s = s'"
  unfolding http_key_def using split_parts(1) [of l "Itoa s"] split_parts(1) [of l' "Itoa s'"] by (metis Itoa_NUL Itoa_inject)

lemma attempt_key_inject:
  assumes "NUL \<notin> set b" "NUL \<notin> set b'"
  shows "attempt_key b s f r = attempt_key b' s' f' r' \<longleftrightarrow> b = b' \<and> attempt_outcome f s = attempt_outcome f' s' \<and> r = r'"
proof
  assume eq: "attempt_key b s f r = attempt_key b' s' f' r'"
  note parts = split_parts(2) [OF assms(1) NUL_words, of f s r] split_parts(2) [OF assms(2) NUL_words, of f' s' r']
  from parts eq [unfolded attempt_key_def] have "b = b'" "attempt_outcome f s = attempt_outcome f' s'" "FormatBool r = FormatBool r'"
    by simp_all
  then show "b = b' \<and> attempt_outcome f s = attempt_outcome f' s' \<and> r = r'" using FormatBool_inject by blast
qed (simp add: attempt_key_def)

lemma protection_key_inject:
  "NUL \<notin> set k \<Longrightarrow> NUL \<notin> set b \<Longrightarrow> NUL \<notin> set k' \<Longrightarrow> NUL \<notin> set b' \<Longrightarrow> k @ NUL # b = k' @ NUL # b' \<longleftrightarrow> k = k' \<and> b = b'"
  using split_parts(1) [of k b] split_parts(1) [of k' b'] by metis

section \<open>A scrape is exact\<close>

text \<open>What happened, read off the events.\<close>

fun http_latency :: "go_string \<Rightarrow> int \<Rightarrow> metric_event \<Rightarrow> rat list" where
  "http_latency l s (HTTPRequest l' s' d) = (if l' = l \<and> s' = s then [seconds d] else [])"
| "http_latency l s _ = []"

fun backend_latency :: "go_string \<Rightarrow> metric_event \<Rightarrow> rat list" where
  "backend_latency b (BackendAttempt b' s d f r) = (if b' = b then [seconds d] else [])"
| "backend_latency b _ = []"

fun is_attempt :: "go_string \<Rightarrow> go_string \<Rightarrow> bool \<Rightarrow> metric_event \<Rightarrow> bool" where
  "is_attempt b outcome retry (BackendAttempt b' s d f r) \<longleftrightarrow> b' = b \<and> attempt_outcome f s = outcome \<and> r = retry"
| "is_attempt b outcome retry _ \<longleftrightarrow> False"

definition times :: "(metric_event \<Rightarrow> bool) \<Rightarrow> metric_event list \<Rightarrow> go_string" where
  "times P events = digits (length (filter P events) mod 2 ^ 64)"

text \<open>No name has the byte that separates the parts of a key.\<close>

fun separable :: "metric_event \<Rightarrow> bool" where
  "separable (HTTPRequest l s d) \<longleftrightarrow> NUL \<notin> set l"
| "separable (BackendAttempt b s d f r) \<longleftrightarrow> NUL \<notin> set b"
| "separable (ProtectionEvent k b) \<longleftrightarrow> NUL \<notin> set k \<and> NUL \<notin> set b"
| "separable (Inflight v) \<longleftrightarrow> True"

lemma latencies:
  "\<forall>e \<in> set events. separable e \<Longrightarrow> NUL \<notin> set l \<Longrightarrow>
   map snd (filter (\<lambda>ob. fst ob = http_key l s) (obs_of http_obs events)) = obs_of (http_latency l s) events"
  "map snd (filter (\<lambda>ob. fst ob = b) (obs_of duration_obs events)) = obs_of (backend_latency b) events"
proof (induction events)
  case (Cons e events)
  { case 1 with Cons(1) show ?case by (cases e) (auto simp: http_key_inject) }
  { case 2 with Cons(2) show ?case by (cases e) auto }
qed simp_all

lemma counted:
  "\<forall>e \<in> set events. separable e \<Longrightarrow> NUL \<notin> set b \<Longrightarrow>
   count_list (obs_of attempt_obs events) (attempt_key b s f r) = length (filter (is_attempt b (attempt_outcome f s) r) events)"
  "\<forall>e \<in> set events. separable e \<Longrightarrow> NUL \<notin> set k \<Longrightarrow> NUL \<notin> set b \<Longrightarrow>
   count_list (obs_of protection_obs events) (k @ NUL # b) = length (filter ((=) (ProtectionEvent k b)) events)"
proof (induction events)
  case (Cons e events)
  { case 1 with Cons(1) show ?case by (cases e) (auto simp: attempt_key_inject) }
  { case 2 with Cons(2) show ?case by (cases e) (auto simp: protection_key_inject) }
qed simp_all

lemma scrape_parts:
  fixes m :: Metrics
  defines "http \<equiv> snapshot_series (me_httpSeries m)"
  shows "set (counter_lines ''load_balancer_http_requests_total'' (http_labels q) (map (\<lambda>(key, entry). (key, hi_count entry)) http))
      \<subseteq> set (Metrics_ServeHTTP q bs ls gs m)"
    and "set (writeHistograms q ''load_balancer_http_request_duration_seconds'' ''Request latency by listener and status.'' http (http_labels q))
      \<subseteq> set (Metrics_ServeHTTP q bs ls gs m)"
    and "set (counter_lines ''load_balancer_upstream_attempts_total'' (attempt_labels q) (snapshot_series (me_upstreamAttempts m)))
      \<subseteq> set (Metrics_ServeHTTP q bs ls gs m)"
    and "set (writeHistograms q ''load_balancer_upstream_duration_seconds'' ''Upstream attempt latency by backend.''
        (snapshot_series (me_upstreamDuration m)) (\<lambda>key. ''backend='' @ sp_quote q key)) \<subseteq> set (Metrics_ServeHTTP q bs ls gs m)"
    and "set (counter_lines ''load_balancer_protection_events_total'' (protection_labels q) (snapshot_series (me_protectionEvents m)))
      \<subseteq> set (Metrics_ServeHTTP q bs ls gs m)"
  unfolding http_def Metrics_ServeHTTP_def Let_def set_append by blast+

lemma at_key_map: "key \<in> set (keys vs) \<Longrightarrow> at_key (map (\<lambda>(key, entry). (key, f entry)) vs) key = f (at_key vs key)"
proof (induction vs)
  case (Cons x xs)
  then show ?case by (cases x) (auto simp: at_key_def)
qed simp

lemma http_labels_key:
  assumes "NUL \<notin> set l"
  shows "http_labels q (http_key l s) = ''listener='' @ sp_quote q l @ '',code='' @ sp_quote q (Itoa s)"
  using split_parts(1) [OF assms Itoa_NUL, of s] by (simp add: http_labels_def http_key_def)

lemma attempt_labels_key:
  assumes "NUL \<notin> set b"
  shows "attempt_labels q (attempt_key b s f r) =
     ''backend='' @ sp_quote q b @ '',outcome='' @ sp_quote q (attempt_outcome f s) @ '',retry='' @ sp_quote q (FormatBool r)"
  using split_parts(2) [OF assms NUL_words, of f s r] by (simp add: attempt_labels_def attempt_key_def)

lemma protection_labels_key:
  assumes "NUL \<notin> set k" "NUL \<notin> set b"
  shows "protection_labels q (k @ NUL # b) = ''kind='' @ sp_quote q k @ '',backend='' @ sp_quote q b"
  using split_parts(1) [OF assms] by (simp add: protection_labels_def)

lemma scraped_requests:
  assumes "\<forall>e \<in> set events. separable e" and "HTTPRequest l s d \<in> set events" and "m = fold record_event events (NewMetrics t)"
  shows "''load_balancer_http_requests_total{'' @ (''listener='' @ sp_quote q l @ '',code='' @ sp_quote q (Itoa s)) @ ''} ''
        @ digits (length (obs_of (http_latency l s) events) mod 2 ^ 64) \<in> set (Metrics_ServeHTTP q bs ls gs m)"
    and "set (series_lines q ''load_balancer_http_request_duration_seconds'' (''listener='' @ sp_quote q l @ '',code='' @ sp_quote q (Itoa s))
        (histogram_of (obs_of (http_latency l s) events))) \<subseteq> set (Metrics_ServeHTTP q bs ls gs m)"
proof -
  let ?http = "snapshot_series (me_httpSeries m)"
  have l: "NUL \<notin> set l" using assms by force
  have series: "me_httpSeries m = fold (\<lambda>ob. observe_series new_histogram (snd ob) (fst ob))
      (map (\<lambda>(k, v). (k, observeHistogram v)) (obs_of http_obs events)) \<lparr>sy_entries = [], sy_cells = []\<rparr>"
    unfolding assms(3) using recorded_series [of events "NewMetrics t"] by simp
  have "(http_key l s, seconds d) \<in> set (obs_of http_obs events)" by (rule obs_of_member [OF _ assms(2)]) simp
  then have key: "http_key l s \<in> fst ` set (obs_of http_obs events)" by force
  with histogram_series(1) [OF series] have mem: "http_key l s \<in> set (keys ?http)" by blast
  have val: "at_key ?http (http_key l s) = histogram_of (obs_of (http_latency l s) events)"
    unfolding histogram_series(2) [OF series key] latencies(1) [OF assms(1) l] ..
  have count: "FormatUint (at_key (map (\<lambda>(key, entry). (key, hi_count entry)) ?http) (http_key l s))
      = digits (length (obs_of (http_latency l s) events) mod 2 ^ 64)"
    unfolding at_key_map [OF mem] val by (simp add: histogram_of_def FormatUint_of_nat)
  have "http_key l s \<in> set (keys (map (\<lambda>(key, entry). (key, hi_count entry)) ?http))" using mem by (simp add: split_def comp_def)
  from subsetD [OF scrape_parts(1) counter_lines_member [OF this], of q bs ls gs]
  have "''load_balancer_http_requests_total'' @ ''{'' @ http_labels q (http_key l s) @ ''} ''
      @ FormatUint (at_key (map (\<lambda>(key, entry). (key, hi_count entry)) ?http) (http_key l s)) \<in> set (Metrics_ServeHTTP q bs ls gs m)" .
  then show "''load_balancer_http_requests_total{'' @ (''listener='' @ sp_quote q l @ '',code='' @ sp_quote q (Itoa s)) @ ''} ''
        @ digits (length (obs_of (http_latency l s) events) mod 2 ^ 64) \<in> set (Metrics_ServeHTTP q bs ls gs m)"
    unfolding count http_labels_key [OF l] by simp
  show "set (series_lines q ''load_balancer_http_request_duration_seconds'' (''listener='' @ sp_quote q l @ '',code='' @ sp_quote q (Itoa s))
        (histogram_of (obs_of (http_latency l s) events))) \<subseteq> set (Metrics_ServeHTTP q bs ls gs m)"
    using writeHistograms_member [OF mem, of q "''load_balancer_http_request_duration_seconds''" "http_labels q" "''Request latency by listener and status.''"]
      scrape_parts(2) [of q m bs ls gs] unfolding val http_labels_key [OF l] by (rule subset_trans)
qed

lemma scraped_attempts:
  assumes "\<forall>e \<in> set events. separable e" and "BackendAttempt b s d f r \<in> set events" and "m = fold record_event events (NewMetrics t)"
  shows "''load_balancer_upstream_attempts_total{'' @ (''backend='' @ sp_quote q b @ '',outcome='' @ sp_quote q (attempt_outcome f s)
        @ '',retry='' @ sp_quote q (FormatBool r)) @ ''} '' @ times (is_attempt b (attempt_outcome f s) r) events \<in> set (Metrics_ServeHTTP q bs ls gs m)"
    and "set (series_lines q ''load_balancer_upstream_duration_seconds'' (''backend='' @ sp_quote q b)
        (histogram_of (obs_of (backend_latency b) events))) \<subseteq> set (Metrics_ServeHTTP q bs ls gs m)"
proof -
  let ?attempts = "snapshot_series (me_upstreamAttempts m)" and ?key = "attempt_key b s f r"
  have b: "NUL \<notin> set b" using assms by force
  have attempts: "me_upstreamAttempts m = fold (\<lambda>ob. observe_series 0 (snd ob) (fst ob))
      (map (\<lambda>k. (k, \<lambda>c. c + 1)) (obs_of attempt_obs events)) \<lparr>sy_entries = [], sy_cells = []\<rparr>"
    unfolding assms(3) using recorded_series [of events "NewMetrics t"] by simp
  have durations: "me_upstreamDuration m = fold (\<lambda>ob. observe_series new_histogram (snd ob) (fst ob))
      (map (\<lambda>(k, v). (k, observeHistogram v)) (obs_of duration_obs events)) \<lparr>sy_entries = [], sy_cells = []\<rparr>"
    unfolding assms(3) using recorded_series [of events "NewMetrics t"] by simp
  have key: "?key \<in> set (obs_of attempt_obs events)" by (rule obs_of_member [OF _ assms(2)]) simp
  with counter_series(1) [OF attempts] have mem: "?key \<in> set (keys ?attempts)" by blast
  have count: "FormatUint (at_key ?attempts ?key) = times (is_attempt b (attempt_outcome f s) r) events"
    unfolding counter_series(2) [OF attempts key] counted(1) [OF assms(1) b] by (simp add: FormatUint_of_nat times_def)
  from subsetD [OF scrape_parts(3) counter_lines_member [OF mem], of q bs ls gs]
  show "''load_balancer_upstream_attempts_total{'' @ (''backend='' @ sp_quote q b @ '',outcome='' @ sp_quote q (attempt_outcome f s)
        @ '',retry='' @ sp_quote q (FormatBool r)) @ ''} '' @ times (is_attempt b (attempt_outcome f s) r) events \<in> set (Metrics_ServeHTTP q bs ls gs m)"
    unfolding count attempt_labels_key [OF b] by simp
  have "(b, seconds d) \<in> set (obs_of duration_obs events)" by (rule obs_of_member [OF _ assms(2)]) simp
  then have own: "b \<in> fst ` set (obs_of duration_obs events)" by force
  with histogram_series(1) [OF durations] have mem': "b \<in> set (keys (snapshot_series (me_upstreamDuration m)))" by blast
  have val: "at_key (snapshot_series (me_upstreamDuration m)) b = histogram_of (obs_of (backend_latency b) events)"
    unfolding histogram_series(2) [OF durations own] latencies(2) ..
  show "set (series_lines q ''load_balancer_upstream_duration_seconds'' (''backend='' @ sp_quote q b)
        (histogram_of (obs_of (backend_latency b) events))) \<subseteq> set (Metrics_ServeHTTP q bs ls gs m)"
    using writeHistograms_member [OF mem', of q "''load_balancer_upstream_duration_seconds''" "\<lambda>key. ''backend='' @ sp_quote q key"
      "''Upstream attempt latency by backend.''"] scrape_parts(4) [of q m bs ls gs] unfolding val by (rule subset_trans)
qed

lemma scraped_protection:
  assumes "\<forall>e \<in> set events. separable e" and "ProtectionEvent k b \<in> set events" and "m = fold record_event events (NewMetrics t)"
  shows "''load_balancer_protection_events_total{'' @ (''kind='' @ sp_quote q k @ '',backend='' @ sp_quote q b) @ ''} ''
        @ times ((=) (ProtectionEvent k b)) events \<in> set (Metrics_ServeHTTP q bs ls gs m)"
proof -
  let ?events = "snapshot_series (me_protectionEvents m)"
  have kb: "NUL \<notin> set k" "NUL \<notin> set b" using assms by force+
  have series: "me_protectionEvents m = fold (\<lambda>ob. observe_series 0 (snd ob) (fst ob))
      (map (\<lambda>k. (k, \<lambda>c. c + 1)) (obs_of protection_obs events)) \<lparr>sy_entries = [], sy_cells = []\<rparr>"
    unfolding assms(3) using recorded_series [of events "NewMetrics t"] by simp
  have key: "k @ NUL # b \<in> set (obs_of protection_obs events)" by (rule obs_of_member [OF _ assms(2)]) simp
  with counter_series(1) [OF series] have mem: "k @ NUL # b \<in> set (keys ?events)" by blast
  have count: "FormatUint (at_key ?events (k @ NUL # b)) = times ((=) (ProtectionEvent k b)) events"
    unfolding counter_series(2) [OF series key] counted(2) [OF assms(1) kb] by (simp add: FormatUint_of_nat times_def)
  from subsetD [OF scrape_parts(5) counter_lines_member [OF mem], of q bs ls gs]
  show ?thesis unfolding count protection_labels_key [OF kb] by simp
qed


definition demo_scrape :: scrape where
  "demo_scrape = \<lparr>sp_quote = (\<lambda>s. ''\"'' @ s @ ''\"''), sp_float = (\<lambda>r. []), sp_general = (\<lambda>r. []), sp_runtime = [], sp_build = []\<rparr>"

definition demo_events :: "metric_event list" where
  "demo_events = [HTTPRequest ''public'' 200 millisecond, BackendAttempt ''a'' 503 second False True, HTTPRequest ''public'' 200 second,
     ProtectionEvent ''overload'' [], Inflight 1]"


end
