(* ===== verification/Dashboard.thy ===== *)
theory Dashboard
  imports Discovery Metrics Lifecycle
begin

text \<open>
  The HTTP surface around the two modes of the process (\<open>internal/server/dashboard.go\<close>, the playground of
  \<open>gateway_api.go\<close>, and the wiring of \<open>cmd/balancer/main.go\<close> and \<open>gateway.go\<close>): a server stands either before a gateway
  engine or before a static pool. The handlers that read and change a pool, the probes, the test requests of the
  dashboard, what is reported to the metrics, and the reload of a gateway. Durations are reported as such, not as text.
\<close>

section \<open>The server\<close>

record 's poolServer =
  sx_process :: "'s process"
  sx_overload :: overloadController
  sx_runtimeMutations :: bool
  sx_shuttingDown :: bool
  sx_instanceID :: go_string

datatype 's webServer = GatewayServer "'s apiServer" | PoolServer "'s poolServer"

text \<open>What is outside.\<close>

record 's web =
  wb_api :: "'s api"
  wb_parse :: url_parser
  wb_ParseDuration :: "go_string \<Rightarrow> duration option"
  wb_dial :: "go_string \<Rightarrow> bool"
  wb_get :: "url \<Rightarrow> int option"
  wb_ctxErr :: "nat \<Rightarrow> bool"

record dashboardStatus =
  da_ClientIP :: go_string
  da_Backends :: "BackendSnapshot list"
  da_Bucket :: BucketState
  da_RateLimit :: RuntimeSettings
  da_Local :: LocalStoreStats
  da_Storage :: go_string
  da_Health :: HealthSettings
  da_Retry :: RetryPolicy
  da_Budget :: RetryBudgetSnapshot
  da_Overload :: OverloadSnapshot
  da_BackendMaxConcurrent :: int
  da_Ready :: bool
  da_RuntimeMutations :: bool
  da_InstanceID :: go_string

text \<open>The outcome of a test request.\<close>

record playgroundReport =
  pg_status :: int
  pg_headers :: http_header
  pg_body :: go_string
  pg_truncated :: bool

datatype web_payload =
    WebError go_string
  | WebAPI api_payload
  | WebStatus dashboardStatus
  | WebCount int
  | WebEnabled go_string bool
  | WebDraining go_string
  | WebBucket BucketState
  | WebApplied
  | WebAlive
  | WebReadiness bool bool bool go_string
  | WebPlayground playgroundReport

type_synonym 's web_answer = "(web_payload write_op list \<times> 's webServer) option"

definition reply_JSON :: "int \<Rightarrow> web_payload \<Rightarrow> 's webServer \<Rightarrow> 's web_answer" where
  "reply_JSON status payload sv = Some (writeJSON status payload, sv)"

fun server_mutations :: "'s webServer \<Rightarrow> bool" where
  "server_mutations (GatewayServer st) = as_runtimeMutations st"
| "server_mutations (PoolServer sx) = sx_runtimeMutations sx"

text \<open>The guard of the handlers below.\<close>

definition with_mutations :: "'s webServer \<Rightarrow> 's web_answer \<Rightarrow> 's web_answer" where
  "with_mutations sv continue =
     (if server_mutations sv then continue
      else reply_JSON 403 (WebError ''runtime mutations are disabled; update the declarative configuration and roll out all replicas'') sv)"

definition server_limiter :: "'s webServer \<Rightarrow> 's TokenBucketLimiter" where
  "server_limiter sv = (case sv of GatewayServer st \<Rightarrow> as_limiter st | PoolServer sx \<Rightarrow> pr_limiter (sx_process sx))"

definition put_limiter :: "'s TokenBucketLimiter \<Rightarrow> 's webServer \<Rightarrow> 's webServer" where
  "put_limiter l sv = (case sv of
     GatewayServer st \<Rightarrow> GatewayServer (st\<lparr>as_limiter := l\<rparr>)
   | PoolServer sx \<Rightarrow> PoolServer (sx\<lparr>sx_process := (sx_process sx)\<lparr>pr_limiter := l\<rparr>\<rparr>))"

definition server_resolver :: "'s webServer \<Rightarrow> clientIPResolver option" where
  "server_resolver sv = (case sv of
     GatewayServer st \<Rightarrow> as_resolver st
   | PoolServer sx \<Rightarrow> (case pr_server (sx_process sx) of None \<Rightarrow> None | Some (resolver, health) \<Rightarrow> resolver))"

definition web_IP :: "'s web \<Rightarrow> caller \<Rightarrow> 's webServer \<Rightarrow> go_string" where
  "web_IP A c sv = clientIP (ap_netip (wb_api A)) (server_resolver sv) (ca_remote c) (ca_header c)"

definition put_world :: "world \<Rightarrow> 's poolServer \<Rightarrow> 's poolServer" where
  "put_world w sx = sx\<lparr>sx_process := (sx_process sx)\<lparr>pr_world := w\<rparr>\<rparr>"

section \<open>Status and probes\<close>

text \<open>A handler of the gateway's API, called with the same request.\<close>

definition forward_API :: "'s answer \<Rightarrow> 's web_answer" where
  "forward_API a = map_option (\<lambda>(out, st). (map (\<lambda>op. case op of SetHeader k v \<Rightarrow> SetHeader k v | WriteHead s \<Rightarrow> WriteHead s
      | WriteBody p \<Rightarrow> WriteBody (WebAPI p)) out, GatewayServer st)) a"

definition handleStatus :: "'s web \<Rightarrow> caller \<Rightarrow> 's webServer \<Rightarrow> 's web_answer" where
  "handleStatus A c sv =
     (case sv of
        GatewayServer st \<Rightarrow> forward_API (handleGatewayStatus (wb_api A) c st)
      | PoolServer sx \<Rightarrow>
          (let p = sx_process sx; l = pr_limiter p; ops = ap_store (wb_api A)
           in case Limiter_Snapshot ops (nt_ParseAddr (ap_netip (wb_api A))) (ap_prefix (wb_api A)) l (web_IP A c sv) (ca_now c) of
                None \<Rightarrow> None
              | Some (Inl err) \<Rightarrow> reply_JSON 503 (WebError ''failed to read rate limit state'') sv
              | Some (Inr bucket) \<Rightarrow>
                  (case those (Pool_Snapshot (pr_world p) (pr_pool p) (ca_now c)) of
                     None \<Rightarrow> None
                   | Some backends \<Rightarrow>
                       (case lb_RetryBudget (pr_balancer p) (ca_now c) of
                          None \<Rightarrow> None
                        | Some (budget, balancer) \<Rightarrow>
                            (case pr_server p of
                               None \<Rightarrow> None
                             | Some (resolver, health) \<Rightarrow>
                                 (let (ready, w) = Pool_Ready (pr_pool p) (ca_now c) (pr_world p)
                                  in reply_JSON 200 (WebStatus \<lparr>
                                       da_ClientIP = web_IP A c sv, da_Backends = backends, da_Bucket = bucket,
                                       da_RateLimit = tb_settings l, da_Local = ap_local (wb_api A) l, da_Storage = st_Name ops,
                                       da_Health = health, da_Retry = transport_Policy (pr_balancer p), da_Budget = budget,
                                       da_Overload = overload_Snapshot (sx_overload sx),
                                       da_BackendMaxConcurrent = pp_MaxConcurrentRequests (p_policy (w_pools (pr_world p) (pr_pool p))),
                                       da_Ready = ready, da_RuntimeMutations = sx_runtimeMutations sx,
                                       da_InstanceID = sx_instanceID sx\<rparr>)
                                       (PoolServer (sx\<lparr>sx_process := p\<lparr>pr_world := w, pr_balancer := balancer\<rparr>\<rparr>))))))))"

definition handleLiveness :: "'s webServer \<Rightarrow> 's web_answer" where
  "handleLiveness sv = reply_JSON 200 WebAlive sv"

definition shutting_down :: "'s webServer \<Rightarrow> bool" where
  "shutting_down sv = (case sv of GatewayServer st \<Rightarrow> as_shuttingDown st | PoolServer sx \<Rightarrow> sx_shuttingDown sx)"

text \<open>A server before a gateway that is not there (\<open>None\<close>) is not of this kind; its \<open>Ready\<close> would be called on a nil
  pointer.\<close>

definition backends_ready :: "instant \<Rightarrow> 's webServer \<Rightarrow> (bool \<times> 's webServer) option" where
  "backends_ready now sv =
     (case sv of
        GatewayServer st \<Rightarrow>
          (case as_gateway st of
             None \<Rightarrow> None
           | Some e \<Rightarrow> (let (ok, e) = Engine_Ready now e in Some (ok, GatewayServer (put_engine e st))))
      | PoolServer sx \<Rightarrow>
          (let (ok, w) = Pool_Ready (pr_pool (sx_process sx)) now (pr_world (sx_process sx)) in Some (ok, PoolServer (put_world w sx))))"

definition handleReadiness :: "'s web \<Rightarrow> instant \<Rightarrow> 's webServer \<Rightarrow> 's web_answer" where
  "handleReadiness A now sv =
     (case backends_ready now sv of
        None \<Rightarrow> None
      | Some (backendReady, sv) \<Rightarrow>
          (let limiterError = Limiter_Healthy (ap_store (wb_api A)) (server_limiter sv);
               settings = tb_settings (server_limiter sv);
               ready = (\<not> shutting_down sv \<and> backendReady
                 \<and> (\<not> rs_Enabled settings \<or> rs_FailureMode settings \<noteq> ''fail-closed'' \<or> limiterError = None))
           in reply_JSON (if ready then 200 else 503) (WebReadiness ready backendReady (limiterError = None) (rs_FailureMode settings)) sv))"

section \<open>Changing a pool\<close>

text \<open>The loop over the endpoints of the first cluster: the index, whether every call succeeded, and the engine.\<close>

fun count_endpoints :: "go_string \<Rightarrow> int \<Rightarrow> nat \<Rightarrow> go_string list \<Rightarrow> bool \<Rightarrow> Engine \<Rightarrow> bool \<times> Engine" where
  "count_endpoints cluster n index [] updated e = (updated, e)"
| "count_endpoints cluster n index (endpoint # endpoints) updated e =
     (case SetEndpoint cluster endpoint (int index < n) e of
        (Some err, e) \<Rightarrow> count_endpoints cluster n (Suc index) endpoints False e
      | (None, e) \<Rightarrow> count_endpoints cluster n (Suc index) endpoints updated e)"

definition gateway_count :: "int \<Rightarrow> instant \<Rightarrow> Engine \<Rightarrow> (bool \<times> Engine) option" where
  "gateway_count n now e =
     (case Engine_Status now e of
        None \<Rightarrow> None
      | Some (status, e) \<Rightarrow>
          (case us_Clusters status of
             [] \<Rightarrow> Some (False, e)
           | first # rest \<Rightarrow>
               (case those (cs_Endpoints first) of
                  None \<Rightarrow> None
                | Some endpoints \<Rightarrow>
                    if n > 0 \<and> n \<le> int (length endpoints)
                    then Some (count_endpoints (cs_ID first) n 0 (map sn_ID endpoints) True e)
                    else Some (False, e))))"

definition active_count :: "int \<Rightarrow> instant \<Rightarrow> 's webServer \<Rightarrow> (bool \<times> 's webServer) option" where
  "active_count n now sv =
     (case sv of
        GatewayServer st \<Rightarrow>
          (case as_gateway st of
             None \<Rightarrow> None
           | Some e \<Rightarrow> map_option (\<lambda>(updated, e). (updated, GatewayServer (put_engine e st))) (gateway_count n now e))
      | PoolServer sx \<Rightarrow>
          (let (updated, w) = SetActiveCount (pr_pool (sx_process sx)) n (pr_world (sx_process sx))
           in Some (updated, PoolServer (put_world w sx))))"

definition handleBackendCount :: "caller \<Rightarrow> go_string + int \<Rightarrow> 's webServer \<Rightarrow> 's web_answer" where
  "handleBackendCount c body sv =
     with_mutations sv
       (case body of
          Inl err \<Rightarrow> reply_JSON 400 (WebError err) sv
        | Inr n \<Rightarrow>
            (case active_count n (ca_now c) sv of
               None \<Rightarrow> None
             | Some (updated, sv) \<Rightarrow>
                 if \<not> updated then reply_JSON 400 (WebError ''count must be between 1 and the configured backend count'') sv
                 else reply_JSON 200 (WebCount n) sv))"

definition use_cluster_API :: "'s webServer \<Rightarrow> 's web_answer" where
  "use_cluster_API sv = reply_JSON 400 (WebError ''use cluster-scoped /api/v1 endpoint'') sv"

definition handleBackendState :: "go_string \<Rightarrow> go_string + bool \<Rightarrow> 's webServer \<Rightarrow> 's web_answer" where
  "handleBackendState id0 body sv =
     (case sv of
        GatewayServer st \<Rightarrow> use_cluster_API sv
      | PoolServer sx \<Rightarrow>
          with_mutations sv
            (case body of
               Inl err \<Rightarrow> reply_JSON 400 (WebError err) sv
             | Inr enabled \<Rightarrow>
                 (case SetBackendEnabled (pr_pool (sx_process sx)) id0 enabled (pr_world (sx_process sx)) of
                    (False, w) \<Rightarrow> reply_JSON 404 (WebError ''backend not found'') (PoolServer (put_world w sx))
                  | (True, w) \<Rightarrow> reply_JSON 200 (WebEnabled id0 enabled) (PoolServer (put_world w sx)))))"

definition handleBackendDrain :: "go_string \<Rightarrow> 's webServer \<Rightarrow> 's web_answer" where
  "handleBackendDrain id0 sv =
     (case sv of
        GatewayServer st \<Rightarrow> use_cluster_API sv
      | PoolServer sx \<Rightarrow>
          with_mutations sv
            (case DrainBackend (pr_pool (sx_process sx)) id0 (pr_world (sx_process sx)) of
               (False, w) \<Rightarrow> reply_JSON 404 (WebError ''backend not found'') (PoolServer (put_world w sx))
             | (True, w) \<Rightarrow> reply_JSON 202 (WebDraining id0) (PoolServer (put_world w sx))))"

definition handleLimitReset :: "'s web \<Rightarrow> caller \<Rightarrow> go_string + int \<Rightarrow> 's webServer \<Rightarrow> 's web_answer" where
  "handleLimitReset A c body sv =
     with_mutations sv
       (let bad = reply_JSON 400 (WebError ''capacity must be between 1 and 1000000'') sv
        in case body of
             Inl err \<Rightarrow> bad
           | Inr capacity \<Rightarrow>
               if capacity < 1 \<or> capacity > 1000000 then bad
               else case Limiter_Reset (ap_store (wb_api A)) (nt_ParseAddr (ap_netip (wb_api A))) (ap_prefix (wb_api A))
                           (server_limiter sv) (web_IP A c sv) capacity (ca_now c) of
                      None \<Rightarrow> None
                    | Some (Inl err, l) \<Rightarrow> reply_JSON 503 (WebError ''failed to reset rate limit state'') (put_limiter l sv)
                    | Some (Inr bucket, l) \<Rightarrow> reply_JSON 200 (WebBucket bucket) (put_limiter l sv))"

text \<open>\<open>applyRuntime\<close> is given to the server of a pool only.\<close>

definition handleRuntimeUpdate :: "'s web \<Rightarrow> caller \<Rightarrow> go_string + RuntimeUpdate \<Rightarrow> 's webServer \<Rightarrow> 's web_answer" where
  "handleRuntimeUpdate A c body sv =
     with_mutations sv
       (case sv of
          GatewayServer st \<Rightarrow> reply_JSON 501 (WebError ''runtime updates are disabled'') sv
        | PoolServer sx \<Rightarrow>
            (case body of
               Inl err \<Rightarrow> reply_JSON 400 (WebError err) sv
             | Inr update \<Rightarrow>
                 (case applyRuntime (wb_parse A) (ap_netip (wb_api A)) (wb_ParseDuration A) (wb_dial A) (wb_get A) (wb_ctxErr A)
                         update (ca_now c) (sx_process sx) of
                    (Some err, p) \<Rightarrow> reply_JSON 400 (WebError err) (PoolServer (sx\<lparr>sx_process := p\<rparr>))
                  | (None, p) \<Rightarrow> reply_JSON 200 WebApplied (PoolServer (sx\<lparr>sx_process := p\<rparr>)))))"

section \<open>Test requests\<close>

definition dashboardUpstreamHeaders :: "http_header \<Rightarrow> http_header" where
  "dashboardUpstreamHeaders source =
     fold (\<lambda>name destination. fold (\<lambda>v destination. Header_Add destination name v) (Header_Values source name) destination)
       [''Accept'', ''Accept-Language'', ''User-Agent'', ''X-Request-ID'', ''Traceparent'', ''Tracestate''] []"

definition dashboard_request :: "request \<Rightarrow> request" where
  "dashboard_request r =
     r\<lparr>rq_URL := (rq_URL r)\<lparr>u_Path := ''/'', u_RawPath := [], u_RawQuery := []\<rparr>,
       rq_Header := dashboardUpstreamHeaders (rq_Header r), rq_Body := None, rq_GetBody := None, rq_ContentLength := 0,
       rq_TransferEncoding := []\<rparr>"

text \<open>\<open>balancer\<close> is the handler of the pool.\<close>

definition handleDashboardRequest :: "(request \<Rightarrow> 's webServer \<Rightarrow> 's web_answer) \<Rightarrow> request \<Rightarrow> 's webServer \<Rightarrow> 's web_answer" where
  "handleDashboardRequest balancer r sv =
     (case sv of
        GatewayServer st \<Rightarrow> reply_JSON 410 (WebError ''use POST /api/v1/request'') sv
      | PoolServer sx \<Rightarrow> balancer (dashboard_request r) sv)"

text \<open>The playground of the gateway. \<open>url.ParseRequestURI\<close> and \<open>httpguts\<close> are outside.\<close>

record guts =
  gu_ParseRequestURI :: "go_string \<Rightarrow> url option"
  gu_ValidHeaderFieldName :: "go_string \<Rightarrow> bool"
  gu_ValidHeaderFieldValue :: "go_string \<Rightarrow> bool"

record playgroundInput =
  pi_Method :: go_string
  pi_Host :: go_string
  pi_Path :: go_string
  pi_Headers :: "(go_string \<times> go_string) list"
  pi_Body :: go_string
  pi_Listener :: go_string

definition playground_forbidden :: "go_string list" where
  "playground_forbidden = [''authorization'', ''proxy-authorization'', ''cookie'', ''set-cookie'', ''forwarded'', ''x-real-ip'',
     ''connection'', ''upgrade'', ''host'', ''content-length'', ''transfer-encoding'', ''trailer'', ''te'', ''expect'']"

definition playground_methods :: "go_string list" where
  "playground_methods = [''GET'', ''HEAD'', ''POST'', ''PUT'', ''PATCH'', ''DELETE'', ''OPTIONS'']"

definition safePlaygroundHeader :: "guts \<Rightarrow> go_string \<Rightarrow> go_string \<Rightarrow> bool" where
  "safePlaygroundHeader G name v =
     (if \<not> gu_ValidHeaderFieldName G name \<or> \<not> gu_ValidHeaderFieldValue G v then False
      else let key = ToLower name
           in if HasPrefix key ''x-balancer-'' \<or> HasPrefix key ''x-forwarded-'' then False
              else key \<notin> set playground_forbidden)"

definition playground_method :: "go_string \<Rightarrow> go_string" where
  "playground_method m = (if ToUpper m = [] then ''GET'' else ToUpper m)"

definition playground_path_ok :: "guts \<Rightarrow> playgroundInput \<Rightarrow> bool" where
  "playground_path_ok G i \<longleftrightarrow>
     (case gu_ParseRequestURI G (pi_Path i) of
        None \<Rightarrow> False
      | Some u \<Rightarrow> u_Scheme u = [] \<and> u_Host u = [])
     \<and> HasPrefix (pi_Path i) ''/'' \<and> \<not> ContainsAny (pi_Host i) (''/'' @ [CHR 0x5C, CHR 0x0D, CHR 0x0A, CHR 0x09] @ '' @'')
     \<and> length (pi_Body i) \<le> 256 * 1024"

text \<open>The request that is sent through the pipeline; \<open>parse\<close> is the URL parser of \<open>http.NewRequest\<close>.\<close>

definition playground_headers :: "guts \<Rightarrow> (go_string \<times> go_string) list \<Rightarrow> http_header" where
  "playground_headers G hs = fold (\<lambda>(name, v) h. if safePlaygroundHeader G name v then Header_Set h name v else h) hs []"

definition playground_request ::
    "guts \<Rightarrow> url_parser \<Rightarrow> go_string \<Rightarrow> playgroundInput \<Rightarrow> go_string + request" where
  "playground_request G parse clientIP0 i =
     (let m = playground_method (pi_Method i)
      in if m \<notin> set playground_methods then Inl ''unsupported playground method''
         else if \<not> playground_path_ok G i then Inl ''provide a relative path, valid host and body up to 256 KiB''
         else case parse (''http://playground'' @ pi_Path i) of
                None \<Rightarrow> Inl ''invalid test request''
              | Some u \<Rightarrow> Inr \<lparr>rq_Method = m, rq_URL = u\<lparr>u_Scheme := [], u_Host := []\<rparr>,
                  rq_Host = (if pi_Host i = [] then ''localhost'' else pi_Host i), rq_RequestURI = pi_Path i,
                  rq_Header = playground_headers G (pi_Headers i),
                  rq_Body = (if pi_Body i = [] then None else Some (pi_Body i)),
                  rq_GetBody = (if pi_Body i = [] then None else Some (Inr (pi_Body i))),
                  rq_ContentLength = int (length (pi_Body i)), rq_TLS = False, rq_retryPolicy = None, rq_upstreamHost = None,
                  rq_clientIP = clientIP0, rq_forwardedProto = ''http'', rq_TransferEncoding = [], rq_listener = pi_Listener i,
                  rq_diagnostics = True, rq_maxBody = None, rq_timeout = 10 * second\<rparr>)"

record boundedResponse =
  bo_header :: http_header
  bo_status :: int
  bo_body :: go_string
  bo_limit :: nat
  bo_truncated :: bool

definition bounded_WriteHeader :: "int \<Rightarrow> boundedResponse \<Rightarrow> boundedResponse" where
  "bounded_WriteHeader status r = (if status \<ge> 200 \<and> bo_status r = 0 then r\<lparr>bo_status := status\<rparr> else r)"

text \<open>\<open>Write\<close>: the number of bytes taken, whether it fails with a short write, and the response.\<close>

definition bounded_Write :: "go_string \<Rightarrow> boundedResponse \<Rightarrow> (nat \<times> bool) \<times> boundedResponse" where
  "bounded_Write v r =
     (let r = (if bo_status r = 0 then r\<lparr>bo_status := 200\<rparr> else r);
          remaining = bo_limit r - length (bo_body r)
      in if length v > remaining
         then ((remaining, True), r\<lparr>bo_body := bo_body r @ take remaining v, bo_truncated := True\<rparr>)
         else ((length v, False), r\<lparr>bo_body := bo_body r @ v\<rparr>))"

fun bounded_op :: "go_string write_op \<Rightarrow> boundedResponse \<Rightarrow> boundedResponse" where
  "bounded_op (SetHeader k v) r = r\<lparr>bo_header := Header_Set (bo_header r) k v\<rparr>"
| "bounded_op (WriteHead status) r = bounded_WriteHeader status r"
| "bounded_op (WriteBody v) r = snd (bounded_Write v r)"

definition new_bounded :: boundedResponse where
  "new_bounded = \<lparr>bo_header = [], bo_status = 0, bo_body = [], bo_limit = 64 * 1024, bo_truncated = False\<rparr>"

text \<open>What the playground reports, of what the pipeline wrote and whether it aborted (\<open>executePlayground\<close>).\<close>

definition playground_report :: "go_string write_op list \<Rightarrow> bool \<Rightarrow> playgroundReport" where
  "playground_report writes aborted =
     (let r = fold bounded_op writes new_bounded;
          r = (if aborted \<and> \<not> bo_truncated r \<and> bo_status r = 0 then r\<lparr>bo_status := 502\<rparr> else r);
          r = (if bo_status r = 0 then r\<lparr>bo_status := 200\<rparr> else r)
      in \<lparr>pg_status = bo_status r, pg_headers = filter (\<lambda>(k, vs). \<not> EqualFold k ''Set-Cookie'') (bo_header r),
          pg_body = bo_body r, pg_truncated = bo_truncated r\<rparr>)"

text \<open>\<open>pipeline\<close> is the handler of the named listener behind overload protection and rate limiting.\<close>

definition handleGatewayRequest ::
    "'s api \<Rightarrow> guts \<Rightarrow> url_parser \<Rightarrow> (request \<Rightarrow> 's apiServer \<Rightarrow> (go_string write_op list \<times> bool) \<times> 's apiServer)
     \<Rightarrow> caller \<Rightarrow> go_string + playgroundInput \<Rightarrow> 's apiServer \<Rightarrow> 's web_answer" where
  "handleGatewayRequest A G parse pipeline c body st =
     (case as_gateway st of
        None \<Rightarrow> reply_JSON 501 (WebError ''versioned gateway configuration is not enabled'') (GatewayServer st)
      | Some e \<Rightarrow>
          with_mutations (GatewayServer st)
            (case body of
               Inl err \<Rightarrow> reply_JSON 400 (WebError err) (GatewayServer st)
             | Inr i \<Rightarrow>
                 (case playground_request G parse (caller_IP A c st) i of
                    Inl err \<Rightarrow> reply_JSON 400 (WebError err) (GatewayServer st)
                  | Inr r \<Rightarrow>
                      (case pipeline r st of
                         ((writes, aborted), st) \<Rightarrow>
                           reply_JSON 200 (WebPlayground (playground_report writes aborted)) (GatewayServer st)))))"

section \<open>What is reported to the metrics\<close>

text \<open>The providers of \<open>main.go\<close> and \<open>gateway.go\<close>.\<close>

definition pool_backend_metrics :: "BackendSnapshot list \<Rightarrow> BackendMetric list" where
  "pool_backend_metrics bs = map (\<lambda>b. \<lparr>bm_ID = sn_ID b, bm_Cluster = [], bm_Available = sn_Available b\<rparr>) bs"

definition limiter_metric :: "'s Store \<Rightarrow> LocalStoreStats \<Rightarrow> 's TokenBucketLimiter \<Rightarrow> LimiterMetric" where
  "limiter_metric ops local l =
     (let err = Limiter_Healthy ops l
      in \<lparr>lm_Storage = st_Name ops, lm_Healthy = (err = None),
          lm_Degraded = (err \<noteq> None \<and> rs_FailureMode (tb_settings l) \<noteq> ''fail-closed''),
          lm_LocalBuckets = lss_Buckets local, lm_LocalEvictions = lss_Evictions local\<rparr>)"

definition cluster_backend_metrics :: "ClusterStatus \<Rightarrow> BackendMetric list option" where
  "cluster_backend_metrics c =
     map_option (map (\<lambda>b. \<lparr>bm_ID = sn_ID b, bm_Cluster = cs_ID c, bm_Available = sn_Available b\<rparr>)) (those (cs_Endpoints c))"

definition gateway_backend_metrics :: "Status \<Rightarrow> BackendMetric list option" where
  "gateway_backend_metrics status = map_option concat (those (map cluster_backend_metrics (us_Clusters status)))"

definition cluster_metric :: "ClusterStatus \<Rightarrow> ClusterMetric option" where
  "cluster_metric c =
     map_option (\<lambda>bs. \<lparr>cm_ID = cs_ID c, cm_Inflight = sum_list (map sn_Inflight bs),
         cm_AvailableEndpoints = int (length (filter sn_Available bs)),
         cm_DiscoveryStale = ds_Stale (cs_Discovery c), cm_LastUpdate = ds_LastUpdate (cs_Discovery c)\<rparr>) (those (cs_Endpoints c))"

definition gateway_metric :: "Status \<Rightarrow> GatewayMetric option" where
  "gateway_metric status =
     map_option (\<lambda>cs. \<lparr>gm_Revision = us_Revision status, gm_AppliedAt = us_AppliedAt status,
         gm_ApplySuccess = es_applySuccess (us_Stats status), gm_ApplyFailures = es_applyFailures (us_Stats status),
         gm_Clusters = cs\<rparr>) (those (map cluster_metric (us_Clusters status)))"

section \<open>Reloading a gateway\<close>

record 's gatewayProcess =
  gp_config :: Config
  gp_server :: "'s apiServer"
  gp_health :: HealthSettings

datatype reload_error = ReloadText go_string | ReloadEngine engine_error

text \<open>The branch of \<open>runGateway\<close> for a SIGHUP, with what \<open>InitConfig\<close> gave. The limiter and the resolver are those of the
  server.\<close>

definition gateway_reload ::
    "'s api \<Rightarrow> go_string + Config \<Rightarrow> instant \<Rightarrow> 's gatewayProcess \<Rightarrow> (reload_error option \<times> 's gatewayProcess) option" where
  "gateway_reload A loaded now p =
     (case loaded of
        Inl err \<Rightarrow> Some (Some (ReloadText err), p)
      | Inr new \<Rightarrow>
          (case ValidateReload (gp_config p) new of
             Some err \<Rightarrow> Some (Some (ReloadText err), p)
           | None \<Rightarrow>
               if cf_Gateway new = None then Some (Some (ReloadText ''gateway configuration cannot be removed during reload''), p)
               else (case ApplyGatewayConfig A (cf_Gateway new) now (gp_server p) of
                       None \<Rightarrow> None
                     | Some (Some err, st) \<Rightarrow> Some (Some (ReloadEngine err), p\<lparr>gp_server := st\<rparr>)
                     | Some (None, st) \<Rightarrow>
                         (case Reconfigure (as_limiter st) (limiterSettings (cf_RateLimit new)) of
                            (Some err, l) \<Rightarrow> Some (Some (ReloadText err), p\<lparr>gp_server := st\<lparr>as_limiter := l\<rparr>\<rparr>)
                          | (None, l) \<Rightarrow>
                              (case UpdateRuntime (ap_netip A) (sc_TrustedProxies (cf_Server new))
                                      (process_healthSettings (cf_HealthCheck new) [sc_Upstream (cf_Server new)])
                                      (as_resolver st, gp_health p) of
                                 (Some err, resolver, health) \<Rightarrow>
                                   Some (Some (ReloadText err), p\<lparr>gp_server := st\<lparr>as_limiter := l, as_resolver := resolver\<rparr>, gp_health := health\<rparr>)
                               | (None, resolver, health) \<Rightarrow>
                                   Some (None, p\<lparr>gp_config := new, gp_server := st\<lparr>as_limiter := l, as_resolver := resolver\<rparr>,
                                     gp_health := health\<rparr>))))))"

section \<open>Facts about the handlers\<close>

lemma reply_JSON_status [simp]: "reply_JSON s p sv = Some (out, sv') \<longleftrightarrow> out = writeJSON s p \<and> sv' = sv"
  by (auto simp: reply_JSON_def)



lemma pool_readiness:
  assumes inv: "world_inv (pr_world (sx_process sx))"
    and room: "version_room (length (p_all (w_pools (pr_world (sx_process sx)) (pr_pool (sx_process sx))))) (pr_world (sx_process sx))"
  obtains w' where "backends_ready now (PoolServer sx) =
      Some (\<exists>b \<in> set (p_all (w_pools (pr_world (sx_process sx)) (pr_pool (sx_process sx)))). IsAlive (state_of w' b) now, PoolServer (put_world w' sx))"
proof -
  obtain bs w' where r: "AvailableBackends (pr_pool (sx_process sx)) now (pr_world (sx_process sx)) = (bs, w')" by fastforce
  from AvailableBackends_ok(2) [OF inv _ r, of 0] room
  have "bs = filter (\<lambda>b. IsAlive (state_of w' b) now) (p_all (w_pools (pr_world (sx_process sx)) (pr_pool (sx_process sx))))" by simp
  then have "0 < length bs \<longleftrightarrow> (\<exists>b \<in> set (p_all (w_pools (pr_world (sx_process sx)) (pr_pool (sx_process sx)))). IsAlive (state_of w' b) now)"
    by (auto simp: filter_empty_conv)
  with r show ?thesis by (intro that [of w']) (simp add: backends_ready_def Pool_Ready_def)
qed

lemma put_simps [simp]:
  "server_limiter (PoolServer (put_world w sx)) = pr_limiter (sx_process sx)" "shutting_down (PoolServer (put_world w sx)) = sx_shuttingDown sx"
  "server_limiter (GatewayServer (put_engine e st)) = as_limiter st" "shutting_down (GatewayServer (put_engine e st)) = as_shuttingDown st"
  by (simp_all add: server_limiter_def shutting_down_def put_world_def put_engine_def)

lemma readiness_answer:
  assumes "backends_ready now sv = Some (ok, sv')"
  shows "\<exists>out. handleReadiness A now sv = Some (out, sv') \<and> (first_status out = Some 200 \<longleftrightarrow> \<not> shutting_down sv' \<and> ok
    \<and> (\<not> rs_Enabled (tb_settings (server_limiter sv')) \<or> rs_FailureMode (tb_settings (server_limiter sv')) \<noteq> ''fail-closed''
       \<or> Limiter_Healthy (ap_store (wb_api A)) (server_limiter sv') = None))"
  using assms by (simp add: handleReadiness_def Let_def reply_JSON_def)

lemma gateway_readiness:
  assumes "handleGatewayStatus (wb_api A) c st = Some (writeJSON 200 (Report r), st')"
  shows "\<exists>out sv'. handleReadiness A (ca_now c) (GatewayServer st) = Some (out, sv') \<and> (first_status out = Some 200 \<longleftrightarrow> st_ready r)"
proof -
  from assms obtain e where e: "as_gateway st = Some e" by (auto simp: handleGatewayStatus_def requireGateway_def answer_def writeJSON_def split: option.splits)
  let ?ready = "fst (if as_shuttingDown st then (False, e) else Engine_Ready (ca_now c) e)
      \<and> (\<not> rs_Enabled (tb_settings (as_limiter st)) \<or> rs_FailureMode (tb_settings (as_limiter st)) \<noteq> ''fail-closed''
         \<or> Limiter_Healthy (ap_store (wb_api A)) (as_limiter st) = None)"
  from assms e have "st_ready r = ?ready"
    by (auto simp: handleGatewayStatus_def requireGateway_def answer_def writeJSON_def Let_def split_def split: option.splits)
  moreover have "backends_ready (ca_now c) (GatewayServer st) =
      Some (fst (Engine_Ready (ca_now c) e), GatewayServer (put_engine (snd (Engine_Ready (ca_now c) e)) st))"
    using e by (simp add: backends_ready_def split_def Let_def)
  from readiness_answer [OF this, of A]
  have "\<exists>out sv'. handleReadiness A (ca_now c) (GatewayServer st) = Some (out, sv') \<and> (first_status out = Some 200 \<longleftrightarrow> ?ready)" by auto
  ultimately show ?thesis by simp
qed

text \<open>C24. The readiness probe tells the truth. For a pool it succeeds exactly when the server is not shutting down, some
  backend of the pool can be used, and the limiter can decide (it is disabled, may fail open or fall back, or its
  storage is reachable). For a gateway it agrees with the status the management API reports.\<close>

theorem readiness_exact:
  fixes sx :: "'s poolServer"
  defines "w \<equiv> pr_world (sx_process sx)" and "p \<equiv> pr_pool (sx_process sx)" and "l \<equiv> pr_limiter (sx_process sx)"
  assumes "world_inv w" and "version_room (length (p_all (w_pools w p))) w"
  shows "(\<exists>out w'. handleReadiness A now (PoolServer sx) = Some (out, PoolServer (put_world w' sx))
      \<and> (first_status out = Some 200 \<longleftrightarrow> \<not> sx_shuttingDown sx \<and> (\<exists>b \<in> set (p_all (w_pools w p)). IsAlive (state_of w' b) now)
           \<and> (\<not> rs_Enabled (tb_settings l) \<or> rs_FailureMode (tb_settings l) \<noteq> ''fail-closed'' \<or> Limiter_Healthy (ap_store (wb_api A)) l = None)))
    \<and> (\<forall>c st st' r. handleGatewayStatus (wb_api A) c st = Some (writeJSON 200 (Report r), st') \<longrightarrow>
         (\<exists>out sv'. handleReadiness A (ca_now c) (GatewayServer st) = Some (out, sv') \<and> (first_status out = Some 200 \<longleftrightarrow> st_ready r)))"
proof -
  from pool_readiness [of sx now] assms obtain w' where w': "backends_ready now (PoolServer sx) =
      Some (\<exists>b \<in> set (p_all (w_pools w p)). IsAlive (state_of w' b) now, PoolServer (put_world w' sx))" by auto
  note answer = readiness_answer [OF w', of A, unfolded put_simps]
  have "\<exists>out w'. handleReadiness A now (PoolServer sx) = Some (out, PoolServer (put_world w' sx))
      \<and> (first_status out = Some 200 \<longleftrightarrow> \<not> sx_shuttingDown sx \<and> (\<exists>b \<in> set (p_all (w_pools w p)). IsAlive (state_of w' b) now)
           \<and> (\<not> rs_Enabled (tb_settings l) \<or> rs_FailureMode (tb_settings l) \<noteq> ''fail-closed'' \<or> Limiter_Healthy (ap_store (wb_api A)) l = None))"
    unfolding l_def by (rule exE [OF answer]) (rule exI, rule exI [of _ w'], assumption)
  with gateway_readiness show ?thesis by blast
qed

text \<open>What the dashboard of a pool reports as ready ignores the two other conditions of the probe.\<close>

lemma pool_status_ready:
  assumes "handleStatus A c (PoolServer sx) = Some (writeJSON 200 (WebStatus r), sv')"
  shows "da_Ready r \<longleftrightarrow> fst (Pool_Ready (pr_pool (sx_process sx)) (ca_now c) (pr_world (sx_process sx)))"
    and "sx_shuttingDown sx \<Longrightarrow> \<exists>out sv''. handleReadiness A (ca_now c) (PoolServer sx) = Some (out, sv'') \<and> first_status out = Some 503"
proof -
  show "da_Ready r \<longleftrightarrow> fst (Pool_Ready (pr_pool (sx_process sx)) (ca_now c) (pr_world (sx_process sx)))"
    using assms by (auto simp: handleStatus_def writeJSON_def Let_def split: option.splits sum.splits prod.splits)
  assume down: "sx_shuttingDown sx"
  obtain ok w where "Pool_Ready (pr_pool (sx_process sx)) (ca_now c) (pr_world (sx_process sx)) = (ok, w)" by fastforce
  with down show "\<exists>out sv''. handleReadiness A (ca_now c) (PoolServer sx) = Some (out, sv'') \<and> first_status out = Some 503"
    by (simp add: handleReadiness_def backends_ready_def Let_def reply_JSON_def)
qed

definition demo_pool :: "unit poolServer" where
  "demo_pool = \<lparr>sx_process = demo_process\<lparr>pr_world := demo_world\<rparr>, sx_overload = newOverloadController 4 second 0, sx_runtimeMutations = True,
     sx_shuttingDown = True, sx_instanceID = ''a''\<rparr>"

definition demo_web :: "unit web" where
  "demo_web = \<lparr>wb_api = demo_api, wb_parse = simple_parse, wb_ParseDuration = (\<lambda>t. None), wb_dial = (\<lambda>h. True), wb_get = (\<lambda>u. Some 200),
     wb_ctxErr = (\<lambda>k. False)\<rparr>"

theorem readiness_exact_witness:
  "\<exists>out w'. handleReadiness demo_web 5 (PoolServer demo_pool) = Some (out, PoolServer (put_world w' demo_pool)) \<and> first_status out \<noteq> Some 200"
proof -
  have w: "pr_world (sx_process demo_pool) = demo_world" "pr_pool (sx_process demo_pool) = 0" "sx_shuttingDown demo_pool"
    by (simp_all add: demo_pool_def demo_process_def)
  have "world_inv (pr_world (sx_process demo_pool))" unfolding w by (rule demo_world_inv)
  moreover have "version_room (length (p_all (w_pools (pr_world (sx_process demo_pool)) (pr_pool (sx_process demo_pool))))) (pr_world (sx_process demo_pool))"
    unfolding w by (rule demo_room) (simp add: demo_pools)
  ultimately show ?thesis using readiness_exact [of demo_pool demo_web 5] w(3) by blast
qed

section \<open>Test requests are bounded\<close>

lemma bounded_run:
  assumes "length (bo_body r) \<le> bo_limit r" and "bo_truncated r \<longrightarrow> length (bo_body r) = bo_limit r"
  defines "written \<equiv> \<lambda>ops. concat (map (\<lambda>op. case op of WriteBody v \<Rightarrow> v | _ \<Rightarrow> []) ops)"
  shows "bo_body (fold bounded_op ops r) = take (bo_limit r) (bo_body r @ written ops) \<and> bo_limit (fold bounded_op ops r) = bo_limit r
    \<and> (bo_truncated (fold bounded_op ops r) \<longleftrightarrow> bo_truncated r \<or> bo_limit r < length (bo_body r @ written ops))"
  using assms(1,2)
proof (induction ops arbitrary: r)
  case (Cons op ops)
  show ?case
  proof (cases op)
    case (SetHeader k v)
    with Cons.IH [of "bounded_op op r"] Cons.prems show ?thesis by (simp add: written_def)
  next
    case (WriteHead s)
    with Cons.IH [of "bounded_op op r"] Cons.prems show ?thesis by (simp add: written_def bounded_WriteHeader_def split: if_splits)
  next
    case (WriteBody v)
    with Cons.IH [of "bounded_op op r"] Cons.prems show ?thesis
      by (auto simp: written_def bounded_Write_def Let_def)
  qed
qed (simp add: written_def)

lemma playground_request_ok:
  assumes "playground_request G parse ip i = Inr r"
  shows "rq_Header r = playground_headers G (pi_Headers i) \<and> u_Scheme (rq_URL r) = [] \<and> u_Host (rq_URL r) = [] \<and> rq_clientIP r = ip
    \<and> length (pi_Body i) \<le> 262144 \<and> rq_Method r \<in> set playground_methods"
proof (cases "playground_method (pi_Method i) \<in> set playground_methods \<and> playground_path_ok G i")
  case True
  then have "length (pi_Body i) \<le> 262144" by (simp add: playground_path_ok_def)
  with True assms show ?thesis by (auto simp: playground_request_def Let_def split: option.splits)
next
  case False
  with assms show ?thesis by (auto simp: playground_request_def Let_def split: if_splits)
qed

lemma playground_headers_all:
  assumes "\<And>name v. safePlaygroundHeader G name v \<Longrightarrow> P (CanonicalHeaderKey name, [v])"
  shows "\<forall>kv \<in> set (playground_headers G hs). P kv"
proof -
  have upd: "kv \<in> set (AList.update k x xs) \<Longrightarrow> kv = (k, x) \<or> kv \<in> set xs" for kv k x and xs :: http_header
    by (induction xs) (auto split: if_splits)
  show ?thesis unfolding playground_headers_def
  proof (induction hs rule: rev_induct)
    case (snoc h hs)
    with assms show ?case by (cases h) (auto simp: Header_Set_def dest!: upd)
  qed simp
qed

lemma safe_header:
  assumes "safePlaygroundHeader G name v"
  shows "ToLower name \<notin> set playground_forbidden \<and> \<not> HasPrefix (ToLower name) ''x-balancer-'' \<and> \<not> HasPrefix (ToLower name) ''x-forwarded-''
    \<and> gu_ValidHeaderFieldValue G v"
  using assms unfolding safePlaygroundHeader_def Let_def by presburger

lemma playground_headers_safe:
  "\<forall>(k, vs) \<in> set (playground_headers G hs). ToLower k \<notin> set playground_forbidden \<and> \<not> HasPrefix (ToLower k) ''x-balancer-''
     \<and> \<not> HasPrefix (ToLower k) ''x-forwarded-'' \<and> (\<exists>v. vs = [v] \<and> gu_ValidHeaderFieldValue G v)"
  by (rule playground_headers_all) (drule safe_header, simp)


definition demo_guts :: guts where
  "demo_guts = \<lparr>gu_ParseRequestURI = (\<lambda>p. Some (path_url p)), gu_ValidHeaderFieldName = (\<lambda>n. True), gu_ValidHeaderFieldValue = (\<lambda>v. True)\<rparr>"

definition demo_input :: playgroundInput where
  "demo_input = \<lparr>pi_Method = ''post'', pi_Host = [], pi_Path = ''/a'', pi_Headers = [(''Authorization'', ''x''), (''Accept'', ''y'')], pi_Body = ''b'',
     pi_Listener = ''web''\<rparr>"


section \<open>A reload of a gateway\<close>

lemma ApplyGatewayConfig_outcome:
  assumes "ApplyGatewayConfig A (Some g) now st = Some (err, st')" and "as_gateway st = Some e"
    and "engine_ok parse e" and "ev_parse (ap_env A) = parse"
  shows "\<exists>e'. st' = put_engine e' st \<and> (case err of
      Some x \<Rightarrow> engine_abs e' = engine_abs e
    | None \<Rightarrow> gg_Listeners (ApplyDefaults g) = gg_Listeners (hd (vs_log (engine_abs e)))
        \<and> (\<exists>n. normalizeConfig parse (en_defaults e) (Some (ApplyDefaults g)) = Inr n
            \<and> engine_abs e' = vs_publish (history_limit (en_defaults e) n) n (engine_abs e)))"
proof -
  from assms(1,2) obtain current where cur: "Engine_Config e = Some current" by (auto simp: ApplyGatewayConfig_def Let_def split: option.splits)
  have newest: "current = hd (vs_log (engine_abs e))" using Engine_Config_abs [OF assms(3)] cur by (simp split: if_splits)
  show ?thesis
  proof (cases "gg_Listeners current = gg_Listeners (ApplyDefaults g)")
    case True
    obtain err1 e' where ap: "applyLocked (ap_env A) (Some (ApplyDefaults g)) now e = (err1, e')" by fastforce
    with assms(1,2) cur True have "err = err1" "st' = put_engine e' st" by (auto simp: ApplyGatewayConfig_def Apply_def Let_def)
    with applyLocked_abs [OF assms(3,4), of "Some (ApplyDefaults g)" now] ap newest True show ?thesis by (intro exI [of _ e']) (auto split: option.splits)
  next
    case False
    with assms(1,2) cur put_engine_self [OF assms(2)] show ?thesis by (intro exI [of _ e]) (auto simp: ApplyGatewayConfig_def Let_def)
  qed
qed

text \<open>What a process runs, for a configuration that was loaded.\<close>

definition gateway_runs :: "'s api \<Rightarrow> Config \<Rightarrow> 's gatewayProcess \<Rightarrow> bool" where
  "gateway_runs A new p \<longleftrightarrow> gp_config p = new \<and> tb_settings (as_limiter (gp_server p)) = limiterSettings (cf_RateLimit new)
     \<and> newClientIPResolver (ap_netip A) (sc_TrustedProxies (cf_Server new)) = Inr (the (as_resolver (gp_server p))) \<and> as_resolver (gp_server p) \<noteq> None
     \<and> gp_health p = process_healthSettings (cf_HealthCheck new) [sc_Upstream (cf_Server new)]"

text \<open>C26. A reload of a gateway is all or nothing: for a configuration that was loaded, it either reports an error and
  leaves the published configurations, the limiter, the trusted proxies and the health settings as they were, or it
  publishes the gateway configuration as a new revision and takes every other setting from the file. The
  endpoints that are published then are exactly those of the file: what discovery had found is not carried over.\<close>

theorem gateway_reload_all_or_nothing:
  assumes "Config_Validate parse (ap_netip A) x = (None, new)" and "ev_parse (ap_env A) = parse"
    and "as_gateway (gp_server p) = Some e" and "engine_reachable parse e"
    and "gateway_reload A (Inr new) now p = Some (err, p')"
  shows "\<exists>e'. as_gateway (gp_server p') = Some e' \<and> (case err of
      Some x \<Rightarrow> p' = p\<lparr>gp_server := put_engine e' (gp_server p)\<rparr> \<and> engine_abs e' = engine_abs e
    | None \<Rightarrow> gateway_runs A new p' \<and> (\<exists>g n. cf_Gateway new = Some g \<and> normalizeConfig parse (en_defaults e) (Some (ApplyDefaults g)) = Inr n
        \<and> engine_abs e' = vs_publish (history_limit (en_defaults e) n) n (engine_abs e)
        \<and> (\<forall>c \<in> set (gg_Clusters g). \<exists>c' \<in> set (gg_Clusters n). gc_ID c' = gc_ID c \<and> gc_Endpoints c' = normalizeEndpoints (gc_Endpoints c))))"
proof -
  note ok = engine_reachable_ok [OF assms(4)]
  note v = validated_sections [OF assms(1)]
  show ?thesis
  proof (cases "ValidateReload (gp_config p) new = None \<and> cf_Gateway new \<noteq> None")
    case False
    with assms(3,5) put_engine_self [OF assms(3)] show ?thesis by (auto simp: gateway_reload_def split: option.splits if_splits)
  next
    case True
    then obtain g where g: "cf_Gateway new = Some g" by auto
    obtain err1 st where ap: "ApplyGatewayConfig A (Some g) now (gp_server p) = Some (err1, st)"
      using assms(5) True g by (auto simp: gateway_reload_def split: option.splits)
    from ApplyGatewayConfig_outcome [OF ap assms(3) ok assms(2)] obtain e' where e': "st = put_engine e' (gp_server p)"
      "case err1 of Some x \<Rightarrow> engine_abs e' = engine_abs e
        | None \<Rightarrow> gg_Listeners (ApplyDefaults g) = gg_Listeners (hd (vs_log (engine_abs e)))
        \<and> (\<exists>n. normalizeConfig parse (en_defaults e) (Some (ApplyDefaults g)) = Inr n
            \<and> engine_abs e' = vs_publish (history_limit (en_defaults e) n) n (engine_abs e))" by blast
    show ?thesis
    proof (cases err1)
      case (Some x)
      with assms(5) True g ap e' show ?thesis by (auto simp: gateway_reload_def)
    next
      case None
      have lim: "Reconfigure (as_limiter st) (limiterSettings (cf_RateLimit new)) =
          (None, (as_limiter st)\<lparr>tb_settings := limiterSettings (cf_RateLimit new)\<rparr>)"
        using limiter_settings_valid [OF v(1)] by (simp add: Reconfigure_def Let_def)
      from trusted_proxies_valid [OF v(1)] obtain res where res: "newClientIPResolver (ap_netip A) (sc_TrustedProxies (cf_Server new)) = Inr res" ..
      from assms(5) True g ap None lim res
      have p': "err = None" "p' = p\<lparr>gp_config := new, gp_server := st\<lparr>as_limiter := (as_limiter st)\<lparr>tb_settings := limiterSettings (cf_RateLimit new)\<rparr>,
          as_resolver := Some res\<rparr>, gp_health := process_healthSettings (cf_HealthCheck new) [sc_Upstream (cf_Server new)]\<rparr>"
        by (auto simp: gateway_reload_def UpdateRuntime_def)
      from e'(2) None obtain n where n: "normalizeConfig parse (en_defaults e) (Some (ApplyDefaults g)) = Inr n"
        "engine_abs e' = vs_publish (history_limit (en_defaults e) n) n (engine_abs e)" by auto
      have "\<exists>c' \<in> set (gg_Clusters n). gc_ID c' = gc_ID c \<and> gc_Endpoints c' = normalizeEndpoints (gc_Endpoints c)" if "c \<in> set (gg_Clusters g)" for c
        using normalized_endpoints [OF n(1), of "default_cluster c"] that
        by (auto simp: ApplyDefaults_def default_cluster_def normalizeEndpoints_def [symmetric])
      moreover have "gateway_runs A new p'" using p' res by (simp add: gateway_runs_def)
      moreover have "as_gateway (gp_server p') = Some e'" using p' e'(1) by simp
      ultimately show ?thesis using p'(1) n g by auto
    qed
  qed
qed

definition demo_gateway_config :: Config where
  "demo_gateway_config = demo_config\<lparr>cf_Gateway := Some demo_normal, cf_Backends := []\<rparr>"

definition demo_gateway_process :: "unit gatewayProcess" where
  "demo_gateway_process = \<lparr>gp_config = demo_gateway_config, gp_server = demo_server, gp_health = demo_health\<rparr>"

lemma demo_gateway_config_valid:
  "Config_Validate simple_parse demo_netip demo_gateway_config = (None, demo_gateway_config)"
  "cf_Gateway demo_gateway_config = Some demo_normal"
proof -
  have "fst (Config_Validate simple_parse demo_netip demo_gateway_config) = None"
    "snd (Config_Validate simple_parse demo_netip demo_gateway_config) = demo_gateway_config" by code_simp+
  then show "Config_Validate simple_parse demo_netip demo_gateway_config = (None, demo_gateway_config)" by (simp add: prod_eq_iff)
qed (simp add: demo_gateway_config_def)

lemma demo_normal_again:
  "normalizeConfig simple_parse demo_defaults (Some (ApplyDefaults demo_normal)) = Inr demo_normal"
  "gg_Listeners (ApplyDefaults demo_normal) = gg_Listeners demo_normal" "cloneConfig demo_normal = demo_normal"
  by code_simp+

lemma demo_gateway_reload: "\<exists>p'. gateway_reload demo_api (Inr demo_gateway_config) 5 demo_gateway_process = Some (None, p')"
proof -
  note v = validated_sections [OF demo_gateway_config_valid(1)]
  have same: "ValidateReload (gp_config demo_gateway_process) demo_gateway_config = None"
    by (simp add: demo_gateway_process_def ValidateReload_def Let_def first_error.simps)
  have config: "Engine_Config demo_engine = Some demo_normal"
    by (simp add: Engine_Config_def current_snapshot_def demo_fields demo_normal_again(3))
  obtain e where ap: "applyLocked demo_env (Some (ApplyDefaults demo_normal)) 5 demo_engine = (None, e)"
    using demo_apply [OF demo_normal_again(1), of 5] by (cases "applyLocked demo_env (Some (ApplyDefaults demo_normal)) 5 demo_engine") auto
  then have applied: "ApplyGatewayConfig demo_api (cf_Gateway demo_gateway_config) 5 (gp_server demo_gateway_process) = Some (None, put_engine e demo_server)"
    using config demo_normal_again(2)
    by (simp add: ApplyGatewayConfig_def demo_gateway_config_valid(2) demo_gateway_process_def demo_server_def demo_api_def Apply_def put_engine_def Let_def)
  have lim: "Reconfigure (as_limiter (put_engine e demo_server)) (limiterSettings (cf_RateLimit demo_gateway_config)) =
      (None, (as_limiter demo_server)\<lparr>tb_settings := limiterSettings (cf_RateLimit demo_gateway_config)\<rparr>)"
    using limiter_settings_valid [OF v(1)] by (simp add: Reconfigure_def Let_def)
  from trusted_proxies_valid [OF v(1)] obtain res where res: "newClientIPResolver demo_netip (sc_TrustedProxies (cf_Server demo_gateway_config)) = Inr res" ..
  have "ap_netip demo_api = demo_netip" by (simp add: demo_api_def)
  with same applied lim res show ?thesis by (simp add: gateway_reload_def demo_gateway_config_valid(2) UpdateRuntime_def)
qed

theorem gateway_reload_all_or_nothing_witness:
  "\<exists>p'. gateway_reload demo_api (Inr demo_gateway_config) 5 demo_gateway_process = Some (None, p') \<and> gateway_runs demo_api demo_gateway_config p'"
proof -
  obtain p' where p': "gateway_reload demo_api (Inr demo_gateway_config) 5 demo_gateway_process = Some (None, p')"
    using demo_gateway_reload by blast
  have valid: "Config_Validate simple_parse (ap_netip demo_api) demo_gateway_config = (None, demo_gateway_config)"
    using demo_gateway_config_valid(1) by (simp add: demo_api_def)
  have env: "ev_parse (ap_env demo_api) = simple_parse" "as_gateway (gp_server demo_gateway_process) = Some demo_engine"
    by (simp_all add: demo_api_def demo_env_def demo_gateway_process_def demo_server_def)
  have "gateway_runs demo_api demo_gateway_config p'" using gateway_reload_all_or_nothing [OF valid env demo_reachable p'] by auto
  with p' show ?thesis by blast
qed

end
