(* ===== verification/Startup.thy ===== *)
theory Startup
  imports Dashboard
begin

text \<open>
  The start and the end of the process (\<open>cmd/balancer/main.go\<close>, \<open>gateway.go\<close>, \<open>wiring.go\<close> and \<open>commands.go\<close>): the
  stages of \<open>run\<close> and \<open>runGateway\<close> in their order, each of which may fail, with what they open and, by their deferred
  calls, close again. The environment, the files, the exporter of traces, the database and how serving ends are
  arguments.
\<close>

section \<open>The environment of the process\<close>

text \<open>How serving ends: by a signal, by a server that returns an error, or by one that returns without one.\<close>

datatype ending = Signalled | ServerError go_string | ServerReturned

record processEnv =
  pe_parse :: url_parser
  pe_netip :: netip_text
  pe_LookupEnv :: "go_string \<Rightarrow> go_string option"
  pe_ReadFile :: "go_string \<Rightarrow> go_string + go_string"
  pe_files :: tls_files
  pe_connect :: "DatabaseConfig \<Rightarrow> go_string \<Rightarrow> go_string option"
  pe_tracing :: "TelemetryConfig \<Rightarrow> go_string option"
  pe_gateway :: env
  pe_now :: instant
  pe_world :: world
  pe_ending :: ending
  pe_shutdown :: "go_string option"
  pe_closeStore :: "go_string option"

abbreviation process_secret :: "processEnv \<Rightarrow> go_string \<Rightarrow> go_string + go_string" where
  "process_secret P \<equiv> SecretFromEnv (pe_LookupEnv P) (pe_ReadFile P)"

definition process_Getenv :: "processEnv \<Rightarrow> go_string \<Rightarrow> go_string" where
  "process_Getenv P name = (case pe_LookupEnv P name of None \<Rightarrow> [] | Some v \<Rightarrow> v)"

section \<open>The store of the limiter\<close>

datatype chosen_store =
    LocalChosen int int
  | RedisChosen "tlsClient option" go_string RedisConfig duration
  | PostgresChosen go_string DatabaseConfig

text \<open>Opening Redis makes no connection; PostgreSQL is reached and migrated at once.\<close>

definition newRateLimitStore :: "processEnv \<Rightarrow> Config \<Rightarrow> go_string + chosen_store" where
  "newRateLimitStore P cfg =
     (let storage = rl_Storage (cf_RateLimit cfg) in
      if storage = ''local'' then Inr (LocalChosen (rl_LocalShards (cf_RateLimit cfg)) (rl_LocalMaxBuckets (cf_RateLimit cfg)))
      else if storage = ''redis''
      then (case identity_Client (pe_files P) (rd_TLS (cf_Redis cfg)) of
              Inl err \<Rightarrow> Inl err
            | Inr tlsConfig \<Rightarrow>
                (case process_secret P (rd_PasswordEnv (cf_Redis cfg)) of
                   Inl err \<Rightarrow> Inl err
                 | Inr password \<Rightarrow> Inr (RedisChosen tlsConfig password (cf_Redis cfg) (rl_Retention (cf_RateLimit cfg)))))
      else if storage = ''postgres''
      then (case process_secret P (db_PasswordEnv (cf_Database cfg)) of
              Inl err \<Rightarrow> Inl err
            | Inr password \<Rightarrow>
                (case pe_connect P (cf_Database cfg) password of
                   Some err \<Rightarrow> Inl err
                 | None \<Rightarrow> Inr (PostgresChosen password (cf_Database cfg))))
      else Inl (''unknown rate limit storage '' @ storage))"

section \<open>Stages\<close>

datatype process_resource = Workers | Tracing | GatewayEngine | RateStore | SignalHandler

datatype process_event = Open process_resource | Shut process_resource | Serving

text \<open>A resource that is closed by a deferred call, whatever the rest of the function does.\<close>

definition deferred :: "process_resource \<Rightarrow> go_string option \<times> process_event list \<Rightarrow> go_string option \<times> process_event list" where
  "deferred r body = (fst body, Open r # snd body @ [Shut r])"

definition fails :: "go_string \<Rightarrow> go_string option \<times> process_event list" where
  "fails err = (Some err, [])"

text \<open>The loop that waits for a signal or a server, without its reloads, and \<open>shutdown\<close>.\<close>

definition shutdown :: "processEnv \<Rightarrow> go_string option" where
  "shutdown P = map_option (\<lambda>err. ''shutdown server: '' @ err) (pe_shutdown P)"

definition serve :: "go_string \<Rightarrow> processEnv \<Rightarrow> go_string option \<times> process_event list" where
  "serve prefix P = deferred SignalHandler
     (case pe_ending P of ServerError err \<Rightarrow> Some (prefix @ err) | Signalled \<Rightarrow> shutdown P | ServerReturned \<Rightarrow> shutdown P, [Serving])"

section \<open>A static pool\<close>

definition migrate_only :: "processEnv \<Rightarrow> Config \<Rightarrow> go_string option \<times> process_event list" where
  "migrate_only P cfg =
     (if rl_Storage (cf_RateLimit cfg) \<noteq> ''postgres'' then fails ''MIGRATE_ONLY requires rate_limit.storage=postgres''
      else case newRateLimitStore P cfg of
             Inl err \<Rightarrow> fails (''apply PostgreSQL migrations: '' @ err)
           | Inr store \<Rightarrow>
               deferred RateStore (map_option (\<lambda>err. ''close PostgreSQL after migrations: '' @ err) (pe_closeStore P), []))"

text \<open>The token of the management API; an unreadable secret is an empty token where none is needed.\<close>

definition managementToken :: "processEnv \<Rightarrow> Config \<Rightarrow> go_string + go_string" where
  "managementToken P cfg =
     (case process_secret P (mc_AuthTokenEnv (cf_Management cfg)) of
        Inl err \<Rightarrow> if mc_Enabled (cf_Management cfg) \<and> \<not> mc_AllowInsecure (cf_Management cfg) then Inl err else Inr []
      | Inr token \<Rightarrow> Inr token)"

definition run_pool :: "processEnv \<Rightarrow> Config \<Rightarrow> go_string option \<times> process_event list" where
  "run_pool P cfg =
     (case NewBackendPool (pe_parse P) (backendSpecs (cf_Backends cfg))
             (Some (passivePolicy (cf_HealthCheck cfg) [sc_Upstream (cf_Server cfg)])) (pe_now P) (pe_world P) of
        Inl err \<Rightarrow> fails (''create backend pool: '' @ err)
      | Inr (pool, w) \<Rightarrow>
          (case newRateLimitStore P cfg of
             Inl err \<Rightarrow> fails (''initialize rate limit storage: '' @ err)
           | Inr store \<Rightarrow> deferred RateStore
               (case NewTokenBucketLimiter (limiterSettings (cf_RateLimit cfg)) (Some store)
                       (Some (NewBoundedLocalStore (rl_LocalShards (cf_RateLimit cfg)) (rl_LocalMaxBuckets (cf_RateLimit cfg)))) of
                  Inl err \<Rightarrow> fails err
                | Inr limiter \<Rightarrow>
                    (case NewHealthChecker pool (process_healthSettings (cf_HealthCheck cfg) [sc_Upstream (cf_Server cfg)]) w of
                       Inl err \<Rightarrow> fails err
                     | Inr (checker, w) \<Rightarrow>
                         (case managementToken P cfg of
                            Inl err \<Rightarrow> fails err
                          | Inr token \<Rightarrow>
                              (case NewServer (pe_netip P) (serverOptions cfg token) of
                                 Inl err \<Rightarrow> fails (''create server: '' @ err)
                               | Inr _ \<Rightarrow> serve ''HTTP server: '' P))))))"

section \<open>A gateway\<close>

text \<open>The credentials, with the admin token where one is named, and whether all their tokens can be read.\<close>

definition gateway_credentials :: "processEnv \<Rightarrow> Config \<Rightarrow> go_string + Credential list" where
  "gateway_credentials P cfg =
     (let m = cf_Management cfg; credentials = CredentialsFromConfig (process_secret P) (mc_Credentials m); name = mc_AuthTokenEnv m
      in if name = [] then Inr credentials
         else case process_secret P name of
                Inl err \<Rightarrow> if mc_Enabled m \<and> \<not> mc_AllowInsecure m then Inl err
                  else Inr (credentials @ [\<lparr>cr_Name = ''admin'', cr_Role = ''admin'', cr_Token = Some (Inl err), cr_CertificateSubject = []\<rparr>])
              | Inr token \<Rightarrow>
                  Inr (credentials @ [\<lparr>cr_Name = ''admin'', cr_Role = ''admin'', cr_Token = Some (Inr token), cr_CertificateSubject = []\<rparr>]))"

fun unreadable_credential :: "Credential list \<Rightarrow> go_string option" where
  "unreadable_credential [] = None"
| "unreadable_credential (c # cs) =
     (case cr_Token c of Some (Inl err) \<Rightarrow> Some (''credential '' @ cr_Name c @ '': '' @ err) | _ \<Rightarrow> unreadable_credential cs)"

definition gateway_options :: "processEnv \<Rightarrow> Config \<Rightarrow> go_string + Options" where
  "gateway_options P cfg =
     (case gateway_credentials P cfg of
        Inl err \<Rightarrow> Inl err
      | Inr credentials \<Rightarrow>
          (case unreadable_credential credentials of
             Some err \<Rightarrow> Inl err
           | None \<Rightarrow>
               (let m = cf_Management cfg;
                    options = (serverOptions cfg [])\<lparr>op_Credentials := credentials, op_ManagementTLS := mc_TLS m,
                      op_MetricsAddress := mc_MetricsAddress m\<rparr>
                in if mc_MetricsAuthTokenEnv m = [] then Inr options
                   else case process_secret P (mc_MetricsAuthTokenEnv m) of
                          Inl err \<Rightarrow> Inl err
                        | Inr _ \<Rightarrow> Inr (options\<lparr>op_MetricsToken := True\<rparr>))))"

definition runGateway :: "processEnv \<Rightarrow> Config \<Rightarrow> go_string option \<times> process_event list" where
  "runGateway P cfg = deferred Workers
     (case pe_tracing P (cf_Telemetry cfg) of
        Some err \<Rightarrow> fails err
      | None \<Rightarrow> deferred Tracing
          (case New (pe_gateway P) (cf_Gateway cfg) (gatewayDefaults cfg) (pe_now P) (pe_world P) of
             Inl err \<Rightarrow> fails (''initialize gateway: '' @ err)
           | Inr engine \<Rightarrow> deferred GatewayEngine
               (case newRateLimitStore P cfg of
                  Inl err \<Rightarrow> fails err
                | Inr store \<Rightarrow> deferred RateStore
                    (case NewTokenBucketLimiter (limiterSettings (cf_RateLimit cfg)) (Some store)
                            (Some (NewBoundedLocalStore (rl_LocalShards (cf_RateLimit cfg)) (rl_LocalMaxBuckets (cf_RateLimit cfg)))) of
                       Inl err \<Rightarrow> fails err
                     | Inr limiter \<Rightarrow>
                         (case gateway_options P cfg of
                            Inl err \<Rightarrow> fails err
                          | Inr options \<Rightarrow>
                              (case NewServer (pe_netip P) options of
                                 Inl err \<Rightarrow> fails err
                               | Inr _ \<Rightarrow>
                                   (case new_servers (pe_files P) options (map_option gg_Listeners (Engine_Config engine)) of
                                      Inl err \<Rightarrow> fails err
                                    | Inr _ \<Rightarrow> serve [] P)))))))"

section \<open>The process\<close>

definition run :: "processEnv \<Rightarrow> go_string + Config \<Rightarrow> go_string option \<times> process_event list" where
  "run P loaded =
     (case loaded of
        Inl err \<Rightarrow> fails (''load config: '' @ err)
      | Inr cfg \<Rightarrow>
          if cf_Gateway cfg \<noteq> None \<and> process_Getenv P ''MIGRATE_ONLY'' \<noteq> ''true'' then runGateway P cfg
          else deferred Workers
            (if process_Getenv P ''MIGRATE_ONLY'' = ''true'' then migrate_only P cfg else run_pool P cfg))"

section \<open>Commands\<close>

datatype command_action =
    NoCommand
  | PrintVersion
  | Refuse go_string
  | RunServer go_string
  | PrintValid
  | PrintConfig Config
  | RunController Config

text \<open>\<open>command\<close>: \<open>parse\<close> is the parser of the flags, with the path of the configuration and the arguments left, \<open>loadFile\<close>
  reads and loads a file.\<close>

definition command ::
    "(go_string list \<Rightarrow> go_string + go_string \<times> go_string list) \<Rightarrow> (go_string \<Rightarrow> go_string + Config) \<Rightarrow> go_string list \<Rightarrow> command_action" where
  "command parse loadFile args =
     (case args of
        [] \<Rightarrow> NoCommand
      | name # flags \<Rightarrow>
          if name = ''version'' then PrintVersion
          else case parse flags of
                 Inl err \<Rightarrow> Refuse err
               | Inr (path, left) \<Rightarrow>
                   if left \<noteq> [] then Refuse ''unexpected arguments''
                   else if name \<notin> {''serve'', ''validate'', ''print-effective-config'', ''discover''}
                   then Refuse ''usage: balancer [serve|validate|print-effective-config|discover] -config <file>, or balancer version''
                   else if path = [] then Refuse ''provide -config or CONFIG_PATH''
                   else case loadFile path of
                          Inl err \<Rightarrow> Refuse err
                        | Inr cfg \<Rightarrow>
                            if name = ''serve'' then RunServer path
                            else if name = ''validate'' then PrintValid
                            else if name = ''print-effective-config'' then PrintConfig cfg
                            else RunController cfg)"

section \<open>Everything opened is closed\<close>

text \<open>A trace unwinds when every resource is closed once, the last opened first, and none is left.\<close>

fun unwinds :: "process_resource list \<Rightarrow> process_event list \<Rightarrow> bool" where
  "unwinds held [] = (held = [])"
| "unwinds held (Open r # tr) = unwinds (r # held) tr"
| "unwinds [] (Shut r # tr) = False"
| "unwinds (h # held) (Shut r # tr) = (h = r \<and> unwinds held tr)"
| "unwinds held (Serving # tr) = unwinds held tr"

definition neutral :: "process_event list \<Rightarrow> bool" where
  "neutral tr \<longleftrightarrow> (\<forall>held rest. unwinds held (tr @ rest) = unwinds held rest)"

lemma neutral_deferred [intro]: "neutral (snd body) \<Longrightarrow> neutral (snd (deferred r body))"
  by (simp add: neutral_def deferred_def)

lemma neutral_fails [simp]: "neutral (snd (fails err))"
  by (simp add: neutral_def fails_def)

lemma neutral_serve: "neutral (snd (serve prefix P))"
  unfolding serve_def by (intro neutral_deferred) (simp add: neutral_def)

lemma neutral_run: "neutral (snd (run P loaded))"
proof -
  have "neutral (snd (runGateway P cfg))" for cfg
    by (auto simp: runGateway_def neutral_serve split: option.split sum.split intro!: neutral_deferred)
  moreover have "neutral (snd (run_pool P cfg))" for cfg
    by (auto simp: run_pool_def neutral_serve split: sum.split intro!: neutral_deferred)
  moreover have "neutral (snd (migrate_only P cfg))" for cfg
    unfolding migrate_only_def by (auto split: sum.split intro!: neutral_deferred) (simp add: neutral_def)
  ultimately show ?thesis by (auto simp: run_def split: sum.split intro!: neutral_deferred)
qed

lemma serving_events [simp]:
  "Serving \<in> set (snd (deferred r body)) \<longleftrightarrow> Serving \<in> set (snd body)"
  "Serving \<notin> set (snd (fails err))" "Serving \<in> set (snd (serve prefix P))"
  by (simp_all add: deferred_def fails_def serve_def)

lemma deferred_error [simp]: "fst (deferred r body) = fst body" "fst (fails err) = Some err"
  by (simp_all add: deferred_def fails_def)

text \<open>When the server of a static pool is made, by its token.\<close>

lemma server_needs_token:
  assumes "NewServer N (serverOptions cfg token) = Inr s"
  shows "mc_Enabled (cf_Management cfg) \<longrightarrow> token \<noteq> [] \<or> mc_AllowInsecure (cf_Management cfg)"
  using assms by (auto simp: NewServer_def option_checks_def serverOptions_def Let_def split: option.splits if_splits)


text \<open>The examples: a process with the example configuration, and one whose database cannot be reached.\<close>

definition demo_process_env :: processEnv where
  "demo_process_env = \<lparr>pe_parse = simple_parse, pe_netip = demo_netip, pe_LookupEnv = (\<lambda>n. None), pe_ReadFile = (\<lambda>p. Inl ''no file''),
     pe_files = demo_files, pe_connect = (\<lambda>d p. Some ''connection refused''), pe_tracing = (\<lambda>t. None), pe_gateway = demo_env, pe_now = 0,
     pe_world = empty_world, pe_ending = Signalled, pe_shutdown = None, pe_closeStore = None\<rparr>"


section \<open>The start of a gateway\<close>

lemma unreadable_credential_None:
  "unreadable_credential cs = None \<longleftrightarrow> (\<forall>c \<in> set cs. \<forall>err. cr_Token c \<noteq> Some (Inl err))"
  by (induction cs) (auto split: option.splits sum.splits)

text \<open>A gateway that serves has read every secret it names, whether the management API is on or not.\<close>

theorem gateway_serves_secrets:
  assumes "Serving \<in> set (snd (runGateway P cfg))"
  shows "mc_AuthTokenEnv (cf_Management cfg) \<noteq> [] \<longrightarrow> (\<exists>token. process_secret P (mc_AuthTokenEnv (cf_Management cfg)) = Inr token)"
    and "\<forall>c \<in> set (mc_Credentials (cf_Management cfg)). cc_TokenEnv c \<noteq> [] \<longrightarrow> (\<exists>token. process_secret P (cc_TokenEnv c) = Inr token)"
    and "mc_MetricsAuthTokenEnv (cf_Management cfg) \<noteq> [] \<longrightarrow> (\<exists>token. process_secret P (mc_MetricsAuthTokenEnv (cf_Management cfg)) = Inr token)"
proof -
  from assms obtain options where o: "gateway_options P cfg = Inr options"
    by (auto simp: runGateway_def split: option.splits sum.splits)
  then obtain credentials where c: "gateway_credentials P cfg = Inr credentials" and r: "unreadable_credential credentials = None"
    by (auto simp: gateway_options_def split: sum.splits option.splits)
  note readable = r [unfolded unreadable_credential_None]
  show "mc_AuthTokenEnv (cf_Management cfg) \<noteq> [] \<longrightarrow> (\<exists>token. process_secret P (mc_AuthTokenEnv (cf_Management cfg)) = Inr token)"
    using c readable by (auto simp: gateway_credentials_def Let_def split: sum.splits if_splits)
  have sub: "set (CredentialsFromConfig (process_secret P) (mc_Credentials (cf_Management cfg))) \<subseteq> set credentials"
    using c by (auto simp: gateway_credentials_def Let_def split: sum.splits if_splits)
  show "\<forall>c \<in> set (mc_Credentials (cf_Management cfg)). cc_TokenEnv c \<noteq> [] \<longrightarrow> (\<exists>token. process_secret P (cc_TokenEnv c) = Inr token)"
  proof (intro ballI impI)
    fix k
    assume k: "k \<in> set (mc_Credentials (cf_Management cfg))" and e: "cc_TokenEnv k \<noteq> []"
    have "\<exists>d \<in> set credentials. cr_Token d = Some (process_secret P (cc_TokenEnv k))"
      using sub k e by (force simp: CredentialsFromConfig_def)
    with readable show "\<exists>token. process_secret P (cc_TokenEnv k) = Inr token"
      by (metis sum.exhaust)
  qed
  show "mc_MetricsAuthTokenEnv (cf_Management cfg) \<noteq> [] \<longrightarrow> (\<exists>token. process_secret P (mc_MetricsAuthTokenEnv (cf_Management cfg)) = Inr token)"
    using o c r by (auto simp: gateway_options_def Let_def split: sum.splits if_splits)
qed

text \<open>The condition that tolerates a missing admin token, for a management API that is off or insecure, is undone by
  the check of all credentials that follows: the gateway does not start, where a static pool with the same
  management settings takes an empty token.\<close>

theorem missing_token_not_tolerated:
  assumes "mc_AuthTokenEnv (cf_Management cfg) \<noteq> []" and "process_secret P (mc_AuthTokenEnv (cf_Management cfg)) = Inl err"
    and "\<not> mc_Enabled (cf_Management cfg) \<or> mc_AllowInsecure (cf_Management cfg)"
  shows "(\<exists>cs. gateway_credentials P cfg = Inr cs) \<and> Serving \<notin> set (snd (runGateway P cfg)) \<and> managementToken P cfg = Inr []"
  using assms gateway_serves_secrets(1) [of P cfg] by (auto simp: gateway_credentials_def managementToken_def Let_def)

section \<open>What a command does\<close>

text \<open>Only \<open>serve\<close> and \<open>discover\<close> run something, and no command acts on a configuration that does not load.\<close>

theorem command_loads_first:
  assumes "command parse loadFile args = a" and "a \<notin> {NoCommand, PrintVersion} \<union> range Refuse"
  shows "\<exists>path cfg. path \<noteq> [] \<and> loadFile path = Inr cfg \<and> a \<in> {RunServer path, PrintValid, PrintConfig cfg, RunController cfg}"
  using assms by (auto simp: command_def split: list.splits if_splits sum.splits)

end
