(* ===== verification/Spec2Isabelle.thy ===== *)
theory Spec2Isabelle
  imports Snapshot_Refs Remote_Store Controller Startup
begin

text \<open>
  Verification of the load balancer (a gateway written in Go, under \<open>src/\<close>).

  \<^bold>\<open>The program.\<close> A process holds one gateway engine (\<open>src/internal/gateway\<close>). The engine publishes a
  \<^emph>\<open>snapshot\<close>, built from a configuration: a sorted route table and one cluster per configured
  backend group. A request takes a reference on the current snapshot, selects a route, passes the
  route limiter, is rewritten and handed to the load balancer of its cluster
  (\<open>src/internal/balancer\<close>), which picks a backend by a strategy, takes a slot on it, sends the
  request and retries within a budget. Health checks and the outcome of requests change the state
  of a backend. The state of a backend outlives a snapshot: leases in a registry share it between
  the snapshot that goes and the one that comes. In front of the gateway stands the rate limiter of
  clients (\<open>src/internal/ratelimit\<close>).

  \<^bold>\<open>Theories, in the order of their dependencies.\<close>

  \<^item> \<open>Prelude\<close>, \<open>Go_Text\<close>, \<open>Go_Url\<close>, \<open>Netip\<close>: the parts of Go's library the sources use: durations,
    truncated division, slices, strings, header maps, FNV-1a, URLs, addresses and prefixes.
  \<^item> \<open>Rate_Types\<close>, \<open>Token_Bucket\<close>, \<open>Local_Store\<close>, \<open>Limiter\<close>: \<open>ratelimit/local.go\<close> (buckets, shards and
    the ring of eviction slots) and \<open>ratelimit/limiter.go\<close>. The locales \<open>bucket_policy\<close> and the store
    interface are interpreted on the code's buckets and on the local store. Shown: the size bound, that
    no index leaves its range, the admission bound of a key, what each failure mode does when the
    store fails.
  \<^item> \<open>Backend\<close>, \<open>Backend_Facts\<close>, \<open>Backend_Registry\<close>: \<open>balancer/backend.go\<close> and \<open>backend_state.go\<close>. The
    heap of states and pools is the record \<open>world\<close>; an address stands for a pointer. The invariant says
    that states are consistent, that cached lists are either dirty or exact, and that each ejection is
    scheduled for recovery; rule induction over every interleaving of operations gives the bound on
    requests in flight. Registry: exact reference counts.
  \<^item> \<open>Retry_Budget\<close>, \<open>Strategy\<close>: \<open>retry_budget.go\<close> and \<open>strategies.go\<close>: what each strategy picks, that it
    picks a live backend whenever there is one, shares of weighted round robin over a cycle of the
    64-bit counter, minimality of least-request, stability of rendezvous hashing.
  \<^item> \<open>Proxy\<close>, \<open>Proxy_Facts\<close>, \<open>Health\<close>: \<open>retry.go\<close>, \<open>balancer.go\<close>, \<open>request_options.go\<close>, \<open>healthcheck.go\<close>. The
    retry loop ends, conserves slots and attempts distinct backends; forged forwarding headers are
    removed; warm-up verdicts.
  \<^item> \<open>Gateway_Types\<close>, \<open>Gateway_Config\<close>, \<open>Gateway_Normalize\<close>: \<open>config/gateway.go\<close> and \<open>gateway/config.go\<close>:
    defaults, validation, merging; normalisation is idempotent.
  \<^item> \<open>Route_Limiter\<close>, \<open>Routing\<close>, \<open>Routing_Facts\<close>: \<open>gateway/limiter.go\<close> and \<open>gateway/routing.go\<close>: the sorted
    table selects the best route; rewriting of paths; header policies.
  \<^item> \<open>Runtime\<close>, \<open>Runtime_Facts\<close>, \<open>Build_Frame\<close>: \<open>gateway/runtime.go\<close>: building clusters and snapshots, with
    every failure path; building writes only to addresses it allocates.
  \<^item> \<open>Engine\<close>, \<open>Gateway_Status\<close>, \<open>Engine_Inv\<close>, \<open>Engine_Facts\<close>, \<open>Engine_Theorems\<close>: \<open>gateway/engine.go\<close> and
    \<open>types.go\<close>. \<open>engine_reachable\<close> is the set of states of an engine under any sequence of calls;
    its invariant covers revisions, history, snapshots and leases. The engine refines a bounded log
    of configurations; failed changes are atomic; leases are exact; of writers with the same expected
    revision one wins.
  \<^item> \<open>Snapshot_Refs\<close>: the atomic operations of \<open>acquire\<close>, \<open>release\<close> and \<open>retire\<close> interleaved step by step.

  \<^bold>\<open>Conventions.\<close> \<open>int\<close> is \<open>int\<close> where the values are bounded by validation; the counters that wrap
  (\<open>uint64\<close> revisions, request counters, hashes) are \<open>64 word\<close>. \<open>float64\<close> is the exact \<open>rat\<close>. Each
  operation reads the clock once, as an argument. An operation under a mutex is one step. A Go map that
  is iterated is an association list, whose order stands for the order of that iteration. A panic is
  \<open>None\<close>; errors are values of sums.

  \<^bold>\<open>Fuel.\<close> \<open>nextAvailableBackend\<close> is an unbounded loop in the source. Its model takes fuel; \<open>pool_fuel\<close>, one
  turn more than the pool has backends, is enough (\<open>selection_terminates\<close>), since each turn that
  continues excludes one more backend. No other definition needs fuel.

  \<^bold>\<open>Parameters.\<close> Code outside the repository is an argument of the definitions: \<open>url.Parse\<close>,
  \<open>EscapedPath\<close>, \<open>PathUnescape\<close>, reading and writing addresses (\<open>net/netip\<close>), the base transport with
  its outcomes, the result of each probe, loading of TLS files and the hash of a configuration. The
  record \<open>env\<close> collects those of the gateway.

  \<^bold>\<open>Not modelled.\<close> The Redis and PostgreSQL stores (their logic runs in a Lua script and in SQL; the
  limiter takes any store), the byte streams of \<open>httputil.ReverseProxy\<close>, exporters of metrics and traces,
  certificate files, listeners and signals, which are calls into libraries and the operating system.
  Goroutines of health checks and cleanup appear as the rounds they run.
\<close>

end
